(* ===== verification/Effects.thy ===== *)
theory Effects
  imports Main
begin

text \<open>
  Programs with effects.  An effectful Python function is a function of the state of everything
  outside it (the world) that gives a value or a raised exception, and the next world.
  \<open>bnd\<close> is sequencing, \<open>tryc\<close> is \<open>try\<close>/\<open>except Exception\<close>, \<open>suppress\<close> is
  \<open>contextlib.suppress(Exception)\<close>, \<open>fin\<close> is \<open>try\<close>/\<open>finally\<close> and \<open>for_each\<close> is a \<open>for\<close> loop
  that updates local variables.  \<open>wp\<close> gives the weakest precondition of a program, with a
  postcondition for a normal return and one for a raised exception; the
  rules below let the simplifier run a program symbolically.
\<close>

datatype exn = ConnectionError | ResponseError | RuntimeError | ValueError | TypeError | TimeoutError
  | BadRequest | RetryAfter int | OSError

type_synonym ('w, 'a) io = "'w \<Rightarrow> (exn + 'a) \<times> 'w"

definition ret :: "'a \<Rightarrow> ('w, 'a) io" where
  "ret x w = (Inr x, w)"

definition raise :: "exn \<Rightarrow> ('w, 'a) io" where
  "raise e w = (Inl e, w)"

definition bnd :: "('w, 'a) io \<Rightarrow> ('a \<Rightarrow> ('w, 'b) io) \<Rightarrow> ('w, 'b) io" where
  "bnd m f w = (case m w of (Inl e, w') \<Rightarrow> (Inl e, w') | (Inr x, w') \<Rightarrow> f x w')"

definition tryc :: "('w, 'a) io \<Rightarrow> (exn \<Rightarrow> ('w, 'a) io) \<Rightarrow> ('w, 'a) io" where
  "tryc m h w = (case m w of (Inl e, w') \<Rightarrow> h e w' | (Inr x, w') \<Rightarrow> (Inr x, w'))"

definition suppress :: "('w, 'a) io \<Rightarrow> ('w, unit) io" where
  "suppress m w = (Inr (), snd (m w))"

definition fin :: "('w, 'a) io \<Rightarrow> ('w, unit) io \<Rightarrow> ('w, 'a) io" where
  "fin m c w =
     (case m w of (r, w1) \<Rightarrow> case c w1 of (Inl e, w2) \<Rightarrow> (Inl e, w2) | (Inr _, w2) \<Rightarrow> (r, w2))"

definition whenb :: "bool \<Rightarrow> ('w, 'a) io \<Rightarrow> ('w, unit) io" where
  "whenb b m = (if b then bnd m (\<lambda>_. ret ()) else ret ())"

definition fmapio :: "('a \<Rightarrow> 'b) \<Rightarrow> ('w, 'a) io \<Rightarrow> ('w, 'b) io" where
  "fmapio f m = bnd m (\<lambda>x. ret (f x))"

fun for_each :: "'a list \<Rightarrow> 's \<Rightarrow> ('a \<Rightarrow> 's \<Rightarrow> ('w, 's) io) \<Rightarrow> ('w, 's) io" where
  "for_each [] s f = ret s"
| "for_each (x # xs) s f = bnd (f x s) (\<lambda>s'. for_each xs s' f)"

text \<open>A loop that may return early: \<open>Some r\<close> from the body is \<open>return r\<close>.\<close>

fun first_of :: "'a list \<Rightarrow> ('a \<Rightarrow> ('w, 'r option) io) \<Rightarrow> ('w, 'r option) io" where
  "first_of [] f = ret None"
| "first_of (x # xs) f = bnd (f x) (\<lambda>r. case r of None \<Rightarrow> first_of xs f | Some y \<Rightarrow> ret (Some y))"

section \<open>Weakest preconditions\<close>

definition wp :: "('w, 'a) io \<Rightarrow> ('a \<Rightarrow> 'w \<Rightarrow> bool) \<Rightarrow> (exn \<Rightarrow> 'w \<Rightarrow> bool) \<Rightarrow> 'w \<Rightarrow> bool" where
  "wp m Q E w \<longleftrightarrow> (case m w of (Inl e, w') \<Rightarrow> E e w' | (Inr x, w') \<Rightarrow> Q x w')"

lemma wpD: "wp m Q E w \<Longrightarrow> m w = (Inr x, w') \<Longrightarrow> Q x w'"
  and wpD_exn: "wp m Q E w \<Longrightarrow> m w = (Inl e, w') \<Longrightarrow> E e w'"
  by (simp_all add: wp_def)

lemma wpI:
  "(\<And>x w'. m w = (Inr x, w') \<Longrightarrow> Q x w') \<Longrightarrow> (\<And>e w'. m w = (Inl e, w') \<Longrightarrow> E e w') \<Longrightarrow> wp m Q E w"
  by (simp add: wp_def split: prod.splits sum.splits)

lemma wp_mono:
  "wp m P D w \<Longrightarrow> (\<And>x w'. P x w' \<Longrightarrow> Q x w') \<Longrightarrow> (\<And>e w'. D e w' \<Longrightarrow> E e w') \<Longrightarrow> wp m Q E w"
  by (auto simp: wp_def split: prod.splits sum.splits)

lemma wp_conj: "wp m P D w \<Longrightarrow> wp m Q E w \<Longrightarrow> wp m (\<lambda>x w'. P x w' \<and> Q x w') (\<lambda>e w'. D e w' \<and> E e w') w"
  by (auto simp: wp_def split: prod.splits sum.splits)

text \<open>The computation rules are equations between predicates, so they also rewrite under a binder.\<close>

lemma wp_ret [simp]: "wp (ret x) Q E = Q x"
  by (simp add: wp_def ret_def fun_eq_iff)

lemma wp_raise [simp]: "wp (raise e) Q E = E e"
  by (simp add: wp_def raise_def fun_eq_iff)

lemma wp_bnd [simp]: "wp (bnd m f) Q E = wp m (\<lambda>x. wp (f x) Q E) E"
  by (auto simp: wp_def bnd_def fun_eq_iff split: prod.splits sum.splits)

lemma wp_tryc [simp]: "wp (tryc m h) Q E = wp m Q (\<lambda>e. wp (h e) Q E)"
  by (auto simp: wp_def tryc_def fun_eq_iff split: prod.splits sum.splits)

lemma wp_suppress [simp]: "wp (suppress m) Q E = wp m (\<lambda>_. Q ()) (\<lambda>_. Q ())"
  by (auto simp: wp_def suppress_def fun_eq_iff split: prod.splits sum.splits)

lemma wp_fin [simp]:
  "wp (fin m c) Q E = wp m (\<lambda>x. wp c (\<lambda>_. Q x) E) (\<lambda>e. wp c (\<lambda>_. E e) E)"
  by (auto simp: wp_def fin_def fun_eq_iff split: prod.splits sum.splits)

lemma wp_whenb [simp]:
  "wp (whenb b m) Q E = (if b then wp m (\<lambda>_. Q ()) E else Q ())"
  by (simp add: whenb_def)

lemma wp_fmapio [simp]: "wp (fmapio f m) Q E = wp m (\<lambda>x. Q (f x)) E"
  by (simp add: fmapio_def)

lemma wp_True [simp]: "wp m (\<lambda>_ _. True) (\<lambda>_ _. True) w"
  by (auto simp: wp_def split: prod.splits sum.splits)

text \<open>The loop rules: the invariant may speak of the part of the list already processed.\<close>

lemma wp_for_each_prefix:
  assumes "\<And>x dn rest s w. I dn s w \<Longrightarrow> ys @ xs = dn @ x # rest \<Longrightarrow> wp (f x s) (I (dn @ [x])) E w"
    and "I ys s w"
  shows "wp (for_each xs s f) (I (ys @ xs)) E w"
  using assms
proof (induction xs arbitrary: ys s w)
  case Nil
  then show ?case by simp
next
  case (Cons x xs)
  have "wp (f x s) (I (ys @ [x])) E w" using Cons.prems by blast
  moreover have "wp (for_each xs s' f) (I (ys @ x # xs)) E w'" if I: "I (ys @ [x]) s' w'" for s' w'
  proof -
    have "wp (for_each xs s' f) (I ((ys @ [x]) @ xs)) E w'"
      by (rule Cons.IH) (use Cons.prems I in auto)
    then show ?thesis by simp
  qed
  ultimately show ?case by (auto elim: wp_mono)
qed

lemma wp_for_each:
  assumes "\<And>x s w. x \<in> set xs \<Longrightarrow> I s w \<Longrightarrow> wp (f x s) I E w" and "I s w"
  shows "wp (for_each xs s f) I E w"
  by (rule wp_for_each_prefix [where I = "\<lambda>_. I" and ys = "[]"]) (use assms in auto)

text \<open>A loop that establishes \<open>P x\<close> for every element, each step keeping what was established.\<close>

lemma wp_for_each_all:
  assumes body: "\<And>x s w. x \<in> set xs \<Longrightarrow> I s w \<Longrightarrow>
      wp (f x s) (\<lambda>s' w'. I s' w' \<and> P x w' \<and> (\<forall>y. P y w \<longrightarrow> P y w')) E w"
    and "I s w"
  shows "wp (for_each xs s f) (\<lambda>s' w'. I s' w' \<and> (\<forall>x \<in> set xs. P x w')) E w"
proof -
  have "wp (for_each xs s f) ((\<lambda>dn s w. I s w \<and> (\<forall>x \<in> set dn. P x w)) ([] @ xs)) E w"
  proof (rule wp_for_each_prefix)
    fix x dn rest s w
    assume I: "I s w \<and> (\<forall>x \<in> set dn. P x w)" and "[] @ xs = dn @ x # rest"
    then have x: "x \<in> set xs" by auto
    show "wp (f x s) (\<lambda>s w. I s w \<and> (\<forall>x \<in> set (dn @ [x]). P x w)) E w"
      by (rule wp_mono [OF body [OF x]]) (use I in auto)
  qed (use assms in auto)
  then show ?thesis by simp
qed

section \<open>Invariants of programs\<close>

text \<open>\<open>keeps I m\<close>: started where \<open>I\<close> holds, \<open>m\<close> ends, by returning or raising, where \<open>I\<close> holds.\<close>

definition keeps :: "('w \<Rightarrow> bool) \<Rightarrow> ('w, 'a) io \<Rightarrow> bool" where
  "keeps I m \<longleftrightarrow> (\<forall>w. I w \<longrightarrow> wp m (\<lambda>_. I) (\<lambda>_. I) w)"

lemma keepsI: "(\<And>w. I w \<Longrightarrow> wp m (\<lambda>_. I) (\<lambda>_. I) w) \<Longrightarrow> keeps I m"
  by (simp add: keeps_def)

lemma keepsD: "keeps I m \<Longrightarrow> I w \<Longrightarrow> wp m (\<lambda>_. I) (\<lambda>_. I) w"
  by (simp add: keeps_def)

lemma keeps_wp:
  "keeps I m \<Longrightarrow> I w \<Longrightarrow> (\<And>x w'. I w' \<Longrightarrow> Q x w') \<Longrightarrow> (\<And>e w'. I w' \<Longrightarrow> E e w') \<Longrightarrow> wp m Q E w"
  by (rule wp_mono [OF keepsD])

lemma keeps_final:
  assumes "keeps I m" "I w"
  shows "I (snd (m w))"
proof (cases "m w")
  case (Pair r w')
  then show ?thesis
    using wpD [OF keepsD [OF assms]] wpD_exn [OF keepsD [OF assms]] by (cases r) auto
qed

lemma keeps_ret: "keeps I (ret x)"
  by (simp add: keeps_def)

lemma keeps_raise: "keeps I (raise e)"
  by (simp add: keeps_def)

lemma keeps_bnd:
  assumes "keeps I m" "\<And>x. keeps I (f x)"
  shows "keeps I (bnd m f)"
  by (rule keepsI, unfold wp_bnd, rule keeps_wp [OF assms(1)]) (simp_all add: keepsD assms(2))

lemma keeps_tryc:
  assumes "keeps I m" "\<And>e. keeps I (h e)"
  shows "keeps I (tryc m h)"
  by (rule keepsI, unfold wp_tryc, rule keeps_wp [OF assms(1)]) (simp_all add: keepsD assms(2))

lemma keeps_suppress: "keeps I m \<Longrightarrow> keeps I (suppress m)"
  by (rule keepsI, unfold wp_suppress, rule keeps_wp) simp_all

lemma keeps_fin:
  assumes "keeps I m" "keeps I c"
  shows "keeps I (fin m c)"
  by (rule keepsI, unfold wp_fin, rule keeps_wp [OF assms(1)]) (simp_all add: keepsD assms(2))

lemma keeps_whenb: "(b \<Longrightarrow> keeps I m) \<Longrightarrow> keeps I (whenb b m)"
  by (simp add: keeps_def)

lemma keeps_fmapio: "keeps I m \<Longrightarrow> keeps I (fmapio f m)"
  by (rule keepsI, unfold wp_fmapio, rule keeps_wp) simp_all

lemma keeps_if: "(b \<Longrightarrow> keeps I m) \<Longrightarrow> (\<not> b \<Longrightarrow> keeps I n) \<Longrightarrow> keeps I (if b then m else n)"
  by simp

lemma keeps_option: "(keeps I m) \<Longrightarrow> (\<And>x. v = Some x \<Longrightarrow> keeps I (f x)) \<Longrightarrow> keeps I (case v of None \<Rightarrow> m | Some x \<Rightarrow> f x)"
  by (cases v) auto

lemma keeps_for_each: "(\<And>x s. x \<in> set xs \<Longrightarrow> keeps I (f x s)) \<Longrightarrow> keeps I (for_each xs s f)"
  by (induction xs arbitrary: s) (auto intro: keeps_ret keeps_bnd)

lemma keeps_first_of: "(\<And>x. x \<in> set xs \<Longrightarrow> keeps I (f x)) \<Longrightarrow> keeps I (first_of xs f)"
  by (induction xs) (auto intro!: keeps_ret keeps_bnd keeps_option)

lemmas keeps_intros =
  keeps_ret keeps_raise keeps_bnd keeps_tryc keeps_suppress keeps_fin keeps_whenb keeps_fmapio keeps_if
  keeps_option keeps_for_each keeps_first_of

section \<open>Programs that never raise\<close>

definition safe :: "('w, 'a) io \<Rightarrow> bool" where
  "safe m \<longleftrightarrow> (\<forall>w. wp m (\<lambda>_ _. True) (\<lambda>_ _. False) w)"

lemma safe_result: "safe m \<Longrightarrow> \<exists>x. fst (m w) = Inr x"
  unfolding safe_def wp_def by (auto split: prod.splits sum.splits) (metis fst_conv old.sum.exhaust surj_pair)

lemma safe_ret: "safe (ret x)"
  by (simp add: safe_def)

lemma safe_suppress: "safe (suppress m)"
  by (simp add: safe_def)

lemma safe_bnd:
  assumes "safe m" and f: "\<And>x. safe (f x)"
  shows "safe (bnd m f)"
  unfolding safe_def wp_bnd
proof
  fix w
  have "wp m (\<lambda>_ _. True) (\<lambda>_ _. False) w" using assms(1) by (simp add: safe_def)
  then show "wp m (\<lambda>x. wp (f x) (\<lambda>_ _. True) (\<lambda>_ _. False)) (\<lambda>_ _. False) w"
    by (rule wp_mono) (use f in \<open>auto simp: safe_def\<close>)
qed

lemma safe_tryc: "(\<And>e. safe (h e)) \<Longrightarrow> safe (tryc m h)"
  by (auto simp: safe_def intro: wp_mono [OF wp_True])

lemma safe_tryc_body: "safe m \<Longrightarrow> safe (tryc m h)"
  by (auto simp: safe_def elim: wp_mono)

lemma safe_fin:
  assumes "safe m" and c: "safe c"
  shows "safe (fin m c)"
  unfolding safe_def wp_fin
proof
  fix w
  have "wp m (\<lambda>_ _. True) (\<lambda>_ _. False) w" using assms(1) by (simp add: safe_def)
  then show "wp m (\<lambda>x. wp c (\<lambda>_ _. True) (\<lambda>_ _. False)) (\<lambda>e. wp c (\<lambda>_ _. False) (\<lambda>_ _. False)) w"
    by (rule wp_mono) (use c in \<open>auto simp: safe_def\<close>)
qed

lemma safe_whenb: "(b \<Longrightarrow> safe m) \<Longrightarrow> safe (whenb b m)"
  by (auto simp: safe_def)

lemma safe_fmapio: "safe m \<Longrightarrow> safe (fmapio f m)"
  by (auto simp: safe_def)

lemma safe_if: "(b \<Longrightarrow> safe m) \<Longrightarrow> (\<not> b \<Longrightarrow> safe n) \<Longrightarrow> safe (if b then m else n)"
  by simp

lemma safe_for_each: "(\<And>x s. safe (f x s)) \<Longrightarrow> safe (for_each xs s f)"
  by (induction xs arbitrary: s) (auto intro: safe_bnd safe_ret)

lemmas safe_intros =
  safe_ret safe_suppress safe_bnd safe_tryc safe_fin safe_whenb safe_fmapio safe_if safe_for_each

lemma safe_prod: "(\<And>a b. safe (f a b)) \<Longrightarrow> safe (case p of (a, b) \<Rightarrow> f a b)"
  by (cases p) auto

lemma safe_sum: "(\<And>a. safe (f a)) \<Longrightarrow> (\<And>b. safe (g b)) \<Longrightarrow> safe (case s of Inl a \<Rightarrow> f a | Inr b \<Rightarrow> g b)"
  by (cases s) auto

lemma safe_option: "safe f \<Longrightarrow> (\<And>b. safe (g b)) \<Longrightarrow> safe (case s of None \<Rightarrow> f | Some b \<Rightarrow> g b)"
  by (cases s) auto

lemma safe_first_of: "(\<And>x. safe (f x)) \<Longrightarrow> safe (first_of xs f)"
  by (induction xs) (auto intro: safe_bnd safe_ret safe_option)

lemmas safe_cases = safe_prod safe_sum safe_option safe_first_of

end
