(* ===== verification/Prelude.thy ===== *)
theory Prelude
  imports Main "HOL-Library.AList"
begin

text \<open>
  What every component shares: the development's fact collections, Python's string operations on
  ASCII text (\<open>str.startswith\<close>, \<open>str.split\<close>, \<open>str.partition\<close>, \<open>str.strip\<close>, \<open>str.lower\<close>),
  decimal printing and \<open>int(text)\<close>, and Python's insertion-ordered dictionary as an association
  list.  Strings are lists of characters; text outside ASCII is not modelled.
\<close>

named_theorems key_simps \<open>equations that decide whether two store keys are equal\<close>

section \<open>Strings\<close>

definition starts_with :: "string \<Rightarrow> string \<Rightarrow> bool" where
  "starts_with p s \<longleftrightarrow> take (length p) s = p"

definition ends_with :: "string \<Rightarrow> string \<Rightarrow> bool" where
  "ends_with p s \<longleftrightarrow> starts_with (rev p) (rev s)"

lemma starts_with_append [simp]: "starts_with p (p @ s)"
  by (simp add: starts_with_def)

lemma starts_with_iff: "starts_with p s \<longleftrightarrow> (\<exists>t. s = p @ t)"
  unfolding starts_with_def by (metis append_eq_conv_conj)

lemma starts_with_drop: "starts_with p s \<Longrightarrow> p @ drop (length p) s = s"
  by (auto simp: starts_with_iff)

lemma ends_with_iff: "ends_with p s \<longleftrightarrow> (\<exists>t. s = t @ p)"
  unfolding ends_with_def starts_with_iff
  by (metis rev_append rev_rev_ident)

text \<open>\<open>s.partition(c)\<close>: the text before the first \<open>c\<close>, whether there is one, the text after it.\<close>

fun partition_at :: "char \<Rightarrow> string \<Rightarrow> string \<times> bool \<times> string" where
  "partition_at c [] = ([], False, [])"
| "partition_at c (x # xs) =
     (if x = c then ([], True, xs)
      else case partition_at c xs of (a, found, b) \<Rightarrow> (x # a, found, b))"

text \<open>\<open>s.rpartition(c)\<close>: cut at the last \<open>c\<close>; without one everything is in the last part.\<close>

definition rpartition_at :: "char \<Rightarrow> string \<Rightarrow> string \<times> bool \<times> string" where
  "rpartition_at c s =
     (case partition_at c (rev s) of (a, found, b) \<Rightarrow>
        if found then (rev b, True, rev a) else ([], False, s))"

lemma partition_at_no [simp]: "c \<notin> set s \<Longrightarrow> partition_at c s = (s, False, [])"
  by (induction s) auto

lemma partition_at_append [simp]: "c \<notin> set a \<Longrightarrow> partition_at c (a @ c # b) = (a, True, b)"
  by (induction a) auto

lemma rpartition_at_append [simp]:
  assumes "c \<notin> set b"
  shows "rpartition_at c (a @ c # b) = (a, True, b)"
proof -
  have "rev (a @ c # b) = rev b @ c # rev a" by simp
  moreover have "c \<notin> set (rev b)" using assms by simp
  ultimately show ?thesis by (simp add: rpartition_at_def)
qed

text \<open>\<open>s.split(c)\<close>: never empty, one field more than there are separators.\<close>

fun split_on :: "char \<Rightarrow> string \<Rightarrow> string list" where
  "split_on c [] = [[]]"
| "split_on c (x # xs) =
     (if x = c then [] # split_on c xs
      else case split_on c xs of [] \<Rightarrow> [[x]] | f # fs \<Rightarrow> (x # f) # fs)"

lemma split_on_not_Nil [simp]: "split_on c s \<noteq> []"
  by (induction s) (auto split: list.splits)

lemma split_on_no_sep [simp]: "c \<notin> set s \<Longrightarrow> split_on c s = [s]"
  by (induction s) auto

lemma split_on_append [simp]:
  "c \<notin> set a \<Longrightarrow> split_on c (a @ c # b) = a # split_on c b"
  by (induction a) (auto split: list.splits)

lemma split_on_hd: "hd (split_on c s) = fst (partition_at c s)"
proof (induction s)
  case Nil
  then show ?case by simp
next
  case (Cons x xs)
  then show ?case
    using split_on_not_Nil [of c xs] by (auto split: list.splits prod.splits)
qed

definition is_space :: "char \<Rightarrow> bool" where
  "is_space c \<longleftrightarrow> c \<in> {CHR '' '', CHR 0x09, CHR 0x0A, CHR 0x0B, CHR 0x0C, CHR 0x0D,
                        CHR 0x1C, CHR 0x1D, CHR 0x1E, CHR 0x1F}"

definition strip :: "string \<Rightarrow> string" where
  "strip s = rev (dropWhile is_space (rev (dropWhile is_space s)))"

definition lower_char :: "char \<Rightarrow> char" where
  "lower_char c =
     (if 65 \<le> (of_char c :: nat) \<and> (of_char c :: nat) \<le> 90 then char_of (of_char c + (32 :: nat)) else c)"

definition lower :: "string \<Rightarrow> string" where
  "lower s = map lower_char s"

lemma strip_no_space: "(\<forall>c \<in> set s. \<not> is_space c) \<Longrightarrow> strip s = s"
proof -
  assume h: "\<forall>c \<in> set s. \<not> is_space c"
  then have "dropWhile is_space s = s" by (cases s) auto
  moreover have "dropWhile is_space (rev s) = rev s"
    using h by (cases "rev s") (auto simp: Cons_eq_rev_iff)
  ultimately show ?thesis by (simp add: strip_def)
qed

section \<open>Decimal numbers\<close>

definition digit_val :: "char \<Rightarrow> nat option" where
  "digit_val c = map_of (zip ''0123456789'' [0, 1, 2, 3, 4, 5, 6, 7, 8, 9]) c"

definition digit_char :: "nat \<Rightarrow> char" where
  "digit_char d = ''0123456789'' ! d"

definition is_digit :: "char \<Rightarrow> bool" where
  "is_digit c \<longleftrightarrow> digit_val c \<noteq> None"

lemma less_10_cases:
  "(n::nat) < 10 \<Longrightarrow>
    n = 0 \<or> n = 1 \<or> n = 2 \<or> n = 3 \<or> n = 4 \<or> n = 5 \<or> n = 6 \<or> n = 7 \<or> n = 8 \<or> n = 9"
  by arith

lemma digit_val_char [simp]: "d < 10 \<Longrightarrow> digit_val (digit_char d) = Some d"
  by (drule less_10_cases) (auto simp: digit_val_def digit_char_def)

lemma is_digit_char [simp]: "d < 10 \<Longrightarrow> is_digit (digit_char d)"
  by (simp add: is_digit_def)

lemma is_digit_set: "is_digit c \<longleftrightarrow> c \<in> set ''0123456789''"
proof -
  have "dom (map_of (zip ''0123456789'' [0::nat, 1, 2, 3, 4, 5, 6, 7, 8, 9])) = set ''0123456789''"
    by (rule dom_map_of_zip) simp
  then show ?thesis by (auto simp: is_digit_def digit_val_def dom_def)
qed

lemma digit_not_space: "is_digit c \<Longrightarrow> \<not> is_space c"
  unfolding is_digit_set is_space_def by (simp, elim disjE; simp)

lemma digit_not_sep:
  "is_digit c \<Longrightarrow> c \<noteq> CHR '':'' \<and> c \<noteq> CHR ''-'' \<and> c \<noteq> CHR ''+'' \<and> c \<noteq> CHR ''_'' \<and> c \<noteq> CHR ''.'' \<and> c \<noteq> CHR ''|''"
  unfolding is_digit_set by (simp, elim disjE; simp)

lemmas digit_facts = digit_not_space digit_not_sep

fun nat_str :: "nat \<Rightarrow> string" where
  "nat_str n = (if n < 10 then [digit_char n] else nat_str (n div 10) @ [digit_char (n mod 10)])"

declare nat_str.simps [simp del]

definition int_str :: "int \<Rightarrow> string" where
  "int_str i = (if i < 0 then CHR ''-'' # nat_str (nat (- i)) else nat_str (nat i))"

lemma nat_str_digits: "\<forall>c \<in> set (nat_str n). is_digit c"
proof (induction n rule: nat_str.induct)
  case (1 n)
  show ?case
  proof (cases "n < 10")
    case True
    then show ?thesis by (subst nat_str.simps) simp
  next
    case False
    with 1 have "\<forall>c \<in> set (nat_str (n div 10)). is_digit c" by simp
    with False show ?thesis by (subst nat_str.simps) auto
  qed
qed

lemma nat_str_not_Nil [simp]: "nat_str n \<noteq> []"
  by (subst nat_str.simps) simp

lemma nat_str_notin [simp]:
  "CHR '':'' \<notin> set (nat_str n)" "CHR ''-'' \<notin> set (nat_str n)" "CHR ''_'' \<notin> set (nat_str n)"
  "CHR ''.'' \<notin> set (nat_str n)" "CHR ''|'' \<notin> set (nat_str n)"
  using nat_str_digits [of n] digit_not_sep by blast+

fun read_digits :: "nat \<Rightarrow> string \<Rightarrow> nat option" where
  "read_digits acc [] = Some acc"
| "read_digits acc (c # cs) =
     (case digit_val c of None \<Rightarrow> None | Some d \<Rightarrow> read_digits (10 * acc + d) cs)"

lemma read_digits_append:
  "read_digits acc (s @ t) = (case read_digits acc s of None \<Rightarrow> None | Some b \<Rightarrow> read_digits b t)"
  by (induction s arbitrary: acc) (auto split: option.splits)

lemma read_digits_nat_str [simp]: "read_digits 0 (nat_str n) = Some n"
proof (induction n rule: nat_str.induct)
  case (1 n)
  show ?case
  proof (cases "n < 10")
    case True
    then show ?thesis by (subst nat_str.simps) simp
  next
    case False
    with 1 have "read_digits 0 (nat_str (n div 10)) = Some (n div 10)" by simp
    with False show ?thesis by (subst nat_str.simps) (simp add: read_digits_append)
  qed
qed

lemma nat_str_inject [simp]: "nat_str m = nat_str n \<longleftrightarrow> m = n"
  by (metis option.inject read_digits_nat_str)

text \<open>
  \<open>int(text)\<close>: surrounding white space, one sign, digits with single underscores between them.
  \<open>None\<close> is the \<open>ValueError\<close>.
\<close>

fun read_grouped :: "nat \<Rightarrow> bool \<Rightarrow> string \<Rightarrow> nat option" where
  "read_grouped acc after_digit [] = (if after_digit then Some acc else None)"
| "read_grouped acc after_digit (c # cs) =
     (case digit_val c of
        Some d \<Rightarrow> read_grouped (10 * acc + d) True cs
      | None \<Rightarrow> if c = CHR ''_'' \<and> after_digit then read_grouped acc False cs else None)"

definition py_int :: "string \<Rightarrow> int option" where
  "py_int s =
     (case strip s of
        [] \<Rightarrow> None
      | c # cs \<Rightarrow>
          if c = CHR ''-'' then map_option (\<lambda>n. - int n) (read_grouped 0 False cs)
          else if c = CHR ''+'' then map_option int (read_grouped 0 False cs)
          else map_option int (read_grouped 0 False (c # cs)))"

lemma read_grouped_digits:
  assumes "\<forall>c \<in> set s. is_digit c" and "s \<noteq> [] \<or> b"
  shows "read_grouped acc b s = read_digits acc s"
  using assms
proof (induction s arbitrary: acc b)
  case Nil
  then show ?case by simp
next
  case (Cons c cs)
  then obtain d where "digit_val c = Some d" by (auto simp: is_digit_def)
  with Cons show ?case by simp
qed

lemma py_int_nat_str [simp]: "py_int (nat_str n) = Some (int n)"
proof -
  have d: "\<forall>c \<in> set (nat_str n). is_digit c" by (rule nat_str_digits)
  then have "strip (nat_str n) = nat_str n" by (intro strip_no_space) (simp add: digit_not_space)
  moreover obtain c cs where cs: "nat_str n = c # cs" by (cases "nat_str n") auto
  moreover have "c \<noteq> CHR ''-''" "c \<noteq> CHR ''+''" using d cs digit_not_sep [of c] by auto
  moreover have "read_grouped 0 False (nat_str n) = Some n"
    using d by (subst read_grouped_digits) auto
  ultimately show ?thesis by (simp add: py_int_def)
qed

lemma py_int_int_str [simp]: "py_int (int_str i) = Some i"
proof (cases "i < 0")
  case True
  let ?s = "nat_str (nat (- i))"
  have d: "\<forall>c \<in> set ?s. is_digit c" by (rule nat_str_digits)
  then have "strip (CHR ''-'' # ?s) = CHR ''-'' # ?s"
    by (intro strip_no_space) (simp add: digit_not_space, simp add: is_space_def)
  moreover have "read_grouped 0 False ?s = Some (nat (- i))"
    using d by (subst read_grouped_digits) auto
  ultimately show ?thesis using True by (simp add: py_int_def int_str_def)
next
  case False
  then show ?thesis by (simp add: int_str_def)
qed

lemma int_str_notin [simp]: "CHR '':'' \<notin> set (int_str i)" "CHR ''|'' \<notin> set (int_str i)"
  by (auto simp: int_str_def)

lemma int_str_not_Nil [simp]: "int_str i \<noteq> []"
  by (simp add: int_str_def)

text \<open>\<open>s.isdigit()\<close>.\<close>

definition all_digits :: "string \<Rightarrow> bool" where
  "all_digits s \<longleftrightarrow> s \<noteq> [] \<and> (\<forall>c \<in> set s. is_digit c)"

lemma all_digits_nat_str [simp]: "all_digits (nat_str n)"
  by (simp add: all_digits_def nat_str_digits)

section \<open>Insertion-ordered dictionaries\<close>

text \<open>
  A Python dictionary is an association list with distinct keys; \<open>AList.update\<close> overwrites in
  place or appends, as \<open>d[k] = v\<close> does.
\<close>

type_synonym ('k, 'v) dict = "('k \<times> 'v) list"

abbreviation dget :: "('k, 'v) dict \<Rightarrow> 'k \<Rightarrow> 'v option" where
  "dget d k \<equiv> map_of d k"

abbreviation dput :: "'k \<Rightarrow> 'v \<Rightarrow> ('k, 'v) dict \<Rightarrow> ('k, 'v) dict" where
  "dput k v d \<equiv> AList.update k v d"

abbreviation dpop :: "'k \<Rightarrow> ('k, 'v) dict \<Rightarrow> ('k, 'v) dict" where
  "dpop k d \<equiv> AList.delete k d"

definition dkeys :: "('k, 'v) dict \<Rightarrow> 'k list" where
  "dkeys d = map fst d"

lemma dget_dput [simp]: "dget (dput k v d) = (dget d)(k \<mapsto> v)"
  by (rule update_conv')

lemma dget_dpop [simp]: "dget (dpop k d) = (dget d)(k := None)"
  by (rule delete_conv')

lemma in_dput: "x \<in> set (dput k v d) \<Longrightarrow> x = (k, v) \<or> x \<in> set d"
  by (induction d) (auto split: if_splits)

lemma length_dput_le: "length (dput k v d) \<le> Suc (length d)"
  by (induction d) auto

lemma dget_filter_keep: "dget d k = Some v \<Longrightarrow> P (k, v) \<Longrightarrow> dget (filter P d) k = Some v"
  by (induction d) (auto split: if_splits)

lemma dget_filter:
  "distinct (map fst d) \<Longrightarrow>
    dget (filter P d) k = (case dget d k of Some v \<Rightarrow> if P (k, v) then Some v else None | None \<Rightarrow> None)"
proof (induction d)
  case Nil
  then show ?case by simp
next
  case (Cons p d)
  then have "k = fst p \<Longrightarrow> dget d k = None" by (auto simp: map_of_eq_None_iff)
  with Cons show ?case by (cases p) (auto split: option.splits)
qed

text \<open>\<open>d.update(e)\<close>: the pairs of \<open>e\<close> in order.\<close>

definition dmerge :: "('k, 'v) dict \<Rightarrow> ('k, 'v) dict \<Rightarrow> ('k, 'v) dict" where
  "dmerge d e = fold (\<lambda>(k, v) acc. dput k v acc) e d"

lemma dget_dmerge:
  assumes "distinct (map fst e)"
  shows "dget (dmerge d e) k = (case dget e k of Some v \<Rightarrow> Some v | None \<Rightarrow> dget d k)"
  using assms
proof (induction e arbitrary: d)
  case Nil
  then show ?case by (simp add: dmerge_def)
next
  case (Cons p e)
  obtain a b where p: "p = (a, b)" by (cases p)
  have step: "dmerge d ((a, b) # e) = dmerge (dput a b d) e" by (simp add: dmerge_def)
  from Cons.prems p have "a \<notin> fst ` set e" by simp
  then have "dget e a = None" by (simp add: map_of_eq_None_iff)
  moreover have "distinct (map fst e)" using Cons.prems p by simp
  ultimately show ?case
    using Cons.IH [of "dput a b d"] by (auto simp: p step split: option.splits)
qed

end
