(* ===== verification/Numbers.thy ===== *)
theory Numbers
  imports Complex_Main Prelude
begin

text \<open>
  Python's numbers as the code uses them.  A \<open>float\<close> is a real number, an infinity or a NaN:
  rounding of arithmetic is not modelled, and reading and printing are.  \<open>py_float\<close> is
  \<open>float(text)\<close>, \<open>py_round\<close> is \<open>round\<close> (ties to even) and \<open>fixed_str d x\<close> is the format
  \<open>f"{x:.df}"\<close>.
\<close>

section \<open>Rounding and printing\<close>

definition py_round :: "real \<Rightarrow> int" where
  "py_round x =
     (let f = \<lfloor>x\<rfloor>; r = x - of_int f in
      if r < 1/2 then f else if 1/2 < r then f + 1 else if even f then f else f + 1)"

lemma py_round_of_int [simp]: "py_round (of_int n) = n"
  by (simp add: py_round_def)

lemma py_round_error: "\<bar>of_int (py_round x) - x\<bar> \<le> 1/2"
  unfolding py_round_def Let_def by (auto split: if_splits; linarith)

lemma py_round_mono_bounds:
  "of_int a \<le> x \<Longrightarrow> x \<le> of_int b \<Longrightarrow> a \<le> py_round x \<and> py_round x \<le> b"
proof -
  assume a: "of_int a \<le> x" and b: "x \<le> of_int b"
  have fa: "a \<le> \<lfloor>x\<rfloor>" using a by (simp add: le_floor_iff)
  have fb: "\<lfloor>x\<rfloor> \<le> b" using b by linarith
  show ?thesis
  proof (cases "\<lfloor>x\<rfloor> = b")
    case True
    then have "x = of_int b" using b of_int_floor_le [of x] by linarith
    then show ?thesis using fa True by simp
  next
    case False
    then show ?thesis using fa fb by (auto simp: py_round_def Let_def)
  qed
qed

text \<open>\<open>int(x)\<close> truncates towards zero.\<close>

definition py_trunc :: "real \<Rightarrow> int" where
  "py_trunc x = (if x < 0 then \<lceil>x\<rceil> else \<lfloor>x\<rfloor>)"

definition pad_left :: "nat \<Rightarrow> string \<Rightarrow> string" where
  "pad_left d s = replicate (d - length s) (CHR ''0'') @ s"

lemma read_digits_pad [simp]: "read_digits 0 (pad_left d s) = read_digits 0 s"
proof -
  have "read_digits 0 (replicate n (CHR ''0'') @ s) = read_digits 0 s" for n
    by (induction n) (auto simp: digit_val_def)
  then show ?thesis by (simp add: pad_left_def)
qed

lemma pad_left_digits: "\<forall>c \<in> set s. is_digit c \<Longrightarrow> \<forall>c \<in> set (pad_left d s). is_digit c"
proof -
  have "is_digit (CHR ''0'')" by (simp add: is_digit_set)
  then show "\<forall>c \<in> set s. is_digit c \<Longrightarrow> \<forall>c \<in> set (pad_left d s). is_digit c"
    by (auto simp: pad_left_def)
qed

lemma length_nat_str: "n < 10 ^ Suc d \<Longrightarrow> length (nat_str n) \<le> Suc d"
proof (induction d arbitrary: n)
  case 0
  then show ?case by (subst nat_str.simps) simp
next
  case (Suc d)
  show ?case
  proof (cases "n < 10")
    case True
    then show ?thesis by (subst nat_str.simps) simp
  next
    case False
    have "n div 10 < 10 ^ Suc d" using Suc.prems by (simp add: less_mult_imp_div_less)
    then have "length (nat_str (n div 10)) \<le> Suc d" by (rule Suc.IH)
    with False show ?thesis by (subst nat_str.simps) simp
  qed
qed

text \<open>A number of \<open>d\<close> decimals, given by its value times \<open>10 ^ d\<close>.\<close>

definition scaled_str :: "nat \<Rightarrow> int \<Rightarrow> string" where
  "scaled_str d n =
     (let m = nat \<bar>n\<bar> in
      (if n < 0 then ''-'' else []) @ nat_str (m div 10 ^ d) @
      (if d = 0 then [] else ''.'' @ pad_left d (nat_str (m mod 10 ^ d))))"

definition fixed_str :: "nat \<Rightarrow> real \<Rightarrow> string" where
  "fixed_str d x = scaled_str d (py_round (x * 10 ^ d))"

section \<open>float(text)\<close>

datatype pyfloat = Fin real | PInf | NInf | NaN

text \<open>
  The grammar of \<open>float\<close>: optional white space and sign, then \<open>inf\<close>, \<open>infinity\<close> or \<open>nan\<close> in any
  case, or digits with an optional fraction and an optional exponent.
\<close>

definition digits_or_empty :: "string \<Rightarrow> nat option" where
  "digits_or_empty s = (if s = [] then Some 0 else read_grouped 0 False s)"

definition read_mantissa :: "string \<Rightarrow> real option" where
  "read_mantissa s =
     (case partition_at (CHR ''.'') s of (a, _, b) \<Rightarrow>
        if a = [] \<and> b = [] then None
        else case (digits_or_empty a, digits_or_empty b) of
               (Some m, Some f) \<Rightarrow>
                 Some (real m + real f / 10 ^ length (filter (\<lambda>c. c \<noteq> CHR ''_'') b))
             | _ \<Rightarrow> None)"

definition read_exponent :: "string \<Rightarrow> int option" where
  "read_exponent s =
     (case s of
        [] \<Rightarrow> None
      | c # cs \<Rightarrow>
          if c = CHR ''-'' then map_option (\<lambda>n. - int n) (read_grouped 0 False cs)
          else if c = CHR ''+'' then map_option int (read_grouped 0 False cs)
          else map_option int (read_grouped 0 False s))"

definition ten_to :: "int \<Rightarrow> real" where
  "ten_to e = (if 0 \<le> e then 10 ^ nat e else 1 / 10 ^ nat (- e))"

definition read_unsigned :: "string \<Rightarrow> pyfloat option" where
  "read_unsigned s =
     (let l = lower s in
      if l = ''inf'' \<or> l = ''infinity'' then Some PInf
      else if l = ''nan'' then Some NaN
      else case partition_at (CHR ''e'') l of (m, has_e, e) \<Rightarrow>
        (case (read_mantissa m, if has_e then read_exponent e else Some 0) of
           (Some x, Some k) \<Rightarrow> Some (Fin (x * ten_to k))
         | _ \<Rightarrow> None))"

definition neg_float :: "pyfloat \<Rightarrow> pyfloat" where
  "neg_float f = (case f of Fin x \<Rightarrow> Fin (- x) | PInf \<Rightarrow> NInf | NInf \<Rightarrow> PInf | NaN \<Rightarrow> NaN)"

definition py_float :: "string \<Rightarrow> pyfloat option" where
  "py_float s =
     (case strip s of
        [] \<Rightarrow> None
      | c # cs \<Rightarrow>
          if c = CHR ''-'' then map_option neg_float (read_unsigned cs)
          else if c = CHR ''+'' then read_unsigned cs
          else read_unsigned (c # cs))"

lemma lower_digits: "\<forall>c \<in> set s. is_digit c \<or> c = CHR ''.'' \<Longrightarrow> lower s = s"
proof -
  have "lower_char c = c" if "is_digit c \<or> c = CHR ''.''" for c
    using that unfolding is_digit_set lower_char_def by (simp, elim disjE; simp)
  then show "\<forall>c \<in> set s. is_digit c \<or> c = CHR ''.'' \<Longrightarrow> lower s = s"
    by (simp add: lower_def map_idI)
qed

lemma digit_or_dot_not_e: "is_digit c \<or> c = CHR ''.'' \<Longrightarrow> c \<noteq> CHR ''e'' \<and> c \<noteq> CHR ''i'' \<and> c \<noteq> CHR ''n''"
  unfolding is_digit_set by (simp, elim disjE; simp)

lemma read_unsigned_decimal:
  assumes "\<forall>c \<in> set s. is_digit c \<or> c = CHR ''.''"
  shows "read_unsigned s = map_option Fin (read_mantissa s)"
proof -
  have l: "lower s = s" using assms by (rule lower_digits)
  have e: "CHR ''e'' \<notin> set s" and i: "CHR ''i'' \<notin> set s" and n: "CHR ''n'' \<notin> set s"
    using assms digit_or_dot_not_e by blast+
  have "s \<noteq> ''inf''" "s \<noteq> ''infinity''" "s \<noteq> ''nan''" using i n by auto
  then show ?thesis
    by (auto simp: read_unsigned_def l e ten_to_def split: option.splits)
qed

lemma digits_or_empty_digits:
  "\<forall>c \<in> set s. is_digit c \<Longrightarrow> digits_or_empty s = read_digits 0 s"
  by (auto simp: digits_or_empty_def read_grouped_digits)

lemma py_float_scaled:
  assumes "0 \<le> n" and "0 < d"
  shows "py_float (scaled_str d n) = Some (Fin (of_int n / 10 ^ d))"
proof -
  define m where "m = nat n"
  define a where "a = nat_str (m div 10 ^ d)"
  define b where "b = pad_left d (nat_str (m mod 10 ^ d))"
  have s: "scaled_str d n = a @ CHR ''.'' # b"
    using assms by (simp add: scaled_str_def a_def b_def m_def Let_def)
  have da: "\<forall>c \<in> set a. is_digit c" unfolding a_def by (rule nat_str_digits)
  have db: "\<forall>c \<in> set b. is_digit c"
    unfolding b_def by (intro pad_left_digits nat_str_digits)
  have us: "filter (\<lambda>c. c \<noteq> CHR ''_'') b = b" using db digit_not_sep by (auto simp: filter_id_conv)
  obtain d' where d': "d = Suc d'" using assms(2) gr0_implies_Suc by blast
  have "m mod 10 ^ d < 10 ^ Suc d'" by (simp add: d')
  then have "length (nat_str (m mod 10 ^ d)) \<le> d" using length_nat_str d' by blast
  then have lb: "length b = d" by (simp add: b_def pad_left_def)
  have dot: "CHR ''.'' \<notin> set a" by (simp add: a_def)
  have mant: "read_mantissa (a @ CHR ''.'' # b) = Some (of_int n / 10 ^ d)"
  proof -
    have "m = m div 10 ^ d * 10 ^ d + m mod 10 ^ d" by (rule div_mult_mod_eq [symmetric])
    then have "real m = real (m div 10 ^ d * 10 ^ d + m mod 10 ^ d)" by (rule arg_cong)
    then have "real m = real (m div 10 ^ d) * 10 ^ d + real (m mod 10 ^ d)"
      unfolding of_nat_add of_nat_mult of_nat_power by simp
    then have "real (m div 10 ^ d) + real (m mod 10 ^ d) / 10 ^ d = real m / 10 ^ d"
      by (simp add: field_simps)
    moreover have "real m = of_int n" using assms(1) by (simp add: m_def)
    moreover have "digits_or_empty a = Some (m div 10 ^ d)"
      unfolding digits_or_empty_digits [OF da] by (simp add: a_def)
    moreover have "digits_or_empty b = Some (m mod 10 ^ d)"
      unfolding digits_or_empty_digits [OF db] by (simp add: b_def)
    ultimately show ?thesis
      using dot by (simp add: read_mantissa_def us lb) (simp add: a_def)
  qed
  have strip: "strip (a @ CHR ''.'' # b) = a @ CHR ''.'' # b"
    using da db by (intro strip_no_space) (auto simp: digit_not_space, auto simp: is_space_def)
  obtain c cs where ac: "a = c # cs" by (cases a) (auto simp: a_def)
  then have "c \<noteq> CHR ''-''" "c \<noteq> CHR ''+''" using da digit_not_sep [of c] by auto
  moreover have "read_unsigned (a @ CHR ''.'' # b) = Some (Fin (of_int n / 10 ^ d))"
    using da db mant by (subst read_unsigned_decimal) auto
  ultimately show ?thesis
    using strip by (simp add: s py_float_def ac)
qed

end
