(* ===== verification/Payload.thy ===== *)
theory Payload
  imports Numbers
begin

text \<open>
  Job payloads.  A job is a Python dictionary; its values are the scalars the queue code reads.
  A float is kept as its \<open>repr\<close> text, and any list or dictionary inside a payload as its
  \<open>str\<close> text (\<open>POther\<close>), because this code only passes those through.  The elements of the job
  list and the delayed set are texts: \<open>QJob j\<close> is \<open>json.dumps(j)\<close>, \<open>QJson\<close> any JSON text that is
  not an object, \<open>QText\<close> a text that is not JSON.
\<close>

datatype pyval = PNone | PBool bool | PInt int | PFloat string | PStr string | POther string

fun truthy :: "pyval \<Rightarrow> bool" where
  "truthy PNone = False"
| "truthy (PBool b) = b"
| "truthy (PInt i) = (i \<noteq> 0)"
| "truthy (PFloat s) = (s \<notin> {''0.0'', ''-0.0''})"
| "truthy (PStr s) = (s \<noteq> [])"
| "truthy (POther s) = (s \<notin> {''[]'', ''{}''})"

fun py_str :: "pyval \<Rightarrow> string" where
  "py_str PNone = ''None''"
| "py_str (PBool b) = (if b then ''True'' else ''False'')"
| "py_str (PInt i) = int_str i"
| "py_str (PFloat s) = s"
| "py_str (PStr s) = s"
| "py_str (POther s) = s"

definition py_or :: "pyval \<Rightarrow> pyval \<Rightarrow> pyval" where
  "py_or a b = (if truthy a then a else b)"

type_synonym job = "(string, pyval) dict"

text \<open>\<open>d.get(k)\<close>.\<close>

definition jget :: "job \<Rightarrow> string \<Rightarrow> pyval" where
  "jget j k = (case dget j k of None \<Rightarrow> PNone | Some v \<Rightarrow> v)"

lemma jget_dput: "jget (dput k v j) k' = (if k' = k then v else jget j k')"
  by (simp add: jget_def)

datatype qitem = QJob job | QJson string | QText string

text \<open>The text an id is compared by: \<open>str(x or "")\<close>.\<close>

definition id_text :: "pyval \<Rightarrow> string" where
  "id_text v = (if truthy v then py_str v else [])"

text \<open>\<open>int(x)\<close>; \<open>None\<close> is a \<open>TypeError\<close> or a \<open>ValueError\<close>.\<close>

definition int_of :: "pyval \<Rightarrow> int option" where
  "int_of v =
     (case v of
        PInt i \<Rightarrow> Some i
      | PBool b \<Rightarrow> Some (if b then 1 else 0)
      | PFloat s \<Rightarrow> (case py_float s of Some (Fin x) \<Rightarrow> Some (py_trunc x) | _ \<Rightarrow> None)
      | PStr s \<Rightarrow> py_int s
      | _ \<Rightarrow> None)"

end
