(* ===== verification/Redis.thy ===== *)
theory Redis
  imports Effects Payload
begin

text \<open>
  The outside of the program.  Every call that leaves the process (a Redis command, a script sent
  to Redis, the clock, opening and giving back a client, the broker, a Telegram request) is a
  \<open>call\<close>, and the definitions of the model take one parameter for all of it:
  \<open>exec :: call \<Rightarrow> 'w \<Rightarrow> (exn + reply) \<times> 'w\<close>.  Nothing is assumed of \<open>exec\<close> in a definition.

  What Redis documents of its commands is the locale \<open>redis_server\<close>: a successful call replies
  according to \<open>answers\<close> and changes the key space by \<open>effect\<close>, a call that raises has either not
  happened or happened without its reply, and time does not run backwards.  \<open>redis_up\<close> adds that
  a call on keys of the right type succeeds.  A key space maps a key to its value and its
  deadline.  Lists, sets and sorted sets are kept as lists; no order is promised for the members of
  a set or the keys of a scan.  One call of the program runs without another client between its
  commands; interleavings of clients are the subject of \<open>Interleave\<close> and \<open>LockRace\<close>.
\<close>

section \<open>Key space\<close>

datatype rval =
    VStr string
  | VSet "string list"
  | VHash "(string, string) dict"
  | VList "qitem list"
  | VZset "(qitem \<times> real) list"
  | VDoc qitem

type_synonym entry = "rval \<times> real option"
type_synonym store = "string \<rightharpoonup> entry"

definition live :: "real \<Rightarrow> store \<Rightarrow> string \<Rightarrow> rval option" where
  "live t m k =
     (case m k of
        None \<Rightarrow> None
      | Some (v, None) \<Rightarrow> Some v
      | Some (v, Some d) \<Rightarrow> if t < d then Some v else None)"

text \<open>The deadline a command that updates a value in place keeps.\<close>

definition keep_ttl :: "real \<Rightarrow> store \<Rightarrow> string \<Rightarrow> real option" where
  "keep_ttl t m k = (if live t m k = None then None else case m k of None \<Rightarrow> None | Some (_, d) \<Rightarrow> d)"

definition wipe :: "string list \<Rightarrow> store \<Rightarrow> store" where
  "wipe ks m = (\<lambda>k. if k \<in> set ks then None else m k)"

lemma live_None [simp]: "m k = None \<Longrightarrow> live t m k = None"
  by (simp add: live_def)

lemma live_later: "live t m k = None \<Longrightarrow> t \<le> t' \<Longrightarrow> live t' m k = None"
  by (auto simp: live_def split: option.splits if_splits)

lemma live_later_same: "live t' m k = Some v \<Longrightarrow> t \<le> t' \<Longrightarrow> live t m k = Some v"
  by (auto simp: live_def split: option.splits if_splits)

lemma live_upd [simp]:
  "live t (m(k \<mapsto> (v, d))) k' =
     (if k' = k then (case d of None \<Rightarrow> Some v | Some e \<Rightarrow> if t < e then Some v else None) else live t m k')"
  by (auto simp: live_def split: option.splits)

lemma live_wipe [simp]: "live t (wipe ks m) k = (if k \<in> set ks then None else live t m k)"
  by (simp add: live_def wipe_def)

definition str_at :: "real \<Rightarrow> store \<Rightarrow> string \<Rightarrow> string option" where
  "str_at t m k = (case live t m k of Some (VStr s) \<Rightarrow> Some s | _ \<Rightarrow> None)"

definition set_at :: "real \<Rightarrow> store \<Rightarrow> string \<Rightarrow> string list" where
  "set_at t m k = (case live t m k of Some (VSet xs) \<Rightarrow> xs | _ \<Rightarrow> [])"

definition hash_at :: "real \<Rightarrow> store \<Rightarrow> string \<Rightarrow> (string, string) dict" where
  "hash_at t m k = (case live t m k of Some (VHash h) \<Rightarrow> h | _ \<Rightarrow> [])"

definition list_at :: "real \<Rightarrow> store \<Rightarrow> string \<Rightarrow> qitem list" where
  "list_at t m k = (case live t m k of Some (VList xs) \<Rightarrow> xs | _ \<Rightarrow> [])"

definition zset_at :: "real \<Rightarrow> store \<Rightarrow> string \<Rightarrow> (qitem \<times> real) list" where
  "zset_at t m k = (case live t m k of Some (VZset xs) \<Rightarrow> xs | _ \<Rightarrow> [])"

text \<open>A document: a string value whose text is JSON, kept by the operations \<open>SetDoc\<close> and \<open>GetDoc\<close>.\<close>

definition doc_at :: "real \<Rightarrow> store \<Rightarrow> string \<Rightarrow> qitem option" where
  "doc_at t m k = (case live t m k of Some (VDoc it) \<Rightarrow> Some it | _ \<Rightarrow> None)"

section \<open>Calls and replies\<close>

datatype script =
    ReleaseScript string string
  | RefreshScript string string int
  | RenewScript string string int
  | StealScript string string string int
  | PruneJobScript string string
  | PruneBatchScript string string
  | FloodExtendScript string real real
  | ConvStartScript string int int int int

datatype call =
    Connect | Close | Time
  | Exists "string list" | Get string | SetK string string "int option" | SetNx string string int
  | GetDoc string | SetDoc string qitem "int option"
  | Del "string list" | Incr string | Expire string int | GetDel string
  | Sadd string string | Srem string "string list" | Smembers string
  | Hset string "(string, string) dict" | Hdel string string | Hget string string | Hgetall string
  | Lpush string qitem | Brpop string | Lrange string
  | Zadd string qitem real | Zrem string qitem | Zrange string | ZrangeDue string real nat | Zcard string
  | ZremUpto string real | Zfirst string
  | Scan string
  | Eval script
  | BrokerPublish job | BrokerPurge
  | DeleteMessage int int | OpenBot | EditMessage int int string | SendMessage string string

datatype reply =
    RNil | ROk | RInt int | RReal real | RBool bool | RStr string | RStrs "string list"
  | RHash "(string, string) dict" | RItem qitem | RItems "qitem list"

section \<open>The scripts\<close>

text \<open>
  The Lua texts the code sends with \<open>EVAL\<close>, as functions on the key space at the server's time:
  Redis runs a script as one step.  A script's \<open>redis.call\<close> on a key of the wrong type raises;
  the scripts below are only defined on the type they use (\<open>call_ok\<close>).
\<close>

definition lua_release :: "string \<Rightarrow> string \<Rightarrow> real \<Rightarrow> store \<Rightarrow> store \<times> int" where
  "lua_release k owner t m =
     (if str_at t m k = Some owner then (wipe [k] m, 1) else (m, 0))"

definition lua_refresh :: "string \<Rightarrow> string \<Rightarrow> int \<Rightarrow> real \<Rightarrow> store \<Rightarrow> store \<times> int" where
  "lua_refresh k owner ttl_ms t m =
     (if str_at t m k = Some owner then (m(k \<mapsto> (VStr owner, Some (t + of_int ttl_ms / 1000))), 1)
      else (m, 0))"

text \<open>\<open>EXPIRE\<close> by the holder.\<close>

definition lua_renew :: "string \<Rightarrow> string \<Rightarrow> int \<Rightarrow> real \<Rightarrow> store \<Rightarrow> store \<times> int" where
  "lua_renew k owner ttl t m =
     (if str_at t m k = Some owner then (m(k \<mapsto> (VStr owner, Some (t + of_int ttl))), 1) else (m, 0))"

definition lua_steal :: "string \<Rightarrow> string \<Rightarrow> string \<Rightarrow> int \<Rightarrow> real \<Rightarrow> store \<Rightarrow> store \<times> int" where
  "lua_steal k dead owner ttl_ms t m =
     (if str_at t m k = Some dead then (m(k \<mapsto> (VStr owner, Some (t + of_int ttl_ms / 1000))), 1)
      else (m, 0))"

text \<open>An emptied list is a deleted key.\<close>

definition put_list :: "string \<Rightarrow> qitem list \<Rightarrow> real option \<Rightarrow> store \<Rightarrow> store" where
  "put_list k xs d m = (if xs = [] then wipe [k] m else m(k \<mapsto> (VList xs, d)))"

fun lrem_each :: "(qitem \<Rightarrow> bool) \<Rightarrow> qitem list \<Rightarrow> qitem list \<Rightarrow> qitem list \<times> int" where
  "lrem_each p [] xs = (xs, 0)"
| "lrem_each p (it # its) xs =
     (if p it then (case lrem_each p its (remove1 it xs) of (ys, n) \<Rightarrow> (ys, n + 1))
      else lrem_each p its xs)"

definition item_has_job_id :: "string \<Rightarrow> qitem \<Rightarrow> bool" where
  "item_has_job_id jid it = (case it of QJob j \<Rightarrow> dget j ''job_id'' = Some (PStr jid) | _ \<Rightarrow> False)"

text \<open>\<open>limit = 500\<close> is the last index \<open>lrange\<close> returns, so 501 entries are looked at.\<close>

definition lua_prune_job :: "string \<Rightarrow> string \<Rightarrow> real \<Rightarrow> store \<Rightarrow> store \<times> int" where
  "lua_prune_job k jid t m =
     (case lrem_each (item_has_job_id jid) (take 501 (list_at t m k)) (list_at t m k) of
        (ys, n) \<Rightarrow> (if n = 0 then m else put_list k ys (keep_ttl t m k) m, n))"

definition lua_tostring :: "pyval option \<Rightarrow> string" where
  "lua_tostring v =
     (case v of
        None \<Rightarrow> ''nil''
      | Some (PStr s) \<Rightarrow> s
      | Some (PInt i) \<Rightarrow> int_str i
      | Some (PFloat s) \<Rightarrow> s
      | Some (PBool b) \<Rightarrow> (if b then ''true'' else ''false'')
      | Some PNone \<Rightarrow> ''userdata: NULL''
      | Some (POther _) \<Rightarrow> ''table'')"

definition item_in_batch :: "string \<Rightarrow> qitem \<Rightarrow> bool" where
  "item_in_batch bid it = (case it of QJob j \<Rightarrow> lua_tostring (dget j ''batch_id'') = bid | _ \<Rightarrow> False)"

definition lua_prune_batch :: "string \<Rightarrow> string \<Rightarrow> real \<Rightarrow> store \<Rightarrow> store \<times> int" where
  "lua_prune_batch k bid t m =
     (case lrem_each (item_in_batch bid) (list_at t m k) (list_at t m k) of
        (ys, n) \<Rightarrow> (if n = 0 then m else put_list k ys (keep_ttl t m k) m, n))"

text \<open>Deadlines travel as decimal text; the clock is read to the microsecond.\<close>

definition time_text :: "real \<Rightarrow> string" where
  "time_text t = fixed_str 6 t"

definition number_of :: "string \<Rightarrow> real option" where
  "number_of s = (case py_float s of Some (Fin x) \<Rightarrow> Some x | _ \<Rightarrow> None)"

definition lua_flood_extend :: "string \<Rightarrow> real \<Rightarrow> real \<Rightarrow> real \<Rightarrow> store \<Rightarrow> store \<times> int" where
  "lua_flood_extend k now deadline t m =
     (case Option.bind (str_at t m k) number_of of
        Some current \<Rightarrow>
          if deadline \<le> current then (m, \<lceil>current - now\<rceil>)
          else let ttl = max 1 \<lceil>deadline - now\<rceil>
               in (m(k \<mapsto> (VStr (time_text deadline), Some (t + of_int ttl))), ttl)
      | None \<Rightarrow>
          let ttl = max 1 \<lceil>deadline - now\<rceil>
          in (m(k \<mapsto> (VStr (time_text deadline), Some (t + of_int ttl))), ttl))"

definition zput :: "qitem \<Rightarrow> real \<Rightarrow> (qitem \<times> real) list \<Rightarrow> (qitem \<times> real) list" where
  "zput it s z = AList.update it s z"

definition lua_conv_start :: "string \<Rightarrow> int \<Rightarrow> int \<Rightarrow> int \<Rightarrow> int \<Rightarrow> real \<Rightarrow> store \<Rightarrow> store \<times> int" where
  "lua_conv_start k cutoff limit now expire t m =
     (let z = filter (\<lambda>(_, s). \<not> (0 \<le> s \<and> s \<le> of_int cutoff)) (zset_at t m k);
          m' = (if z = [] then wipe [k] m else m(k \<mapsto> (VZset z, keep_ttl t m k))) in
      if int (length z) < limit
      then (m(k \<mapsto> (VZset (zput (QJson (int_str now)) (of_int now) z), Some (t + of_int expire))), 1)
      else (m', 0))"

fun run_script :: "script \<Rightarrow> real \<Rightarrow> store \<Rightarrow> store \<times> int" where
  "run_script (ReleaseScript k o1) = lua_release k o1"
| "run_script (RefreshScript k o1 ms) = lua_refresh k o1 ms"
| "run_script (RenewScript k o1 s) = lua_renew k o1 s"
| "run_script (StealScript k d o1 ms) = lua_steal k d o1 ms"
| "run_script (PruneJobScript k j) = lua_prune_job k j"
| "run_script (PruneBatchScript k b) = lua_prune_batch k b"
| "run_script (FloodExtendScript k now dl) = lua_flood_extend k now dl"
| "run_script (ConvStartScript k c l n e) = lua_conv_start k c l n e"

fun script_key :: "script \<Rightarrow> string" where
  "script_key (ReleaseScript k o1) = k"
| "script_key (RefreshScript k o1 ms) = k"
| "script_key (RenewScript k o1 s) = k"
| "script_key (StealScript k d o1 ms) = k"
| "script_key (PruneJobScript k j) = k"
| "script_key (PruneBatchScript k b) = k"
| "script_key (FloodExtendScript k now dl) = k"
| "script_key (ConvStartScript k c l n e) = k"

end
