(* ===== verification/RedisLaws.thy ===== *)
theory RedisLaws
  imports Redis "HOL-Library.Multiset"
begin

text \<open>
  The documented behaviour of the commands (\<open>call_ok\<close>: the types a command accepts, \<open>effect\<close>: what
  it changes, \<open>answers\<close>: what it may reply), the locales that state it of \<open>exec\<close>, an executable
  server that satisfies them, and the command wrappers the model's programs are written with.
\<close>

section \<open>Documented behaviour\<close>

definition is_str :: "rval option \<Rightarrow> bool" where
  "is_str v = (case v of None \<Rightarrow> True | Some (VStr _) \<Rightarrow> True | _ \<Rightarrow> False)"

definition is_set :: "rval option \<Rightarrow> bool" where
  "is_set v = (case v of None \<Rightarrow> True | Some (VSet _) \<Rightarrow> True | _ \<Rightarrow> False)"

definition is_hash :: "rval option \<Rightarrow> bool" where
  "is_hash v = (case v of None \<Rightarrow> True | Some (VHash _) \<Rightarrow> True | _ \<Rightarrow> False)"

definition is_list :: "rval option \<Rightarrow> bool" where
  "is_list v = (case v of None \<Rightarrow> True | Some (VList _) \<Rightarrow> True | _ \<Rightarrow> False)"

definition is_zset :: "rval option \<Rightarrow> bool" where
  "is_zset v = (case v of None \<Rightarrow> True | Some (VZset _) \<Rightarrow> True | _ \<Rightarrow> False)"

definition is_doc :: "rval option \<Rightarrow> bool" where
  "is_doc v = (case v of None \<Rightarrow> True | Some (VDoc _) \<Rightarrow> True | _ \<Rightarrow> False)"

fun call_ok :: "call \<Rightarrow> real \<Rightarrow> store \<Rightarrow> bool" where
  "call_ok (Get k) t m = is_str (live t m k)"
| "call_ok (GetDel k) t m = is_str (live t m k)"
| "call_ok (GetDoc k) t m = is_doc (live t m k)"
| "call_ok (Incr k) t m =
     (is_str (live t m k) \<and> (case str_at t m k of None \<Rightarrow> True | Some s \<Rightarrow> py_int s \<noteq> None))"
| "call_ok (Sadd k x) t m = is_set (live t m k)"
| "call_ok (Srem k xs) t m = is_set (live t m k)"
| "call_ok (Smembers k) t m = is_set (live t m k)"
| "call_ok (Hset k fs) t m = is_hash (live t m k)"
| "call_ok (Hdel k f) t m = is_hash (live t m k)"
| "call_ok (Hget k f) t m = is_hash (live t m k)"
| "call_ok (Hgetall k) t m = is_hash (live t m k)"
| "call_ok (Lpush k it) t m = is_list (live t m k)"
| "call_ok (Brpop k) t m = is_list (live t m k)"
| "call_ok (Lrange k) t m = is_list (live t m k)"
| "call_ok (Zadd k it s) t m = is_zset (live t m k)"
| "call_ok (Zrem k it) t m = is_zset (live t m k)"
| "call_ok (Zrange k) t m = is_zset (live t m k)"
| "call_ok (ZrangeDue k n l) t m = is_zset (live t m k)"
| "call_ok (Zcard k) t m = is_zset (live t m k)"
| "call_ok (ZremUpto k c) t m = is_zset (live t m k)"
| "call_ok (Zfirst k) t m = is_zset (live t m k)"
| "call_ok (Eval (PruneJobScript k j)) t m = is_list (live t m k)"
| "call_ok (Eval (PruneBatchScript k b)) t m = is_list (live t m k)"
| "call_ok (Eval (ConvStartScript k c l n e)) t m = is_zset (live t m k)"
| "call_ok (Eval (FloodExtendScript k n d)) t m =
     (is_str (live t m k) \<and> (case str_at t m k of None \<Rightarrow> True | Some s \<Rightarrow> number_of s \<noteq> None))"
| "call_ok (Eval sc) t m = is_str (live t m (script_key sc))"
| "call_ok _ t m = True"

definition set_add :: "string \<Rightarrow> string list \<Rightarrow> string list" where
  "set_add x xs = (if x \<in> set xs then xs else xs @ [x])"

definition put_set :: "string \<Rightarrow> string list \<Rightarrow> real option \<Rightarrow> store \<Rightarrow> store" where
  "put_set k xs d m = (if xs = [] then wipe [k] m else m(k \<mapsto> (VSet xs, d)))"

definition put_zset :: "string \<Rightarrow> (qitem \<times> real) list \<Rightarrow> real option \<Rightarrow> store \<Rightarrow> store" where
  "put_zset k xs d m = (if xs = [] then wipe [k] m else m(k \<mapsto> (VZset xs, d)))"

definition put_hash :: "string \<Rightarrow> (string, string) dict \<Rightarrow> real option \<Rightarrow> store \<Rightarrow> store" where
  "put_hash k h d m = (if h = [] then wipe [k] m else m(k \<mapsto> (VHash h, d)))"

definition zdel :: "qitem \<Rightarrow> (qitem \<times> real) list \<Rightarrow> (qitem \<times> real) list" where
  "zdel it z = AList.delete it z"

definition secs :: "int option \<Rightarrow> real \<Rightarrow> real option" where
  "secs ex t = map_option (\<lambda>s. t + of_int s) ex"

text \<open>A command is consulted only where \<open>call_ok\<close> holds; elsewhere it replies with an error.\<close>

fun effect :: "call \<Rightarrow> real \<Rightarrow> store \<Rightarrow> store" where
  "effect (SetK k v ex) t m = m(k \<mapsto> (VStr v, secs ex t))"
| "effect (SetDoc k it ex) t m = m(k \<mapsto> (VDoc it, secs ex t))"
| "effect (SetNx k v ms) t m =
     (if live t m k = None then m(k \<mapsto> (VStr v, Some (t + of_int ms / 1000))) else m)"
| "effect (Del ks) t m = wipe ks m"
| "effect (GetDel k) t m = wipe [k] m"
| "effect (Incr k) t m =
     m(k \<mapsto> (VStr (int_str (case Option.bind (str_at t m k) py_int of None \<Rightarrow> 1 | Some n \<Rightarrow> n + 1)),
             keep_ttl t m k))"
| "effect (Expire k s) t m = (case live t m k of None \<Rightarrow> m | Some v \<Rightarrow> m(k \<mapsto> (v, Some (t + of_int s))))"
| "effect (Sadd k x) t m = m(k \<mapsto> (VSet (set_add x (set_at t m k)), keep_ttl t m k))"
| "effect (Srem k xs) t m =
     (if live t m k = None then m
      else put_set k (filter (\<lambda>x. x \<notin> set xs) (set_at t m k)) (keep_ttl t m k) m)"
| "effect (Hset k fs) t m = m(k \<mapsto> (VHash (dmerge (hash_at t m k) fs), keep_ttl t m k))"
| "effect (Hdel k f) t m =
     (if live t m k = None then m else put_hash k (AList.delete f (hash_at t m k)) (keep_ttl t m k) m)"
| "effect (Lpush k it) t m = m(k \<mapsto> (VList (it # list_at t m k), keep_ttl t m k))"
| "effect (Brpop k) t m =
     (if list_at t m k = [] then m else put_list k (butlast (list_at t m k)) (keep_ttl t m k) m)"
| "effect (Zadd k it s) t m = m(k \<mapsto> (VZset (zput it s (zset_at t m k)), keep_ttl t m k))"
| "effect (Zrem k it) t m =
     (if live t m k = None then m else put_zset k (zdel it (zset_at t m k)) (keep_ttl t m k) m)"
| "effect (ZremUpto k c) t m =
     (if live t m k = None then m
      else put_zset k (filter (\<lambda>(_, s). \<not> (0 \<le> s \<and> s \<le> c)) (zset_at t m k)) (keep_ttl t m k) m)"
| "effect (Eval sc) t m = fst (run_script sc t m)"
| "effect _ t m = m"

definition due :: "real \<Rightarrow> (qitem \<times> real) list \<Rightarrow> qitem list" where
  "due now z = map fst (filter (\<lambda>(_, s). s \<le> now) z)"

fun answers :: "call \<Rightarrow> real \<Rightarrow> store \<Rightarrow> reply \<Rightarrow> bool" where
  "answers Time t m r = (r = RReal t)"
| "answers (Exists ks) t m r = (r = RInt (int (length (filter (\<lambda>k. live t m k \<noteq> None) ks))))"
| "answers (Get k) t m r = (r = (case str_at t m k of None \<Rightarrow> RNil | Some s \<Rightarrow> RStr s))"
| "answers (GetDel k) t m r = (r = (case str_at t m k of None \<Rightarrow> RNil | Some s \<Rightarrow> RStr s))"
| "answers (GetDoc k) t m r = (r = (case doc_at t m k of None \<Rightarrow> RNil | Some it \<Rightarrow> RItem it))"
| "answers (SetNx k v ms) t m r = (r = (if live t m k = None then ROk else RNil))"
| "answers (Del ks) t m r = (r = RInt (int (length (filter (\<lambda>k. live t m k \<noteq> None) (remdups ks)))))"
| "answers (Incr k) t m r =
     (r = RInt (case Option.bind (str_at t m k) py_int of None \<Rightarrow> 1 | Some n \<Rightarrow> n + 1))"
| "answers (Sadd k x) t m r = (r = RInt (if x \<in> set (set_at t m k) then 0 else 1))"
| "answers (Smembers k) t m r =
     (\<exists>xs. r = RStrs xs \<and> set xs = set (set_at t m k) \<and> (distinct (set_at t m k) \<longrightarrow> distinct xs))"
| "answers (Hget k f) t m r = (r = (case dget (hash_at t m k) f of None \<Rightarrow> RNil | Some s \<Rightarrow> RStr s))"
| "answers (Hgetall k) t m r = (r = RHash (hash_at t m k))"
| "answers (Brpop k) t m r =
     (r = (if list_at t m k = [] then RNil else RItem (last (list_at t m k))))"
| "answers (Lrange k) t m r = (r = RItems (list_at t m k))"
| "answers (Zrem k it) t m r = (r = RInt (if it \<in> fst ` set (zset_at t m k) then 1 else 0))"
| "answers (Zrange k) t m r = (\<exists>xs. r = RItems xs \<and> mset xs = mset (map fst (zset_at t m k)))"
| "answers (ZrangeDue k now n) t m r =
     (\<exists>xs. r = RItems xs \<and> mset xs \<subseteq># mset (due now (zset_at t m k)) \<and>
           length xs = min n (length (due now (zset_at t m k))))"
| "answers (Zcard k) t m r = (r = RInt (int (length (zset_at t m k))))"
| "answers (Zfirst k) t m r =
     (case zset_at t m k of [] \<Rightarrow> r = RNil
      | _ \<Rightarrow> (\<exists>s. r = RReal s \<and> s = Min (snd ` set (zset_at t m k))))"
| "answers (Scan p) t m r =
     (\<exists>ks. r = RStrs ks \<and> set ks = {k. live t m k \<noteq> None \<and> starts_with p k})"
| "answers (Eval sc) t m r = (r = RInt (snd (run_script sc t m)))"
| "answers _ t m r = True"

end
