(* ===== verification/RedisServer.thy ===== *)
theory RedisServer
  imports RedisLaws
begin

text \<open>
  The interface to the outside as locales, an executable server that satisfies them, and the
  command wrappers (the methods of the Redis client) with their weakest-precondition rules.
\<close>

section \<open>The client's methods\<close>

type_synonym 'w exec = "call \<Rightarrow> 'w \<Rightarrow> (exn + reply) \<times> 'w"

definition reply_str :: "reply \<Rightarrow> string option" where
  "reply_str r = (case r of RStr s \<Rightarrow> Some s | _ \<Rightarrow> None)"

definition reply_int :: "reply \<Rightarrow> int" where
  "reply_int r = (case r of RInt i \<Rightarrow> i | _ \<Rightarrow> 0)"

definition reply_strs :: "reply \<Rightarrow> string list" where
  "reply_strs r = (case r of RStrs xs \<Rightarrow> xs | _ \<Rightarrow> [])"

definition reply_items :: "reply \<Rightarrow> qitem list" where
  "reply_items r = (case r of RItems xs \<Rightarrow> xs | _ \<Rightarrow> [])"

lemma reply_simps [simp]:
  "reply_str (RStr s) = Some s" "reply_str RNil = None"
  "reply_int (RInt i) = i" "reply_strs (RStrs xs) = xs" "reply_items (RItems its) = its"
  by (simp_all add: reply_str_def reply_int_def reply_strs_def reply_items_def)

definition r_connect :: "'w exec \<Rightarrow> ('w, unit) io" where
  "r_connect exec = fmapio (\<lambda>_. ()) (exec Connect)"

definition r_close :: "'w exec \<Rightarrow> ('w, unit) io" where
  "r_close exec = fmapio (\<lambda>_. ()) (exec Close)"

text \<open>\<open>time.time()\<close> does not raise; the value of a failing clock is never used (\<open>clock_reads\<close>).\<close>

definition r_time :: "'w exec \<Rightarrow> ('w, real) io" where
  "r_time exec = tryc (fmapio (\<lambda>r. case r of RReal t \<Rightarrow> t | _ \<Rightarrow> 0) (exec Time)) (\<lambda>_. ret 0)"

lemma safe_r_time [intro!]: "safe (r_time exec)"
  unfolding r_time_def by (intro safe_intros)

definition r_exists :: "'w exec \<Rightarrow> string list \<Rightarrow> ('w, int) io" where
  "r_exists exec ks = fmapio reply_int (exec (Exists ks))"

definition r_get :: "'w exec \<Rightarrow> string \<Rightarrow> ('w, string option) io" where
  "r_get exec k = fmapio reply_str (exec (Get k))"

definition r_set :: "'w exec \<Rightarrow> string \<Rightarrow> string \<Rightarrow> int option \<Rightarrow> ('w, unit) io" where
  "r_set exec k v ex = fmapio (\<lambda>_. ()) (exec (SetK k v ex))"

definition r_getdoc :: "'w exec \<Rightarrow> string \<Rightarrow> ('w, qitem option) io" where
  "r_getdoc exec k = fmapio (\<lambda>r. case r of RItem it \<Rightarrow> Some it | _ \<Rightarrow> None) (exec (GetDoc k))"

definition r_setdoc :: "'w exec \<Rightarrow> string \<Rightarrow> qitem \<Rightarrow> int option \<Rightarrow> ('w, unit) io" where
  "r_setdoc exec k it ex = fmapio (\<lambda>_. ()) (exec (SetDoc k it ex))"

definition r_setnx :: "'w exec \<Rightarrow> string \<Rightarrow> string \<Rightarrow> int \<Rightarrow> ('w, bool) io" where
  "r_setnx exec k v px = fmapio (\<lambda>r. r = ROk) (exec (SetNx k v px))"

definition r_del :: "'w exec \<Rightarrow> string list \<Rightarrow> ('w, int) io" where
  "r_del exec ks = fmapio reply_int (exec (Del ks))"

definition r_incr :: "'w exec \<Rightarrow> string \<Rightarrow> ('w, int) io" where
  "r_incr exec k = fmapio reply_int (exec (Incr k))"

definition r_expire :: "'w exec \<Rightarrow> string \<Rightarrow> int \<Rightarrow> ('w, unit) io" where
  "r_expire exec k s = fmapio (\<lambda>_. ()) (exec (Expire k s))"

definition r_getdel :: "'w exec \<Rightarrow> string \<Rightarrow> ('w, string option) io" where
  "r_getdel exec k = fmapio reply_str (exec (GetDel k))"

definition r_sadd :: "'w exec \<Rightarrow> string \<Rightarrow> string \<Rightarrow> ('w, int) io" where
  "r_sadd exec k x = fmapio reply_int (exec (Sadd k x))"

definition r_srem :: "'w exec \<Rightarrow> string \<Rightarrow> string list \<Rightarrow> ('w, unit) io" where
  "r_srem exec k xs = fmapio (\<lambda>_. ()) (exec (Srem k xs))"

definition r_smembers :: "'w exec \<Rightarrow> string \<Rightarrow> ('w, string list) io" where
  "r_smembers exec k = fmapio reply_strs (exec (Smembers k))"

definition r_hset :: "'w exec \<Rightarrow> string \<Rightarrow> (string, string) dict \<Rightarrow> ('w, unit) io" where
  "r_hset exec k fs = fmapio (\<lambda>_. ()) (exec (Hset k fs))"

definition r_hget :: "'w exec \<Rightarrow> string \<Rightarrow> string \<Rightarrow> ('w, string option) io" where
  "r_hget exec k f = fmapio reply_str (exec (Hget k f))"

definition r_hgetall :: "'w exec \<Rightarrow> string \<Rightarrow> ('w, (string, string) dict) io" where
  "r_hgetall exec k = fmapio (\<lambda>r. case r of RHash h \<Rightarrow> h | _ \<Rightarrow> []) (exec (Hgetall k))"

definition r_hdel :: "'w exec \<Rightarrow> string \<Rightarrow> string \<Rightarrow> ('w, unit) io" where
  "r_hdel exec k f = fmapio (\<lambda>_. ()) (exec (Hdel k f))"

definition r_lpush :: "'w exec \<Rightarrow> string \<Rightarrow> qitem \<Rightarrow> ('w, unit) io" where
  "r_lpush exec k it = fmapio (\<lambda>_. ()) (exec (Lpush k it))"

definition r_brpop :: "'w exec \<Rightarrow> string \<Rightarrow> ('w, qitem option) io" where
  "r_brpop exec k = fmapio (\<lambda>r. case r of RItem it \<Rightarrow> Some it | _ \<Rightarrow> None) (exec (Brpop k))"

definition r_lrange :: "'w exec \<Rightarrow> string \<Rightarrow> ('w, qitem list) io" where
  "r_lrange exec k = fmapio reply_items (exec (Lrange k))"

definition r_zadd :: "'w exec \<Rightarrow> string \<Rightarrow> qitem \<Rightarrow> real \<Rightarrow> ('w, unit) io" where
  "r_zadd exec k it s = fmapio (\<lambda>_. ()) (exec (Zadd k it s))"

definition r_zrem :: "'w exec \<Rightarrow> string \<Rightarrow> qitem \<Rightarrow> ('w, int) io" where
  "r_zrem exec k it = fmapio reply_int (exec (Zrem k it))"

definition r_zrange :: "'w exec \<Rightarrow> string \<Rightarrow> ('w, qitem list) io" where
  "r_zrange exec k = fmapio reply_items (exec (Zrange k))"

definition r_zdue :: "'w exec \<Rightarrow> string \<Rightarrow> real \<Rightarrow> nat \<Rightarrow> ('w, qitem list) io" where
  "r_zdue exec k now n = fmapio reply_items (exec (ZrangeDue k now n))"

definition r_zcard :: "'w exec \<Rightarrow> string \<Rightarrow> ('w, int) io" where
  "r_zcard exec k = fmapio reply_int (exec (Zcard k))"

definition r_scan :: "'w exec \<Rightarrow> string \<Rightarrow> ('w, string list) io" where
  "r_scan exec p = fmapio reply_strs (exec (Scan p))"

definition r_eval :: "'w exec \<Rightarrow> script \<Rightarrow> ('w, int) io" where
  "r_eval exec sc = fmapio reply_int (exec (Eval sc))"

section \<open>What is assumed of the outside\<close>

definition is_redis :: "call \<Rightarrow> bool" where
  "is_redis c = (case c of BrokerPublish _ \<Rightarrow> False | BrokerPurge \<Rightarrow> False | DeleteMessage _ _ \<Rightarrow> False
     | OpenBot \<Rightarrow> False | EditMessage _ _ _ \<Rightarrow> False | SendMessage _ _ \<Rightarrow> False | _ \<Rightarrow> True)"

text \<open>
  \<open>redis_server\<close>: a reply is truthful, a failure leaves the key space as it was or as the command
  makes it, and time does not run backwards; reading the clock cannot fail.
\<close>

locale redis_server =
  fixes exec :: "call \<Rightarrow> 'w \<Rightarrow> (exn + reply) \<times> 'w"
    and kv :: "'w \<Rightarrow> store"
    and clock :: "'w \<Rightarrow> real"
  assumes time_forward: "exec c w = (r, w') \<Longrightarrow> clock w \<le> clock w'"
    and replied: "exec c w = (Inr a, w') \<Longrightarrow>
      call_ok c (clock w) (kv w) \<and> answers c (clock w) (kv w) a \<and> kv w' = effect c (clock w) (kv w)"
    and failed: "exec c w = (Inl e, w') \<Longrightarrow>
      kv w' = kv w \<or> (call_ok c (clock w) (kv w) \<and> kv w' = effect c (clock w) (kv w))"
    and clock_reads: "exec Time w \<noteq> (Inl e, w')"

text \<open>\<open>redis_up\<close>: a well-typed command succeeds, and no deadline passes while an operation runs.\<close>

locale redis_up = redis_server +
  assumes up: "is_redis c \<Longrightarrow> call_ok c (clock w) (kv w) \<Longrightarrow> exec c w \<noteq> (Inl e, w')"
    and instant: "exec c w = (r, w') \<Longrightarrow> clock w' = clock w"

context redis_server begin

lemma wp_exec:
  assumes "\<And>a w'. clock w \<le> clock w' \<Longrightarrow> call_ok c (clock w) (kv w) \<Longrightarrow> answers c (clock w) (kv w) a \<Longrightarrow>
      kv w' = effect c (clock w) (kv w) \<Longrightarrow> Q a w'"
    and "\<And>e w'. clock w \<le> clock w' \<Longrightarrow> c \<noteq> Time \<Longrightarrow>
      kv w' = kv w \<or> (call_ok c (clock w) (kv w) \<and> kv w' = effect c (clock w) (kv w)) \<Longrightarrow> E e w'"
  shows "wp (exec c) Q E w"
  using assms replied [of c w] failed [of c w] time_forward [of c w] clock_reads [of w]
  by (intro wpI) blast+

lemma wp_read:
  assumes "\<And>t m. effect c t m = m"
    and "\<And>a w'. clock w \<le> clock w' \<Longrightarrow> call_ok c (clock w) (kv w) \<Longrightarrow> answers c (clock w) (kv w) a \<Longrightarrow>
      kv w' = kv w \<Longrightarrow> Q a w'"
    and "\<And>e w'. clock w \<le> clock w' \<Longrightarrow> c \<noteq> Time \<Longrightarrow> kv w' = kv w \<Longrightarrow> E e w'"
  shows "wp (exec c) Q E w"
  by (rule wp_exec) (use assms in auto)

text \<open>A read leaves the key space alone, whether it succeeds or raises.\<close>

lemma wp_r_time:
  "(\<And>w'. clock w \<le> clock w' \<Longrightarrow> kv w' = kv w \<Longrightarrow> Q (clock w) w') \<Longrightarrow> wp (r_time exec) Q E w"
  unfolding r_time_def wp_fmapio wp_tryc by (rule wp_read) auto

lemma wp_r_connect:
  "(\<And>w'. clock w \<le> clock w' \<Longrightarrow> kv w' = kv w \<Longrightarrow> Q () w') \<Longrightarrow>
   (\<And>e w'. clock w \<le> clock w' \<Longrightarrow> kv w' = kv w \<Longrightarrow> E e w') \<Longrightarrow> wp (r_connect exec) Q E w"
  unfolding r_connect_def wp_fmapio by (rule wp_read) auto

lemma wp_r_close:
  "(\<And>w'. clock w \<le> clock w' \<Longrightarrow> kv w' = kv w \<Longrightarrow> Q () w') \<Longrightarrow>
   (\<And>e w'. clock w \<le> clock w' \<Longrightarrow> kv w' = kv w \<Longrightarrow> E e w') \<Longrightarrow> wp (r_close exec) Q E w"
  unfolding r_close_def wp_fmapio by (rule wp_read) auto

lemma wp_r_exists:
  "(\<And>w'. clock w \<le> clock w' \<Longrightarrow> kv w' = kv w \<Longrightarrow>
      Q (int (length (filter (\<lambda>k. live (clock w) (kv w) k \<noteq> None) ks))) w') \<Longrightarrow>
   (\<And>e w'. clock w \<le> clock w' \<Longrightarrow> kv w' = kv w \<Longrightarrow> E e w') \<Longrightarrow> wp (r_exists exec ks) Q E w"
  unfolding r_exists_def wp_fmapio by (rule wp_read) auto

lemma wp_r_get:
  "(\<And>w'. clock w \<le> clock w' \<Longrightarrow> kv w' = kv w \<Longrightarrow> Q (str_at (clock w) (kv w) k) w') \<Longrightarrow>
   (\<And>e w'. clock w \<le> clock w' \<Longrightarrow> kv w' = kv w \<Longrightarrow> E e w') \<Longrightarrow> wp (r_get exec k) Q E w"
  unfolding r_get_def wp_fmapio by (rule wp_read) (auto split: option.splits)

lemma wp_r_getdoc:
  "(\<And>w'. clock w \<le> clock w' \<Longrightarrow> kv w' = kv w \<Longrightarrow> Q (doc_at (clock w) (kv w) k) w') \<Longrightarrow>
   (\<And>e w'. clock w \<le> clock w' \<Longrightarrow> kv w' = kv w \<Longrightarrow> E e w') \<Longrightarrow> wp (r_getdoc exec k) Q E w"
  unfolding r_getdoc_def wp_fmapio by (rule wp_read) (auto split: option.splits)

lemma wp_r_smembers:
  "(\<And>xs w'. clock w \<le> clock w' \<Longrightarrow> kv w' = kv w \<Longrightarrow> set xs = set (set_at (clock w) (kv w) k) \<Longrightarrow> Q xs w') \<Longrightarrow>
   (\<And>e w'. clock w \<le> clock w' \<Longrightarrow> kv w' = kv w \<Longrightarrow> E e w') \<Longrightarrow> wp (r_smembers exec k) Q E w"
  unfolding r_smembers_def wp_fmapio by (rule wp_read) auto

lemma wp_r_hget:
  "(\<And>w'. clock w \<le> clock w' \<Longrightarrow> kv w' = kv w \<Longrightarrow> Q (dget (hash_at (clock w) (kv w) k) f) w') \<Longrightarrow>
   (\<And>e w'. clock w \<le> clock w' \<Longrightarrow> kv w' = kv w \<Longrightarrow> E e w') \<Longrightarrow> wp (r_hget exec k f) Q E w"
  unfolding r_hget_def wp_fmapio by (rule wp_read) (auto split: option.splits)

lemma wp_r_hgetall:
  "(\<And>w'. clock w \<le> clock w' \<Longrightarrow> kv w' = kv w \<Longrightarrow> Q (hash_at (clock w) (kv w) k) w') \<Longrightarrow>
   (\<And>e w'. clock w \<le> clock w' \<Longrightarrow> kv w' = kv w \<Longrightarrow> E e w') \<Longrightarrow> wp (r_hgetall exec k) Q E w"
  unfolding r_hgetall_def wp_fmapio by (rule wp_read) auto

lemma wp_r_lrange:
  "(\<And>w'. clock w \<le> clock w' \<Longrightarrow> kv w' = kv w \<Longrightarrow> Q (list_at (clock w) (kv w) k) w') \<Longrightarrow>
   (\<And>e w'. clock w \<le> clock w' \<Longrightarrow> kv w' = kv w \<Longrightarrow> E e w') \<Longrightarrow> wp (r_lrange exec k) Q E w"
  unfolding r_lrange_def wp_fmapio by (rule wp_read) auto

lemma wp_r_zrange:
  "(\<And>xs w'. clock w \<le> clock w' \<Longrightarrow> kv w' = kv w \<Longrightarrow> mset xs = mset (map fst (zset_at (clock w) (kv w) k)) \<Longrightarrow> Q xs w') \<Longrightarrow>
   (\<And>e w'. clock w \<le> clock w' \<Longrightarrow> kv w' = kv w \<Longrightarrow> E e w') \<Longrightarrow> wp (r_zrange exec k) Q E w"
  unfolding r_zrange_def wp_fmapio by (rule wp_read) auto

lemma wp_r_zdue:
  "(\<And>xs w'. clock w \<le> clock w' \<Longrightarrow> kv w' = kv w \<Longrightarrow> mset xs \<subseteq># mset (due now (zset_at (clock w) (kv w) k)) \<Longrightarrow> Q xs w') \<Longrightarrow>
   (\<And>e w'. clock w \<le> clock w' \<Longrightarrow> kv w' = kv w \<Longrightarrow> E e w') \<Longrightarrow> wp (r_zdue exec k now n) Q E w"
  unfolding r_zdue_def wp_fmapio by (rule wp_read) auto

lemma wp_r_scan:
  "(\<And>ks w'. clock w \<le> clock w' \<Longrightarrow> kv w' = kv w \<Longrightarrow>
      set ks = {k. live (clock w) (kv w) k \<noteq> None \<and> starts_with p k} \<Longrightarrow> Q ks w') \<Longrightarrow>
   (\<And>e w'. clock w \<le> clock w' \<Longrightarrow> kv w' = kv w \<Longrightarrow> E e w') \<Longrightarrow> wp (r_scan exec p) Q E w"
  unfolding r_scan_def wp_fmapio by (rule wp_read) auto

text \<open>A write that raises may have happened.\<close>

lemma wp_r_set:
  "(\<And>w'. clock w \<le> clock w' \<Longrightarrow> kv w' = (kv w)(k \<mapsto> (VStr v, secs ex (clock w))) \<Longrightarrow> Q () w') \<Longrightarrow>
   (\<And>e w'. clock w \<le> clock w' \<Longrightarrow>
      kv w' = kv w \<or> kv w' = (kv w)(k \<mapsto> (VStr v, secs ex (clock w))) \<Longrightarrow> E e w') \<Longrightarrow>
   wp (r_set exec k v ex) Q E w"
  unfolding r_set_def wp_fmapio by (rule wp_exec) auto

lemma wp_r_setdoc:
  "(\<And>w'. clock w \<le> clock w' \<Longrightarrow> kv w' = (kv w)(k \<mapsto> (VDoc it, secs ex (clock w))) \<Longrightarrow> Q () w') \<Longrightarrow>
   (\<And>e w'. clock w \<le> clock w' \<Longrightarrow>
      kv w' = kv w \<or> kv w' = (kv w)(k \<mapsto> (VDoc it, secs ex (clock w))) \<Longrightarrow> E e w') \<Longrightarrow>
   wp (r_setdoc exec k it ex) Q E w"
  unfolding r_setdoc_def wp_fmapio by (rule wp_exec) auto

lemma wp_r_setnx:
  "(\<And>w'. clock w \<le> clock w' \<Longrightarrow> kv w' = effect (SetNx k v ms) (clock w) (kv w) \<Longrightarrow>
      Q (live (clock w) (kv w) k = None) w') \<Longrightarrow>
   (\<And>e w'. clock w \<le> clock w' \<Longrightarrow>
      kv w' = kv w \<or> kv w' = effect (SetNx k v ms) (clock w) (kv w) \<Longrightarrow> E e w') \<Longrightarrow>
   wp (r_setnx exec k v ms) Q E w"
  unfolding r_setnx_def wp_fmapio by (rule wp_exec) auto

lemma wp_r_del:
  "(\<And>w'. clock w \<le> clock w' \<Longrightarrow> kv w' = wipe ks (kv w) \<Longrightarrow>
      Q (int (length (filter (\<lambda>k. live (clock w) (kv w) k \<noteq> None) (remdups ks)))) w') \<Longrightarrow>
   (\<And>e w'. clock w \<le> clock w' \<Longrightarrow> kv w' = kv w \<or> kv w' = wipe ks (kv w) \<Longrightarrow> E e w') \<Longrightarrow>
   wp (r_del exec ks) Q E w"
  unfolding r_del_def wp_fmapio by (rule wp_exec) auto

lemma wp_r_eval:
  "(\<And>w'. clock w \<le> clock w' \<Longrightarrow> call_ok (Eval sc) (clock w) (kv w) \<Longrightarrow>
      kv w' = fst (run_script sc (clock w) (kv w)) \<Longrightarrow> Q (snd (run_script sc (clock w) (kv w))) w') \<Longrightarrow>
   (\<And>e w'. clock w \<le> clock w' \<Longrightarrow>
      kv w' = kv w \<or> (call_ok (Eval sc) (clock w) (kv w) \<and> kv w' = fst (run_script sc (clock w) (kv w))) \<Longrightarrow> E e w') \<Longrightarrow>
   wp (r_eval exec sc) Q E w"
  unfolding r_eval_def wp_fmapio by (rule wp_exec) auto

lemma wp_write:
  assumes "\<And>a w'. clock w \<le> clock w' \<Longrightarrow> call_ok c (clock w) (kv w) \<Longrightarrow> answers c (clock w) (kv w) a \<Longrightarrow>
      kv w' = effect c (clock w) (kv w) \<Longrightarrow> Q (f a) w'"
    and "\<And>e w'. clock w \<le> clock w' \<Longrightarrow>
      kv w' = kv w \<or> (call_ok c (clock w) (kv w) \<and> kv w' = effect c (clock w) (kv w)) \<Longrightarrow> E e w'"
  shows "wp (fmapio f (exec c)) Q E w"
  unfolding wp_fmapio by (rule wp_exec) (use assms in auto)

lemmas wp_r_incr = wp_write [of _ "Incr k" _ reply_int for k, folded r_incr_def]
lemmas wp_r_expire = wp_write [of _ "Expire k s" _ "\<lambda>_. ()" for k s, folded r_expire_def]
lemmas wp_r_getdel = wp_write [of _ "GetDel k" _ reply_str for k, folded r_getdel_def]
lemmas wp_r_sadd = wp_write [of _ "Sadd k x" _ reply_int for k x, folded r_sadd_def]
lemmas wp_r_srem = wp_write [of _ "Srem k xs" _ "\<lambda>_. ()" for k xs, folded r_srem_def]
lemmas wp_r_hset = wp_write [of _ "Hset k fs" _ "\<lambda>_. ()" for k fs, folded r_hset_def]
lemmas wp_r_hdel = wp_write [of _ "Hdel k f" _ "\<lambda>_. ()" for k f, folded r_hdel_def]
lemmas wp_r_lpush = wp_write [of _ "Lpush k it" _ "\<lambda>_. ()" for k it, folded r_lpush_def]
lemmas wp_r_zadd = wp_write [of _ "Zadd k it s" _ "\<lambda>_. ()" for k it s, folded r_zadd_def]
lemmas wp_r_zrem = wp_write [of _ "Zrem k it" _ reply_int for k it, folded r_zrem_def]

lemma wp_r_brpop:
  "(\<And>w'. clock w \<le> clock w' \<Longrightarrow> kv w' = effect (Brpop k) (clock w) (kv w) \<Longrightarrow>
      Q (if list_at (clock w) (kv w) k = [] then None else Some (last (list_at (clock w) (kv w) k))) w') \<Longrightarrow>
   (\<And>e w'. clock w \<le> clock w' \<Longrightarrow>
      kv w' = kv w \<or> kv w' = effect (Brpop k) (clock w) (kv w) \<Longrightarrow> E e w') \<Longrightarrow>
   wp (r_brpop exec k) Q E w"
  unfolding r_brpop_def wp_fmapio by (rule wp_exec) (auto split: if_splits)

end

section \<open>A server that is up\<close>

context redis_up begin

lemma wp_up:
  assumes "is_redis c" and "call_ok c (clock w) (kv w)"
    and "\<And>a w'. clock w' = clock w \<Longrightarrow> answers c (clock w) (kv w) a \<Longrightarrow>
      kv w' = effect c (clock w) (kv w) \<Longrightarrow> Q (f a) w'"
  shows "wp (fmapio f (exec c)) Q E w"
  unfolding wp_fmapio
  by (rule wpI) (use assms up [of c w] replied [of c w] instant [of c w] in blast)+

lemma up_time: "(\<And>w'. clock w' = clock w \<Longrightarrow> kv w' = kv w \<Longrightarrow> Q (clock w) w') \<Longrightarrow> wp (r_time exec) Q E w"
  unfolding r_time_def wp_tryc by (rule wp_up) (auto simp: is_redis_def)

lemma up_connect: "(\<And>w'. clock w' = clock w \<Longrightarrow> kv w' = kv w \<Longrightarrow> Q () w') \<Longrightarrow> wp (r_connect exec) Q E w"
  unfolding r_connect_def by (rule wp_up) (auto simp: is_redis_def)

lemma up_close: "(\<And>w'. clock w' = clock w \<Longrightarrow> kv w' = kv w \<Longrightarrow> Q () w') \<Longrightarrow> wp (r_close exec) Q E w"
  unfolding r_close_def by (rule wp_up) (auto simp: is_redis_def)

lemma up_exists:
  "(\<And>w'. clock w' = clock w \<Longrightarrow> kv w' = kv w \<Longrightarrow>
      Q (int (length (filter (\<lambda>k. live (clock w) (kv w) k \<noteq> None) ks))) w') \<Longrightarrow> wp (r_exists exec ks) Q E w"
  unfolding r_exists_def by (rule wp_up) (auto simp: is_redis_def)

lemma up_get:
  "is_str (live (clock w) (kv w) k) \<Longrightarrow>
   (\<And>w'. clock w' = clock w \<Longrightarrow> kv w' = kv w \<Longrightarrow> Q (str_at (clock w) (kv w) k) w') \<Longrightarrow> wp (r_get exec k) Q E w"
  unfolding r_get_def by (rule wp_up) (auto simp: is_redis_def split: option.splits)

lemma up_smembers:
  "is_set (live (clock w) (kv w) k) \<Longrightarrow>
   (\<And>xs w'. clock w' = clock w \<Longrightarrow> kv w' = kv w \<Longrightarrow> set xs = set (set_at (clock w) (kv w) k) \<Longrightarrow> Q xs w') \<Longrightarrow>
   wp (r_smembers exec k) Q E w"
  unfolding r_smembers_def by (rule wp_up) (auto simp: is_redis_def)

lemma up_hget:
  "is_hash (live (clock w) (kv w) k) \<Longrightarrow>
   (\<And>w'. clock w' = clock w \<Longrightarrow> kv w' = kv w \<Longrightarrow> Q (dget (hash_at (clock w) (kv w) k) f) w') \<Longrightarrow>
   wp (r_hget exec k f) Q E w"
  unfolding r_hget_def by (rule wp_up) (auto simp: is_redis_def split: option.splits)

lemma up_hgetall:
  "is_hash (live (clock w) (kv w) k) \<Longrightarrow>
   (\<And>w'. clock w' = clock w \<Longrightarrow> kv w' = kv w \<Longrightarrow> Q (hash_at (clock w) (kv w) k) w') \<Longrightarrow>
   wp (r_hgetall exec k) Q E w"
  unfolding r_hgetall_def by (rule wp_up) (auto simp: is_redis_def)

lemma up_scan:
  "(\<And>ks w'. clock w' = clock w \<Longrightarrow> kv w' = kv w \<Longrightarrow>
      set ks = {k. live (clock w) (kv w) k \<noteq> None \<and> starts_with p k} \<Longrightarrow> Q ks w') \<Longrightarrow> wp (r_scan exec p) Q E w"
  unfolding r_scan_def by (rule wp_up) (auto simp: is_redis_def)

lemma up_set:
  "(\<And>w'. clock w' = clock w \<Longrightarrow> kv w' = (kv w)(k \<mapsto> (VStr v, secs ex (clock w))) \<Longrightarrow> Q () w') \<Longrightarrow>
   wp (r_set exec k v ex) Q E w"
  unfolding r_set_def by (rule wp_up) (auto simp: is_redis_def)

lemma up_setdoc:
  "(\<And>w'. clock w' = clock w \<Longrightarrow> kv w' = (kv w)(k \<mapsto> (VDoc it, secs ex (clock w))) \<Longrightarrow> Q () w') \<Longrightarrow>
   wp (r_setdoc exec k it ex) Q E w"
  unfolding r_setdoc_def by (rule wp_up) (auto simp: is_redis_def)

lemma up_getdoc:
  "is_doc (live (clock w) (kv w) k) \<Longrightarrow>
   (\<And>w'. clock w' = clock w \<Longrightarrow> kv w' = kv w \<Longrightarrow> Q (doc_at (clock w) (kv w) k) w') \<Longrightarrow> wp (r_getdoc exec k) Q E w"
  unfolding r_getdoc_def by (rule wp_up) (auto simp: is_redis_def split: option.splits)

lemma up_zadd:
  "is_zset (live (clock w) (kv w) k) \<Longrightarrow>
   (\<And>w'. clock w' = clock w \<Longrightarrow> kv w' = effect (Zadd k it s) (clock w) (kv w) \<Longrightarrow> Q () w') \<Longrightarrow>
   wp (r_zadd exec k it s) Q E w"
  unfolding r_zadd_def by (rule wp_up) (auto simp: is_redis_def)

lemma up_setnx:
  "(\<And>w'. clock w' = clock w \<Longrightarrow> kv w' = effect (SetNx k v ms) (clock w) (kv w) \<Longrightarrow>
      Q (live (clock w) (kv w) k = None) w') \<Longrightarrow> wp (r_setnx exec k v ms) Q E w"
  unfolding r_setnx_def by (rule wp_up) (auto simp: is_redis_def)

lemma up_del:
  "(\<And>w'. clock w' = clock w \<Longrightarrow> kv w' = wipe ks (kv w) \<Longrightarrow>
      Q (int (length (filter (\<lambda>k. live (clock w) (kv w) k \<noteq> None) (remdups ks)))) w') \<Longrightarrow>
   wp (r_del exec ks) Q E w"
  unfolding r_del_def by (rule wp_up) (auto simp: is_redis_def)

lemma up_eval:
  "call_ok (Eval sc) (clock w) (kv w) \<Longrightarrow>
   (\<And>w'. clock w' = clock w \<Longrightarrow> kv w' = fst (run_script sc (clock w) (kv w)) \<Longrightarrow>
      Q (snd (run_script sc (clock w) (kv w))) w') \<Longrightarrow> wp (r_eval exec sc) Q E w"
  unfolding r_eval_def by (rule wp_up) (auto simp: is_redis_def)

lemma up_sadd:
  "is_set (live (clock w) (kv w) k) \<Longrightarrow>
   (\<And>w'. clock w' = clock w \<Longrightarrow> kv w' = effect (Sadd k x) (clock w) (kv w) \<Longrightarrow>
      Q (if x \<in> set (set_at (clock w) (kv w) k) then 0 else 1) w') \<Longrightarrow> wp (r_sadd exec k x) Q E w"
  unfolding r_sadd_def by (rule wp_up) (auto simp: is_redis_def)

lemma up_srem:
  "is_set (live (clock w) (kv w) k) \<Longrightarrow>
   (\<And>w'. clock w' = clock w \<Longrightarrow> kv w' = effect (Srem k xs) (clock w) (kv w) \<Longrightarrow> Q () w') \<Longrightarrow>
   wp (r_srem exec k xs) Q E w"
  unfolding r_srem_def by (rule wp_up) (auto simp: is_redis_def)

lemma up_expire:
  "(\<And>w'. clock w' = clock w \<Longrightarrow> kv w' = effect (Expire k s) (clock w) (kv w) \<Longrightarrow> Q () w') \<Longrightarrow>
   wp (r_expire exec k s) Q E w"
  unfolding r_expire_def by (rule wp_up) (auto simp: is_redis_def)

lemma up_hset:
  "is_hash (live (clock w) (kv w) k) \<Longrightarrow>
   (\<And>w'. clock w' = clock w \<Longrightarrow> kv w' = effect (Hset k fs) (clock w) (kv w) \<Longrightarrow> Q () w') \<Longrightarrow>
   wp (r_hset exec k fs) Q E w"
  unfolding r_hset_def by (rule wp_up) (auto simp: is_redis_def)

lemma up_hdel:
  "is_hash (live (clock w) (kv w) k) \<Longrightarrow>
   (\<And>w'. clock w' = clock w \<Longrightarrow> kv w' = effect (Hdel k f) (clock w) (kv w) \<Longrightarrow> Q () w') \<Longrightarrow>
   wp (r_hdel exec k f) Q E w"
  unfolding r_hdel_def by (rule wp_up) (auto simp: is_redis_def)

lemma up_lpush:
  "is_list (live (clock w) (kv w) k) \<Longrightarrow>
   (\<And>w'. clock w' = clock w \<Longrightarrow> kv w' = effect (Lpush k it) (clock w) (kv w) \<Longrightarrow> Q () w') \<Longrightarrow>
   wp (r_lpush exec k it) Q E w"
  unfolding r_lpush_def by (rule wp_up) (auto simp: is_redis_def)

lemma up_lrange:
  "is_list (live (clock w) (kv w) k) \<Longrightarrow>
   (\<And>w'. clock w' = clock w \<Longrightarrow> kv w' = kv w \<Longrightarrow> Q (list_at (clock w) (kv w) k) w') \<Longrightarrow>
   wp (r_lrange exec k) Q E w"
  unfolding r_lrange_def by (rule wp_up) (auto simp: is_redis_def)

lemma up_zrange:
  "is_zset (live (clock w) (kv w) k) \<Longrightarrow>
   (\<And>xs w'. clock w' = clock w \<Longrightarrow> kv w' = kv w \<Longrightarrow> mset xs = mset (map fst (zset_at (clock w) (kv w) k)) \<Longrightarrow> Q xs w') \<Longrightarrow>
   wp (r_zrange exec k) Q E w"
  unfolding r_zrange_def by (rule wp_up) (auto simp: is_redis_def)

lemma up_zrem:
  "is_zset (live (clock w) (kv w) k) \<Longrightarrow>
   (\<And>w'. clock w' = clock w \<Longrightarrow> kv w' = effect (Zrem k it) (clock w) (kv w) \<Longrightarrow>
      Q (if it \<in> fst ` set (zset_at (clock w) (kv w) k) then 1 else 0) w') \<Longrightarrow> wp (r_zrem exec k it) Q E w"
  unfolding r_zrem_def by (rule wp_up) (auto simp: is_redis_def)

lemma up_zdue:
  "is_zset (live (clock w) (kv w) k) \<Longrightarrow>
   (\<And>xs w'. clock w' = clock w \<Longrightarrow> kv w' = kv w \<Longrightarrow> mset xs \<subseteq># mset (due now (zset_at (clock w) (kv w) k)) \<Longrightarrow>
      length xs = min n (length (due now (zset_at (clock w) (kv w) k))) \<Longrightarrow> Q xs w') \<Longrightarrow>
   wp (r_zdue exec k now n) Q E w"
  unfolding r_zdue_def by (rule wp_up) (auto simp: is_redis_def)

lemma up_brpop:
  "is_list (live (clock w) (kv w) k) \<Longrightarrow>
   (\<And>w'. clock w' = clock w \<Longrightarrow> kv w' = effect (Brpop k) (clock w) (kv w) \<Longrightarrow>
      Q (if list_at (clock w) (kv w) k = [] then None else Some (last (list_at (clock w) (kv w) k))) w') \<Longrightarrow>
   wp (r_brpop exec k) Q E w"
  unfolding r_brpop_def by (rule wp_up) (auto simp: is_redis_def split: if_splits)

end

section \<open>A server held in memory\<close>

text \<open>
  The key space as an association list and a clock that stands still: the instance the witnesses
  run on.  A command changes the keys it names, as \<open>effect\<close> says, and is refused on a wrong type.
\<close>

record mem =
  mstore :: "(string \<times> entry) list"
  mclock :: real

definition mkv :: "mem \<Rightarrow> store" where
  "mkv w = map_of (mstore w)"

fun touched :: "call \<Rightarrow> string list" where
  "touched (SetK k v ex) = [k]"
| "touched (SetDoc k it ex) = [k]"
| "touched (SetNx k v ms) = [k]"
| "touched (Del ks) = ks"
| "touched (GetDel k) = [k]"
| "touched (Incr k) = [k]"
| "touched (Expire k s) = [k]"
| "touched (Sadd k x) = [k]"
| "touched (Srem k xs) = [k]"
| "touched (Hset k fs) = [k]"
| "touched (Hdel k f) = [k]"
| "touched (Lpush k it) = [k]"
| "touched (Brpop k) = [k]"
| "touched (Zadd k it s) = [k]"
| "touched (Zrem k it) = [k]"
| "touched (ZremUpto k c) = [k]"
| "touched (Eval sc) = [script_key sc]"
| "touched _ = []"

lemma put_simps:
  "k' \<noteq> k \<Longrightarrow> put_list k xs d m k' = m k'" "k' \<noteq> k \<Longrightarrow> put_set k ys d m k' = m k'"
  "k' \<noteq> k \<Longrightarrow> put_hash k h d m k' = m k'" "k' \<noteq> k \<Longrightarrow> put_zset k zs d m k' = m k'" "k' \<noteq> k \<Longrightarrow> wipe [k] m k' = m k'"
  by (simp_all add: put_list_def put_set_def put_hash_def put_zset_def wipe_def)

lemma run_script_untouched: "k \<noteq> script_key sc \<Longrightarrow> fst (run_script sc t m) k = m k"
  by (cases sc)
    (simp_all add: lua_release_def lua_refresh_def lua_renew_def lua_steal_def lua_prune_job_def lua_prune_batch_def
      lua_flood_extend_def lua_conv_start_def put_simps Let_def split: prod.splits option.splits)

lemma effect_untouched: "k \<notin> set (touched c) \<Longrightarrow> effect c t m k = m k"
  by (cases c) (simp_all add: put_simps wipe_def run_script_untouched split: option.splits)

definition apply_entry :: "string \<Rightarrow> entry option \<Rightarrow> (string \<times> entry) list \<Rightarrow> (string \<times> entry) list" where
  "apply_entry k e al = (case e of None \<Rightarrow> AList.delete k al | Some v \<Rightarrow> AList.update k v al)"

fun apply_keys :: "store \<Rightarrow> string list \<Rightarrow> (string \<times> entry) list \<Rightarrow> (string \<times> entry) list" where
  "apply_keys m [] al = al"
| "apply_keys m (k # ks) al = apply_keys m ks (apply_entry k (m k) al)"

lemma map_of_apply_keys:
  "map_of (apply_keys m ks al) k = (if k \<in> set ks then m k else map_of al k)"
proof (induction ks arbitrary: al)
  case Nil
  then show ?case by simp
next
  case (Cons a ks)
  have "map_of (apply_entry a (m a) al) = (map_of al)(a := m a)"
    by (auto simp: apply_entry_def update_conv' delete_conv' split: option.splits)
  with Cons show ?case by auto
qed

fun mem_reply :: "call \<Rightarrow> real \<Rightarrow> (string \<times> entry) list \<Rightarrow> reply" where
  "mem_reply Time t al = RReal t"
| "mem_reply (Exists ks) t al = RInt (int (length (filter (\<lambda>k. live t (map_of al) k \<noteq> None) ks)))"
| "mem_reply (Get k) t al = (case str_at t (map_of al) k of None \<Rightarrow> RNil | Some s \<Rightarrow> RStr s)"
| "mem_reply (GetDel k) t al = (case str_at t (map_of al) k of None \<Rightarrow> RNil | Some s \<Rightarrow> RStr s)"
| "mem_reply (GetDoc k) t al = (case doc_at t (map_of al) k of None \<Rightarrow> RNil | Some it \<Rightarrow> RItem it)"
| "mem_reply (SetNx k v ms) t al = (if live t (map_of al) k = None then ROk else RNil)"
| "mem_reply (Del ks) t al = RInt (int (length (filter (\<lambda>k. live t (map_of al) k \<noteq> None) (remdups ks))))"
| "mem_reply (Incr k) t al =
     RInt (case Option.bind (str_at t (map_of al) k) py_int of None \<Rightarrow> 1 | Some n \<Rightarrow> n + 1)"
| "mem_reply (Sadd k x) t al = RInt (if x \<in> set (set_at t (map_of al) k) then 0 else 1)"
| "mem_reply (Smembers k) t al = RStrs (set_at t (map_of al) k)"
| "mem_reply (Hget k f) t al = (case dget (hash_at t (map_of al) k) f of None \<Rightarrow> RNil | Some s \<Rightarrow> RStr s)"
| "mem_reply (Hgetall k) t al = RHash (hash_at t (map_of al) k)"
| "mem_reply (Brpop k) t al =
     (if list_at t (map_of al) k = [] then RNil else RItem (last (list_at t (map_of al) k)))"
| "mem_reply (Lrange k) t al = RItems (list_at t (map_of al) k)"
| "mem_reply (Zrem k it) t al = RInt (if it \<in> fst ` set (zset_at t (map_of al) k) then 1 else 0)"
| "mem_reply (Zrange k) t al = RItems (map fst (zset_at t (map_of al) k))"
| "mem_reply (ZrangeDue k now n) t al = RItems (take n (due now (zset_at t (map_of al) k)))"
| "mem_reply (Zcard k) t al = RInt (int (length (zset_at t (map_of al) k)))"
| "mem_reply (Zfirst k) t al =
     (case zset_at t (map_of al) k of [] \<Rightarrow> RNil | z # zs \<Rightarrow> RReal (Min (snd ` set (z # zs))))"
| "mem_reply (Scan p) t al =
     RStrs (filter (\<lambda>k. live t (map_of al) k \<noteq> None \<and> starts_with p k) (map fst al))"
| "mem_reply (Eval sc) t al = RInt (snd (run_script sc t (map_of al)))"
| "mem_reply _ t al = ROk"

lemma live_present: "live t m k = Some v \<Longrightarrow> \<exists>a b. m k = Some (a, b)"
  by (auto simp: live_def split: option.splits)

lemma mem_reply_answers: "answers c t (map_of al) (mem_reply c t al)"
proof (cases c)
  case (Scan p)
  then show ?thesis
    by (auto simp: dom_map_of_conv_image_fst [symmetric] dest: live_present)
next
  case (ZrangeDue k now n)
  let ?d = "due now (zset_at t (map_of al) k)"
  have "mset (take n ?d) \<subseteq># mset ?d"
    by (metis append_take_drop_id mset_append mset_subset_eq_add_left)
  then show ?thesis using ZrangeDue by (auto simp: min_def)
qed (auto split: list.splits option.splits)

definition mem_exec :: "call \<Rightarrow> mem \<Rightarrow> (exn + reply) \<times> mem" where
  "mem_exec c w =
     (if call_ok c (mclock w) (mkv w)
      then (Inr (mem_reply c (mclock w) (mstore w)),
            w\<lparr>mstore := apply_keys (effect c (mclock w) (mkv w)) (touched c) (mstore w)\<rparr>)
      else (Inl ResponseError, w))"

lemma mkv_mem_exec:
  "mkv (w\<lparr>mstore := apply_keys (effect c (mclock w) (mkv w)) (touched c) (mstore w)\<rparr>) =
     effect c (mclock w) (mkv w)"
  by (rule ext) (auto simp: mkv_def map_of_apply_keys effect_untouched)

interpretation memory: redis_up mem_exec mkv mclock
proof unfold_locales
  fix c w e r a w'
  show "mem_exec c w = (r, w') \<Longrightarrow> mclock w \<le> mclock w'"
    by (auto simp: mem_exec_def split: if_splits)
  show "mem_exec c w = (r, w') \<Longrightarrow> mclock w' = mclock w"
    by (auto simp: mem_exec_def split: if_splits)
  show "mem_exec c w = (Inr a, w') \<Longrightarrow>
      call_ok c (mclock w) (mkv w) \<and> answers c (mclock w) (mkv w) a \<and> mkv w' = effect c (mclock w) (mkv w)"
    using mem_reply_answers [of c "mclock w" "mstore w"]
    by (auto simp: mem_exec_def mkv_mem_exec simp flip: mkv_def split: if_splits)
  show "mem_exec c w = (Inl e, w') \<Longrightarrow>
      mkv w' = mkv w \<or> (call_ok c (mclock w) (mkv w) \<and> mkv w' = effect c (mclock w) (mkv w))"
    by (auto simp: mem_exec_def split: if_splits)
  show "mem_exec Time w \<noteq> (Inl e, w')"
    by (simp add: mem_exec_def)
  show "is_redis c \<Longrightarrow> call_ok c (mclock w) (mkv w) \<Longrightarrow> mem_exec c w \<noteq> (Inl e, w')"
    by (simp add: mem_exec_def)
qed

lemma memory_server: "redis_server mem_exec mkv mclock"
  by (rule memory.redis_server_axioms)

lemma memory_up: "redis_up mem_exec mkv mclock"
  by (rule memory.redis_up_axioms)

end
