(* ===== verification/BatchKeys.thy ===== *)
theory BatchKeys
  imports RedisServer
begin

text \<open>
  \<open>utils/batch_pipeline.py\<close>, the configuration and the names of its keys: the settings read from
  the environment, the key builders, the progress message's location, the tombstone's value and
  the fields that tag a job as a batch member.  Shown: keys of distinct batches and of distinct
  purposes never coincide, and the encodings read back.
\<close>

section \<open>Settings\<close>

type_synonym env = "string \<Rightarrow> string option"

definition env_int :: "env \<Rightarrow> string \<Rightarrow> int \<Rightarrow> int" where
  "env_int env name dflt =
     (case env name of
        None \<Rightarrow> dflt
      | Some raw \<Rightarrow>
          if strip raw = [] then dflt
          else case py_int (strip raw) of Some i \<Rightarrow> i | None \<Rightarrow> dflt)"

definition batch_lock_ttl_seconds :: "env \<Rightarrow> int" where
  "batch_lock_ttl_seconds env =
     max 1 (min (env_int env ''BATCH_LOCK_TTL_SECONDS'' 900) (env_int env ''JOB_MAX_SECONDS'' (6 * 3600)))"

definition batch_state_ttl_seconds :: "env \<Rightarrow> int" where
  "batch_state_ttl_seconds env = max 1 (env_int env ''BATCH_STATE_TTL_SECONDS'' (30 * 24 * 3600))"

definition batch_purge_grace_seconds :: "env \<Rightarrow> int" where
  "batch_purge_grace_seconds env = max 0 (env_int env ''BATCH_PURGE_GRACE_SECONDS'' 900)"

definition batch_tombstone_grace_seconds :: "env \<Rightarrow> int" where
  "batch_tombstone_grace_seconds env =
     max 0 (env_int env ''BATCH_TOMBSTONE_GRACE_SECONDS'' (env_int env ''JOB_MAX_SECONDS'' (6 * 3600)))"

definition max_concurrent_ffmpeg :: "env \<Rightarrow> int" where
  "max_concurrent_ffmpeg env = max 1 (env_int env ''MAX_CONCURRENT_FFMPEG'' 1)"

text \<open>The settings the operations read, as the module computes them once at import.\<close>

record batch_cfg =
  lock_ttl :: int
  state_ttl :: int
  purge_grace :: int
  tomb_grace :: int
  max_ffmpeg :: int

definition load_batch_cfg :: "env \<Rightarrow> batch_cfg" where
  "load_batch_cfg env =
     \<lparr>lock_ttl = batch_lock_ttl_seconds env, state_ttl = batch_state_ttl_seconds env,
      purge_grace = batch_purge_grace_seconds env, tomb_grace = batch_tombstone_grace_seconds env,
      max_ffmpeg = max_concurrent_ffmpeg env\<rparr>"

definition default_cfg :: batch_cfg where
  "default_cfg = load_batch_cfg (\<lambda>_. None)"

lemma default_cfg_simps [simp]:
  "lock_ttl default_cfg = 900" "state_ttl default_cfg = 2592000" "purge_grace default_cfg = 900"
  "tomb_grace default_cfg = 21600" "max_ffmpeg default_cfg = 1"
  by (simp_all add: default_cfg_def load_batch_cfg_def batch_lock_ttl_seconds_def batch_state_ttl_seconds_def
    batch_purge_grace_seconds_def batch_tombstone_grace_seconds_def max_concurrent_ffmpeg_def env_int_def)

section \<open>Keys\<close>

definition batch_key_prefix :: string where
  "batch_key_prefix = ''ffmpeg:batch:''"

definition batch_lock_key :: "string \<Rightarrow> string" where
  "batch_lock_key b = batch_key_prefix @ b"

definition batch_progress_key :: "string \<Rightarrow> string" where
  "batch_progress_key b = batch_key_prefix @ b @ '':done''"

definition batch_total_key :: "string \<Rightarrow> string" where
  "batch_total_key b = batch_key_prefix @ b @ '':total''"

definition batch_cancel_key :: "string \<Rightarrow> string" where
  "batch_cancel_key b = batch_key_prefix @ b @ '':cancelled''"

definition batch_jobs_key :: "string \<Rightarrow> string" where
  "batch_jobs_key b = batch_key_prefix @ b @ '':jobs''"

definition batch_done_jobs_key :: "string \<Rightarrow> string" where
  "batch_done_jobs_key b = batch_key_prefix @ b @ '':done_jobs''"

definition batch_finished_keys :: "string \<Rightarrow> string" where
  "batch_finished_keys b = batch_key_prefix @ b @ '':finished''"

definition batch_message_key :: "string \<Rightarrow> string" where
  "batch_message_key b = batch_key_prefix @ b @ '':msg''"

definition batch_started_key :: "string \<Rightarrow> string" where
  "batch_started_key b = batch_key_prefix @ b @ '':started''"

definition user_batches_key :: "string \<Rightarrow> string" where
  "user_batches_key u = batch_key_prefix @ ''resume:'' @ u"

definition resume_key_prefix :: string where
  "resume_key_prefix = batch_key_prefix @ ''resume:''"

definition active_batches_key :: string where
  "active_batches_key = batch_key_prefix @ ''active''"

definition non_batch_suffixes :: "string set" where
  "non_batch_suffixes = {''active'', ''resume''}"

definition batch_state_keys :: "string \<Rightarrow> string list" where
  "batch_state_keys b =
     [batch_jobs_key b, batch_total_key b, batch_progress_key b, batch_done_jobs_key b,
      batch_message_key b, batch_finished_keys b, batch_started_key b]"

definition job_hash_prefix :: string where
  "job_hash_prefix = ''ffmpeg:job:''"

definition job_hash_key :: "string \<Rightarrow> string" where
  "job_hash_key j = job_hash_prefix @ j"

definition pipeline_dedup_prefix :: string where
  "pipeline_dedup_prefix = ''ffmpeg:pipeline_dedup:''"

definition ffmpeg_slot_prefix :: string where
  "ffmpeg_slot_prefix = ''ffmpeg:slot:''"

definition ffmpeg_slot_key :: "int \<Rightarrow> string" where
  "ffmpeg_slot_key i = ffmpeg_slot_prefix @ int_str i"

definition worker_rss_key_prefix :: string where
  "worker_rss_key_prefix = ''ffmpeg:worker:rss:''"

definition worker_rss_key :: "string \<Rightarrow> string" where
  "worker_rss_key w = worker_rss_key_prefix @ w"

definition job_list_key :: string where
  "job_list_key = ''ffmpeg:jobs''"

definition delayed_set_key :: string where
  "delayed_set_key = ''ffmpeg:delayed''"

definition terminal_statuses :: "string set" where
  "terminal_statuses = {''done'', ''completed'', ''error'', ''failed'', ''cancelled'', ''canceled''}"

lemmas key_defs =
  batch_lock_key_def batch_progress_key_def batch_total_key_def batch_cancel_key_def batch_jobs_key_def
  batch_done_jobs_key_def batch_finished_keys_def batch_message_key_def batch_started_key_def
  user_batches_key_def resume_key_prefix_def active_batches_key_def job_hash_key_def job_hash_prefix_def
  pipeline_dedup_prefix_def ffmpeg_slot_prefix_def ffmpeg_slot_key_def worker_rss_key_prefix_def
  worker_rss_key_def job_list_key_def delayed_set_key_def batch_key_prefix_def

text \<open>A batch id is the hex text of a UUID: no colon, and not one of the bookkeeping names.\<close>

definition batch_id_ok :: "string \<Rightarrow> bool" where
  "batch_id_ok b \<longleftrightarrow> b \<noteq> [] \<and> CHR '':'' \<notin> set b \<and> b \<notin> non_batch_suffixes"

lemma colon_suffix_inject:
  assumes "CHR '':'' \<notin> set b" "CHR '':'' \<notin> set b'"
    and "b @ CHR '':'' # s = b' @ CHR '':'' # s'"
  shows "b = b' \<and> s = s'"
proof -
  have "partition_at (CHR '':'') (b @ CHR '':'' # s) = partition_at (CHR '':'') (b' @ CHR '':'' # s')"
    using assms(3) by simp
  with assms(1,2) show ?thesis by simp
qed

lemma state_keys_of_batch:
  assumes "batch_id_ok b" "batch_id_ok b'" "k \<in> set (batch_state_keys b)"
  shows "k \<in> set (batch_state_keys b') \<longleftrightarrow> b' = b"
proof
  assume "k \<in> set (batch_state_keys b')"
  with assms show "b' = b"
    unfolding batch_state_keys_def key_defs batch_id_ok_def
    by (auto dest: colon_suffix_inject)
qed (use assms in auto)

lemma cancel_key_not_state:
  assumes "batch_id_ok b" "batch_id_ok b'"
  shows "batch_cancel_key b \<notin> set (batch_state_keys b')"
  using assms unfolding batch_state_keys_def key_defs batch_id_ok_def
  by (auto dest: colon_suffix_inject)

lemma lock_key_not_state: "batch_id_ok b \<Longrightarrow> batch_lock_key b \<notin> set (batch_state_keys b')"
  unfolding batch_state_keys_def key_defs batch_id_ok_def by auto

lemma active_key_not_state: "active_batches_key \<notin> set (batch_state_keys b)"
proof
  assume "active_batches_key \<in> set (batch_state_keys b)"
  then obtain s where "''active'' = b @ CHR '':'' # s" by (auto simp: batch_state_keys_def key_defs)
  then have "CHR '':'' \<in> set ''active''" by simp
  then show False by simp
qed

lemma active_key_not_cancel: "active_batches_key \<noteq> batch_cancel_key b"
proof
  assume "active_batches_key = batch_cancel_key b"
  then obtain s where "''active'' = b @ CHR '':'' # s" by (auto simp: key_defs)
  then have "CHR '':'' \<in> set ''active''" by simp
  then show False by simp
qed

lemma cancel_key_inject:
  "batch_id_ok b \<Longrightarrow> batch_id_ok b' \<Longrightarrow> batch_cancel_key b = batch_cancel_key b' \<longleftrightarrow> b = b'"
  by (auto simp: key_defs)

text \<open>Keys of different families differ in a character of their prefix.\<close>

lemma foreign_keys:
  "job_hash_key j \<notin> set (batch_state_keys b)" "job_hash_key j \<noteq> batch_cancel_key b"
  "job_hash_key j \<noteq> active_batches_key" "job_hash_key j \<noteq> batch_lock_key b"
  "job_hash_key j \<noteq> ffmpeg_slot_key i" "worker_rss_key w \<noteq> ffmpeg_slot_key i"
  "worker_rss_key w \<noteq> batch_lock_key b" "job_hash_key j \<noteq> job_list_key" "job_hash_key j \<noteq> delayed_set_key"
  "job_list_key \<notin> set (batch_state_keys b)" "delayed_set_key \<notin> set (batch_state_keys b)"
  "job_list_key \<noteq> delayed_set_key" "job_list_key \<noteq> batch_cancel_key b" "delayed_set_key \<noteq> batch_cancel_key b"
  "job_list_key \<noteq> batch_jobs_key b" "job_hash_key j \<noteq> batch_jobs_key b" "job_list_key \<noteq> active_batches_key"
  "delayed_set_key \<noteq> active_batches_key"
  by (auto simp: batch_state_keys_def key_defs)

section \<open>Encodings\<close>

text \<open>\<open>parse_batch_message_ref\<close>: the \<open>chat_id:message_id\<close> of a batch's progress message.\<close>

definition parse_batch_message_ref :: "string \<Rightarrow> (int \<times> int) option" where
  "parse_batch_message_ref stored =
     (case partition_at (CHR '':'') stored of (chat, _, message) \<Rightarrow>
        (case (py_int chat, py_int message) of (Some c, Some m) \<Rightarrow> Some (c, m) | _ \<Rightarrow> None))"

definition batch_tombstone_reason :: string where
  "batch_tombstone_reason = ''cancelled by admin''"

definition batch_tombstone_value :: "string \<Rightarrow> real \<Rightarrow> string" where
  "batch_tombstone_value reason written_at =
     (if reason = [] then batch_tombstone_reason else reason) @ ''|'' @ fixed_str 3 written_at"

definition tombstone_written_at :: "string option \<Rightarrow> pyfloat option" where
  "tombstone_written_at raw =
     (let text = (case raw of None \<Rightarrow> [] | Some s \<Rightarrow> s) in
      case rpartition_at (CHR ''|'') text of (_, separator, stamp) \<Rightarrow>
        if \<not> separator then None
        else case py_float stamp of
               None \<Rightarrow> None
             | Some (Fin x) \<Rightarrow> if 0 < x then Some (Fin x) else None
             | Some PInf \<Rightarrow> Some PInf
             | Some _ \<Rightarrow> None)"

text \<open>\<open>_counters_say_finished\<close>: both counters are integers and the done count reached a positive total.\<close>

definition counters_say_finished :: "string option \<Rightarrow> string option \<Rightarrow> bool" where
  "counters_say_finished done_raw total_raw =
     (case (Option.bind done_raw py_int, Option.bind total_raw py_int) of
        (Some finished, Some expected) \<Rightarrow> 0 < expected \<and> expected \<le> finished
      | _ \<Rightarrow> False)"

text \<open>\<open>progress_bar\<close>: \<open>filled\<close> blocks (\<open>True\<close>) and the remaining empty ones.\<close>

definition progress_bar :: "int option \<Rightarrow> int option \<Rightarrow> int \<Rightarrow> bool list" where
  "progress_bar done_arg total_arg width =
     (case (total_arg, done_arg) of
        (Some tot, Some dn) \<Rightarrow>
          if tot \<le> 0 then replicate (nat width) False
          else let filled = py_round (of_int (max 0 (min dn tot)) / of_int tot * of_int width)
               in replicate (nat filled) True @ replicate (nat (width - filled)) False
      | _ \<Rightarrow> replicate (nat width) False)"

text \<open>\<open>tag_batch_job\<close> and \<open>job_batch_id\<close>.\<close>

definition tag_batch_job :: "job \<Rightarrow> string \<Rightarrow> int \<Rightarrow> int \<Rightarrow> job" where
  "tag_batch_job j b seq n =
     dput ''batch_total'' (PInt n) (dput ''batch_seq'' (PInt seq) (dput ''batch_id'' (PStr b) j))"

definition job_batch_id :: "job \<Rightarrow> string option" where
  "job_batch_id j =
     (if j = [] then None
      else let v = jget j ''batch_id'' in if truthy v then Some (py_str v) else None)"

lemma job_batch_id_tag: "b \<noteq> [] \<Longrightarrow> job_batch_id (tag_batch_job j b seq n) = Some b"
proof -
  assume b: "b \<noteq> []"
  have ne: "AList.update k v d \<noteq> []" for k :: string and v :: pyval and d by (cases d) auto
  show ?thesis using b by (simp add: job_batch_id_def tag_batch_job_def jget_dput ne)
qed

end
