(* ===== verification/Claims.thy ===== *)
theory Claims
  imports BatchKeys
begin

text \<open>
  \<open>utils/batch_pipeline.py\<close>, the claims: the batch lock and the global conversion slots (take,
  steal from a gone owner, re-arm, release), the question whether an owner is gone, and the sweep
  that frees ghost claims.  \<open>owner_gone\<close> states the question on the key space alone; the program
  computes it exactly when Redis is up, and never claims a live owner gone when it is not.
\<close>

text \<open>\<open>try\<close>/\<open>except\<close> around one call whose failure the code turns into a value of its own.\<close>

definition attempt :: "('w, 'a) io \<Rightarrow> ('w, 'a option) io" where
  "attempt m = tryc (fmapio Some m) (\<lambda>_. ret None)"

lemma wp_attempt [simp]: "wp (attempt m) Q E = wp m (\<lambda>x. Q (Some x)) (\<lambda>_. Q None)"
  by (simp add: attempt_def)

lemma safe_attempt [intro!]: "safe (attempt m)"
  unfolding attempt_def by (intro safe_intros)

lemma keeps_attempt: "keeps I m \<Longrightarrow> keeps I (attempt m)"
  unfolding attempt_def by (intro keeps_intros)

section \<open>Is the owner of a claim gone?\<close>

definition claiming_worker_is_gone :: "'w exec \<Rightarrow> string \<Rightarrow> ('w, bool option) io" where
  "claiming_worker_is_gone exec owner =
     bnd (attempt (r_hget exec (job_hash_key owner) ''worker'')) (\<lambda>raw.
       case raw of
         None \<Rightarrow> ret None
       | Some worker \<Rightarrow>
           (case worker of
              None \<Rightarrow> ret None
            | Some wkr \<Rightarrow>
                if wkr = [] then ret None
                else bnd (attempt (r_exists exec [worker_rss_key wkr])) (\<lambda>n.
                       case n of None \<Rightarrow> ret None | Some c \<Rightarrow> ret (Some (c = 0)))))"

definition slot_owner_is_gone :: "'w exec \<Rightarrow> string \<Rightarrow> ('w, bool) io" where
  "slot_owner_is_gone exec owner =
     (if owner = [] then ret False
      else bnd (attempt (r_hget exec (job_hash_key owner) ''status'')) (\<lambda>raw.
        case raw of
          None \<Rightarrow> ret False
        | Some stat \<Rightarrow>
            (case stat of
               None \<Rightarrow> ret True
             | Some status \<Rightarrow>
                 bnd (claiming_worker_is_gone exec owner) (\<lambda>worker_gone.
                   if worker_gone = Some True then ret True
                   else if status \<in> terminal_statuses then ret (worker_gone \<noteq> Some False)
                   else ret False))))"

text \<open>The same question on the key space.\<close>

definition owner_gone :: "real \<Rightarrow> store \<Rightarrow> string \<Rightarrow> bool" where
  "owner_gone t m owner \<longleftrightarrow>
     owner \<noteq> [] \<and>
     (case dget (hash_at t m (job_hash_key owner)) ''status'' of
        None \<Rightarrow> True
      | Some status \<Rightarrow>
          (case dget (hash_at t m (job_hash_key owner)) ''worker'' of
             None \<Rightarrow> status \<in> terminal_statuses
           | Some wkr \<Rightarrow>
               if wkr = [] then status \<in> terminal_statuses else live t m (worker_rss_key wkr) = None))"

text \<open>A job that is running under a worker that still reports.\<close>

definition owner_running :: "real \<Rightarrow> store \<Rightarrow> string \<Rightarrow> bool" where
  "owner_running t m owner \<longleftrightarrow>
     (\<exists>status wkr. dget (hash_at t m (job_hash_key owner)) ''status'' = Some status \<and>
        status \<notin> terminal_statuses \<and>
        dget (hash_at t m (job_hash_key owner)) ''worker'' = Some wkr \<and>
        (wkr \<noteq> [] \<longrightarrow> live t m (worker_rss_key wkr) \<noteq> None))"

lemma owner_running_not_gone: "owner_running t m owner \<Longrightarrow> \<not> owner_gone t m owner"
  by (auto simp: owner_running_def owner_gone_def)

lemma safe_claiming_worker_is_gone [intro!]: "safe (claiming_worker_is_gone exec owner)"
  unfolding claiming_worker_is_gone_def
  by (intro safe_bnd safe_attempt) (auto split: option.splits intro!: safe_bnd safe_attempt safe_ret)

lemma safe_slot_owner_is_gone [intro!]: "safe (slot_owner_is_gone exec owner)"
  unfolding slot_owner_is_gone_def
  by (auto split: option.splits intro!: safe_bnd safe_ret)


context redis_up begin

lemma up_claiming_worker_is_gone:
  assumes h: "is_hash (live (clock w) (kv w) (job_hash_key owner))"
    and Q: "\<And>w'. clock w' = clock w \<Longrightarrow> kv w' = kv w \<Longrightarrow>
      Q (case dget (hash_at (clock w) (kv w) (job_hash_key owner)) ''worker'' of
           None \<Rightarrow> None
         | Some wkr \<Rightarrow> if wkr = [] then None else Some (live (clock w) (kv w) (worker_rss_key wkr) = None)) w'"
  shows "wp (claiming_worker_is_gone exec owner) Q E w"
  unfolding claiming_worker_is_gone_def wp_bnd wp_attempt
proof (rule up_hget [OF h], goal_cases)
  case (1 w')
  show ?case
  proof (cases "dget (hash_at (clock w) (kv w) (job_hash_key owner)) ''worker''")
    case None
    then show ?thesis using 1 Q [of w'] by simp
  next
    case (Some wkr)
    show ?thesis
    proof (cases "wkr = []")
      case True
      then show ?thesis using 1 Q [of w'] Some by simp
    next
      case False
      have "wp (r_exists exec [worker_rss_key wkr]) (\<lambda>x. Q (Some (x = 0))) (\<lambda>_. Q None) w'"
        by (rule up_exists) (use 1 Q Some False in \<open>auto split: if_splits\<close>)
      then show ?thesis using Some False by simp
    qed
  qed
qed

text \<open>With Redis up the program computes \<open>owner_gone\<close>.\<close>

lemma up_slot_owner_is_gone:
  assumes h: "is_hash (live (clock w) (kv w) (job_hash_key owner))"
    and Q: "\<And>w'. clock w' = clock w \<Longrightarrow> kv w' = kv w \<Longrightarrow> Q (owner_gone (clock w) (kv w) owner) w'"
  shows "wp (slot_owner_is_gone exec owner) Q E w"
proof (cases "owner = []")
  case True
  then show ?thesis using Q [of w] by (simp add: slot_owner_is_gone_def owner_gone_def)
next
  case False
  have "wp (r_hget exec (job_hash_key owner) ''status'')
      (\<lambda>stat. wp (case Some stat of None \<Rightarrow> ret False
        | Some stat \<Rightarrow> (case stat of None \<Rightarrow> ret True
            | Some status \<Rightarrow> bnd (claiming_worker_is_gone exec owner) (\<lambda>worker_gone.
                   if worker_gone = Some True then ret True
                   else if status \<in> terminal_statuses then ret (worker_gone \<noteq> Some False)
                   else ret False))) Q E) (\<lambda>_. Q False) w"
  proof (rule up_hget [OF h], goal_cases)
    case (1 w')
    show ?case
    proof (cases "dget (hash_at (clock w) (kv w) (job_hash_key owner)) ''status''")
      case None
      then show ?thesis using 1 Q [of w'] False by (simp add: owner_gone_def)
    next
      case (Some status)
      have "wp (claiming_worker_is_gone exec owner)
          (\<lambda>wg. wp (if wg = Some True then ret True
             else if status \<in> terminal_statuses then ret (wg \<noteq> Some False) else ret False) Q E) E w'"
        by (rule up_claiming_worker_is_gone)
          (use 1 h Q Some False in \<open>auto simp: owner_gone_def split: option.splits if_splits\<close>)
      then show ?thesis using Some by simp
    qed
  qed
  then show ?thesis using False by (simp add: slot_owner_is_gone_def)
qed

end

context redis_server begin

text \<open>Whatever fails, a job running under a reporting worker is not called gone while it runs.\<close>

lemma wp_slot_owner_is_gone_reads:
  assumes "\<And>b w'. clock w \<le> clock w' \<Longrightarrow> kv w' = kv w \<Longrightarrow> Q b w'"
  shows "wp (slot_owner_is_gone exec owner) Q E w"
proof -
  have c: "wp (claiming_worker_is_gone exec owner) (\<lambda>_ w'. clock w \<le> clock w' \<and> kv w' = kv w) (\<lambda>_ _. False) w1"
    if "clock w \<le> clock w1" "kv w1 = kv w" for w1
    unfolding claiming_worker_is_gone_def wp_bnd wp_attempt
    apply (rule wp_r_hget)
     apply (use that in \<open>auto split: option.splits intro!: wp_r_exists\<close>)
    done
  have "wp (slot_owner_is_gone exec owner) (\<lambda>_ w'. clock w \<le> clock w' \<and> kv w' = kv w) (\<lambda>_ _. False) w"
    unfolding slot_owner_is_gone_def
    by (auto split: option.splits intro!: wp_r_hget wp_mono [OF c])
  then show ?thesis by (rule wp_mono) (use assms in auto)
qed

end

section \<open>Taking, re-arming and releasing a claim\<close>

definition try_acquire_batch_lock :: "'w exec \<Rightarrow> batch_cfg \<Rightarrow> string \<Rightarrow> pyval \<Rightarrow> ('w, bool) io" where
  "try_acquire_batch_lock exec cfg batch_id job_id =
     (let key = batch_lock_key batch_id; owner = id_text job_id; ttl_ms = lock_ttl cfg * 1000 in
      tryc
        (bnd (r_setnx exec key owner ttl_ms) (\<lambda>taken.
          if taken then ret True
          else bnd (r_get exec key) (\<lambda>holder.
            case holder of
              None \<Rightarrow> ret False
            | Some h \<Rightarrow>
                if h = [] then ret False
                else bnd (slot_owner_is_gone exec h) (\<lambda>gone.
                  if \<not> gone then ret False
                  else bnd (r_eval exec (StealScript key h owner ttl_ms)) (\<lambda>n. ret (n \<noteq> 0))))))
        (\<lambda>_. ret True))"

definition release_batch_lock :: "'w exec \<Rightarrow> string \<Rightarrow> pyval \<Rightarrow> ('w, bool) io" where
  "release_batch_lock exec batch_id job_id =
     tryc (bnd (r_eval exec (ReleaseScript (batch_lock_key batch_id) (id_text job_id))) (\<lambda>n. ret (n \<noteq> 0)))
       (\<lambda>_. ret False)"

text \<open>\<open>ttl_seconds\<close> may be \<open>None\<close>; \<open>int(max(1.0, float(ttl)) * 1000)\<close> otherwise.\<close>

definition refresh_lock :: "'w exec \<Rightarrow> batch_cfg \<Rightarrow> string \<Rightarrow> pyval \<Rightarrow> real option \<Rightarrow> ('w, bool) io" where
  "refresh_lock exec cfg key owner ttl_seconds =
     (let ttl = (case ttl_seconds of None \<Rightarrow> of_int (lock_ttl cfg) | Some x \<Rightarrow> x);
          ttl_ms = py_trunc (max 1 ttl * 1000) in
      tryc (bnd (r_eval exec (RefreshScript key (id_text owner) ttl_ms)) (\<lambda>n. ret (n \<noteq> 0)))
        (\<lambda>_. ret False))"

definition refresh_batch_lock :: "'w exec \<Rightarrow> batch_cfg \<Rightarrow> string \<Rightarrow> pyval \<Rightarrow> real option \<Rightarrow> ('w, bool) io" where
  "refresh_batch_lock exec cfg batch_id job_id ttl = refresh_lock exec cfg (batch_lock_key batch_id) job_id ttl"

text \<open>The body of the slot loop: \<open>Some i\<close> ends the loop with \<open>return i\<close>, \<open>None\<close> is \<open>continue\<close>.\<close>

definition claim_slot :: "'w exec \<Rightarrow> string \<Rightarrow> int \<Rightarrow> int \<Rightarrow> ('w, int option) io" where
  "claim_slot exec owner ttl_ms index =
     (let key = ffmpeg_slot_key index in
      tryc
        (bnd (r_setnx exec key owner ttl_ms) (\<lambda>taken.
          if taken then ret (Some index)
          else bnd (r_get exec key) (\<lambda>holder.
            case holder of
              None \<Rightarrow> bnd (r_setnx exec key owner ttl_ms) (\<lambda>again. ret (if again then Some index else None))
            | Some h \<Rightarrow>
                if h = [] then bnd (r_setnx exec key owner ttl_ms) (\<lambda>again. ret (if again then Some index else None))
                else bnd (slot_owner_is_gone exec h) (\<lambda>gone.
                  if \<not> gone then ret None
                  else bnd (r_eval exec (StealScript key h owner ttl_ms)) (\<lambda>n.
                    ret (if n \<noteq> 0 then Some index else None))))))
        (\<lambda>_. ret (Some (- 1))))"

definition acquire_ffmpeg_slot ::
    "'w exec \<Rightarrow> batch_cfg \<Rightarrow> pyval \<Rightarrow> int option \<Rightarrow> int option \<Rightarrow> ('w, int option) io" where
  "acquire_ffmpeg_slot exec cfg job_id slots ttl_seconds =
     (let tot = (case slots of None \<Rightarrow> max_ffmpeg cfg | Some n \<Rightarrow> max 1 n);
          ttl_ms = (case ttl_seconds of None \<Rightarrow> lock_ttl cfg | Some x \<Rightarrow> x) * 1000 in
      first_of [0..tot - 1] (claim_slot exec (id_text job_id) ttl_ms))"

definition release_ffmpeg_slot :: "'w exec \<Rightarrow> int option \<Rightarrow> pyval \<Rightarrow> ('w, bool) io" where
  "release_ffmpeg_slot exec index job_id =
     (case index of
        None \<Rightarrow> ret False
      | Some i \<Rightarrow>
          if i < 0 then ret False
          else tryc (bnd (r_eval exec (ReleaseScript (ffmpeg_slot_key i) (id_text job_id))) (\<lambda>n. ret (n \<noteq> 0)))
                 (\<lambda>_. ret False))"

definition refresh_ffmpeg_slot :: "'w exec \<Rightarrow> batch_cfg \<Rightarrow> int option \<Rightarrow> pyval \<Rightarrow> real option \<Rightarrow> ('w, bool) io" where
  "refresh_ffmpeg_slot exec cfg index job_id ttl =
     (case index of
        None \<Rightarrow> ret False
      | Some i \<Rightarrow> if i < 0 then ret False else refresh_lock exec cfg (ffmpeg_slot_key i) job_id ttl)"

definition read_used_slots :: "'w exec \<Rightarrow> batch_cfg \<Rightarrow> int option \<Rightarrow> ('w, int option) io" where
  "read_used_slots exec cfg slots =
     (let tot = (case slots of None \<Rightarrow> max_ffmpeg cfg | Some n \<Rightarrow> max 1 n) in
      attempt (r_exists exec (map ffmpeg_slot_key [0..tot - 1])))"

section \<open>Sweeping ghost claims\<close>

record freed =
  freed_slots :: int
  freed_locks :: int
  freed_dedup :: int

definition no_freed :: freed where
  "no_freed = \<lparr>freed_slots = 0, freed_locks = 0, freed_dedup = 0\<rparr>"

definition count_slot :: "freed \<Rightarrow> freed" where
  "count_slot f = f\<lparr>freed_slots := freed_slots f + 1\<rparr>"

definition count_lock :: "freed \<Rightarrow> freed" where
  "count_lock f = f\<lparr>freed_locks := freed_locks f + 1\<rparr>"

definition count_dedup :: "freed \<Rightarrow> freed" where
  "count_dedup f = f\<lparr>freed_dedup := freed_dedup f + 1\<rparr>"

definition sweep_claim :: "'w exec \<Rightarrow> (freed \<Rightarrow> freed) \<Rightarrow> string \<Rightarrow> freed \<Rightarrow> ('w, freed) io" where
  "sweep_claim exec bump key f =
     bnd (attempt (r_get exec key)) (\<lambda>got.
       case got of
         Some (Some holder) \<Rightarrow>
           if holder = [] then ret f
           else bnd (slot_owner_is_gone exec holder) (\<lambda>gone.
             if \<not> gone then ret f
             else bnd (attempt (r_del exec [key])) (\<lambda>n.
               case n of Some c \<Rightarrow> ret (if c \<noteq> 0 then bump f else f) | None \<Rightarrow> ret f))
       | _ \<Rightarrow> ret f)"

definition sweep_dedup_key :: "'w exec \<Rightarrow> string \<Rightarrow> freed \<Rightarrow> ('w, freed) io" where
  "sweep_dedup_key exec key f =
     bnd (attempt (r_get exec key)) (\<lambda>got.
       case got of
         None \<Rightarrow> ret f
       | Some raw \<Rightarrow>
           (let owner = (case raw of None \<Rightarrow> [] | Some s \<Rightarrow> s) in
            bnd (if owner \<noteq> [] \<and> owner \<noteq> ''pending'' then slot_owner_is_gone exec owner else ret True) (\<lambda>stale.
              if \<not> stale then ret f
              else bnd (attempt (r_del exec [key])) (\<lambda>n.
                case n of Some c \<Rightarrow> ret (if c \<noteq> 0 then count_dedup f else f) | None \<Rightarrow> ret f))))"

definition sweep_stale_dedup_keys :: "'w exec \<Rightarrow> freed \<Rightarrow> ('w, freed) io" where
  "sweep_stale_dedup_keys exec f =
     bnd (attempt (r_scan exec pipeline_dedup_prefix)) (\<lambda>ks.
       case ks of None \<Rightarrow> ret f | Some keys \<Rightarrow> for_each keys f (sweep_dedup_key exec))"

definition is_lock_name :: "string \<Rightarrow> bool" where
  "is_lock_name key \<longleftrightarrow>
     (let suffix = drop (length batch_key_prefix) key
      in suffix \<noteq> [] \<and> CHR '':'' \<notin> set suffix \<and> suffix \<notin> non_batch_suffixes)"

definition sweep_ghost_claims :: "'w exec \<Rightarrow> ('w, freed) io" where
  "sweep_ghost_claims exec =
     bnd (attempt (r_scan exec ffmpeg_slot_prefix)) (\<lambda>slots.
       case slots of
         None \<Rightarrow> ret no_freed
       | Some slot_keys \<Rightarrow>
           bnd (for_each slot_keys no_freed (sweep_claim exec count_slot)) (\<lambda>f1.
             bnd (attempt (r_scan exec batch_key_prefix)) (\<lambda>batch.
               case batch of
                 None \<Rightarrow> ret f1
               | Some batch_keys \<Rightarrow>
                   bnd (for_each batch_keys f1 (\<lambda>key f.
                          if is_lock_name key then sweep_claim exec count_lock key f else ret f))
                     (sweep_stale_dedup_keys exec))))"

end
