(* ===== verification/ClaimSafety.thy ===== *)
theory ClaimSafety
  imports Claims
begin

text \<open>
  What the claims guarantee.  Under any failure of Redis: a claim whose owner is running under a
  reporting worker is neither stolen nor swept, and a release removes only the caller's own claim.
  With Redis up: the exact outcome of taking a claim and of the sweep.
\<close>

section \<open>A running owner keeps its claim, whatever fails\<close>

lemma hash_at_later:
  assumes "dget (hash_at t' m k) f = Some v" "t \<le> t'"
  shows "dget (hash_at t m k) f = Some v"
proof (cases "live t' m k")
  case None
  then show ?thesis using assms(1) by (simp add: hash_at_def)
next
  case (Some x)
  then show ?thesis using assms(1) live_later_same [OF Some assms(2)] by (simp add: hash_at_def)
qed

lemma owner_running_earlier:
  assumes "owner_running t' m h" "t \<le> t'"
  shows "owner_running t m h"
proof -
  obtain st wkr where st: "dget (hash_at t' m (job_hash_key h)) ''status'' = Some st" "st \<notin> terminal_statuses"
    and wk: "dget (hash_at t' m (job_hash_key h)) ''worker'' = Some wkr"
    and lv: "wkr \<noteq> [] \<longrightarrow> live t' m (worker_rss_key wkr) \<noteq> None"
    using assms(1) unfolding owner_running_def by blast
  have "wkr \<noteq> [] \<longrightarrow> live t m (worker_rss_key wkr) \<noteq> None"
    using lv by (cases "live t m (worker_rss_key wkr)") (simp_all add: live_later [OF _ assms(2)])
  with hash_at_later [OF st(1) assms(2)] hash_at_later [OF wk assms(2)] st(2) show ?thesis
    unfolding owner_running_def by (intro exI [where x = st] exI [where x = wkr]) simp
qed

lemma str_at_live: "str_at t m k = Some s \<longleftrightarrow> live t m k = Some (VStr s)"
  by (cases "live t m k") (simp_all add: str_at_def split: rval.splits)

lemma str_at_later: "str_at t' m k = Some s \<Longrightarrow> t \<le> t' \<Longrightarrow> str_at t m k = Some s"
  unfolding str_at_live by (rule live_later_same)

lemma str_at_cong: "m k = m' k \<Longrightarrow> str_at t m k = str_at t m' k"
  and hash_at_cong: "m k = m' k \<Longrightarrow> hash_at t m k = hash_at t m' k"
  and set_at_cong: "m k = m' k \<Longrightarrow> set_at t m k = set_at t m' k"
  and live_cong: "m k = m' k \<Longrightarrow> live t m k = live t m' k"
  by (simp_all add: str_at_def hash_at_def set_at_def live_def)

lemma owner_running_cong:
  assumes "\<And>j. m (job_hash_key j) = m' (job_hash_key j)" and "\<And>x. m (worker_rss_key x) = m' (worker_rss_key x)"
  shows "owner_running t m h = owner_running t m' h"
proof -
  have "hash_at t m (job_hash_key h) = hash_at t m' (job_hash_key h)" by (rule hash_at_cong) (rule assms)
  moreover have "live t m (worker_rss_key x) = live t m' (worker_rss_key x)" for x
    by (rule live_cong) (rule assms)
  ultimately show ?thesis unfolding owner_running_def by presburger
qed

text \<open>
  \<open>spares t0 m0 t m\<close>: from a key space \<open>m0\<close> at time \<open>t0\<close> to \<open>m\<close> at \<open>t\<close>, the keys that are not claims are
  as they were, and so is every claim whose holder is still running.
\<close>

definition claim_key :: "string \<Rightarrow> bool" where
  "claim_key k \<longleftrightarrow>
     starts_with ffmpeg_slot_prefix k \<or> starts_with batch_key_prefix k \<or> starts_with pipeline_dedup_prefix k"

definition held_by_running :: "real \<Rightarrow> store \<Rightarrow> string \<Rightarrow> bool" where
  "held_by_running t m k \<longleftrightarrow> (\<exists>h. str_at t m k = Some h \<and> h \<noteq> [] \<and> h \<noteq> ''pending'' \<and> owner_running t m h)"

definition spares :: "real \<Rightarrow> store \<Rightarrow> real \<Rightarrow> store \<Rightarrow> bool" where
  "spares t0 m0 t m \<longleftrightarrow>
     t0 \<le> t \<and> (\<forall>k. \<not> claim_key k \<longrightarrow> m k = m0 k) \<and> (\<forall>k. held_by_running t m0 k \<longrightarrow> m k = m0 k)"

lemma claim_key_simps [simp]:
  "claim_key (ffmpeg_slot_key i)" "claim_key (batch_lock_key b)" "\<not> claim_key (job_hash_key j)"
  "\<not> claim_key (worker_rss_key x)"
  by (simp_all add: claim_key_def key_defs starts_with_def)

lemma spares_refl: "spares t m t m"
  by (simp add: spares_def)

lemma held_by_running_earlier: "held_by_running t' m k \<Longrightarrow> t \<le> t' \<Longrightarrow> held_by_running t m k"
  unfolding held_by_running_def by (metis str_at_later owner_running_earlier)

lemma spares_later: "spares t0 m0 t m \<Longrightarrow> t \<le> t' \<Longrightarrow> spares t0 m0 t' m"
  unfolding spares_def by (metis held_by_running_earlier order_trans)

lemma spares_running:
  assumes "spares t0 m0 t m"
  shows "owner_running t m h = owner_running t m0 h"
  by (rule owner_running_cong) (use assms in \<open>auto simp: spares_def\<close>)

lemma spares_held:
  assumes r: "spares t0 m0 t m" and h: "held_by_running t m0 k"
  shows "held_by_running t m k"
proof -
  have "m k = m0 k" using r h by (simp add: spares_def)
  then show ?thesis using h spares_running [OF r] str_at_cong [of m k m0]
    by (simp add: held_by_running_def)
qed

text \<open>A step that touches only claims no running owner holds.\<close>

lemma spares_step:
  assumes "spares t0 m0 t m" and "t \<le> t'"
    and "\<And>k. \<not> claim_key k \<Longrightarrow> m' k = m k" and "\<And>k. held_by_running t' m k \<Longrightarrow> m' k = m k"
  shows "spares t0 m0 t' m'"
proof -
  have r: "spares t0 m0 t' m" using assms(1,2) by (rule spares_later)
  then show ?thesis
    using assms(3,4) spares_held [OF r] unfolding spares_def by metis
qed

lemma spares_setnx:
  assumes "spares t0 m0 t m" "t \<le> t'" "claim_key key"
    and "m' = m \<or> m' = effect (SetNx key v ms) t m"
  shows "spares t0 m0 t' m'"
proof (rule spares_step [OF assms(1,2)])
  fix k
  show "\<not> claim_key k \<Longrightarrow> m' k = m k" using assms(3,4) by auto
  assume "held_by_running t' m k"
  then obtain h where "str_at t' m k = Some h" by (auto simp: held_by_running_def)
  then have "str_at t m k = Some h" using assms(2) by (rule str_at_later)
  then have "live t m k \<noteq> None" by (simp add: str_at_live)
  then show "m' k = m k" using assms(4) by auto
qed

lemma spares_steal:
  assumes "spares t0 m0 t m" "t \<le> t'" "claim_key key" "\<not> owner_running t' m h" "h \<noteq> []"
    and "m' = m \<or> m' = fst (lua_steal key h v ms t m)"
  shows "spares t0 m0 t' m'"
proof (rule spares_step [OF assms(1,2)])
  fix k
  show "\<not> claim_key k \<Longrightarrow> m' k = m k" using assms(3,6) by (auto simp: lua_steal_def split: if_splits)
  assume k: "held_by_running t' m k"
  show "m' k = m k"
  proof (cases "k = key \<and> str_at t m key = Some h")
    case True
    then have "str_at t' m k \<noteq> Some h \<or> \<not> owner_running t' m h" using assms(4) by simp
    moreover obtain h' where "str_at t' m k = Some h'" "owner_running t' m h'"
      using k by (auto simp: held_by_running_def)
    moreover have "h' = h" using True calculation str_at_later [of t' m k h' t] assms(2) by simp
    ultimately show ?thesis by simp
  next
    case False
    then show ?thesis using assms(6) by (auto simp: lua_steal_def split: if_splits)
  qed
qed

lemma spares_del:
  assumes "spares t0 m0 t m" "t \<le> t'" "claim_key key" "\<not> held_by_running t' m key"
    and "m' = m \<or> m' = wipe [key] m"
  shows "spares t0 m0 t' m'"
  by (rule spares_step [OF assms(1,2)]) (use assms(3-5) in \<open>auto simp: wipe_def\<close>)

context redis_server begin

abbreviation resp :: "'w \<Rightarrow> 'w \<Rightarrow> bool" where
  "resp w0 w \<equiv> spares (clock w0) (kv w0) (clock w) (kv w)"

lemma wp_claiming_worker_is_gone:
  "wp (claiming_worker_is_gone exec owner)
     (\<lambda>r w'. clock w \<le> clock w' \<and> kv w' = kv w \<and>
        (r = Some True \<longrightarrow> (\<exists>wkr. dget (hash_at (clock w) (kv w) (job_hash_key owner)) ''worker'' = Some wkr \<and>
            wkr \<noteq> [] \<and> live (clock w') (kv w) (worker_rss_key wkr) = None)))
     (\<lambda>_ _. False) w"
  unfolding claiming_worker_is_gone_def wp_bnd wp_attempt
proof (rule wp_r_hget, goal_cases)
  case (1 w')
  show ?case
  proof (cases "dget (hash_at (clock w) (kv w) (job_hash_key owner)) ''worker''")
    case None
    then show ?thesis using 1 by simp
  next
    case (Some wkr)
    show ?thesis
    proof (cases "wkr = []")
      case True
      then show ?thesis using 1 Some by simp
    next
      case False
      then show ?thesis using 1 Some
        by (auto intro!: wp_r_exists dest: live_later split: if_splits)
    qed
  qed
qed auto

text \<open>The answer "gone" is never given for an owner that is running when it is given.\<close>

lemma wp_gone_not_running:
  "wp (slot_owner_is_gone exec owner)
     (\<lambda>b w'. clock w \<le> clock w' \<and> kv w' = kv w \<and> (b \<longrightarrow> \<not> owner_running (clock w') (kv w) owner))
     (\<lambda>_ _. False) w"
proof (cases "owner = []")
  case True
  then show ?thesis by (simp add: slot_owner_is_gone_def)
next
  case False
  have stat: "\<not> owner_running (clock w') (kv w) owner"
    if "clock w \<le> clock w'" "dget (hash_at (clock w) (kv w) (job_hash_key owner)) ''status'' = st"
      "st = None \<or> (\<exists>s. st = Some s \<and> s \<in> terminal_statuses)" for w' st
  proof
    assume "owner_running (clock w') (kv w) owner"
    then have "owner_running (clock w) (kv w) owner" using that(1) by (rule owner_running_earlier)
    then show False using that(2,3) by (auto simp: owner_running_def)
  qed
  have rss: "\<not> owner_running (clock w2) (kv w) owner"
    if "clock w \<le> clock w1" "clock w1 \<le> clock w2" "wkr \<noteq> []"
      "dget (hash_at (clock w1) (kv w) (job_hash_key owner)) ''worker'' = Some wkr"
      "live (clock w2) (kv w) (worker_rss_key wkr) = None" for w1 w2 wkr
  proof
    assume "owner_running (clock w2) (kv w) owner"
    then obtain x where x: "dget (hash_at (clock w2) (kv w) (job_hash_key owner)) ''worker'' = Some x"
      "x \<noteq> [] \<longrightarrow> live (clock w2) (kv w) (worker_rss_key x) \<noteq> None" by (auto simp: owner_running_def)
    then have "x = wkr" using hash_at_later [OF x(1) that(2)] that(4) by simp
    then show False using x(2) that(3,5) by simp
  qed
  have body: "wp (case stt of None \<Rightarrow> ret True
      | Some status \<Rightarrow> bnd (claiming_worker_is_gone exec owner) (\<lambda>worker_gone.
             if worker_gone = Some True then ret True
             else if status \<in> terminal_statuses then ret (worker_gone \<noteq> Some False) else ret False))
      (\<lambda>b w'. clock w \<le> clock w' \<and> kv w' = kv w \<and> (b \<longrightarrow> \<not> owner_running (clock w') (kv w) owner))
      (\<lambda>_ _. False) w1"
    if w1: "clock w \<le> clock w1" "kv w1 = kv w"
      and st: "dget (hash_at (clock w) (kv w) (job_hash_key owner)) ''status'' = stt" for w1 stt
  proof (cases stt)
    case None
    then show ?thesis using w1 stat [OF w1(1) st] by simp
  next
    case (Some s)
    have "wp (claiming_worker_is_gone exec owner)
        (\<lambda>wg. wp (if wg = Some True then ret True
           else if s \<in> terminal_statuses then ret (wg \<noteq> Some False) else ret False)
           (\<lambda>b w'. clock w \<le> clock w' \<and> kv w' = kv w \<and> (b \<longrightarrow> \<not> owner_running (clock w') (kv w) owner))
           (\<lambda>_ _. False)) (\<lambda>_ _. False) w1"
    proof (rule wp_mono [OF wp_claiming_worker_is_gone], goal_cases)
      case (1 wg w2)
      then have c: "clock w1 \<le> clock w2" "clock w \<le> clock w2" and k: "kv w2 = kv w" using w1 by auto
      show ?case
        using 1 c k w1 Some rss [OF w1(1) c(1)] stat [OF c(2) st] by auto
    qed auto
    then show ?thesis using Some by simp
  qed
  show ?thesis
    unfolding slot_owner_is_gone_def
    using False body by (auto intro!: wp_r_hget)
qed

lemma keeps_steal_if_gone:
  assumes ck: "claim_key key" and h: "h \<noteq> []"
  shows "keeps (resp w0) (bnd (slot_owner_is_gone exec h) (\<lambda>gone.
      if \<not> gone then ret no else bnd (r_eval exec (StealScript key h owner ttl)) (\<lambda>n. ret (yes n))))"
proof (rule keepsI, unfold wp_bnd, rule wp_mono [OF wp_gone_not_running], goal_cases)
  case (1 w gone w1)
  then have r1: "resp w0 w1" using spares_later by fastforce
  show ?case
  proof (cases gone)
    case False
    then show ?thesis using r1 by simp
  next
    case True
    then have nr: "\<not> owner_running (clock w1) (kv w1) h" using 1 by simp
    have fin: "resp w0 w2" if "clock w1 \<le> clock w2"
      "kv w2 = kv w1 \<or> kv w2 = fst (lua_steal key h owner ttl (clock w1) (kv w1))" for w2
      by (rule spares_steal [OF r1 that(1) ck _ h that(2)]) (use nr owner_running_earlier that(1) in blast)
    have "wp (r_eval exec (StealScript key h owner ttl)) (\<lambda>_. resp w0) (\<lambda>_. resp w0) w1"
      by (rule wp_r_eval; rule fin; auto)
    then show ?thesis using True by simp
  qed
qed simp

lemma keeps_setnx: "claim_key key \<Longrightarrow> keeps (resp w0) (r_setnx exec key owner ttl)"
  by (rule keepsI, rule wp_r_setnx;
      rule spares_setnx [where key = key and v = owner and ms = ttl], assumption, assumption, assumption)
    (rule disjI2, assumption | assumption)+

lemma resp_reads: "resp w0 w \<Longrightarrow> clock w \<le> clock w' \<Longrightarrow> kv w' = kv w \<Longrightarrow> resp w0 w'"
  using spares_later by simp

lemma keeps_reads:
  "keeps (resp w0) (r_get exec k)" "keeps (resp w0) (r_exists exec ks)" "keeps (resp w0) (r_scan exec p)"
  "keeps (resp w0) (slot_owner_is_gone exec h)"
proof -
  show "keeps (resp w0) (r_get exec k)" by (rule keepsI, rule wp_r_get; erule (2) resp_reads)
  show "keeps (resp w0) (r_exists exec ks)" by (rule keepsI, rule wp_r_exists; erule (2) resp_reads)
  show "keeps (resp w0) (r_scan exec p)" by (rule keepsI, rule wp_r_scan; erule (2) resp_reads)
  show "keeps (resp w0) (slot_owner_is_gone exec h)"
    by (rule keepsI, rule wp_slot_owner_is_gone_reads, erule (2) resp_reads)
qed

lemma keeps_try_acquire_batch_lock: "keeps (resp w0) (try_acquire_batch_lock exec cfg b j)"
  unfolding try_acquire_batch_lock_def Let_def
  by (intro keeps_tryc keeps_bnd keeps_setnx keeps_if keeps_ret keeps_reads keeps_option keeps_steal_if_gone) simp_all

lemma keeps_claim_slot: "keeps (resp w0) (claim_slot exec owner ttl i)"
  unfolding claim_slot_def Let_def
  by (intro keeps_tryc keeps_bnd keeps_setnx keeps_if keeps_ret keeps_reads keeps_option keeps_steal_if_gone) simp_all

lemma keeps_acquire_ffmpeg_slot: "keeps (resp w0) (acquire_ffmpeg_slot exec cfg j slots ttl)"
  unfolding acquire_ffmpeg_slot_def Let_def by (intro keeps_first_of keeps_claim_slot)

text \<open>The sweep: an owner is asked about first, and its claim deleted only when it is gone.\<close>

lemma wp_free_if_gone:
  assumes r: "resp w0 w" and ck: "claim_key key"
    and own: "\<And>x. str_at (clock w) (kv w) key = Some x \<Longrightarrow> x = h \<or> x = [] \<or> x = ''pending''"
    and k: "\<And>n. keeps (resp w0) (k n)"
  shows "wp (slot_owner_is_gone exec h)
      (\<lambda>gone. wp (if \<not> gone then ret f else bnd (attempt (r_del exec [key])) k) (\<lambda>_. resp w0) (\<lambda>_. resp w0))
      (\<lambda>_. resp w0) w"
proof (rule wp_mono [OF wp_gone_not_running], goal_cases)
  case (1 gone w1)
  then have r1: "resp w0 w1" by (intro resp_reads [OF r]) simp_all
  show ?case
  proof (cases gone)
    case False
    then show ?thesis using r1 by simp
  next
    case True
    have fin: "resp w0 w2" if "clock w1 \<le> clock w2" "kv w2 = kv w1 \<or> kv w2 = wipe [key] (kv w1)" for w2
    proof (rule spares_del [OF r1 that(1) ck _ that(2)])
      show "\<not> held_by_running (clock w2) (kv w1) key"
      proof
        assume "held_by_running (clock w2) (kv w1) key"
        then obtain x where x: "str_at (clock w2) (kv w1) key = Some x" "x \<noteq> []" "x \<noteq> ''pending''"
          "owner_running (clock w2) (kv w1) x" unfolding held_by_running_def by blast
        have kv1: "kv w1 = kv w" and t1: "clock w \<le> clock w1" using 1 by auto
        have "str_at (clock w) (kv w) key = Some x"
          using str_at_later [OF x(1)] t1 that(1) kv1 by simp
        then have "x = h" using own x(2,3) by blast
        then have "owner_running (clock w1) (kv w) h"
          using owner_running_earlier [OF x(4) that(1)] kv1 by simp
        then show False using 1 True by simp
      qed
    qed
    have "wp (r_del exec [key]) (\<lambda>x. wp (k (Some x)) (\<lambda>_. resp w0) (\<lambda>_. resp w0))
        (\<lambda>_. wp (k None) (\<lambda>_. resp w0) (\<lambda>_. resp w0)) w1"
      by (rule wp_r_del; rule keepsD [OF k]; rule fin; simp)
    then show ?thesis using True by simp
  qed
qed simp

lemma keeps_sweep_claim:
  assumes ck: "claim_key key"
  shows "keeps (resp w0) (sweep_claim exec bump key f)"
proof (rule keepsI)
  fix w assume r: "resp w0 w"
  let ?P = "\<lambda>_. resp w0"
  have step: "wp (case got of Some (Some holder) \<Rightarrow>
           if holder = [] then ret f
           else bnd (slot_owner_is_gone exec holder) (\<lambda>gone.
             if \<not> gone then ret f
             else bnd (attempt (r_del exec [key])) (\<lambda>n.
               case n of Some c \<Rightarrow> ret (if c \<noteq> 0 then bump f else f) | None \<Rightarrow> ret f))
       | _ \<Rightarrow> ret f) ?P ?P w'"
    if w': "clock w \<le> clock w'" "kv w' = kv w" and got: "\<And>h. got = Some (Some h) \<Longrightarrow> str_at (clock w) (kv w) key = Some h"
    for got w'
  proof (cases "\<exists>h. got = Some (Some h) \<and> h \<noteq> []")
    case True
    then obtain h where h: "got = Some (Some h)" "h \<noteq> []" by blast
    have r': "resp w0 w'" by (rule resp_reads [OF r w'])
    have own: "x = h \<or> x = [] \<or> x = ''pending''" if "str_at (clock w') (kv w') key = Some x" for x
    proof -
      have "str_at (clock w) (kv w) key = Some x" using str_at_later [OF that w'(1)] w'(2) by simp
      with got [OF h(1)] show ?thesis by simp
    qed
    show ?thesis
      unfolding h(1) option.case wp_bnd
      using h(2) by (simp del: wp_bnd) (rule wp_free_if_gone [OF r' ck own, folded wp_bnd],
          assumption, intro keeps_option keeps_ret)
  next
    case False
    then show ?thesis using resp_reads [OF r w'] by (auto split: option.splits)
  qed
  show "wp (sweep_claim exec bump key f) ?P ?P w"
    unfolding sweep_claim_def wp_bnd wp_attempt
    by (rule wp_r_get; rule step) simp_all
qed

lemma keeps_sweep_dedup_key:
  assumes ck: "claim_key key"
  shows "keeps (resp w0) (sweep_dedup_key exec key f)"
proof (rule keepsI)
  fix w assume r: "resp w0 w"
  let ?P = "\<lambda>_. resp w0"
  let ?k = "\<lambda>n. case n of Some c \<Rightarrow> ret (if c \<noteq> 0 then count_dedup f else f) | None \<Rightarrow> ret f"
  have free: "wp (if \<not> stale then ret f else bnd (attempt (r_del exec [key])) ?k) ?P ?P w'"
    if w': "clock w \<le> clock w'" "kv w' = kv w"
      and no: "\<And>x. str_at (clock w) (kv w) key = Some x \<Longrightarrow> x = [] \<or> x = ''pending''" for stale w'
  proof -
    have r': "resp w0 w'" by (rule resp_reads [OF r w'])
    have "\<not> held_by_running t (kv w') key" if "clock w' \<le> t" for t
    proof
      assume "held_by_running t (kv w') key"
      then obtain x where x: "str_at t (kv w') key = Some x" "x \<noteq> []" "x \<noteq> ''pending''"
        unfolding held_by_running_def by blast
      then have "str_at (clock w) (kv w) key = Some x" using str_at_later [OF x(1)] w' that by simp
      then show False using no x(2,3) by blast
    qed
    then have fin: "resp w0 w2" if "clock w' \<le> clock w2" "kv w2 = kv w' \<or> kv w2 = wipe [key] (kv w')" for w2
      using that by (intro spares_del [OF r' that(1) ck _ that(2)]) simp
    have "wp (r_del exec [key]) (\<lambda>_. resp w0) (\<lambda>_. resp w0) w'"
      by (rule wp_r_del; rule fin; simp)
    then have "wp (r_del exec [key]) (\<lambda>x. wp (?k (Some x)) ?P ?P) (\<lambda>_. wp (?k None) ?P ?P) w'"
      by (rule wp_mono) simp_all
    then show ?thesis using r' by simp
  qed
  have step: "wp (case got of None \<Rightarrow> ret f
       | Some raw \<Rightarrow>
           (let owner = (case raw of None \<Rightarrow> [] | Some s \<Rightarrow> s) in
            bnd (if owner \<noteq> [] \<and> owner \<noteq> ''pending'' then slot_owner_is_gone exec owner else ret True) (\<lambda>stale.
              if \<not> stale then ret f else bnd (attempt (r_del exec [key])) ?k))) ?P ?P w'"
    if w': "clock w \<le> clock w'" "kv w' = kv w"
      and got: "got = None \<or> got = Some (str_at (clock w) (kv w) key)" for got w'
  proof (cases "got = None")
    case True
    then show ?thesis using resp_reads [OF r w'] by simp
  next
    case False
    then have g: "got = Some (str_at (clock w) (kv w) key)" using got by blast
    define owner where "owner = (case str_at (clock w) (kv w) key of None \<Rightarrow> [] | Some s \<Rightarrow> s)"
    show ?thesis
    proof (cases "owner \<noteq> [] \<and> owner \<noteq> ''pending''")
      case True
      have own: "x = owner \<or> x = [] \<or> x = ''pending''" if "str_at (clock w') (kv w') key = Some x" for x
        using str_at_later [OF that w'(1)] w'(2) by (simp add: owner_def)
      have "wp (slot_owner_is_gone exec owner)
          (\<lambda>stale. wp (if \<not> stale then ret f else bnd (attempt (r_del exec [key])) ?k) ?P ?P) ?P w'"
        by (rule wp_free_if_gone [OF resp_reads [OF r w'] ck own], assumption, intro keeps_option keeps_ret)
      then show ?thesis
        unfolding g option.case owner_def [symmetric] Let_def wp_bnd if_P [OF True] .
    next
      case False
      then have "x = [] \<or> x = ''pending''" if "str_at (clock w) (kv w) key = Some x" for x
        using that by (auto simp: owner_def)
      then show ?thesis
        unfolding g option.case owner_def [symmetric] Let_def wp_bnd if_not_P [OF False] wp_ret
        by (intro free w')
    qed
  qed
  show "wp (sweep_dedup_key exec key f) ?P ?P w"
    unfolding sweep_dedup_key_def wp_bnd wp_attempt
    by (rule wp_r_get; rule step) simp_all
qed

lemma keeps_scan_each:
  assumes "\<And>key s. starts_with p key \<Longrightarrow> keeps (resp w0) (body key s)"
    and "\<And>s. keeps (resp w0) (k s)" and "keeps (resp w0) no"
  shows "keeps (resp w0) (bnd (attempt (r_scan exec p)) (\<lambda>ks. case ks of None \<Rightarrow> no
           | Some keys \<Rightarrow> bnd (for_each keys s body) k))"
proof (rule keepsI, unfold wp_bnd wp_attempt, rule wp_r_scan, goal_cases)
  case (1 w ks w')
  then have r: "resp w0 w'" by (intro resp_reads [OF 1(1)])
  have "keeps (resp w0) (bnd (for_each ks s body) k)"
    using 1(4) by (intro keeps_bnd keeps_for_each assms) auto
  from keepsD [OF this r] show ?case by simp
next
  case (2 w e w')
  then have r: "resp w0 w'" by (intro resp_reads [OF 2(1)])
  from keepsD [OF assms(3) r] show ?case by simp
qed

lemma claim_keyI:
  "starts_with ffmpeg_slot_prefix key \<Longrightarrow> claim_key key" "starts_with batch_key_prefix key \<Longrightarrow> claim_key key"
  "starts_with pipeline_dedup_prefix key \<Longrightarrow> claim_key key"
  by (simp_all add: claim_key_def)

lemma bnd_ret: "bnd m ret = m"
  by (auto simp: bnd_def ret_def fun_eq_iff split: prod.splits sum.splits)

lemma keeps_sweep_ghost_claims: "keeps (resp w0) (sweep_ghost_claims exec)"
proof -
  have dedup: "keeps (resp w0) (sweep_stale_dedup_keys exec f)" for f
    unfolding sweep_stale_dedup_keys_def
    using keeps_scan_each [where k = ret and p = pipeline_dedup_prefix and body = "sweep_dedup_key exec"
        and no = "ret f" and s = f]
    by (simp add: bnd_ret keeps_sweep_dedup_key claim_keyI keeps_ret)
  show ?thesis
    unfolding sweep_ghost_claims_def
    by (intro keeps_scan_each keeps_ret keeps_if keeps_sweep_claim dedup; erule claim_keyI)
qed

end

end
