(* ===== verification/Schema.thy ===== *)
theory Schema
  imports BatchKeys
begin

text \<open>
  The type each key of the program holds, read off its name, and the invariant \<open>typed\<close> of a key
  space that keeps to it.  A command whose key is used at its type keeps the invariant
  (\<open>effect_typed\<close>) and is accepted by Redis (the \<open>typed_\<close> rules), whatever the state.
\<close>

datatype kind = KStr | KSet | KHash | KList | KZset | KDoc

definition kind_of :: "string \<Rightarrow> kind" where
  "kind_of k =
     (if starts_with job_hash_prefix k then KHash
      else if k = job_list_key then KList
      else if k = delayed_set_key then KZset
      else if k = active_batches_key then KSet
      else if starts_with resume_key_prefix k then KSet
      else if starts_with batch_key_prefix k then
        (case rpartition_at (CHR '':'') (drop (length batch_key_prefix) k) of (_, found, name) \<Rightarrow>
           if found \<and> name \<in> {''jobs'', ''done_jobs'', ''finished''} then KSet else KStr)
      else if k = ''ffmpeg:delivery_deferred'' then KZset
      else if starts_with ''ffmpeg:delivery_deferred:'' k then KDoc
      else KStr)"

fun has_kind :: "kind \<Rightarrow> rval \<Rightarrow> bool" where
  "has_kind KStr (VStr _) = True"
| "has_kind KSet (VSet _) = True"
| "has_kind KHash (VHash _) = True"
| "has_kind KList (VList _) = True"
| "has_kind KZset (VZset _) = True"
| "has_kind KDoc (VDoc _) = True"
| "has_kind _ _ = False"

definition typed :: "store \<Rightarrow> bool" where
  "typed m \<longleftrightarrow> (\<forall>k v d. m k = Some (v, d) \<longrightarrow> has_kind (kind_of k) v)"

lemma typed_map_of: "list_all (\<lambda>(k, v, d). has_kind (kind_of k) v) al \<Longrightarrow> typed (map_of al)"
  unfolding typed_def list_all_iff by (auto dest!: map_of_SomeD)

lemma typed_live: "typed m \<Longrightarrow> live t m k = Some v \<Longrightarrow> has_kind (kind_of k) v"
  by (auto simp: typed_def live_def split: option.splits if_splits)

lemma has_kindD:
  "has_kind KStr v \<Longrightarrow> \<exists>s. v = VStr s" "has_kind KSet v \<Longrightarrow> \<exists>xs. v = VSet xs"
  "has_kind KHash v \<Longrightarrow> \<exists>h. v = VHash h" "has_kind KList v \<Longrightarrow> \<exists>its. v = VList its"
  "has_kind KZset v \<Longrightarrow> \<exists>z. v = VZset z" "has_kind KDoc v \<Longrightarrow> \<exists>it. v = VDoc it"
  by (cases v; simp)+

lemma typed_is:
  assumes "typed m"
  shows typed_str: "kind_of k = KStr \<Longrightarrow> is_str (live t m k)"
    and typed_set: "kind_of k = KSet \<Longrightarrow> is_set (live t m k)"
    and typed_hash: "kind_of k = KHash \<Longrightarrow> is_hash (live t m k)"
    and typed_list: "kind_of k = KList \<Longrightarrow> is_list (live t m k)"
    and typed_zset: "kind_of k = KZset \<Longrightarrow> is_zset (live t m k)"
    and typed_doc: "kind_of k = KDoc \<Longrightarrow> is_doc (live t m k)"
  using typed_live [OF assms, of t k]
  by (cases "live t m k"; auto simp: is_str_def is_set_def is_hash_def is_list_def is_zset_def is_doc_def dest!: has_kindD)+

section \<open>The names the program uses\<close>

lemma kind_of_simps [simp]:
  "kind_of (job_hash_key j) = KHash" "kind_of (ffmpeg_slot_key i) = KStr" "kind_of (worker_rss_key x) = KStr"
  "kind_of job_list_key = KList" "kind_of delayed_set_key = KZset" "kind_of active_batches_key = KSet"
  "kind_of (user_batches_key u) = KSet"
  by (simp_all add: kind_of_def key_defs starts_with_def)

lemma batch_not_resume:
  assumes "batch_id_ok b"
  shows "\<not> starts_with resume_key_prefix (batch_key_prefix @ b @ CHR '':'' # s)"
proof
  assume "starts_with resume_key_prefix (batch_key_prefix @ b @ CHR '':'' # s)"
  then obtain t where "b @ CHR '':'' # s = ''resume'' @ CHR '':'' # t"
    by (auto simp: starts_with_iff key_defs)
  then have "b = ''resume''" using colon_suffix_inject [of b "''resume''"] assms by (simp add: batch_id_ok_def)
  then show False using assms by (simp add: batch_id_ok_def non_batch_suffixes_def)
qed

lemma batch_not_active: "batch_key_prefix @ b @ CHR '':'' # s \<noteq> active_batches_key"
proof
  assume "batch_key_prefix @ b @ CHR '':'' # s = active_batches_key"
  then have "b @ CHR '':'' # s = ''active''" by (simp add: key_defs)
  then have "CHR '':'' \<in> set ''active''" by (metis in_set_conv_decomp)
  then show False by simp
qed

lemma kind_of_batch:
  assumes "batch_id_ok b" and "CHR '':'' \<notin> set s"
  shows "kind_of (batch_key_prefix @ b @ CHR '':'' # s) =
    (if s \<in> {''jobs'', ''done_jobs'', ''finished''} then KSet else KStr)"
proof -
  let ?k = "batch_key_prefix @ b @ CHR '':'' # s"
  have "\<not> starts_with job_hash_prefix ?k" "?k \<noteq> job_list_key" "?k \<noteq> delayed_set_key" "starts_with batch_key_prefix ?k"
    by (simp_all add: key_defs starts_with_def)
  then show ?thesis
    using batch_not_resume [OF assms(1), of s] batch_not_active [of b s] assms(2)
    by (simp add: kind_of_def)
qed

lemma kind_of_batch_keys [simp]:
  assumes "batch_id_ok b"
  shows "kind_of (batch_jobs_key b) = KSet" "kind_of (batch_done_jobs_key b) = KSet"
    "kind_of (batch_finished_keys b) = KSet" "kind_of (batch_total_key b) = KStr"
    "kind_of (batch_progress_key b) = KStr" "kind_of (batch_message_key b) = KStr"
    "kind_of (batch_started_key b) = KStr" "kind_of (batch_cancel_key b) = KStr"
  using kind_of_batch [OF assms]
  by (simp_all add: batch_jobs_key_def batch_done_jobs_key_def batch_finished_keys_def batch_total_key_def
      batch_progress_key_def batch_message_key_def batch_started_key_def batch_cancel_key_def)

lemma kind_of_lock [simp]: "batch_id_ok b \<Longrightarrow> kind_of (batch_lock_key b) = KStr"
proof -
  assume b: "batch_id_ok b"
  have "partition_at (CHR '':'') (rev b) = (rev b, False, [])" using b by (simp add: batch_id_ok_def)
  then have "rpartition_at (CHR '':'') b = ([], False, b)" by (simp add: rpartition_at_def)
  moreover have "\<not> starts_with resume_key_prefix (batch_lock_key b)"
  proof
    assume "starts_with resume_key_prefix (batch_lock_key b)"
    then have "CHR '':'' \<in> set b" by (auto simp: starts_with_iff key_defs)
    then show False using b by (simp add: batch_id_ok_def)
  qed
  moreover have "batch_lock_key b \<noteq> active_batches_key"
    using b by (auto simp: key_defs batch_id_ok_def non_batch_suffixes_def)
  moreover have "\<not> starts_with job_hash_prefix (batch_lock_key b)" "batch_lock_key b \<noteq> job_list_key"
    "batch_lock_key b \<noteq> delayed_set_key" "starts_with batch_key_prefix (batch_lock_key b)"
    by (simp_all add: key_defs starts_with_def)
  ultimately show ?thesis by (simp add: kind_of_def batch_lock_key_def)
qed

section \<open>Commands that keep to the types\<close>

text \<open>The type a command uses its key at; deleting and re-arming suit every type.\<close>

fun call_typed :: "call \<Rightarrow> bool" where
  "call_typed (Get k) = (kind_of k = KStr)"
| "call_typed (SetK k v ex) = (kind_of k = KStr)"
| "call_typed (GetDoc k) = (kind_of k = KDoc)"
| "call_typed (SetDoc k it ex) = (kind_of k = KDoc)"
| "call_typed (SetNx k v ms) = (kind_of k = KStr)"
| "call_typed (Incr k) = (kind_of k = KStr)"
| "call_typed (GetDel k) = (kind_of k = KStr)"
| "call_typed (Sadd k x) = (kind_of k = KSet)"
| "call_typed (Srem k xs) = (kind_of k = KSet)"
| "call_typed (Smembers k) = (kind_of k = KSet)"
| "call_typed (Hset k fs) = (kind_of k = KHash)"
| "call_typed (Hdel k f) = (kind_of k = KHash)"
| "call_typed (Hget k f) = (kind_of k = KHash)"
| "call_typed (Hgetall k) = (kind_of k = KHash)"
| "call_typed (Lpush k it) = (kind_of k = KList)"
| "call_typed (Brpop k) = (kind_of k = KList)"
| "call_typed (Lrange k) = (kind_of k = KList)"
| "call_typed (Zadd k it s) = (kind_of k = KZset)"
| "call_typed (Zrem k it) = (kind_of k = KZset)"
| "call_typed (ZremUpto k c) = (kind_of k = KZset)"
| "call_typed (Eval (PruneJobScript k j)) = (kind_of k = KList)"
| "call_typed (Eval (PruneBatchScript k b)) = (kind_of k = KList)"
| "call_typed (Eval (ConvStartScript k c l n e)) = (kind_of k = KZset)"
| "call_typed (Eval sc) = (kind_of (script_key sc) = KStr)"
| "call_typed _ = True"

lemma typed_wipe: "typed m \<Longrightarrow> typed (wipe ks m)"
  by (simp add: typed_def wipe_def)

lemma typed_upd: "typed m \<Longrightarrow> has_kind (kind_of k) v \<Longrightarrow> typed (m(k \<mapsto> (v, d)))"
  by (simp add: typed_def)

lemma typed_put:
  "typed m \<Longrightarrow> kind_of k = KList \<Longrightarrow> typed (put_list k xs d m)"
  "typed m \<Longrightarrow> kind_of k = KSet \<Longrightarrow> typed (put_set k ys d m)"
  "typed m \<Longrightarrow> kind_of k = KHash \<Longrightarrow> typed (put_hash k h d m)"
  "typed m \<Longrightarrow> kind_of k = KZset \<Longrightarrow> typed (put_zset k zs d m)"
  by (simp_all add: put_list_def put_set_def put_hash_def put_zset_def typed_wipe typed_upd)

lemma script_typed: "typed m \<Longrightarrow> call_typed (Eval sc) \<Longrightarrow> typed (fst (run_script sc t m))"
  by (cases sc)
    (simp_all add: lua_release_def lua_refresh_def lua_renew_def lua_steal_def lua_prune_job_def lua_prune_batch_def
      lua_flood_extend_def lua_conv_start_def typed_wipe typed_upd typed_put Let_def split: prod.splits option.splits)

lemma effect_typed: "typed m \<Longrightarrow> call_typed c \<Longrightarrow> typed (effect c t m)"
  by (cases c)
    (simp_all add: typed_wipe typed_upd typed_put script_typed typed_live split: option.splits)

text \<open>The invariant of an operation of the program.\<close>

abbreviation keeps_typed :: "('w \<Rightarrow> store) \<Rightarrow> ('w, 'a) io \<Rightarrow> bool" where
  "keeps_typed kv m \<equiv> keeps (\<lambda>w. typed (kv w)) m"

context redis_server begin

lemma typed_exec:
  assumes "call_typed c"
  shows "keeps_typed kv (exec c)"
  by (rule keepsI, rule wp_exec) (auto simp: effect_typed assms)

lemma typed_call: "call_typed c \<Longrightarrow> keeps_typed kv (fmapio f (exec c))"
  by (rule keeps_fmapio) (rule typed_exec)

lemma typed_r_time: "keeps_typed kv (r_time exec)"
  unfolding r_time_def by (intro keeps_tryc typed_call keeps_ret) simp

lemma typed_calls:
  "keeps_typed kv (r_connect exec)" "keeps_typed kv (r_close exec)"
  "keeps_typed kv (r_exists exec ks)" "keeps_typed kv (r_scan exec p)" "keeps_typed kv (r_del exec ks)"
  "keeps_typed kv (r_expire exec k s)"
  "kind_of k = KStr \<Longrightarrow> keeps_typed kv (r_get exec k)"
  "kind_of k = KStr \<Longrightarrow> keeps_typed kv (r_set exec k v ex)"
  "kind_of k = KStr \<Longrightarrow> keeps_typed kv (r_setnx exec k v ms)"
  "kind_of k = KStr \<Longrightarrow> keeps_typed kv (r_incr exec k)"
  "kind_of k = KStr \<Longrightarrow> keeps_typed kv (r_getdel exec k)"
  "kind_of k = KSet \<Longrightarrow> keeps_typed kv (r_sadd exec k x)"
  "kind_of k = KSet \<Longrightarrow> keeps_typed kv (r_srem exec k xs)"
  "kind_of k = KSet \<Longrightarrow> keeps_typed kv (r_smembers exec k)"
  "kind_of k = KHash \<Longrightarrow> keeps_typed kv (r_hset exec k fs)"
  "kind_of k = KHash \<Longrightarrow> keeps_typed kv (r_hdel exec k f)"
  "kind_of k = KHash \<Longrightarrow> keeps_typed kv (r_hget exec k f)"
  "kind_of k = KHash \<Longrightarrow> keeps_typed kv (r_hgetall exec k)"
  "kind_of k = KList \<Longrightarrow> keeps_typed kv (r_lpush exec k it)"
  "kind_of k = KList \<Longrightarrow> keeps_typed kv (r_brpop exec k)"
  "kind_of k = KList \<Longrightarrow> keeps_typed kv (r_lrange exec k)"
  "kind_of k = KZset \<Longrightarrow> keeps_typed kv (r_zadd exec k it sc)"
  "kind_of k = KZset \<Longrightarrow> keeps_typed kv (r_zrem exec k it)"
  "kind_of k = KDoc \<Longrightarrow> keeps_typed kv (r_getdoc exec k)"
  "kind_of k = KDoc \<Longrightarrow> keeps_typed kv (r_setdoc exec k item ex)"
  "keeps_typed kv (r_zrange exec k)" "keeps_typed kv (r_zdue exec k now n)"
  "call_typed (Eval spt) \<Longrightarrow> keeps_typed kv (r_eval exec spt)"
  unfolding r_connect_def r_close_def r_exists_def r_scan_def r_del_def r_expire_def r_get_def r_getdoc_def r_setdoc_def
    r_set_def r_setnx_def r_incr_def r_getdel_def r_sadd_def r_srem_def r_smembers_def r_hset_def r_hdel_def r_hget_def
    r_hgetall_def r_lpush_def r_brpop_def r_lrange_def r_zadd_def r_zrem_def r_zrange_def r_zdue_def r_eval_def
  by (rule typed_call; simp)+

end

end
