(* ===== verification/ClaimResults.thy ===== *)
theory ClaimResults
  imports ClaimSafety Schema
begin

text \<open>
  The claims' theorems: what a running owner is promised under any failure, that a release and a
  re-arm touch only the caller's own claim, and with Redis up the exact outcome of taking a slot
  or a batch lock.
\<close>

lemma wp_outcome: "wp m Q (\<lambda>_ _. False) w \<longleftrightarrow> (\<exists>x w'. m w = (Inr x, w') \<and> Q x w')"
  by (cases "m w"; cases "fst (m w)") (auto simp: wp_def)

section \<open>A claim that may be taken\<close>

text \<open>The claim is free, or its holder is gone.\<close>

definition takeable :: "real \<Rightarrow> store \<Rightarrow> string \<Rightarrow> bool" where
  "takeable t m key \<longleftrightarrow>
     (case str_at t m key of None \<Rightarrow> live t m key = None | Some h \<Rightarrow> owner_gone t m h)"

definition take_claim :: "string \<Rightarrow> string \<Rightarrow> int \<Rightarrow> real \<Rightarrow> store \<Rightarrow> store" where
  "take_claim key owner ttl_ms t m = m(key \<mapsto> (VStr owner, Some (t + of_int ttl_ms / 1000)))"

context redis_up begin

lemma is_strD: "is_str v \<Longrightarrow> v = None \<or> (\<exists>s. v = Some (VStr s))"
  by (auto simp: is_str_def split: option.splits rval.splits)

lemma up_steal:
  assumes str: "str_at (clock w) (kv w) key = Some h"
    and hash: "is_hash (live (clock w) (kv w) (job_hash_key h))"
    and no: "\<And>w'. \<not> owner_gone (clock w) (kv w) h \<Longrightarrow> clock w' = clock w \<Longrightarrow> kv w' = kv w \<Longrightarrow> Q no w'"
    and yes: "\<And>w'. owner_gone (clock w) (kv w) h \<Longrightarrow> clock w' = clock w \<Longrightarrow>
      kv w' = take_claim key owner ms (clock w) (kv w) \<Longrightarrow> Q (yes 1) w'"
  shows "wp (slot_owner_is_gone exec h) (\<lambda>gone. wp (if \<not> gone then ret no
      else bnd (r_eval exec (StealScript key h owner ms)) (\<lambda>n. ret (yes n))) Q E) E w"
proof (rule up_slot_owner_is_gone [OF hash], goal_cases)
  case (1 w1)
  show ?case
  proof (cases "owner_gone (clock w) (kv w) h")
    case False
    then show ?thesis using 1 no by simp
  next
    case True
    have l: "live (clock w1) (kv w1) key = Some (VStr h)" using str 1 by (simp add: str_at_live)
    have "wp (r_eval exec (StealScript key h owner ms)) (\<lambda>n. Q (yes n)) E w1"
      by (rule up_eval) (use 1 l str yes True in \<open>auto simp: is_str_def lua_steal_def take_claim_def\<close>)
    then show ?thesis using True by simp
  qed
qed

lemma up_claim_slot:
  assumes typed: "typed (kv w)"
  shows "wp (claim_slot exec owner ms i)
     (\<lambda>r w'. clock w' = clock w \<and>
        (if takeable (clock w) (kv w) (ffmpeg_slot_key i)
         then r = Some i \<and> kv w' = take_claim (ffmpeg_slot_key i) owner ms (clock w) (kv w)
         else r = None \<and> kv w' = kv w)) E w"
    (is "wp _ ?Q E w")
proof -
  let ?k = "ffmpeg_slot_key i"
  have s: "is_str (live (clock w) (kv w) ?k)" by (rule typed_str [OF typed]) simp
  show ?thesis
  proof (cases "live (clock w) (kv w) ?k")
    case None
    then have t: "takeable (clock w) (kv w) ?k" by (simp add: takeable_def str_at_def)
    show ?thesis
      unfolding claim_slot_def Let_def wp_tryc wp_bnd
      by (rule up_setnx) (use None t in \<open>simp add: take_claim_def\<close>)
  next
    case (Some v)
    then obtain h where h: "v = VStr h" using is_strD [OF s] by auto
    have str: "str_at (clock w) (kv w) ?k = Some h" using Some h by (simp add: str_at_live)
    have t: "takeable (clock w) (kv w) ?k \<longleftrightarrow> owner_gone (clock w) (kv w) h" by (simp add: takeable_def str)
    show ?thesis
      unfolding claim_slot_def Let_def wp_tryc wp_bnd
    proof (rule up_setnx, goal_cases)
      case (1 w1)
      then have w1: "clock w1 = clock w" "kv w1 = kv w" using Some by simp_all
      show ?case
        unfolding Some if_not_P [OF option.distinct(2)] wp_bnd
      proof (rule up_get, goal_cases)
        case 1
        then show ?case using s w1 by simp
      next
        case (2 w2)
        then have w2: "clock w2 = clock w" "kv w2 = kv w" using w1 by simp_all
        show ?case
        proof (cases "h = []")
          case True
          then have "\<not> takeable (clock w) (kv w) ?k" by (simp add: t owner_gone_def)
          moreover have "wp (r_setnx exec ?k owner ms) (\<lambda>x. wp (ret (if x then Some i else None)) ?Q
              (\<lambda>e. wp (ret (Some (- 1))) ?Q E)) (\<lambda>e. wp (ret (Some (- 1))) ?Q E) w2"
            by (rule up_setnx) (use calculation w2 Some in simp)
          ultimately show ?thesis using w1 str True by simp
        next
          case False
          have "wp (slot_owner_is_gone exec h) (\<lambda>gone. wp (if \<not> gone then ret None
                else bnd (r_eval exec (StealScript ?k h owner ms)) (\<lambda>n. ret (if n \<noteq> 0 then Some i else None))) ?Q
              (\<lambda>e. wp (ret (Some (- 1))) ?Q E)) (\<lambda>e. wp (ret (Some (- 1))) ?Q E) w2"
            by (rule up_steal)
              (use w2 str t typed_hash [OF typed, of "job_hash_key h"] in auto)
          then show ?thesis using w1 str False by simp
        qed
      qed
    qed
  qed
qed

lemma up_claim_slots:
  assumes typed: "typed (kv w)"
  shows "wp (first_of js (claim_slot exec owner ms))
     (\<lambda>r w'. clock w' = clock w \<and> r = find (\<lambda>i. takeable (clock w) (kv w) (ffmpeg_slot_key i)) js \<and>
        kv w' = (case r of None \<Rightarrow> kv w | Some i \<Rightarrow> take_claim (ffmpeg_slot_key i) owner ms (clock w) (kv w))) E w"
  using typed
proof (induction js arbitrary: w)
  case Nil
  then show ?case by simp
next
  case (Cons i js)
  show ?case
    unfolding first_of.simps wp_bnd
  proof (rule wp_mono [OF up_claim_slot [OF Cons.prems]], goal_cases)
    case (1 r w1)
    show ?case
    proof (cases "takeable (clock w) (kv w) (ffmpeg_slot_key i)")
      case True
      then show ?thesis using 1 by simp
    next
      case False
      then have w1: "r = None" "kv w1 = kv w" "clock w1 = clock w" using 1 by simp_all
      show ?thesis
        using Cons.IH [of w1] Cons.prems w1 False by (simp cong: option.case_cong)
    qed
  qed
qed

lemma up_try_acquire_batch_lock:
  assumes typed: "typed (kv w)" and b: "batch_id_ok b"
  shows "wp (try_acquire_batch_lock exec cfg b j)
     (\<lambda>r w'. clock w' = clock w \<and> r = takeable (clock w) (kv w) (batch_lock_key b) \<and>
        kv w' = (if r then take_claim (batch_lock_key b) (id_text j) (lock_ttl cfg * 1000) (clock w) (kv w) else kv w)) E w"
    (is "wp _ ?Q E w")
proof -
  let ?k = "batch_lock_key b" and ?ms = "lock_ttl cfg * 1000"
  have s: "is_str (live (clock w) (kv w) ?k)" by (rule typed_str [OF typed]) (simp add: b)
  show ?thesis
  proof (cases "live (clock w) (kv w) ?k")
    case None
    then have t: "takeable (clock w) (kv w) ?k" by (simp add: takeable_def str_at_def)
    show ?thesis
      unfolding try_acquire_batch_lock_def Let_def wp_tryc wp_bnd
      by (rule up_setnx) (use None t in \<open>simp add: take_claim_def\<close>)
  next
    case (Some v)
    then obtain h where h: "v = VStr h" using is_strD [OF s] by auto
    have str: "str_at (clock w) (kv w) ?k = Some h" using Some h by (simp add: str_at_live)
    have t: "takeable (clock w) (kv w) ?k \<longleftrightarrow> owner_gone (clock w) (kv w) h" by (simp add: takeable_def str)
    show ?thesis
      unfolding try_acquire_batch_lock_def Let_def wp_tryc wp_bnd
    proof (rule up_setnx, goal_cases)
      case (1 w1)
      then have w1: "clock w1 = clock w" "kv w1 = kv w" using Some by simp_all
      show ?case
        unfolding Some if_not_P [OF option.distinct(2)] wp_bnd
      proof (rule up_get, goal_cases)
        case 1
        then show ?case using s w1 by simp
      next
        case (2 w2)
        then have w2: "clock w2 = clock w" "kv w2 = kv w" using w1 by simp_all
        show ?case
        proof (cases "h = []")
          case True
          then have "\<not> takeable (clock w) (kv w) ?k" by (simp add: t owner_gone_def)
          then show ?thesis using w1 w2 str True by simp
        next
          case False
          have "wp (slot_owner_is_gone exec h) (\<lambda>gone. wp (if \<not> gone then ret False
                else bnd (r_eval exec (StealScript ?k h (id_text j) ?ms)) (\<lambda>n. ret (n \<noteq> 0))) ?Q
              (\<lambda>e. wp (ret True) ?Q E)) (\<lambda>e. wp (ret True) ?Q E) w2"
            by (rule up_steal)
              (use w2 str t typed_hash [OF typed, of "job_hash_key h"] in auto)
          then show ?thesis using w1 str False by simp
        qed
      qed
    qed
  qed
qed

end

context redis_server begin

lemma wp_release_batch_lock:
  "wp (release_batch_lock exec b j)
     (\<lambda>r w'. (kv w' = kv w \<or> (str_at (clock w) (kv w) (batch_lock_key b) = Some (id_text j) \<and>
                kv w' = wipe [batch_lock_key b] (kv w))) \<and>
             (r \<longrightarrow> kv w' = wipe [batch_lock_key b] (kv w))) (\<lambda>_ _. False) w"
  unfolding release_batch_lock_def wp_tryc wp_bnd
  by (rule wp_r_eval) (auto simp: lua_release_def split: if_splits)

lemma wp_release_ffmpeg_slot:
  "wp (release_ffmpeg_slot exec i j)
     (\<lambda>r w'. (kv w' = kv w \<or> (\<exists>n. i = Some n \<and> 0 \<le> n \<and> str_at (clock w) (kv w) (ffmpeg_slot_key n) = Some (id_text j) \<and>
                kv w' = wipe [ffmpeg_slot_key n] (kv w))) \<and>
             (r \<longrightarrow> (\<exists>n. i = Some n \<and> kv w' = wipe [ffmpeg_slot_key n] (kv w)))) (\<lambda>_ _. False) w"
proof (cases "\<exists>n. i = Some n \<and> 0 \<le> n")
  case True
  then obtain n where n: "i = Some n" "\<not> n < 0" by auto
  show ?thesis
    unfolding release_ffmpeg_slot_def n(1) option.case if_not_P [OF n(2)] wp_tryc wp_bnd
    by (rule wp_r_eval) (use n in \<open>auto simp: lua_release_def split: if_splits\<close>)
next
  case False
  then show ?thesis by (cases i) (auto simp: release_ffmpeg_slot_def)
qed

lemma wp_refresh_lock:
  "wp (refresh_lock exec cfg key j ttl)
     (\<lambda>r w'. kv w' = kv w \<or> (str_at (clock w) (kv w) key = Some (id_text j) \<and>
        (\<exists>d > clock w. kv w' = (kv w)(key \<mapsto> (VStr (id_text j), Some d))))) (\<lambda>_ _. False) w"
proof -
  have pos: "0 < py_trunc (max 1 (x :: real) * 1000)" for x
  proof -
    have "(1000 :: real) \<le> max 1 x * 1000" by simp
    then have "1000 \<le> \<lfloor>max 1 x * 1000\<rfloor>" by (simp add: le_floor_iff)
    then show ?thesis by (simp add: py_trunc_def)
  qed
  then have d: "\<exists>d > clock w. m(key \<mapsto> (VStr s, Some (clock w + of_int (py_trunc (max 1 x * 1000)) / 1000)))
      = m(key \<mapsto> (VStr s, Some d))" for m :: store and s x
    by (intro exI conjI refl) simp_all
  show ?thesis
    unfolding refresh_lock_def Let_def wp_tryc wp_bnd
    by (rule wp_r_eval) (auto simp: lua_refresh_def d split: if_splits)
qed

end

section \<open>Properties\<close>

text \<open>
  The world the witnesses run in: slot 0 is held by a job running under a reporting worker, the
  batch lock of batch \<open>ab\<close> and a dedup key by jobs that are gone.
\<close>

definition demo_claims :: mem where
  "demo_claims = \<lparr>mstore =
     [(''ffmpeg:slot:0'', VStr ''j1'', None),
      (''ffmpeg:job:j1'', VHash [(''status'', ''processing''), (''worker'', ''w1'')], None),
      (''ffmpeg:worker:rss:w1'', VStr ''1000'', None),
      (''ffmpeg:batch:ab'', VStr ''j2'', Some 900),
      (''ffmpeg:job:j2'', VHash [(''status'', ''processing''), (''worker'', ''w2'')], None),
      (''ffmpeg:pipeline_dedup:7:f'', VStr ''pending'', None)], mclock = 0\<rparr>"

lemma demo_claims_typed: "typed (mkv demo_claims)"
  unfolding mkv_def demo_claims_def mem.simps
  by (rule typed_map_of) (simp add: kind_of_def key_defs starts_with_def rpartition_at_def)

lemma demo_slot_held: "held_by_running t (mkv demo_claims) ''ffmpeg:slot:0''"
  by (simp add: held_by_running_def owner_running_def str_at_def hash_at_def live_def mkv_def demo_claims_def
      key_defs terminal_statuses_def)

lemma keeps_spares_final:
  assumes "\<And>w0. keeps (\<lambda>w. spares (clock w0) (kv w0) (clock w) (kv w)) m"
  shows "spares (clock w) (kv w) (clock (snd (m w))) (kv (snd (m w)))"
  by (rule keeps_final [where I = "\<lambda>x. spares (clock w) (kv w) (clock x) (kv x)", OF assms]) (rule spares_refl)

lemma int_str_01: "int_str 0 = ''0''" "int_str 1 = ''1''"
  by code_simp+

text \<open>
  C3: A claim held by a job that is running under a reporting worker survives every attempt of
  another job to take a conversion slot or a batch lock, however Redis misbehaves meanwhile:
  neither the slot search nor the lock attempt ever steals it.
\<close>

theorem taking_spares_running_owner:
  assumes "redis_server exec kv clock"
    and "w' = snd (acquire_ffmpeg_slot exec cfg j slots ttl w) \<or> w' = snd (try_acquire_batch_lock exec cfg b j w)"
    and "held_by_running (clock w') (kv w) k"
  shows "kv w' k = kv w k"
proof -
  note kept = keeps_spares_final [OF redis_server.keeps_acquire_ffmpeg_slot [OF assms(1)], of w]
    keeps_spares_final [OF redis_server.keeps_try_acquire_batch_lock [OF assms(1)], of w]
  have "spares (clock w) (kv w) (clock w') (kv w')"
    using assms(2) by (elim disjE ssubst) (rule kept)+
  then show ?thesis using assms(3) by (simp add: spares_def)
qed

theorem taking_spares_running_owner_witness:
  "mkv (snd (acquire_ffmpeg_slot mem_exec default_cfg (PStr ''j9'') None None demo_claims)) ''ffmpeg:slot:0'' =
   Some (VStr ''j1'', None)"
proof -
  let ?w = "snd (acquire_ffmpeg_slot mem_exec default_cfg (PStr ''j9'') None None demo_claims)"
  have "mkv ?w ''ffmpeg:slot:0'' = mkv demo_claims ''ffmpeg:slot:0''"
    by (rule taking_spares_running_owner [OF memory_server disjI1 [OF refl]]) (rule demo_slot_held)
  then show ?thesis by (simp add: mkv_def demo_claims_def)
qed



text \<open>
  C5: With Redis up, taking a conversion slot gives the first slot of the pool that is free or
  whose holder is gone, writes the caller and the deadline there and changes nothing else; it gives
  \<open>None\<close>, changing nothing, exactly when every slot is held by an owner that is not gone.  In
  particular the index is below the pool's size and never the \<open>-1\<close> of a failing Redis.
\<close>

theorem acquire_slot_exact:
  assumes "redis_up exec kv clock" and "typed (kv w)"
    and "pool = (case slots of None \<Rightarrow> max_ffmpeg cfg | Some n \<Rightarrow> max 1 n)"
    and "ms = (case ttl of None \<Rightarrow> lock_ttl cfg | Some x \<Rightarrow> x) * 1000"
  shows "\<exists>w'. acquire_ffmpeg_slot exec cfg j slots ttl w =
      (Inr (find (\<lambda>i. takeable (clock w) (kv w) (ffmpeg_slot_key i)) [0..pool - 1]), w') \<and>
    kv w' = (case find (\<lambda>i. takeable (clock w) (kv w) (ffmpeg_slot_key i)) [0..pool - 1] of
       None \<Rightarrow> kv w
     | Some i \<Rightarrow> take_claim (ffmpeg_slot_key i) (id_text j) ms (clock w) (kv w))"
  using redis_up.up_claim_slots [OF assms(1,2), of "[0..pool - 1]" "id_text j" ms "\<lambda>_ _. False"]
  unfolding wp_outcome acquire_ffmpeg_slot_def Let_def assms(3,4) by auto

theorem acquire_slot_exact_witness:
  "fst (acquire_ffmpeg_slot mem_exec default_cfg (PStr ''j9'') (Some 2) None demo_claims) = Inr (Some 1)"
proof -
  have t: "takeable 0 (mkv demo_claims) (ffmpeg_slot_key 1)" "\<not> takeable 0 (mkv demo_claims) (ffmpeg_slot_key 0)"
    by (simp_all add: takeable_def owner_gone_def str_at_def hash_at_def live_def mkv_def demo_claims_def
        key_defs terminal_statuses_def int_str_01)
  have "[0..(2::int) - 1] = [0, 1]" by (simp add: upto_rec1)
  then show ?thesis
    using acquire_slot_exact [OF memory_up demo_claims_typed refl refl,
        where j = "PStr ''j9''" and slots = "Some 2" and cfg = default_cfg and ttl = None] t
    by (auto simp: demo_claims_def)
qed

text \<open>
  C6: With Redis up, taking a batch lock succeeds exactly when the lock is free or its holder is
  gone, and then the caller holds it until the deadline; otherwise nothing changes.  So of two jobs
  of one batch only one runs while its worker reports.
\<close>

theorem batch_lock_exact:
  assumes "redis_up exec kv clock" and "typed (kv w)" and "batch_id_ok b"
    and "key = batch_lock_key b"
  shows "\<exists>w'. try_acquire_batch_lock exec cfg b j w = (Inr (takeable (clock w) (kv w) key), w') \<and>
    kv w' = (if takeable (clock w) (kv w) key
             then take_claim key (id_text j) (lock_ttl cfg * 1000) (clock w) (kv w) else kv w)"
  using redis_up.up_try_acquire_batch_lock [OF assms(1-3), of cfg j "\<lambda>_ _. False"]
  unfolding wp_outcome assms(4) by auto

theorem batch_lock_exact_witness:
  "fst (try_acquire_batch_lock mem_exec default_cfg ''ab'' (PStr ''j9'') demo_claims) = Inr True"
proof -
  have t: "takeable 0 (mkv demo_claims) (batch_lock_key ''ab'')"
    by (simp add: takeable_def owner_gone_def str_at_def hash_at_def live_def mkv_def demo_claims_def
        key_defs terminal_statuses_def)
  have b: "batch_id_ok ''ab''" by (simp add: batch_id_ok_def non_batch_suffixes_def)
  show ?thesis
    using batch_lock_exact [OF memory_up demo_claims_typed b refl, where cfg = default_cfg and j = "PStr ''j9''"] t
    by (auto simp: demo_claims_def)
qed

text \<open>
  Releasing a batch lock or a conversion slot never raises and never removes a claim another
  job holds: the key space is unchanged, or exactly the one claim the caller held is gone - and it
  is gone whenever the release says so.
\<close>

theorem release_removes_only_own_claim:
  assumes "redis_server exec kv clock"
    and "(release_batch_lock exec b j w = (r, w') \<and> key = batch_lock_key b) \<or>
         (release_ffmpeg_slot exec (Some i) j w = (r, w') \<and> key = ffmpeg_slot_key i)"
  shows "(kv w' = kv w \<or> (str_at (clock w) (kv w) key = Some (id_text j) \<and> kv w' = wipe [key] (kv w))) \<and>
    (r = Inr True \<or> r = Inr False) \<and> (r = Inr True \<longrightarrow> kv w' = wipe [key] (kv w))"
  using assms(2)
proof
  assume a: "release_batch_lock exec b j w = (r, w') \<and> key = batch_lock_key b"
  then show ?thesis
    using redis_server.wp_release_batch_lock [OF assms(1), of b j w] unfolding wp_outcome by auto
next
  assume a: "release_ffmpeg_slot exec (Some i) j w = (r, w') \<and> key = ffmpeg_slot_key i"
  then show ?thesis
    using redis_server.wp_release_ffmpeg_slot [OF assms(1), of "Some i" j w] unfolding wp_outcome by auto
qed

theorem release_removes_only_own_claim_witness:
  "mkv (snd (release_ffmpeg_slot mem_exec (Some 0) (PStr ''other'') demo_claims)) ''ffmpeg:slot:0'' =
   Some (VStr ''j1'', None)"
proof -
  obtain r w' where o: "release_ffmpeg_slot mem_exec (Some 0) (PStr ''other'') demo_claims = (r, w')"
    by (cases "release_ffmpeg_slot mem_exec (Some 0) (PStr ''other'') demo_claims")
  have "str_at 0 (mkv demo_claims) (ffmpeg_slot_key 0) = Some ''j1''"
    by (simp add: str_at_def live_def mkv_def demo_claims_def key_defs int_str_01)
  then have "mkv w' = mkv demo_claims"
    using release_removes_only_own_claim [OF memory_server disjI2 [OF conjI [OF o refl]]]
    by (simp add: id_text_def) (simp add: demo_claims_def)
  then have "mkv (snd (r, w')) ''ffmpeg:slot:0'' = mkv demo_claims ''ffmpeg:slot:0''" by simp
  then show ?thesis unfolding o by (simp add: mkv_def demo_claims_def)
qed

text \<open>
  Re-arming a claim never raises, never creates or transfers one and never shortens it into the
  past: it leaves the key space alone or moves the deadline of a claim the caller still holds to a
  later moment than now.
\<close>

theorem refresh_keeps_only_own_claim:
  assumes "redis_server exec kv clock"
  shows "\<exists>r w'. refresh_lock exec cfg key j ttl w = (Inr r, w') \<and>
    (kv w' = kv w \<or> (str_at (clock w) (kv w) key = Some (id_text j) \<and>
       (\<exists>d > clock w. kv w' = (kv w)(key \<mapsto> (VStr (id_text j), Some d)))))"
  using redis_server.wp_refresh_lock [OF assms, of cfg key j ttl w] unfolding wp_outcome .

theorem refresh_keeps_only_own_claim_witness:
  "\<exists>r w'. refresh_lock mem_exec default_cfg ''ffmpeg:slot:0'' (PStr ''j9'') None demo_claims = (Inr r, w') \<and>
     mkv w' = mkv demo_claims"
proof -
  have "str_at 0 (mkv demo_claims) ''ffmpeg:slot:0'' = Some ''j1''"
    by (simp add: str_at_def live_def mkv_def demo_claims_def)
  moreover have "mclock demo_claims = 0" by (simp add: demo_claims_def)
  ultimately show ?thesis
    using refresh_keeps_only_own_claim [OF memory_server, of default_cfg "''ffmpeg:slot:0''" "PStr ''j9''" None demo_claims]
    by (auto simp: id_text_def)
qed

text \<open>
  C7: With Redis up, the program's question whether the owner of a claim is gone is answered by the
  key space alone: no status at all, a finished status without a worker stamp, or a stamped worker
  that no longer reports.  Asking changes nothing.
\<close>

theorem slot_owner_is_gone_refines:
  assumes "redis_up exec kv clock" and "typed (kv w)"
  shows "\<exists>w'. slot_owner_is_gone exec h w = (Inr (owner_gone (clock w) (kv w) h), w') \<and> kv w' = kv w"
proof -
  have "wp (slot_owner_is_gone exec h) (\<lambda>b w'. b = owner_gone (clock w) (kv w) h \<and> kv w' = kv w) (\<lambda>_ _. False) w"
    by (rule redis_up.up_slot_owner_is_gone [OF assms(1)]) (simp_all add: typed_hash [OF assms(2)])
  then show ?thesis unfolding wp_outcome by auto
qed

theorem slot_owner_is_gone_refines_witness:
  "fst (slot_owner_is_gone mem_exec ''j2'' demo_claims) = Inr True"
proof -
  have "owner_gone 0 (mkv demo_claims) ''j2''"
    by (simp add: owner_gone_def hash_at_def live_def mkv_def demo_claims_def key_defs terminal_statuses_def)
  then show ?thesis
    using slot_owner_is_gone_refines [OF memory_up demo_claims_typed, where h = "''j2''"]
    by (auto simp: demo_claims_def)
qed

end
