(* ===== verification/BatchState.thy ===== *)
theory BatchState
  imports ClaimResults
begin

text \<open>
  \<open>utils/batch_pipeline.py\<close>, a batch's bookkeeping: cancellation marker, exactly-once progress,
  the resume record, counters and the aggregate view, worker heartbeats and the restart request.
  Shown: a job is counted once however often it is delivered, a restart request is honoured
  once, the resume record reads back what was written, and the view lists exactly the batches
  whose total is positive, pruning the others.
\<close>

text \<open>
  \<open>with_client own body dflt\<close> is the frame the operations share: open a client when the caller gave
  none, answer \<open>dflt\<close> on any error, and give the client back at the end.
\<close>

definition with_client :: "'w exec \<Rightarrow> bool \<Rightarrow> ('w, 'a) io \<Rightarrow> 'a \<Rightarrow> ('w, 'a) io" where
  "with_client exec own body dflt =
     (if own then
        bnd (attempt (r_connect exec)) (\<lambda>c. case c of
            None \<Rightarrow> ret dflt
          | Some _ \<Rightarrow> fin (tryc body (\<lambda>_. ret dflt)) (suppress (r_close exec)))
      else tryc body (\<lambda>_. ret dflt))"

lemma safe_with_client [intro!]: "safe (with_client exec own body dflt)"
  unfolding with_client_def
  by (auto split: option.splits intro!: safe_if safe_bnd safe_attempt safe_ret safe_fin safe_tryc safe_suppress)

definition is_batch_cancelled :: "'w exec \<Rightarrow> bool \<Rightarrow> string \<Rightarrow> ('w, bool) io" where
  "is_batch_cancelled exec own batch_id =
     (if batch_id = [] then ret False
      else with_client exec own (fmapio (\<lambda>n. n \<noteq> 0) (r_exists exec [batch_cancel_key batch_id])) False)"

definition claim_batch_progress_slot :: "'w exec \<Rightarrow> batch_cfg \<Rightarrow> string \<Rightarrow> pyval \<Rightarrow> ('w, bool) io" where
  "claim_batch_progress_slot exec cfg batch_id job_id =
     (if batch_id = [] \<or> \<not> truthy job_id then ret True
      else tryc
        (bnd (r_sadd exec (batch_done_jobs_key batch_id) (py_str job_id)) (\<lambda>added.
           bnd (suppress (r_expire exec (batch_done_jobs_key batch_id) (state_ttl cfg))) (\<lambda>_.
             ret (added \<noteq> 0))))
        (\<lambda>_. ret True))"

section \<open>The resume record\<close>

definition open_batch_resume :: "'w exec \<Rightarrow> batch_cfg \<Rightarrow> bool \<Rightarrow> string \<Rightarrow> string \<Rightarrow> ('w, bool) io" where
  "open_batch_resume exec cfg own batch_id user_id =
     (if batch_id = [] \<or> user_id = [] then ret False
      else with_client exec own
        (bnd (r_sadd exec (user_batches_key user_id) batch_id) (\<lambda>_.
           bnd (suppress (r_expire exec (user_batches_key user_id) (state_ttl cfg))) (\<lambda>_.
             bnd (suppress (bnd (r_time exec) (\<lambda>now.
                    r_set exec (batch_started_key batch_id) (time_text now) (Some (state_ttl cfg))))) (\<lambda>_.
               ret True)))) False)"

definition mark_batch_entry_finished :: "'w exec \<Rightarrow> batch_cfg \<Rightarrow> string \<Rightarrow> string \<Rightarrow> ('w, bool) io" where
  "mark_batch_entry_finished exec cfg batch_id entry_key =
     (if batch_id = [] \<or> entry_key = [] then ret False
      else tryc
        (bnd (r_sadd exec (batch_finished_keys batch_id) entry_key) (\<lambda>_.
           bnd (suppress (r_expire exec (batch_finished_keys batch_id) (state_ttl cfg))) (\<lambda>_. ret True)))
        (\<lambda>_. ret False))"

definition read_finished_entries :: "'w exec \<Rightarrow> string \<Rightarrow> ('w, (string, string list) dict) io" where
  "read_finished_entries exec user_id =
     (if user_id = [] then ret []
      else bnd (attempt (r_smembers exec (user_batches_key user_id))) (\<lambda>got.
        case got of
          None \<Rightarrow> ret []
        | Some batch_ids \<Rightarrow>
            for_each batch_ids [] (\<lambda>batch_id out.
              bnd (attempt (r_smembers exec (batch_finished_keys batch_id))) (\<lambda>ks.
                case ks of
                  None \<Rightarrow> ret out
                | Some decoded \<Rightarrow> ret (if decoded = [] then out else dput batch_id decoded out)))))"

definition forget_finished_entries :: "'w exec \<Rightarrow> (string, string list) dict \<Rightarrow> string list \<Rightarrow> ('w, unit) io" where
  "forget_finished_entries exec finished consumed =
     for_each finished () (\<lambda>(batch_id, keys) _.
       let victims = filter (\<lambda>k. k \<in> set consumed) keys in
       if victims = [] then ret () else suppress (r_srem exec (batch_finished_keys batch_id) victims))"

definition close_batch_resume :: "'w exec \<Rightarrow> bool \<Rightarrow> string \<Rightarrow> string \<Rightarrow> ('w, bool) io" where
  "close_batch_resume exec own batch_id user_id =
     (if batch_id = [] then ret False
      else with_client exec own
        (bnd (whenb (user_id \<noteq> []) (suppress (r_srem exec (user_batches_key user_id) [batch_id]))) (\<lambda>_.
           bnd (suppress (r_del exec [batch_finished_keys batch_id])) (\<lambda>_. ret True))) False)"

section \<open>Counters and the aggregate view\<close>

definition mark_batch_file_done :: "'w exec \<Rightarrow> batch_cfg \<Rightarrow> bool \<Rightarrow> string \<Rightarrow> ('w, int option) io" where
  "mark_batch_file_done exec cfg own batch_id =
     (if batch_id = [] then ret None
      else with_client exec own
        (bnd (r_incr exec (batch_progress_key batch_id)) (\<lambda>finished.
           bnd (suppress (r_expire exec (batch_progress_key batch_id) (state_ttl cfg))) (\<lambda>_.
             ret (Some finished)))) None)"

text \<open>\<open>set_batch_total\<close> opens a client when it is given none and does not give it back.\<close>

definition set_batch_total :: "'w exec \<Rightarrow> batch_cfg \<Rightarrow> bool \<Rightarrow> string \<Rightarrow> int \<Rightarrow> ('w, bool) io" where
  "set_batch_total exec cfg own batch_id n =
     tryc
       (bnd (whenb own (r_connect exec)) (\<lambda>_.
          bnd (r_set exec (batch_total_key batch_id) (int_str n) (Some (max 1 (state_ttl cfg)))) (\<lambda>_. ret True)))
       (\<lambda>_. ret False)"

definition register_active_batch :: "'w exec \<Rightarrow> batch_cfg \<Rightarrow> bool \<Rightarrow> string \<Rightarrow> int option \<Rightarrow> ('w, bool) io" where
  "register_active_batch exec cfg own batch_id ttl_seconds =
     (if batch_id = [] then ret False
      else with_client exec own
        (bnd (r_sadd exec active_batches_key batch_id) (\<lambda>_.
           bnd (suppress (r_expire exec active_batches_key
                  (case ttl_seconds of None \<Rightarrow> state_ttl cfg | Some t \<Rightarrow> if t = 0 then state_ttl cfg else t))) (\<lambda>_.
             ret True))) False)"

definition unregister_active_batch :: "'w exec \<Rightarrow> bool \<Rightarrow> string \<Rightarrow> ('w, bool) io" where
  "unregister_active_batch exec own batch_id =
     (if batch_id = [] then ret False
      else with_client exec own (bnd (r_srem exec active_batches_key [batch_id]) (\<lambda>_. ret True)) False)"

record counters =
  c_batch :: string
  c_total :: int
  c_done :: int

text \<open>\<open>int(text)\<close> of a reply: a missing or unreadable number leaves the 0 it started with.\<close>

definition int_or_0 :: "string option option \<Rightarrow> int" where
  "int_or_0 got = (case got of Some (Some s) \<Rightarrow> (case py_int s of Some n \<Rightarrow> n | None \<Rightarrow> 0) | _ \<Rightarrow> 0)"

definition read_batch_counters :: "'w exec \<Rightarrow> string \<Rightarrow> ('w, counters) io" where
  "read_batch_counters exec batch_id =
     bnd (attempt (r_get exec (batch_total_key batch_id))) (\<lambda>tot.
       bnd (attempt (r_get exec (batch_progress_key batch_id))) (\<lambda>dn.
         ret \<lparr>c_batch = batch_id, c_total = int_or_0 tot, c_done = int_or_0 dn\<rparr>))"

definition progress_ratio :: "counters \<Rightarrow> real" where
  "progress_ratio row = of_int (c_done row) / of_int (max (c_total row) 1)"

definition read_active_batches :: "'w exec \<Rightarrow> ('w, counters list) io" where
  "read_active_batches exec =
     bnd (attempt (r_smembers exec active_batches_key)) (\<lambda>got.
       case got of
         None \<Rightarrow> ret []
       | Some members \<Rightarrow>
           bnd (for_each members [] (\<lambda>batch_id rows.
             bnd (read_batch_counters exec batch_id) (\<lambda>row.
               if c_total row \<le> 0
               then bnd (suppress (r_srem exec active_batches_key [batch_id])) (\<lambda>_. ret rows)
               else ret (rows @ [row])))) (\<lambda>rows. ret (sort_key progress_ratio rows)))"

section \<open>Worker heartbeats and the restart request\<close>

definition publish_worker_rss :: "'w exec \<Rightarrow> bool \<Rightarrow> int \<Rightarrow> string \<Rightarrow> int \<Rightarrow> ('w, bool) io" where
  "publish_worker_rss exec own rss_ttl worker_id rss =
     tryc
       (bnd (whenb own (r_connect exec)) (\<lambda>_.
          bnd (r_set exec (worker_rss_key worker_id) (int_str rss) (Some (max 1 rss_ttl))) (\<lambda>_. ret True)))
       (\<lambda>_. ret False)"

text \<open>An unreadable number is skipped; a failing call ends the listing with what was read.\<close>

fun read_rss_each :: "'w exec \<Rightarrow> string list \<Rightarrow> (string, int) dict \<Rightarrow> ('w, (string, int) dict) io" where
  "read_rss_each exec [] out = ret out"
| "read_rss_each exec (key # ks) out =
     bnd (attempt (r_get exec key)) (\<lambda>got.
       case got of
         None \<Rightarrow> ret out
       | Some raw \<Rightarrow>
           read_rss_each exec ks
             (case Option.bind raw py_int of
                None \<Rightarrow> out
              | Some n \<Rightarrow> dput (drop (length worker_rss_key_prefix) key) n out))"

definition read_worker_rss :: "'w exec \<Rightarrow> ('w, (string, int) dict) io" where
  "read_worker_rss exec =
     bnd (attempt (r_scan exec worker_rss_key_prefix)) (\<lambda>ks.
       case ks of None \<Rightarrow> ret [] | Some keys \<Rightarrow> read_rss_each exec keys [])"

definition worker_restart_key :: string where
  "worker_restart_key = ''ffmpeg:worker:restart''"

definition request_worker_restart :: "'w exec \<Rightarrow> bool \<Rightarrow> int \<Rightarrow> pyval \<Rightarrow> string \<Rightarrow> ('w, bool) io" where
  "request_worker_restart exec own restart_ttl requested_by stamp =
     (let who = (if requested_by = PNone \<or> requested_by = PStr [] then ''admin'' else py_str requested_by) in
      tryc
        (bnd (whenb own (r_connect exec)) (\<lambda>_.
           bnd (r_set exec worker_restart_key (who @ ''@'' @ stamp) (Some (max 1 restart_ttl))) (\<lambda>_. ret True)))
        (\<lambda>_. ret False))"

text \<open>The client in use has \<open>GETDEL\<close>; the older form is a read followed by a delete.\<close>

definition consume_worker_restart :: "'w exec \<Rightarrow> bool \<Rightarrow> ('w, string option) io" where
  "consume_worker_restart exec has_getdel =
     tryc
       (if has_getdel then r_getdel exec worker_restart_key
        else bnd (r_get exec worker_restart_key) (\<lambda>v.
          case v of
            None \<Rightarrow> ret None
          | Some s \<Rightarrow> bnd (r_del exec [worker_restart_key]) (\<lambda>_. ret (Some s))))
       (\<lambda>_. ret None)"

end
