(* ===== verification/BatchStateResults.thy ===== *)
theory BatchStateResults
  imports BatchState
begin

text \<open>
  The bookkeeping's theorems: exactly-once progress over any sequence of deliveries, the resume
  record's round trip, the restart request honoured once, and the aggregate view.
\<close>

lemma set_at_live: "live t m k = Some (VSet xs) \<Longrightarrow> set_at t m k = xs"
  by (simp add: set_at_def)

lemma typed_set_at: "typed m \<Longrightarrow> kind_of k = KSet \<Longrightarrow> live t m k = None \<and> set_at t m k = [] \<or> live t m k = Some (VSet (set_at t m k))"
  using typed_live [of m t k] by (cases "live t m k") (auto simp: set_at_def dest!: has_kindD)

lemma set_set_add [simp]: "set (set_add x xs) = insert x (set xs)"
  by (auto simp: set_add_def)

text \<open>Adding to a set and arming its deadline.\<close>

lemma live_sadd:
  assumes "typed m" "kind_of k = KSet"
  shows "live t (effect (Sadd k x) t m) k = Some (VSet (set_add x (set_at t m k)))"
proof (cases "live t m k")
  case None
  then show ?thesis by (simp add: keep_ttl_def)
next
  case (Some v)
  then obtain d where "m k = Some (v, d)" "case d of None \<Rightarrow> True | Some e \<Rightarrow> t < e"
    by (auto simp: live_def split: option.splits if_splits)
  then show ?thesis using Some by (simp add: keep_ttl_def split: option.splits)
qed

context redis_up begin

lemma up_sadd_expire:
  assumes typed: "typed (kv w)" and k: "kind_of k = KSet" and ttl: "0 < ttl"
    and Q: "\<And>w' m. clock w' = clock w \<Longrightarrow> typed (kv w') \<Longrightarrow>
      kv w' = (kv w)(k \<mapsto> (VSet (set_add x (set_at (clock w) (kv w) k)), Some (clock w + of_int ttl))) \<Longrightarrow>
      Q (if x \<in> set (set_at (clock w) (kv w) k) then 0 else 1) w'"
  shows "wp (r_sadd exec k x) (\<lambda>n. wp (suppress (r_expire exec k ttl)) (\<lambda>_. Q n) E') E w"
proof (rule up_sadd [OF typed_set [OF typed k]], goal_cases)
  case (1 w1)
  have l: "live (clock w) (kv w1) k = Some (VSet (set_add x (set_at (clock w) (kv w) k)))"
    using live_sadd [OF typed k] 1 by simp
  show ?case
    unfolding wp_suppress
  proof (rule up_expire, goal_cases)
    case (1 w2)
    have kv2: "kv w2 = (kv w)(k \<mapsto> (VSet (set_add x (set_at (clock w) (kv w) k)), Some (clock w + of_int ttl)))"
      using 1 l \<open>kv w1 = _\<close> \<open>clock w1 = _\<close> by simp
    then have "typed (kv w2)" using typed k by (simp add: typed_upd)
    then show ?case using Q [of w2] kv2 1 \<open>clock w1 = _\<close> by simp
  qed
qed

lemma up_claim_progress:
  assumes "typed (kv w)" "batch_id_ok b" "truthy j" "0 < state_ttl cfg"
  shows "wp (claim_batch_progress_slot exec cfg b j)
     (\<lambda>r w'. clock w' = clock w \<and> typed (kv w') \<and>
        r = (py_str j \<notin> set (set_at (clock w) (kv w) (batch_done_jobs_key b))) \<and>
        set (set_at (clock w) (kv w') (batch_done_jobs_key b)) =
          insert (py_str j) (set (set_at (clock w) (kv w) (batch_done_jobs_key b)))) E w"
proof -
  have b: "b \<noteq> []" using assms(2) by (simp add: batch_id_ok_def)
  show ?thesis
    unfolding claim_batch_progress_slot_def
    using b assms(3)
    by (simp del: wp_suppress)
      (rule up_sadd_expire [OF assms(1) _ assms(4)]; simp add: assms set_at_def)
qed

end

text \<open>Every delivery of a job of the batch claims a slot; \<open>count_deliveries\<close> counts those that were granted.\<close>

definition count_deliveries :: "'w exec \<Rightarrow> batch_cfg \<Rightarrow> string \<Rightarrow> pyval list \<Rightarrow> ('w, nat) io" where
  "count_deliveries exec cfg b js =
     for_each js 0 (\<lambda>j n. fmapio (\<lambda>granted. if granted then n + 1 else n) (claim_batch_progress_slot exec cfg b j))"

context redis_up begin

lemma up_count_deliveries:
  assumes typed: "typed (kv w)" and b: "batch_id_ok b" and js: "\<forall>j \<in> set js. truthy j" and ttl: "0 < state_ttl cfg"
  shows "wp (count_deliveries exec cfg b js)
     (\<lambda>n w'. n = card (py_str ` set js - set (set_at (clock w) (kv w) (batch_done_jobs_key b)))) E w"
proof -
  let ?S = "set (set_at (clock w) (kv w) (batch_done_jobs_key b))"
  let ?I = "\<lambda>dn n w'. clock w' = clock w \<and> typed (kv w') \<and> n = card (py_str ` set dn - ?S) \<and>
      set (set_at (clock w) (kv w') (batch_done_jobs_key b)) = ?S \<union> py_str ` set dn"
  have "wp (count_deliveries exec cfg b js) (?I ([] @ js)) E w"
    unfolding count_deliveries_def
  proof (rule wp_for_each_prefix)
    show "?I [] 0 w" using typed by simp
    fix j dn rest n w1
    assume I: "?I dn n w1" and split: "[] @ js = dn @ j # rest"
    have j: "truthy j" using js split by auto
    have c: "card (py_str ` set (dn @ [j]) - ?S) =
        card (py_str ` set dn - ?S) + (if py_str j \<in> ?S \<union> py_str ` set dn then 0 else 1)"
    proof (cases "py_str j \<in> ?S \<union> py_str ` set dn")
      case True
      then have "py_str ` set (dn @ [j]) - ?S = py_str ` set dn - ?S" by auto
      then show ?thesis using True by simp
    next
      case False
      then have "py_str ` set (dn @ [j]) - ?S = insert (py_str j) (py_str ` set dn - ?S)" by auto
      then show ?thesis using False by simp
    qed
    show "wp (fmapio (\<lambda>granted. if granted then n + 1 else n) (claim_batch_progress_slot exec cfg b j))
        (?I (dn @ [j])) E w1"
      unfolding wp_fmapio
      by (rule wp_mono [OF up_claim_progress [OF _ b j ttl, where E = E]]) (unfold c, use I in \<open>auto simp: split: if_splits\<close>)
  qed
  then show ?thesis by (rule wp_mono) auto
qed

end

section \<open>Reading the record and the view\<close>

lemma set_at_srem:
  assumes "typed m" "kind_of k = KSet"
  shows "set_at t (effect (Srem k xs) t m) k = filter (\<lambda>x. x \<notin> set xs) (set_at t m k)"
proof (cases "live t m k")
  case None
  then show ?thesis by (simp add: set_at_def)
next
  case (Some v)
  then obtain d where d: "m k = Some (v, d)" "case d of None \<Rightarrow> True | Some e \<Rightarrow> t < e"
    by (auto simp: live_def split: option.splits if_splits)
  show ?thesis
  proof (cases "filter (\<lambda>x. x \<notin> set xs) (set_at t m k) = []")
    case True
    then show ?thesis using Some by (simp add: put_set_def) (simp add: set_at_def)
  next
    case False
    then have "live t (effect (Srem k xs) t m) k = Some (VSet (filter (\<lambda>x. x \<notin> set xs) (set_at t m k)))"
      using Some d by (simp add: put_set_def keep_ttl_def split: option.splits)
    then show ?thesis by (rule set_at_live)
  qed
qed

lemma finished_key_other:
  assumes "batch_id_ok b"
  shows "user_batches_key u \<noteq> batch_finished_keys b" "batch_started_key b \<noteq> batch_finished_keys b"
    "batch_started_key b \<noteq> user_batches_key u"
proof -
  have r: "x \<noteq> ''resume''" if "batch_id_ok x" for x
    using that by (auto simp: batch_id_ok_def non_batch_suffixes_def)
  show "user_batches_key u \<noteq> batch_finished_keys b"
    using r [OF assms] colon_suffix_inject [of "''resume''" b u] assms
    by (auto simp: key_defs batch_id_ok_def)
  show "batch_started_key b \<noteq> user_batches_key u"
    using r [OF assms] colon_suffix_inject [of "''resume''" b u "''started''"] assms
    by (auto simp: key_defs batch_id_ok_def)
  show "batch_started_key b \<noteq> batch_finished_keys b"
  proof
    assume "batch_started_key b = batch_finished_keys b"
    then have "b @ '':started'' = b @ '':finished''" by (simp add: key_defs)
    then have "rev (b @ '':started'') = rev (b @ '':finished'')" by (rule arg_cong)
    then show False by simp
  qed
qed

context redis_up begin

lemma up_refused:
  assumes "\<not> call_ok c (clock w) (kv w)" and "\<And>e w'. clock w' = clock w \<Longrightarrow> kv w' = kv w \<Longrightarrow> E e w'"
  shows "wp (fmapio f (exec c)) Q E w"
  unfolding wp_fmapio
  by (rule wpI) (use assms replied [of c w] failed [of c w] instant [of c w] in blast)+

lemma up_attempt_smembers:
  assumes "\<And>got w'. clock w' = clock w \<Longrightarrow> kv w' = kv w \<Longrightarrow>
      (is_set (live (clock w) (kv w) k) \<Longrightarrow> \<exists>xs. got = Some xs \<and> set xs = set (set_at (clock w) (kv w) k)) \<Longrightarrow>
      Q got w'"
  shows "wp (attempt (r_smembers exec k)) Q E w"
proof (cases "is_set (live (clock w) (kv w) k)")
  case True
  show ?thesis unfolding wp_attempt by (rule up_smembers [OF True]) (use assms in auto)
next
  case False
  show ?thesis
    unfolding wp_attempt r_smembers_def by (rule up_refused) (use assms False in auto)
qed

lemma up_read_finished:
  assumes typed: "typed (kv w)" and b: "batch_id_ok b" and u: "u \<noteq> []"
    and mem: "b \<in> set (set_at (clock w) (kv w) (user_batches_key u))"
    and ne: "set_at (clock w) (kv w) (batch_finished_keys b) \<noteq> []"
  shows "wp (read_finished_entries exec u)
     (\<lambda>out w'. \<exists>ks. dget out b = Some ks \<and> set ks = set (set_at (clock w) (kv w) (batch_finished_keys b))) E w"
proof -
  let ?F = "set (set_at (clock w) (kv w) (batch_finished_keys b))"
  let ?I = "\<lambda>dn out w'. clock w' = clock w \<and> kv w' = kv w \<and>
      (b \<in> set dn \<longrightarrow> (\<exists>ks. dget out b = Some ks \<and> set ks = ?F))"
  have loop: "wp (for_each ids [] (\<lambda>batch_id out.
              bnd (attempt (r_smembers exec (batch_finished_keys batch_id))) (\<lambda>ks.
                case ks of
                  None \<Rightarrow> ret out
                | Some decoded \<Rightarrow> ret (if decoded = [] then out else dput batch_id decoded out))))
      (?I ([] @ ids)) E w1" if w1: "clock w1 = clock w" "kv w1 = kv w" for ids w1
  proof (rule wp_for_each_prefix)
    show "?I [] [] w1" using w1 by simp
    fix x dn rest out w2
    assume I: "?I dn out w2"
    show "wp (bnd (attempt (r_smembers exec (batch_finished_keys x))) (\<lambda>ks. case ks of None \<Rightarrow> ret out
          | Some decoded \<Rightarrow> ret (if decoded = [] then out else dput x decoded out))) (?I (dn @ [x])) E w2"
      unfolding wp_bnd
    proof (rule up_attempt_smembers, goal_cases)
      case (1 got w3)
      have I3: "clock w3 = clock w" "kv w3 = kv w" "b \<in> set dn \<longrightarrow> (\<exists>ks. dget out b = Some ks \<and> set ks = ?F)"
        using I 1(1,2) by auto
      have got: "\<exists>xs. got = Some xs \<and> set xs = ?F" if "x = b"
      proof -
        have "is_set (live (clock w2) (kv w2) (batch_finished_keys x))"
          using typed_set [OF typed] b I that by simp
        then show ?thesis using 1(3) I that by simp
      qed
      show ?case
      proof (cases "x = b")
        case True
        then obtain xs where xs: "got = Some xs" "set xs = ?F" using got by blast
        then have "xs \<noteq> []" using ne by auto
        then show ?thesis using xs I3 True by simp
      next
        case False
        then show ?thesis using I3 by (cases got) auto
      qed
    qed
  qed
  show ?thesis
    unfolding read_finished_entries_def wp_bnd if_not_P [OF u]
  proof (rule up_attempt_smembers, goal_cases)
    case (1 got w1)
    have "is_set (live (clock w) (kv w) (user_batches_key u))" by (rule typed_set [OF typed]) simp
    then obtain ids where ids: "got = Some ids" "set ids = set (set_at (clock w) (kv w) (user_batches_key u))"
      using 1(3) by blast
    show ?case
      unfolding ids(1) option.case
      by (rule wp_mono [OF loop [OF 1(1,2)]]) (use mem ids(2) in auto)
  qed
qed

end

text \<open>Opening the record and marking entries, then reading it back.\<close>

definition record_and_read :: "'w exec \<Rightarrow> batch_cfg \<Rightarrow> string \<Rightarrow> string \<Rightarrow> string list \<Rightarrow> ('w, (string, string list) dict) io" where
  "record_and_read exec cfg b u es =
     bnd (open_batch_resume exec cfg False b u) (\<lambda>_.
       bnd (for_each es () (\<lambda>e _. fmapio (\<lambda>_. ()) (mark_batch_entry_finished exec cfg b e))) (\<lambda>_.
         read_finished_entries exec u))"

context redis_up begin

lemma up_mark_entry:
  assumes "typed (kv w)" "batch_id_ok b" "e \<noteq> []" "0 < state_ttl cfg"
  shows "wp (mark_batch_entry_finished exec cfg b e)
     (\<lambda>r w'. r \<and> clock w' = clock w \<and> typed (kv w') \<and>
        set (set_at (clock w) (kv w') (batch_finished_keys b)) = insert e (set (set_at (clock w) (kv w) (batch_finished_keys b))) \<and>
        (\<forall>k. k \<noteq> batch_finished_keys b \<longrightarrow> kv w' k = kv w k)) E w"
proof -
  have b: "b \<noteq> []" using assms(2) by (simp add: batch_id_ok_def)
  show ?thesis
    unfolding mark_batch_entry_finished_def
    using b assms(3)
    by (simp del: wp_suppress)
      (rule up_sadd_expire [OF assms(1) _ assms(4)]; simp add: assms set_at_def)
qed

lemma up_open_resume:
  assumes "typed (kv w)" "batch_id_ok b" "u \<noteq> []" "0 < state_ttl cfg"
  shows "wp (open_batch_resume exec cfg False b u)
     (\<lambda>r w'. r \<and> clock w' = clock w \<and> typed (kv w') \<and> b \<in> set (set_at (clock w) (kv w') (user_batches_key u)) \<and>
        kv w' (batch_finished_keys b) = kv w (batch_finished_keys b)) E w"
proof -
  have b: "b \<noteq> []" using assms(2) by (simp add: batch_id_ok_def)
  note other = finished_key_other [OF assms(2)]
  show ?thesis
    unfolding open_batch_resume_def with_client_def
    using b assms(3)
    apply (simp del: wp_suppress)
    apply (rule up_sadd_expire [OF assms(1) _ assms(4)])
     apply simp
    apply simp
    apply (rule up_time)
    apply (rule up_set)
    apply (simp add: other other [symmetric] typed_upd assms(2,4) set_at_def)
    done
qed

lemma up_record_and_read:
  assumes typed: "typed (kv w)" and b: "batch_id_ok b" and u: "u \<noteq> []" and ttl: "0 < state_ttl cfg"
    and es: "es \<noteq> []" "[] \<notin> set es"
  shows "wp (record_and_read exec cfg b u es)
     (\<lambda>out w'. \<exists>ks. dget out b = Some ks \<and>
        set ks = set (set_at (clock w) (kv w) (batch_finished_keys b)) \<union> set es) E w"
  unfolding record_and_read_def wp_bnd
proof (rule wp_mono [OF up_open_resume [OF typed b u ttl, where E = E]], goal_cases)
  case (1 r w1)
  let ?F = "set (set_at (clock w) (kv w) (batch_finished_keys b))"
  let ?I = "\<lambda>dn (_ :: unit) w'. clock w' = clock w \<and> typed (kv w') \<and>
      b \<in> set (set_at (clock w) (kv w') (user_batches_key u)) \<and>
      set (set_at (clock w) (kv w') (batch_finished_keys b)) = ?F \<union> set dn"
  have "wp (for_each es () (\<lambda>e _. fmapio (\<lambda>_. ()) (mark_batch_entry_finished exec cfg b e))) (?I ([] @ es)) E w1"
  proof (rule wp_for_each_prefix)
    show "?I [] () w1" using 1 by (simp add: set_at_def live_def)
    fix e dn rest s w2
    assume I: "?I dn s w2" and split: "[] @ es = dn @ e # rest"
    have e: "e \<noteq> []" using es(2) split by auto
    show "wp (fmapio (\<lambda>_. ()) (mark_batch_entry_finished exec cfg b e)) (?I (dn @ [e])) E w2"
      unfolding wp_fmapio
    proof (rule wp_mono [OF up_mark_entry [OF _ b e ttl, where E = E]], goal_cases)
      case 1
      then show ?case using I by simp
    next
      case (2 r' w3)
      have "kv w3 (user_batches_key u) = kv w2 (user_batches_key u)"
        using 2 finished_key_other(1) [OF b] by blast
      then have "set_at (clock w) (kv w3) (user_batches_key u) = set_at (clock w) (kv w2) (user_batches_key u)"
        by (simp add: set_at_def live_def)
      then show ?case using 2 I by auto
    qed
  qed
  then show ?case
  proof (rule wp_mono, goal_cases)
    case (1 s w2)
    then have "set_at (clock w2) (kv w2) (batch_finished_keys b) \<noteq> []" using es(1) by force
    then show ?case
      by (intro wp_mono [OF up_read_finished [OF _ b u, where E = E]]) (use 1 in auto)
  qed
qed

end

section \<open>The aggregate view\<close>

definition row_of :: "real \<Rightarrow> store \<Rightarrow> string \<Rightarrow> counters" where
  "row_of t m b = \<lparr>c_batch = b, c_total = int_or_0 (Some (str_at t m (batch_total_key b))),
     c_done = int_or_0 (Some (str_at t m (batch_progress_key b)))\<rparr>"

lemma active_key_other:
  "batch_total_key b \<noteq> active_batches_key" "batch_progress_key b \<noteq> active_batches_key"
  using active_key_not_state [of b] by (auto simp: batch_state_keys_def)

lemma row_of_cong: "(\<And>k. k \<noteq> active_batches_key \<Longrightarrow> m' k = m k) \<Longrightarrow> row_of t m' b = row_of t m b"
  using str_at_cong [of m' _ m t] active_key_other [of b] by (simp add: row_of_def)

lemma sorted_sort_key: "sorted (map f (sort_key f xs))"
  by simp

context redis_up begin

lemma up_read_counters:
  assumes "typed (kv w)" "batch_id_ok b"
    and "\<And>w'. clock w' = clock w \<Longrightarrow> kv w' = kv w \<Longrightarrow> Q (row_of (clock w) (kv w) b) w'"
  shows "wp (read_batch_counters exec b) Q E w"
  unfolding read_batch_counters_def wp_bnd wp_attempt
  by (rule up_get; (rule up_get)?) (use assms in \<open>simp_all add: typed_str row_of_def\<close>)

lemma up_read_active:
  assumes typed: "typed (kv w)" and ids: "\<forall>b \<in> set (set_at (clock w) (kv w) active_batches_key). batch_id_ok b"
  shows "wp (read_active_batches exec)
     (\<lambda>rows w'. sorted (map progress_ratio rows) \<and>
        set rows = {r \<in> row_of (clock w) (kv w) ` set (set_at (clock w) (kv w) active_batches_key). 0 < c_total r} \<and>
        set (set_at (clock w) (kv w') active_batches_key) =
          {b \<in> set (set_at (clock w) (kv w) active_batches_key). 0 < c_total (row_of (clock w) (kv w) b)} \<and>
        (\<forall>k. k \<noteq> active_batches_key \<longrightarrow> kv w' k = kv w k)) E w"
proof -
  let ?M = "set (set_at (clock w) (kv w) active_batches_key)" and ?row = "row_of (clock w) (kv w)"
  let ?I = "\<lambda>dn rows w'. clock w' = clock w \<and> typed (kv w') \<and> set dn \<subseteq> ?M \<and>
      set rows = {r \<in> ?row ` set dn. 0 < c_total r} \<and>
      set (set_at (clock w) (kv w') active_batches_key) = {b \<in> ?M. b \<in> set dn \<longrightarrow> 0 < c_total (?row b)} \<and>
      (\<forall>k. k \<noteq> active_batches_key \<longrightarrow> kv w' k = kv w k)"
  have loop: "wp (for_each ms [] (\<lambda>batch_id rows.
             bnd (read_batch_counters exec batch_id) (\<lambda>row.
               if c_total row \<le> 0
               then bnd (suppress (r_srem exec active_batches_key [batch_id])) (\<lambda>_. ret rows)
               else ret (rows @ [row])))) (?I ([] @ ms)) E w1"
    if w1: "clock w1 = clock w" "kv w1 = kv w" and ms: "set ms = ?M" for ms w1
  proof (rule wp_for_each_prefix)
    show "?I [] [] w1" using w1 typed by simp
    fix b dn rest rows w2
    assume I: "?I dn rows w2" and split: "[] @ ms = dn @ b # rest"
    have b: "b \<in> ?M" using ms split by auto
    then have ok: "batch_id_ok b" using ids by blast
    have row: "row_of (clock w2) (kv w2) b = ?row b"
      using I row_of_cong [of "kv w2" "kv w" "clock w" b] by simp
    show "wp (bnd (read_batch_counters exec b) (\<lambda>row.
               if c_total row \<le> 0
               then bnd (suppress (r_srem exec active_batches_key [b])) (\<lambda>_. ret rows)
               else ret (rows @ [row]))) (?I (dn @ [b])) E w2"
      unfolding wp_bnd
    proof (rule up_read_counters [OF _ ok], goal_cases)
      case 1
      then show ?case using I by simp
    next
      case (2 w3)
      have I3: "?I dn rows w3" using I 2 by simp
      show ?case
        unfolding row
      proof (cases "c_total (?row b) \<le> 0")
        case False
        then show "wp (if c_total (?row b) \<le> 0
            then bnd (suppress (r_srem exec active_batches_key [b])) (\<lambda>_. ret rows)
            else ret (rows @ [?row b])) (?I (dn @ [b])) E w3"
          using I3 b by auto
      next
        case True
        have "wp (r_srem exec active_batches_key [b]) (\<lambda>_. ?I (dn @ [b]) rows) (\<lambda>_. ?I (dn @ [b]) rows) w3"
        proof (rule up_srem, goal_cases)
          case 1
          show ?case by (rule typed_set) (use I3 in simp_all)
        next
          case (2 w4)
          have t: "typed (kv w4)" unfolding 2(2) using I3 by (intro effect_typed) simp_all
          have s: "set_at (clock w) (kv w4) active_batches_key =
              filter (\<lambda>x. x \<notin> set [b]) (set_at (clock w) (kv w3) active_batches_key)"
            using set_at_srem [of "kv w3" active_batches_key "clock w" "[b]"] I3 2 by simp
          have k: "kv w4 k = kv w k" if "k \<noteq> active_batches_key" for k
            using I3 2 that effect_untouched [of k "Srem active_batches_key [b]"] by simp
          show ?case using I3 2(1) t s k b True by auto
        qed
        then show "wp (if c_total (?row b) \<le> 0
            then bnd (suppress (r_srem exec active_batches_key [b])) (\<lambda>_. ret rows)
            else ret (rows @ [?row b])) (?I (dn @ [b])) E w3"
          using True by simp
      qed
    qed
  qed
  show ?thesis
    unfolding read_active_batches_def wp_bnd
  proof (rule up_attempt_smembers, goal_cases)
    case (1 got w1)
    have "is_set (live (clock w) (kv w) active_batches_key)" by (rule typed_set [OF typed]) simp
    then obtain ms where ms: "got = Some ms" "set ms = ?M" using 1(3) by blast
    show ?case
      unfolding ms(1) option.case wp_bnd wp_ret
      by (rule wp_mono [OF loop [OF 1(1,2) ms(2)]]) (use ms(2) in auto)
  qed
qed

end

section \<open>The restart request\<close>

lemma safe_consume: "safe (consume_worker_restart exec g)"
  unfolding consume_worker_restart_def by (intro safe_intros)

context redis_server begin

lemma wp_consume_restart:
  "wp (consume_worker_restart exec g)
     (\<lambda>r w'. r \<noteq> None \<longrightarrow> kv w' worker_restart_key = None) (\<lambda>_ _. False) w"
proof (cases g)
  case True
  show ?thesis
    unfolding consume_worker_restart_def wp_tryc if_P [OF True]
    by (rule wp_r_getdel) (auto simp: wipe_def)
next
  case False
  show ?thesis
    unfolding consume_worker_restart_def wp_tryc if_not_P [OF False] wp_bnd
  proof (rule wp_r_get, goal_cases)
    case (1 w1)
    show ?case
    proof (cases "str_at (clock w) (kv w) worker_restart_key")
      case None
      then show ?thesis by simp
    next
      case (Some s)
      show ?thesis
        unfolding Some option.case wp_bnd by (rule wp_r_del) (auto simp: wipe_def)
    qed
  qed simp
qed

lemma wp_consume_nothing:
  assumes "kv w worker_restart_key = None"
  shows "wp (consume_worker_restart exec g) (\<lambda>r _. r = None) (\<lambda>_ _. False) w"
proof -
  have n: "str_at t (kv w) worker_restart_key = None" for t using assms by (simp add: str_at_def live_def)
  show ?thesis
  proof (cases g)
    case True
    show ?thesis
      unfolding consume_worker_restart_def wp_tryc if_P [OF True]
      by (rule wp_r_getdel) (auto simp: n)
  next
    case False
    show ?thesis
      unfolding consume_worker_restart_def wp_tryc if_not_P [OF False] wp_bnd
      by (rule wp_r_get) (simp_all add: n)
  qed
qed

end

section \<open>Properties\<close>

lemma batch_ab: "batch_id_ok ''ab''"
  by (simp add: batch_id_ok_def non_batch_suffixes_def)

definition demo_batch :: mem where
  "demo_batch = \<lparr>mstore =
     [(''ffmpeg:batch:ab:done_jobs'', VSet [''j1''], Some 1000),
      (''ffmpeg:batch:ab:total'', VStr ''3'', Some 1000),
      (''ffmpeg:batch:active'', VSet [''ab'', ''cd''], None),
      (''ffmpeg:batch:resume:7'', VSet [''ab''], None),
      (''ffmpeg:worker:restart'', VStr ''admin@noon'', Some 300)], mclock = 0\<rparr>"

lemma demo_batch_typed: "typed (mkv demo_batch)"
  unfolding mkv_def demo_batch_def mem.simps
  by (rule typed_map_of) (simp add: kind_of_def key_defs starts_with_def rpartition_at_def)

text \<open>
  However often the broker delivers the jobs of a batch, in whatever order, the number of
  deliveries counted toward its progress is the number of distinct jobs not counted before.
\<close>

theorem progress_counts_each_job_once:
  assumes "redis_up exec kv clock" and "typed (kv w)" and "batch_id_ok b" and "\<forall>j \<in> set js. truthy j"
    and "0 < state_ttl cfg"
  shows "\<exists>w'. count_deliveries exec cfg b js w =
    (Inr (card (py_str ` set js - set (set_at (clock w) (kv w) (batch_done_jobs_key b)))), w')"
  using redis_up.up_count_deliveries [OF assms, of "\<lambda>_ _. False"] unfolding wp_outcome by auto

theorem progress_counts_each_job_once_witness:
  "fst (count_deliveries mem_exec default_cfg ''ab'' [PStr ''j1'', PStr ''j2'', PInt 3, PStr ''j2''] demo_batch) = Inr 2"
proof -
  let ?js = "[PStr ''j1'', PStr ''j2'', PInt 3, PStr ''j2'']"
  have "int_str 3 = ''3''" by code_simp
  then have d: "py_str ` set ?js - set (set_at (mclock demo_batch) (mkv demo_batch) (batch_done_jobs_key ''ab'')) =
      {''j2'', ''3''}"
    by (auto simp: set_at_def live_def mkv_def demo_batch_def key_defs)
  have t: "\<forall>j \<in> set ?js. truthy j" and ttl: "0 < state_ttl default_cfg" by simp_all
  obtain w' where "count_deliveries mem_exec default_cfg ''ab'' ?js demo_batch = (Inr (card {''j2'', ''3''}), w')"
    using progress_counts_each_job_once [OF memory_up demo_batch_typed batch_ab t ttl] unfolding d by blast
  then show ?thesis by simp
qed

text \<open>
  A restart request is honoured exactly once.  Whatever fails, when a worker takes a request off
  Redis the request is gone, so no later read - by this worker after its restart or by another, with
  either form of the command - finds it again.
\<close>

theorem restart_request_consumed_once:
  assumes "redis_server exec kv clock"
    and "consume_worker_restart exec g w = (Inr (Some v), w')"
  shows "\<exists>w''. consume_worker_restart exec g' w' = (Inr None, w'')"
proof -
  have "kv w' worker_restart_key = None"
    using redis_server.wp_consume_restart [OF assms(1), of g w] assms(2) unfolding wp_outcome by auto
  from redis_server.wp_consume_nothing [OF assms(1) this, of g'] show ?thesis unfolding wp_outcome by auto
qed

theorem restart_request_consumed_once_witness:
  "\<exists>w' w''. consume_worker_restart mem_exec True demo_batch = (Inr (Some ''admin@noon''), w') \<and>
     consume_worker_restart mem_exec False w' = (Inr None, w'')"
proof -
  have c: "call_ok (GetDel worker_restart_key) (mclock demo_batch) (mkv demo_batch)"
    and s: "str_at 0 (map_of (mstore demo_batch)) worker_restart_key = Some ''admin@noon''"
    by (simp_all add: is_str_def live_def str_at_def mkv_def demo_batch_def worker_restart_key_def)
  have "\<exists>w'. consume_worker_restart mem_exec True demo_batch = (Inr (Some ''admin@noon''), w')"
    using c s unfolding consume_worker_restart_def tryc_def r_getdel_def fmapio_def bnd_def ret_def mem_exec_def
    by (simp add: demo_batch_def)
  then show ?thesis using restart_request_consumed_once [OF memory_server] by blast
qed

text \<open>
  What an apply records is what a resume reads: after a batch is opened for a user and any
  entries are marked finished, reading the user's record gives, for that batch, exactly the entries
  recorded before and those marked now.
\<close>

theorem resume_record_roundtrip:
  assumes "redis_up exec kv clock" and "typed (kv w)" and "batch_id_ok b" and "u \<noteq> []"
    and "0 < state_ttl cfg" and "es \<noteq> []" and "[] \<notin> set es"
  shows "\<exists>out w' ks. record_and_read exec cfg b u es w = (Inr out, w') \<and> dget out b = Some ks \<and>
    set ks = set (set_at (clock w) (kv w) (batch_finished_keys b)) \<union> set es"
  using redis_up.up_record_and_read [OF assms, of "\<lambda>_ _. False"] unfolding wp_outcome by blast

theorem resume_record_roundtrip_witness:
  "\<exists>out w' ks. record_and_read mem_exec default_cfg ''ab'' ''7'' [''f1'', ''f2''] demo_batch = (Inr out, w') \<and>
     dget out ''ab'' = Some ks \<and> set ks = {''f1'', ''f2''}"
proof -
  have "set_at (mclock demo_batch) (mkv demo_batch) (batch_finished_keys ''ab'') = []"
    by (simp add: set_at_def live_def mkv_def demo_batch_def key_defs)
  then show ?thesis
    using resume_record_roundtrip [OF memory_up demo_batch_typed batch_ab,
        where u = "''7''" and cfg = default_cfg and es = "[''f1'', ''f2'']"] by simp
qed

text \<open>
  The aggregate view shows one row for each registered batch whose recorded total is positive,
  with its counters, ordered by progress, and drops every other batch from the set - so a batch
  whose counters expired leaves no phantom row - touching no other key.
\<close>

theorem active_view_exact:
  assumes "redis_up exec kv clock" and "typed (kv w)"
    and "M = set (set_at (clock w) (kv w) active_batches_key)" and "\<forall>b \<in> M. batch_id_ok b"
  shows "\<exists>rows w'. read_active_batches exec w = (Inr rows, w') \<and> sorted (map progress_ratio rows) \<and>
    set rows = {r \<in> row_of (clock w) (kv w) ` M. 0 < c_total r} \<and>
    set (set_at (clock w) (kv w') active_batches_key) = {b \<in> M. 0 < c_total (row_of (clock w) (kv w) b)} \<and>
    (\<forall>k. k \<noteq> active_batches_key \<longrightarrow> kv w' k = kv w k)"
  using redis_up.up_read_active [OF assms(1,2), of "\<lambda>_ _. False"] assms(3,4) unfolding wp_outcome by blast

theorem active_view_exact_witness:
  "\<exists>rows w'. read_active_batches mem_exec demo_batch = (Inr rows, w') \<and>
     set rows = {\<lparr>c_batch = ''ab'', c_total = 3, c_done = 0\<rparr>} \<and>
     set (set_at 0 (mkv w') active_batches_key) = {''ab''}"
proof -
  have c: "mclock demo_batch = 0" by (simp add: demo_batch_def)
  have m: "set (set_at 0 (mkv demo_batch) active_batches_key) = {''ab'', ''cd''}"
    by (simp add: set_at_def live_def mkv_def demo_batch_def key_defs)
  have p: "py_int ''3'' = Some 3" by code_simp
  have r: "row_of 0 (mkv demo_batch) ''ab'' = \<lparr>c_batch = ''ab'', c_total = 3, c_done = 0\<rparr>"
    "row_of 0 (mkv demo_batch) ''cd'' = \<lparr>c_batch = ''cd'', c_total = 0, c_done = 0\<rparr>"
    by (simp_all add: row_of_def int_or_0_def str_at_def live_def mkv_def demo_batch_def key_defs p)
  have ok: "\<forall>b \<in> {''ab'', ''cd''}. batch_id_ok b" by (simp add: batch_id_ok_def non_batch_suffixes_def)
  have "\<exists>rows w'. read_active_batches mem_exec demo_batch = (Inr rows, w') \<and> sorted (map progress_ratio rows) \<and>
    set rows = {r \<in> row_of 0 (mkv demo_batch) ` {''ab'', ''cd''}. 0 < c_total r} \<and>
    set (set_at 0 (mkv w') active_batches_key) = {b \<in> {''ab'', ''cd''}. 0 < c_total (row_of 0 (mkv demo_batch) b)} \<and>
    (\<forall>k. k \<noteq> active_batches_key \<longrightarrow> mkv w' k = mkv demo_batch k)"
    using active_view_exact [OF memory_up demo_batch_typed refl] ok unfolding c m by blast
  moreover have "{r \<in> row_of 0 (mkv demo_batch) ` {''ab'', ''cd''}. 0 < c_total r} =
      {\<lparr>c_batch = ''ab'', c_total = 3, c_done = 0\<rparr>}"
    "{b \<in> {''ab'', ''cd''}. 0 < c_total (row_of 0 (mkv demo_batch) b)} = {''ab''}"
    using r by auto
  ultimately show ?thesis by metis
qed

end
