(* ===== verification/BatchPurge.thy ===== *)
theory BatchPurge
  imports BatchStateResults "HOL-Library.List_Lexorder" "HOL-Library.Char_ord"
begin

text \<open>
  \<open>utils/batch_pipeline.py\<close>, the end of a batch: is it live, does it need a tombstone, taking it
  down, the sweeps over stale and finished batches, ageing tombstones out, cancelling one batch,
  putting a job back for later and handing the claims of a finished job back.  A loop over a
  scan runs over the keys the scan found when it started.
\<close>

section \<open>Liveness\<close>

definition member_is_active :: "'w exec \<Rightarrow> string \<Rightarrow> ('w, bool) io" where
  "member_is_active exec job_id =
     bnd (attempt (r_hget exec (job_hash_key job_id) ''status'')) (\<lambda>got.
       case got of
         None \<Rightarrow> ret True
       | Some raw \<Rightarrow>
           (let value = (case raw of None \<Rightarrow> [] | Some s \<Rightarrow> s)
            in ret (value \<noteq> [] \<and> value \<notin> terminal_statuses)))"

definition started_recently :: "real \<Rightarrow> int \<Rightarrow> pyfloat \<Rightarrow> bool" where
  "started_recently now grace started =
     (case started of Fin x \<Rightarrow> now - x < of_int grace | PInf \<Rightarrow> True | _ \<Rightarrow> False)"

definition batch_is_fresh :: "'w exec \<Rightarrow> batch_cfg \<Rightarrow> string \<Rightarrow> ('w, bool) io" where
  "batch_is_fresh exec cfg batch_id =
     (if purge_grace cfg \<le> 0 then ret False
      else bnd (attempt (r_get exec (batch_started_key batch_id))) (\<lambda>got.
        case got of
          None \<Rightarrow> ret True
        | Some raw \<Rightarrow>
            (case raw of
               None \<Rightarrow> ret False
             | Some s \<Rightarrow>
                 if s = [] then ret False
                 else (case py_float s of
                   None \<Rightarrow> ret False
                 | Some started \<Rightarrow> fmapio (\<lambda>now. started_recently now (purge_grace cfg) started) (r_time exec)))))"

definition batch_is_live :: "'w exec \<Rightarrow> batch_cfg \<Rightarrow> string \<Rightarrow> string list \<Rightarrow> ('w, bool) io" where
  "batch_is_live exec cfg batch_id known_dead =
     bnd (attempt (r_smembers exec (batch_jobs_key batch_id))) (\<lambda>got.
       case got of
         None \<Rightarrow> ret True
       | Some members \<Rightarrow>
           if members = [] then batch_is_fresh exec cfg batch_id
           else bnd (first_of members (\<lambda>job_id.
                  if job_id \<in> set known_dead then ret None
                  else bnd (member_is_active exec job_id) (\<lambda>active. ret (if active then Some () else None))))
                (\<lambda>r. ret (r \<noteq> None)))"

definition batch_state_survives :: "'w exec \<Rightarrow> string \<Rightarrow> ('w, bool) io" where
  "batch_state_survives exec batch_id =
     bnd (attempt (r_exists exec (batch_state_keys batch_id))) (\<lambda>got.
       case got of None \<Rightarrow> ret True | Some n \<Rightarrow> ret (n \<noteq> 0))"

definition batch_owns_state :: "'w exec \<Rightarrow> string \<Rightarrow> ('w, bool) io" where
  "batch_owns_state exec batch_id =
     (if batch_id = [] then ret False
      else tryc
        (bnd (r_exists exec (batch_state_keys batch_id)) (\<lambda>n.
           if n \<noteq> 0 then ret True
           else fmapio (\<lambda>listed. batch_id \<in> set listed) (r_smembers exec active_batches_key)))
        (\<lambda>_. ret True))"

definition batch_needs_tombstone :: "'w exec \<Rightarrow> string \<Rightarrow> string list \<Rightarrow> ('w, bool) io" where
  "batch_needs_tombstone exec batch_id known_dead =
     bnd (attempt (r_exists exec [batch_cancel_key batch_id])) (\<lambda>marked.
       if marked \<noteq> Some 0 then ret True
       else
         bnd (if known_dead = [] then ret (Some [])
              else attempt (r_smembers exec (batch_jobs_key batch_id))) (\<lambda>members.
           case members of
             None \<Rightarrow> ret True
           | Some ms \<Rightarrow>
               if \<exists>x \<in> set ms. x \<in> set known_dead then ret True
               else bnd (attempt (bnd (r_get exec (batch_progress_key batch_id)) (\<lambda>dn.
                      bnd (r_get exec (batch_total_key batch_id)) (\<lambda>tot. ret (dn, tot))))) (\<lambda>got.
                 case got of
                   None \<Rightarrow> ret True
                 | Some (dn, tot) \<Rightarrow> ret (\<not> counters_say_finished dn tot))))"

definition batch_counters_finished :: "'w exec \<Rightarrow> bool \<Rightarrow> string \<Rightarrow> ('w, bool) io" where
  "batch_counters_finished exec own batch_id =
     (if batch_id = [] then ret False
      else with_client exec own
        (bnd (r_get exec (batch_progress_key batch_id)) (\<lambda>dn.
           bnd (r_get exec (batch_total_key batch_id)) (\<lambda>tot. ret (counters_say_finished dn tot)))) False)"

section \<open>Taking a batch down\<close>

record purged =
  p_keys :: int
  p_message :: "(int \<times> int) option"

definition nothing_purged :: purged where
  "nothing_purged = \<lparr>p_keys = 0, p_message = None\<rparr>"

text \<open>\<open>parse_batch_message_ref(stock) if stock else None\<close>, a failing read leaving \<open>None\<close>.\<close>

definition message_of :: "string option option \<Rightarrow> (int \<times> int) option" where
  "message_of got =
     (case got of Some (Some s) \<Rightarrow> if s = [] then None else parse_batch_message_ref s | _ \<Rightarrow> None)"

definition write_tombstone :: "'w exec \<Rightarrow> string \<Rightarrow> string \<Rightarrow> int \<Rightarrow> ('w, unit) io" where
  "write_tombstone exec batch_id reason ttl =
     bnd (r_time exec) (\<lambda>now.
       r_set exec (batch_cancel_key batch_id) (batch_tombstone_value reason now) (Some ttl))"

definition state_lifetime :: "batch_cfg \<Rightarrow> int option \<Rightarrow> int" where
  "state_lifetime cfg ttl_seconds =
     max 1 (case ttl_seconds of None \<Rightarrow> state_ttl cfg | Some t \<Rightarrow> if t = 0 then state_ttl cfg else t)"

definition purge_batch ::
    "'w exec \<Rightarrow> batch_cfg \<Rightarrow> bool \<Rightarrow> string \<Rightarrow> string \<Rightarrow> int option \<Rightarrow> bool option \<Rightarrow> ('w, purged) io" where
  "purge_batch exec cfg own batch_id reason ttl_seconds fence =
     (if batch_id = [] then ret nothing_purged
      else with_client exec own
        (bnd (case fence of None \<Rightarrow> batch_needs_tombstone exec batch_id [] | Some f \<Rightarrow> ret f) (\<lambda>f.
           bnd (whenb f (suppress (write_tombstone exec batch_id reason (state_lifetime cfg ttl_seconds)))) (\<lambda>_.
             bnd (attempt (r_get exec (batch_message_key batch_id))) (\<lambda>stock.
               tryc
                 (bnd (r_del exec (batch_state_keys batch_id)) (\<lambda>n.
                    bnd (suppress (r_srem exec active_batches_key [batch_id])) (\<lambda>_.
                      ret \<lparr>p_keys = n, p_message = message_of stock\<rparr>)))
                 (\<lambda>_. ret \<lparr>p_keys = 0, p_message = message_of stock\<rparr>))))) nothing_purged)"

definition forget_resume_membership :: "'w exec \<Rightarrow> string \<Rightarrow> ('w, unit) io" where
  "forget_resume_membership exec batch_id =
     bnd (attempt (r_scan exec resume_key_prefix)) (\<lambda>ks.
       case ks of
         None \<Rightarrow> ret ()
       | Some keys \<Rightarrow> for_each keys () (\<lambda>key _. suppress (r_srem exec key [batch_id])))"

definition retire_finished_batch :: "'w exec \<Rightarrow> batch_cfg \<Rightarrow> bool \<Rightarrow> string \<Rightarrow> ('w, purged) io" where
  "retire_finished_batch exec cfg own batch_id =
     (if batch_id = [] then ret nothing_purged
      else with_client exec own
        (bnd (purge_batch exec cfg False batch_id batch_tombstone_reason None (Some False)) (\<lambda>r.
           bnd (forget_resume_membership exec batch_id) (\<lambda>_. ret r))) nothing_purged)"

section \<open>The sweeps\<close>

text \<open>The batch id a key under the batch prefix belongs to, if any.\<close>

definition batch_id_of_key :: "string \<Rightarrow> string option" where
  "batch_id_of_key key =
     (let b = fst (partition_at (CHR '':'') (drop (length batch_key_prefix) key))
      in if b \<noteq> [] \<and> b \<notin> non_batch_suffixes then Some b else None)"

text \<open>The ids, sorted as the callers visit them.\<close>

definition known_batch_ids :: "'w exec \<Rightarrow> ('w, string list) io" where
  "known_batch_ids exec =
     bnd (attempt (r_scan exec batch_key_prefix)) (\<lambda>ks.
       let ids = (case ks of None \<Rightarrow> [] | Some keys \<Rightarrow> List.map_filter batch_id_of_key keys) in
       bnd (attempt (r_smembers exec active_batches_key)) (\<lambda>ms.
         let listed = (case ms of None \<Rightarrow> [] | Some xs \<Rightarrow> filter (\<lambda>x. x \<noteq> []) xs) in
         bnd (for_each (sort (remdups (filter (\<lambda>b. b \<notin> set listed) ids))) [] (\<lambda>b gone.
                bnd (batch_state_survives exec b) (\<lambda>s. ret (if s then gone else b # gone)))) (\<lambda>gone.
           ret (sort (remdups (filter (\<lambda>b. b \<notin> set gone) (ids @ listed)))))))"

text \<open>The batch id of a tombstone's key.\<close>

definition tombstone_batch :: "string \<Rightarrow> string option" where
  "tombstone_batch key =
     (if \<not> ends_with '':cancelled'' key then None
      else let b = take (length key - length batch_key_prefix - length '':cancelled'') (drop (length batch_key_prefix) key)
           in if b = [] \<or> CHR '':'' \<in> set b then None else Some b)"

definition tombstone_expired :: "real \<Rightarrow> real \<Rightarrow> string option \<Rightarrow> bool" where
  "tombstone_expired now grace raw =
     (case tombstone_written_at raw of Some (Fin x) \<Rightarrow> grace \<le> now - x | _ \<Rightarrow> False)"

text \<open>A failing read ends the sweep with what was removed so far.\<close>

fun sweep_tombstones :: "'w exec \<Rightarrow> batch_cfg \<Rightarrow> real \<Rightarrow> real \<Rightarrow> string list \<Rightarrow> int \<Rightarrow> ('w, int) io" where
  "sweep_tombstones exec cfg now grace [] removed = ret removed"
| "sweep_tombstones exec cfg now grace (key # keys) removed =
     (case tombstone_batch key of
        None \<Rightarrow> sweep_tombstones exec cfg now grace keys removed
      | Some b \<Rightarrow>
          bnd (batch_is_live exec cfg b []) (\<lambda>alive.
            if alive then sweep_tombstones exec cfg now grace keys removed
            else bnd (attempt (r_get exec key)) (\<lambda>got.
              case got of
                None \<Rightarrow> ret removed
              | Some raw \<Rightarrow>
                  if \<not> tombstone_expired now grace raw then sweep_tombstones exec cfg now grace keys removed
                  else bnd (attempt (r_del exec [key])) (\<lambda>n.
                    sweep_tombstones exec cfg now grace keys
                      (case n of Some c \<Rightarrow> if c \<noteq> 0 then removed + 1 else removed | None \<Rightarrow> removed)))))"

definition purge_stale_tombstones :: "'w exec \<Rightarrow> batch_cfg \<Rightarrow> bool \<Rightarrow> real option \<Rightarrow> ('w, int) io" where
  "purge_stale_tombstones exec cfg own grace_seconds =
     (let grace = (case grace_seconds of None \<Rightarrow> of_int (tomb_grace cfg) | Some g \<Rightarrow> max 0 g) in
      with_client exec own
        (bnd (r_time exec) (\<lambda>now.
           bnd (r_scan exec batch_key_prefix) (\<lambda>keys. sweep_tombstones exec cfg now grace keys 0))) 0)"

record purge_summary =
  ps_batches :: "string list"
  ps_keys :: int
  ps_messages :: "(int \<times> int) list"
  ps_kept :: int
  ps_tombstones :: int

definition empty_summary :: purge_summary where
  "empty_summary = \<lparr>ps_batches = [], ps_keys = 0, ps_messages = [], ps_kept = 0, ps_tombstones = 0\<rparr>"

definition add_purged :: "string \<Rightarrow> purged \<Rightarrow> purge_summary \<Rightarrow> purge_summary" where
  "add_purged b p s =
     s\<lparr>ps_batches := ps_batches s @ [b], ps_keys := ps_keys s + p_keys p,
       ps_messages := ps_messages s @ (case p_message p of None \<Rightarrow> [] | Some r \<Rightarrow> [r])\<rparr>"

definition purge_stale_batches ::
    "'w exec \<Rightarrow> batch_cfg \<Rightarrow> bool \<Rightarrow> string list \<Rightarrow> string \<Rightarrow> int option \<Rightarrow> ('w, purge_summary) io" where
  "purge_stale_batches exec cfg own cancelled_job_ids reason ttl_seconds =
     with_client exec own
       (bnd (known_batch_ids exec) (\<lambda>ids.
          bnd (for_each ids empty_summary (\<lambda>b s.
            bnd (batch_is_live exec cfg b cancelled_job_ids) (\<lambda>alive.
              if alive then ret (s\<lparr>ps_kept := ps_kept s + 1\<rparr>)
              else bnd (batch_needs_tombstone exec b cancelled_job_ids) (\<lambda>fence.
                bnd (purge_batch exec cfg False b reason ttl_seconds (Some fence)) (\<lambda>p.
                  bnd (forget_resume_membership exec b) (\<lambda>_. ret (add_purged b p s))))))) (\<lambda>s.
            bnd (purge_stale_tombstones exec cfg False None) (\<lambda>n. ret (s\<lparr>ps_tombstones := n\<rparr>)))))
       empty_summary"

definition sweep_finished_batches :: "'w exec \<Rightarrow> batch_cfg \<Rightarrow> bool \<Rightarrow> ('w, purge_summary) io" where
  "sweep_finished_batches exec cfg own =
     with_client exec own
       (bnd (known_batch_ids exec) (\<lambda>ids.
          bnd (for_each ids empty_summary (\<lambda>b s.
            bnd (batch_is_live exec cfg b []) (\<lambda>alive.
              if alive then ret s
              else bnd (batch_counters_finished exec False b) (\<lambda>finished.
                if \<not> finished then ret s
                else bnd (retire_finished_batch exec cfg False b) (\<lambda>p. ret (add_purged b p s)))))) (\<lambda>s.
            bnd (purge_stale_tombstones exec cfg False None) (\<lambda>n. ret (s\<lparr>ps_tombstones := n\<rparr>)))))
       empty_summary"

section \<open>Cancelling one batch\<close>

record cancelled =
  cb_jobs :: nat
  cb_queued :: int
  cb_delayed :: int
  cb_dedup :: int
  cb_keys :: int
  cb_message :: "(int \<times> int) option"

definition cancel_mark :: "(string, string) dict" where
  "cancel_mark = [(''cancel'', ''1''), (''status'', ''cancelled''), (''message'', ''batch cancelled'')]"

text \<open>\<open>str(json.loads(raw).get("batch_id", "")) == batch_id\<close>; text that is no object raises and is skipped.\<close>

definition delayed_in_batch :: "string \<Rightarrow> qitem \<Rightarrow> bool" where
  "delayed_in_batch b it =
     (case it of
        QJob j \<Rightarrow> py_str (case dget j ''batch_id'' of None \<Rightarrow> PStr [] | Some v \<Rightarrow> v) = b
      | _ \<Rightarrow> False)"

text \<open>A failing call ends the loop with what was dropped so far.\<close>

fun clear_dedup :: "'w exec \<Rightarrow> string list \<Rightarrow> string list \<Rightarrow> int \<Rightarrow> ('w, int) io" where
  "clear_dedup exec job_ids [] dropped = ret dropped"
| "clear_dedup exec job_ids (key # keys) dropped =
     bnd (attempt (r_get exec key)) (\<lambda>got.
       case got of
         None \<Rightarrow> ret dropped
       | Some raw \<Rightarrow>
           (let owner = (case raw of None \<Rightarrow> [] | Some s \<Rightarrow> s) in
            if owner \<in> set (''pending'' # job_ids)
            then bnd (attempt (r_del exec [key])) (\<lambda>n.
              case n of
                None \<Rightarrow> ret dropped
              | Some c \<Rightarrow> clear_dedup exec job_ids keys (if c \<noteq> 0 then dropped + 1 else dropped))
            else clear_dedup exec job_ids keys dropped))"

definition drop_delayed :: "'w exec \<Rightarrow> (qitem \<Rightarrow> bool) \<Rightarrow> qitem list \<Rightarrow> ('w, int) io" where
  "drop_delayed exec p items =
     for_each items 0 (\<lambda>it n.
       if p it then bnd (attempt (r_zrem exec delayed_set_key it)) (\<lambda>r.
         ret (case r of None \<Rightarrow> n | Some c \<Rightarrow> n + c))
       else ret n)"

text \<open>\<open>cancel_batch\<close> has no handler: an error of Redis reaches the caller, after the client is given back.\<close>

definition cancel_batch ::
    "'w exec \<Rightarrow> batch_cfg \<Rightarrow> bool \<Rightarrow> string \<Rightarrow> string \<Rightarrow> int option \<Rightarrow> ('w, cancelled) io" where
  "cancel_batch exec cfg own batch_id requested_by ttl_seconds =
     (if batch_id = []
      then ret \<lparr>cb_jobs = 0, cb_queued = 0, cb_delayed = 0, cb_dedup = 0, cb_keys = 0, cb_message = None\<rparr>
      else bnd (whenb own (r_connect exec)) (\<lambda>_. fin
        (bnd (batch_needs_tombstone exec batch_id []) (\<lambda>fence.
         bnd (whenb fence (write_tombstone exec batch_id (if requested_by = [] then ''user'' else requested_by)
                (state_lifetime cfg ttl_seconds))) (\<lambda>_.
         bnd (r_smembers exec (batch_jobs_key batch_id)) (\<lambda>job_ids.
         bnd (for_each job_ids () (\<lambda>j _. r_hset exec (job_hash_key j) cancel_mark)) (\<lambda>_.
         bnd (r_eval exec (PruneBatchScript job_list_key batch_id)) (\<lambda>queued.
         bnd (r_zrange exec delayed_set_key) (\<lambda>items.
         bnd (drop_delayed exec (delayed_in_batch batch_id) items) (\<lambda>delayed.
         bnd (attempt (r_scan exec pipeline_dedup_prefix)) (\<lambda>ks.
         bnd (case ks of None \<Rightarrow> ret 0 | Some keys \<Rightarrow> clear_dedup exec job_ids keys 0) (\<lambda>dedup.
         bnd (attempt (r_get exec (batch_message_key batch_id))) (\<lambda>stock.
         bnd (r_del exec (batch_state_keys batch_id)) (\<lambda>dropped.
         bnd (suppress (r_srem exec active_batches_key [batch_id])) (\<lambda>_.
         bnd (forget_resume_membership exec batch_id) (\<lambda>_.
           ret \<lparr>cb_jobs = length job_ids, cb_queued = queued, cb_delayed = delayed, cb_dedup = dedup,
                cb_keys = dropped, cb_message = message_of stock\<rparr>))))))))))))))
        (suppress (r_close exec))))"

section \<open>Deferring and finishing a job\<close>

definition defer_batch_job :: "'w exec \<Rightarrow> job \<Rightarrow> real \<Rightarrow> ('w, bool) io" where
  "defer_batch_job exec j delay =
     (if j = [] then ret False
      else bnd (case job_batch_id j of None \<Rightarrow> ret False | Some b \<Rightarrow> is_batch_cancelled exec False b) (\<lambda>stopped.
        if stopped then ret False
        else tryc
          (bnd (r_time exec) (\<lambda>now.
             bnd (r_zadd exec delayed_set_key (QJob j) (now + delay)) (\<lambda>_. ret True)))
          (\<lambda>_. ret False)))"

record finalized =
  fz_slot :: "bool option"
  fz_batch :: "bool option"

text \<open>
  The claims part of \<open>finalize_job\<close>: the slot first, then the batch lock.  A client is opened at
  the first step that needs one (\<open>given\<close>: there is a client already); the memory and
  temporary files the function then cleans up belong to the process, not to this model.
\<close>

definition with_lazy_client :: "'w exec \<Rightarrow> bool \<Rightarrow> ('w, bool) io \<Rightarrow> ('w, bool \<times> bool option) io" where
  "with_lazy_client exec given m =
     bnd (if given then ret (Some ()) else attempt (r_connect exec)) (\<lambda>c.
       case c of
         None \<Rightarrow> ret (given, None)
       | Some _ \<Rightarrow> bnd (attempt m) (\<lambda>r. ret (True, r)))"

definition finalize_job :: "'w exec \<Rightarrow> bool \<Rightarrow> job \<Rightarrow> int option \<Rightarrow> ('w, finalized) io" where
  "finalize_job exec given j slot =
     bnd (case slot of
            None \<Rightarrow> ret (given, None)
          | Some i \<Rightarrow> with_lazy_client exec given (release_ffmpeg_slot exec (Some i) (jget j ''job_id''))) (\<lambda>(given1, freed_slot).
       bnd (case job_batch_id j of
              None \<Rightarrow> ret (given1, None)
            | Some b \<Rightarrow> with_lazy_client exec given1 (release_batch_lock exec b (jget j ''job_id''))) (\<lambda>(_, unlocked).
         ret \<lparr>fz_slot = freed_slot, fz_batch = unlocked\<rparr>))"

end
