(* ===== verification/Frames.thy ===== *)
theory Frames
  imports RedisServer
begin

text \<open>
  What an operation may touch.  \<open>frame K m0 m\<close>: outside the keys in \<open>K\<close> the key space is as it was.
  \<open>touches K m\<close>: whatever fails, the program \<open>m\<close> changes only keys in \<open>K\<close> and time goes forward.
  \<open>guarded P K\<close> adds a condition that, once false, stays false (a batch that stops being
  alive): the frame has to hold only while it is true.
\<close>

definition frame :: "(string \<Rightarrow> bool) \<Rightarrow> store \<Rightarrow> store \<Rightarrow> bool" where
  "frame K m0 m \<longleftrightarrow> (\<forall>k. \<not> K k \<longrightarrow> m k = m0 k)"

lemma frame_refl: "frame K m m"
  by (simp add: frame_def)

lemma frame_trans: "frame K m0 m1 \<Longrightarrow> frame K m1 m2 \<Longrightarrow> frame K m0 m2"
  by (simp add: frame_def)

lemma frame_mono: "frame K m0 m \<Longrightarrow> (\<And>k. K k \<Longrightarrow> K' k) \<Longrightarrow> frame K' m0 m"
  by (auto simp: frame_def)

definition touches :: "('w \<Rightarrow> store) \<Rightarrow> ('w \<Rightarrow> real) \<Rightarrow> (string \<Rightarrow> bool) \<Rightarrow> ('w, 'a) io \<Rightarrow> bool" where
  "touches kv clock K m \<longleftrightarrow>
     (\<forall>w. wp m (\<lambda>_ w'. clock w \<le> clock w' \<and> frame K (kv w) (kv w')) (\<lambda>_ w'. clock w \<le> clock w' \<and> frame K (kv w) (kv w')) w)"

lemma touchesI:
  "(\<And>w. wp m (\<lambda>_ w'. clock w \<le> clock w' \<and> frame K (kv w) (kv w'))
           (\<lambda>_ w'. clock w \<le> clock w' \<and> frame K (kv w) (kv w')) w) \<Longrightarrow> touches kv clock K m"
  by (simp add: touches_def)

lemma touchesD:
  "touches kv clock K m \<Longrightarrow>
   wp m (\<lambda>_ w'. clock w \<le> clock w' \<and> frame K (kv w) (kv w')) (\<lambda>_ w'. clock w \<le> clock w' \<and> frame K (kv w) (kv w')) w"
  by (simp add: touches_def)

text \<open>\<open>touches\<close> as an invariant, so the rules of \<open>keeps\<close> carry over.\<close>

lemma touches_keeps:
  assumes "touches kv clock K m"
  shows "keeps (\<lambda>w. t0 \<le> clock w \<and> frame K m0 (kv w)) m"
proof (rule keepsI, rule wp_mono [OF touchesD [OF assms]], goal_cases)
  case (1 w x w')
  then show ?case by (auto intro: frame_trans)
next
  case (2 w e w')
  then show ?case by (auto intro: frame_trans)
qed

lemma keeps_touches:
  assumes "\<And>t0 m0. keeps (\<lambda>w. t0 \<le> clock w \<and> frame K m0 (kv w)) m"
  shows "touches kv clock K m"
  by (rule touchesI) (use keepsD [OF assms] frame_refl in blast)

lemma touches_bnd: "touches kv clock K m \<Longrightarrow> (\<And>x. touches kv clock K (f x)) \<Longrightarrow> touches kv clock K (bnd m f)"
  by (rule keeps_touches, rule keeps_bnd; (rule touches_keeps)?; simp)

lemma touches_tryc: "touches kv clock K m \<Longrightarrow> (\<And>e. touches kv clock K (h e)) \<Longrightarrow> touches kv clock K (tryc m h)"
  by (rule keeps_touches, rule keeps_tryc; (rule touches_keeps)?; simp)

lemma touches_fin: "touches kv clock K m \<Longrightarrow> touches kv clock K c \<Longrightarrow> touches kv clock K (fin m c)"
  by (rule keeps_touches, rule keeps_fin; (rule touches_keeps)?; simp)

lemma touches_suppress: "touches kv clock K m \<Longrightarrow> touches kv clock K (suppress m)"
  by (rule keeps_touches, rule keeps_suppress; (rule touches_keeps)?; simp)

lemma touches_fmapio: "touches kv clock K m \<Longrightarrow> touches kv clock K (fmapio f m)"
  by (rule keeps_touches, rule keeps_fmapio; (rule touches_keeps)?; simp)

lemma touches_ret: "touches kv clock K (ret x)"
  by (rule keeps_touches, rule keeps_ret)

lemma touches_whenb: "(b \<Longrightarrow> touches kv clock K m) \<Longrightarrow> touches kv clock K (whenb b m)"
  by (rule keeps_touches, rule keeps_whenb; (rule touches_keeps)?; simp)

lemma touches_if: "(b \<Longrightarrow> touches kv clock K m) \<Longrightarrow> (\<not> b \<Longrightarrow> touches kv clock K n) \<Longrightarrow> touches kv clock K (if b then m else n)"
  by simp

lemma touches_option:
  "touches kv clock K m \<Longrightarrow> (\<And>x. v = Some x \<Longrightarrow> touches kv clock K (f x)) \<Longrightarrow>
   touches kv clock K (case v of None \<Rightarrow> m | Some x \<Rightarrow> f x)"
  by (cases v) auto

lemma touches_prod: "(\<And>a b. v = (a, b) \<Longrightarrow> touches kv clock K (f a b)) \<Longrightarrow> touches kv clock K (case v of (a, b) \<Rightarrow> f a b)"
  by (cases v) auto

lemma touches_for_each: "(\<And>x s. x \<in> set xs \<Longrightarrow> touches kv clock K (f x s)) \<Longrightarrow> touches kv clock K (for_each xs s f)"
  by (rule keeps_touches, rule keeps_for_each; (rule touches_keeps)?; simp)

lemma touches_first_of: "(\<And>x. x \<in> set xs \<Longrightarrow> touches kv clock K (f x)) \<Longrightarrow> touches kv clock K (first_of xs f)"
  by (rule keeps_touches, rule keeps_first_of; (rule touches_keeps)?; simp)

lemma touches_mono: "touches kv clock K m \<Longrightarrow> (\<And>k. K k \<Longrightarrow> K' k) \<Longrightarrow> touches kv clock K' m"
  unfolding touches_def by (blast intro: wp_mono frame_mono)

lemmas touches_intros =
  touches_ret touches_bnd touches_tryc touches_fin touches_suppress touches_fmapio touches_whenb touches_if
  touches_option touches_prod touches_for_each touches_first_of

lemma touches_final:
  assumes "touches kv clock K m" "\<not> K k"
  shows "kv (snd (m w)) k = kv w k"
proof -
  have "keeps (\<lambda>x. clock w \<le> clock x \<and> frame K (kv w) (kv x)) m" by (rule touches_keeps [OF assms(1)])
  from keeps_final [OF this, of w] show ?thesis using assms(2) by (simp add: frame_def)
qed

context redis_server begin

lemma touches_exec:
  assumes "\<And>k. k \<in> set (touched c) \<Longrightarrow> K k"
  shows "touches kv clock K (exec c)"
proof (rule touchesI)
  fix w
  have "effect c t m k = m k" if "\<not> K k" for k t m
    by (rule effect_untouched) (use assms that in blast)
  then have "frame K m (effect c t m)" for t m by (simp add: frame_def)
  then show "wp (exec c) (\<lambda>_ w'. clock w \<le> clock w' \<and> frame K (kv w) (kv w'))
      (\<lambda>_ w'. clock w \<le> clock w' \<and> frame K (kv w) (kv w')) w"
    by (intro wp_exec) (auto simp: frame_refl)
qed

lemma touches_call: "(\<And>k. k \<in> set (touched c) \<Longrightarrow> K k) \<Longrightarrow> touches kv clock K (fmapio f (exec c))"
  by (intro touches_fmapio touches_exec)

lemma touches_r_time: "touches kv clock K (r_time exec)"
  unfolding r_time_def by (intro touches_tryc touches_call touches_ret) simp

lemma touches_reads:
  "touches kv clock K (r_connect exec)" "touches kv clock K (r_close exec)" "touches kv clock K (r_exists exec ks)"
  "touches kv clock K (r_scan exec p)" "touches kv clock K (r_get exec k)" "touches kv clock K (r_smembers exec k)"
  "touches kv clock K (r_hget exec k f)" "touches kv clock K (r_hgetall exec k)" "touches kv clock K (r_lrange exec k)"
  "touches kv clock K (r_zrange exec k)" "touches kv clock K (r_zdue exec k now n)" "touches kv clock K (r_zcard exec k)"
  "touches kv clock K (r_getdoc exec k)"
  unfolding r_connect_def r_close_def r_exists_def r_scan_def r_get_def r_smembers_def r_hget_def r_hgetall_def
    r_lrange_def r_zrange_def r_zdue_def r_zcard_def r_getdoc_def
  by (rule touches_call; simp)+

lemma touches_writes:
  "K k \<Longrightarrow> touches kv clock K (r_set exec k v ex)" "K k \<Longrightarrow> touches kv clock K (r_setnx exec k v ms)"
  "(\<And>k. k \<in> set ks \<Longrightarrow> K k) \<Longrightarrow> touches kv clock K (r_del exec ks)"
  "K k \<Longrightarrow> touches kv clock K (r_incr exec k)" "K k \<Longrightarrow> touches kv clock K (r_expire exec k s)"
  "K k \<Longrightarrow> touches kv clock K (r_getdel exec k)" "K k \<Longrightarrow> touches kv clock K (r_sadd exec k x)"
  "K k \<Longrightarrow> touches kv clock K (r_srem exec k xs)" "K k \<Longrightarrow> touches kv clock K (r_hset exec k fs)"
  "K k \<Longrightarrow> touches kv clock K (r_hdel exec k f)" "K k \<Longrightarrow> touches kv clock K (r_lpush exec k it)" "K k \<Longrightarrow> touches kv clock K (r_brpop exec k)"
  "K k \<Longrightarrow> touches kv clock K (r_zadd exec k it sc)" "K k \<Longrightarrow> touches kv clock K (r_zrem exec k it)"
  "K k \<Longrightarrow> touches kv clock K (r_setdoc exec k item ex)"
  "K (script_key sp) \<Longrightarrow> touches kv clock K (r_eval exec sp)"
  unfolding r_set_def r_setdoc_def r_setnx_def r_del_def r_incr_def r_expire_def r_getdel_def r_sadd_def r_srem_def r_hset_def
    r_hdel_def r_lpush_def r_brpop_def r_zadd_def r_zrem_def r_eval_def
  by (rule touches_call; simp)+

text \<open>A scan's body sees only keys with the scanned prefix.\<close>

lemma touches_scan:
  assumes "\<And>ks. (\<And>k. k \<in> set ks \<Longrightarrow> starts_with p k) \<Longrightarrow> touches kv clock K (f ks)"
  shows "touches kv clock K (bnd (r_scan exec p) f)"
proof (rule touchesI, unfold wp_bnd, rule wp_r_scan, goal_cases)
  case (1 w ks w')
  then have "touches kv clock K (f ks)" by (intro assms) auto
  from touchesD [OF this, of w'] show ?case using 1 by (auto elim!: wp_mono)
next
  case (2 w e w')
  then show ?case by (simp add: frame_refl)
qed

end

section \<open>While a condition lasts\<close>

definition falling :: "(real \<Rightarrow> bool) \<Rightarrow> bool" where
  "falling P \<longleftrightarrow> (\<forall>t t'. P t' \<longrightarrow> t \<le> t' \<longrightarrow> P t)"

lemma fallingI: "(\<And>t t'. P t' \<Longrightarrow> t \<le> t' \<Longrightarrow> P t) \<Longrightarrow> falling P"
  by (simp add: falling_def)

lemma fallingD: "falling P \<Longrightarrow> P t' \<Longrightarrow> t \<le> t' \<Longrightarrow> P t"
  unfolding falling_def by blast

definition guarded :: "('w \<Rightarrow> store) \<Rightarrow> ('w \<Rightarrow> real) \<Rightarrow> (real \<Rightarrow> bool) \<Rightarrow> (string \<Rightarrow> bool) \<Rightarrow> 'w \<Rightarrow> 'w \<Rightarrow> bool" where
  "guarded kv clock P K w0 w \<longleftrightarrow> clock w0 \<le> clock w \<and> (P (clock w) \<longrightarrow> frame K (kv w0) (kv w))"

lemma guarded_refl: "guarded kv clock P K w w"
  by (simp add: guarded_def frame_refl)

lemma guarded_step:
  assumes "falling P" and "guarded kv clock P K w0 w" and "clock w \<le> clock w'"
    and "P (clock w') \<Longrightarrow> frame K (kv w) (kv w')"
  shows "guarded kv clock P K w0 w'"
  using assms(2-4) fallingD [OF assms(1), of "clock w'" "clock w"] frame_trans
  by (auto simp: guarded_def)

lemma keeps_guarded:
  assumes "falling P" and "touches kv clock K m"
  shows "keeps (guarded kv clock P K w0) m"
  by (rule keepsI, rule wp_mono [OF touchesD [OF assms(2)]]) (auto intro: guarded_step [OF assms(1)])

text \<open>Once the condition is false the rest may do anything.\<close>

lemma wp_guarded_over:
  assumes "falling P" and "touches kv clock (\<lambda>_. True) m"
    and "guarded kv clock P K w0 w" and "\<not> P (clock w)"
  shows "wp m (\<lambda>_. guarded kv clock P K w0) (\<lambda>_. guarded kv clock P K w0) w"
proof (rule wp_mono [OF touchesD [OF assms(2)]], goal_cases)
  case (1 x w')
  then show ?case using assms(3,4) fallingD [OF assms(1), of "clock w'" "clock w"] by (auto simp: guarded_def)
next
  case (2 e w')
  then show ?case using assms(3,4) fallingD [OF assms(1), of "clock w'" "clock w"] by (auto simp: guarded_def)
qed

end
