(* ===== verification/BatchPurgeResults.thy ===== *)
theory BatchPurgeResults
  imports BatchPurge Frames
begin

text \<open>
  What taking batches down guarantees.  Under any failure of Redis: no operation on one batch
  touches another's keys, the finished sweep leaves a batch alone whose counters do not say it is
  over, the stale sweep leaves one alone with a member still active, and a tombstone younger than
  the grace is kept.  With Redis up: the exact effect of taking one batch down.
\<close>

section \<open>Whose key is it?\<close>

definition own_keys :: "string \<Rightarrow> string list" where
  "own_keys b = batch_cancel_key b # batch_state_keys b"

lemma last_colon_inject:
  assumes "CHR '':'' \<notin> set s" "CHR '':'' \<notin> set s'" "b @ CHR '':'' # s = b' @ CHR '':'' # s'"
  shows "b = b' \<and> s = s'"
proof -
  have "rpartition_at (CHR '':'') (b @ CHR '':'' # s) = rpartition_at (CHR '':'') (b' @ CHR '':'' # s')"
    using assms(3) by simp
  then show ?thesis using assms(1,2) by simp
qed

lemma own_keys_form: "k \<in> set (own_keys b) \<longleftrightarrow>
    (\<exists>s \<in> {''cancelled'', ''jobs'', ''total'', ''done'', ''done_jobs'', ''msg'', ''finished'', ''started''}.
       k = batch_key_prefix @ b @ CHR '':'' # s)"
  by (auto simp: own_keys_def batch_state_keys_def batch_lock_key_def batch_progress_key_def batch_total_key_def
      batch_cancel_key_def batch_jobs_key_def batch_done_jobs_key_def batch_finished_keys_def
      batch_message_key_def batch_started_key_def)

lemma own_keys_disjoint:
  assumes "k \<in> set (own_keys b)" "k \<in> set (own_keys b')"
  shows "b = b'"
proof -
  have c: "CHR '':'' \<notin> set s" if "s \<in> {''cancelled'', ''jobs'', ''total'', ''done'', ''done_jobs'', ''msg'', ''finished'', ''started''}" for s
    using that by auto
  obtain s where s: "CHR '':'' \<notin> set s" "k = batch_key_prefix @ b @ CHR '':'' # s"
    using assms(1) c unfolding own_keys_form by blast
  obtain s' where s': "CHR '':'' \<notin> set s'" "k = batch_key_prefix @ b' @ CHR '':'' # s'"
    using assms(2) c unfolding own_keys_form by blast
  have "b @ CHR '':'' # s = b' @ CHR '':'' # s'" using s(2) s'(2) by simp
  then show ?thesis using last_colon_inject [OF s(1) s'(1)] by simp
qed

lemma state_own: "k \<in> set (batch_state_keys b) \<Longrightarrow> k \<in> set (own_keys b)"
  by (simp add: own_keys_def)

lemma own_not_active: "k \<in> set (own_keys b) \<Longrightarrow> k \<noteq> active_batches_key"
  using active_key_not_state [of b] active_key_not_cancel [of b] by (auto simp: own_keys_def)

lemma own_not_resume:
  assumes "batch_id_ok b" "k \<in> set (own_keys b)"
  shows "\<not> starts_with resume_key_prefix k"
  using assms batch_not_resume [OF assms(1)] unfolding own_keys_form by blast

lemma own_not_job: "k \<in> set (own_keys b) \<Longrightarrow> k \<noteq> job_hash_key j"
  using foreign_keys(1) [of j b] foreign_keys(2) [of j b] by (auto simp: own_keys_def)

lemma cancel_not_state: "batch_cancel_key b \<notin> set (batch_state_keys b')"
proof
  assume k: "batch_cancel_key b \<in> set (batch_state_keys b')"
  have "b = b'" by (rule own_keys_disjoint [OF _ state_own [OF k]]) (simp add: own_keys_def)
  then show False using k by (simp add: batch_state_keys_def key_defs)
qed

lemma tombstone_batch_key:
  assumes "starts_with batch_key_prefix key" "tombstone_batch key = Some b"
  shows "key = batch_cancel_key b"
proof -
  obtain t where t: "key = batch_key_prefix @ t" using assms(1) by (auto simp: starts_with_iff)
  obtain u where u: "key = u @ '':cancelled''" using assms(2) by (auto simp: tombstone_batch_def ends_with_iff split: if_splits)
  have b: "b = take (length key - length batch_key_prefix - length '':cancelled'') t" "b \<noteq> []"
    using assms(2) t by (auto simp: tombstone_batch_def Let_def split: if_splits)
  have len: "length batch_key_prefix + length '':cancelled'' \<le> length key" using b by (cases "length key - length batch_key_prefix - length '':cancelled''") auto
  then have "length batch_key_prefix \<le> length u" using u by simp
  moreover have "batch_key_prefix @ t = u @ '':cancelled''" using t u by simp
  ultimately have "take (length batch_key_prefix) u = batch_key_prefix"
    by (metis append_eq_conv_conj take_append take_all_iff diff_is_0_eq take_0 append_Nil2)
  then obtain v where v: "u = batch_key_prefix @ v" by (metis append_take_drop_id)
  then have "t = v @ '':cancelled''" using t u by simp
  then have "b = v" using b(1) t by simp
  then show ?thesis using u v by (simp add: batch_cancel_key_def)
qed

section \<open>What each operation may touch\<close>

abbreviation down_keys :: "string \<Rightarrow> string \<Rightarrow> bool" where
  "down_keys b k \<equiv> k \<in> set (own_keys b) \<or> k = active_batches_key \<or> starts_with resume_key_prefix k"

context redis_server begin

lemma touches_attempt: "touches kv clock K m \<Longrightarrow> touches kv clock K (attempt m)"
  unfolding attempt_def by (intro touches_intros)

lemma touches_with_client: "touches kv clock K m \<Longrightarrow> touches kv clock K (with_client exec own m d)"
  unfolding with_client_def by (intro touches_intros touches_attempt touches_reads)

lemma touches_member_is_active: "touches kv clock K (member_is_active exec j)"
  unfolding member_is_active_def Let_def by (intro touches_intros touches_attempt touches_reads)

lemma touches_batch_is_live: "touches kv clock K (batch_is_live exec cfg b dead)"
  unfolding batch_is_live_def batch_is_fresh_def
  by (intro touches_intros touches_attempt touches_reads touches_member_is_active touches_r_time)

lemma touches_needs_tombstone: "touches kv clock K (batch_needs_tombstone exec b dead)"
  unfolding batch_needs_tombstone_def by (intro touches_intros touches_attempt touches_reads)

lemma touches_counters_finished: "touches kv clock K (batch_counters_finished exec own b)"
  unfolding batch_counters_finished_def by (intro touches_intros touches_with_client touches_reads)

lemma touches_write_tombstone: "K (batch_cancel_key b) \<Longrightarrow> touches kv clock K (write_tombstone exec b r ttl)"
  unfolding write_tombstone_def by (intro touches_intros touches_r_time touches_writes)

lemma touches_purge_batch:
  assumes "\<And>k. k \<in> set (own_keys b) \<Longrightarrow> K k" "K active_batches_key"
  shows "touches kv clock K (purge_batch exec cfg own b reason ttl fence)"
  unfolding purge_batch_def
  by (intro touches_intros touches_with_client touches_needs_tombstone touches_write_tombstone touches_attempt
      touches_reads touches_writes) (auto intro: assms simp: own_keys_def)

lemma touches_scan_then:
  assumes "\<And>ks. (\<And>k. k \<in> set ks \<Longrightarrow> starts_with p k) \<Longrightarrow> touches kv clock K (f ks)" and "touches kv clock K g"
  shows "touches kv clock K (bnd (attempt (r_scan exec p)) (\<lambda>ks. case ks of None \<Rightarrow> g | Some x \<Rightarrow> f x))"
proof (rule touchesI, unfold wp_bnd wp_attempt, rule wp_r_scan, goal_cases)
  case (1 w ks w')
  then have "touches kv clock K (f ks)" by (intro assms(1)) auto
  from touchesD [OF this, of w'] show ?case using 1 by (auto elim!: wp_mono)
next
  case (2 w e w')
  from touchesD [OF assms(2), of w'] show ?case using 2 by (auto elim!: wp_mono)
qed

lemma touches_forget:
  assumes "\<And>k. starts_with resume_key_prefix k \<Longrightarrow> K k"
  shows "touches kv clock K (forget_resume_membership exec b)"
  unfolding forget_resume_membership_def
  by (intro touches_scan_then touches_intros touches_writes assms) blast

lemma touches_retire:
  assumes "\<And>k. down_keys b k \<Longrightarrow> K k"
  shows "touches kv clock K (retire_finished_batch exec cfg own b)"
  unfolding retire_finished_batch_def
  by (intro touches_intros touches_with_client touches_purge_batch touches_forget assms) simp_all

lemma touches_known: "touches kv clock K (known_batch_ids exec)"
  unfolding known_batch_ids_def batch_state_survives_def Let_def
  by (intro touches_intros touches_attempt touches_reads)

lemma touches_sweep_tombstones:
  assumes "\<And>k b. k \<in> set ks \<Longrightarrow> tombstone_batch k = Some b \<Longrightarrow> K k"
  shows "touches kv clock K (sweep_tombstones exec cfg now grace ks n)"
  using assms
proof (induction ks arbitrary: n)
  case Nil
  then show ?case by (simp add: touches_ret)
next
  case (Cons k ks)
  have IH: "touches kv clock K (sweep_tombstones exec cfg now grace ks n)" for n
    using Cons by (meson list.set_intros)
  show ?case
    unfolding sweep_tombstones.simps
    by (intro touches_intros touches_attempt touches_batch_is_live touches_reads touches_writes IH)
      (use Cons.prems in auto)
qed

lemma touches_purge_tombstones:
  assumes "\<And>b. K (batch_cancel_key b)"
  shows "touches kv clock K (purge_stale_tombstones exec cfg own g)"
  unfolding purge_stale_tombstones_def Let_def
  by (rule touches_with_client, rule touches_bnd [OF touches_r_time], rule touches_scan,
      rule touches_sweep_tombstones, drule tombstone_batch_key [rotated], blast) (simp add: assms)

end

section \<open>What the questions promise when Redis fails\<close>

definition finished_at :: "real \<Rightarrow> store \<Rightarrow> string \<Rightarrow> bool" where
  "finished_at t m b \<longleftrightarrow>
     counters_say_finished (str_at t m (batch_progress_key b)) (str_at t m (batch_total_key b))"

definition active_member :: "real \<Rightarrow> store \<Rightarrow> string \<Rightarrow> bool" where
  "active_member t m j \<longleftrightarrow>
     (\<exists>s. dget (hash_at t m (job_hash_key j)) ''status'' = Some s \<and> s \<noteq> [] \<and> s \<notin> terminal_statuses)"

definition alive :: "real \<Rightarrow> store \<Rightarrow> string \<Rightarrow> string list \<Rightarrow> bool" where
  "alive t m b dead \<longleftrightarrow> (\<exists>j \<in> set (set_at t m (batch_jobs_key b)). j \<notin> set dead \<and> active_member t m j)"

lemma set_at_later: "x \<in> set (set_at t' m k) \<Longrightarrow> t \<le> t' \<Longrightarrow> x \<in> set (set_at t m k)"
  using live_later_same [of t' m k _ t] by (cases "live t' m k") (simp_all add: set_at_def)

lemma active_member_earlier:
  assumes "active_member t' m j" "t \<le> t'"
  shows "active_member t m j"
proof -
  obtain s where s: "dget (hash_at t' m (job_hash_key j)) ''status'' = Some s" "s \<noteq> []" "s \<notin> terminal_statuses"
    using assms(1) unfolding active_member_def by blast
  show ?thesis
    unfolding active_member_def by (rule exI [of _ s]) (use hash_at_later [OF s(1) assms(2)] s in simp)
qed

lemma alive_earlier:
  assumes "alive t' m b dead" "t \<le> t'"
  shows "alive t m b dead"
proof -
  obtain j where j: "j \<in> set (set_at t' m (batch_jobs_key b))" "j \<notin> set dead" "active_member t' m j"
    using assms(1) unfolding alive_def by blast
  show ?thesis
    unfolding alive_def
    using j(2) active_member_earlier [OF j(3) assms(2)] set_at_later [OF j(1) assms(2)] by blast
qed

lemma alive_listed: "alive t' m b dead \<Longrightarrow> t \<le> t' \<Longrightarrow> set_at t m (batch_jobs_key b) \<noteq> []"
  using alive_earlier by (fastforce simp: alive_def)

lemma alive_cong:
  assumes "m (batch_jobs_key b) = m' (batch_jobs_key b)" "\<And>j. m (job_hash_key j) = m' (job_hash_key j)"
  shows "alive t m b dead = alive t m' b dead"
proof -
  have "set_at t m (batch_jobs_key b) = set_at t m' (batch_jobs_key b)" by (rule set_at_cong) (rule assms)
  moreover have "hash_at t m (job_hash_key j) = hash_at t m' (job_hash_key j)" for j
    by (rule hash_at_cong) (rule assms)
  ultimately show ?thesis by (simp add: alive_def active_member_def)
qed

lemma alive_weaken: "alive t m b dead \<Longrightarrow> alive t m b []"
  by (auto simp: alive_def)

lemma counters_say_finishedD: "counters_say_finished d e \<Longrightarrow> \<exists>x y. d = Some x \<and> e = Some y"
  by (cases d; cases e; simp add: counters_say_finished_def split: option.splits)

lemma finished_earlier:
  assumes "finished_at t' m b" "t \<le> t'"
  shows "finished_at t m b"
proof -
  obtain d e where d: "str_at t' m (batch_progress_key b) = Some d" and e: "str_at t' m (batch_total_key b) = Some e"
    using counters_say_finishedD assms(1) unfolding finished_at_def by blast
  show ?thesis
    using assms(1) str_at_later [OF d assms(2)] str_at_later [OF e assms(2)] d e by (simp add: finished_at_def)
qed

context redis_server begin

lemma wp_counters_finished:
  "wp (batch_counters_finished exec False b)
     (\<lambda>r w'. clock w \<le> clock w' \<and> kv w' = kv w \<and> (r \<longrightarrow> finished_at (clock w) (kv w) b)) (\<lambda>_ _. False) w"
proof (cases "b = []")
  case True
  then show ?thesis by (simp add: batch_counters_finished_def)
next
  case False
  show ?thesis
    unfolding batch_counters_finished_def with_client_def if_not_P [OF False] if_False wp_tryc wp_bnd
  proof (rule wp_r_get, goal_cases)
    case (1 w1)
    show ?case
    proof (rule wp_r_get, goal_cases)
      case (1 w2)
      have "finished_at (clock w) (kv w) b"
        if f: "counters_say_finished (str_at (clock w) (kv w) (batch_progress_key b)) (str_at (clock w1) (kv w1) (batch_total_key b))"
      proof -
        obtain e where e: "str_at (clock w1) (kv w1) (batch_total_key b) = Some e"
          using counters_say_finishedD [OF f] by blast
        have "str_at (clock w) (kv w) (batch_total_key b) = Some e"
          using str_at_later [OF e \<open>clock w \<le> clock w1\<close>] \<open>kv w1 = kv w\<close> by simp
        then show ?thesis using f e by (simp add: finished_at_def)
      qed
      then show ?case using 1 \<open>clock w \<le> clock w1\<close> \<open>kv w1 = kv w\<close> by auto
    next
      case (2 e w2)
      then show ?case using \<open>clock w \<le> clock w1\<close> \<open>kv w1 = kv w\<close> by auto
    qed
  next
    case (2 e w1)
    then show ?case by simp
  qed
qed

lemma wp_member_is_active:
  "wp (member_is_active exec j)
     (\<lambda>r w'. clock w \<le> clock w' \<and> kv w' = kv w \<and> (active_member (clock w) (kv w) j \<longrightarrow> r)) E w"
  unfolding member_is_active_def wp_bnd wp_attempt Let_def
  by (rule wp_r_hget) (auto simp: active_member_def)

lemma wp_first_active:
  assumes "\<forall>j \<in> set dn. j \<in> set dead \<or> \<not> active_member (clock w) (kv w) j"
  shows "wp (first_of ms (\<lambda>j. if j \<in> set dead then ret None
       else bnd (member_is_active exec j) (\<lambda>a. ret (if a then Some () else None))))
     (\<lambda>r w'. clock w \<le> clock w' \<and> kv w' = kv w \<and>
        (r = None \<longrightarrow> (\<forall>j \<in> set dn \<union> set ms. j \<in> set dead \<or> \<not> active_member (clock w') (kv w) j))) E w"
  using assms
proof (induction ms arbitrary: dn w)
  case Nil
  then show ?case by simp
next
  case (Cons j ms)
  show ?case
  proof (cases "j \<in> set dead")
    case True
    then show ?thesis using Cons.IH [of "j # dn" w] Cons.prems by simp
  next
    case False
    have "wp (member_is_active exec j)
       (\<lambda>a. wp (case if a then Some () else None of
            None \<Rightarrow> first_of ms (\<lambda>j. if j \<in> set dead then ret None
              else bnd (member_is_active exec j) (\<lambda>a. ret (if a then Some () else None)))
          | Some y \<Rightarrow> ret (Some ()))
         (\<lambda>r w'. clock w \<le> clock w' \<and> kv w' = kv w \<and>
           (r = None \<longrightarrow> (\<forall>i \<in> set dn \<union> set (j # ms). i \<in> set dead \<or> \<not> active_member (clock w') (kv w) i))) E) E w"
    proof (rule wp_mono [OF wp_member_is_active [where E = E]], goal_cases)
      case (1 a w1)
      show ?case
      proof (cases a)
        case True
        then show ?thesis using 1 by simp
      next
        case na: False
        have "\<not> active_member (clock w1) (kv w) i" if "\<not> active_member (clock w) (kv w) i" for i
          using that active_member_earlier 1 by blast
        then have "\<forall>i \<in> set (j # dn). i \<in> set dead \<or> \<not> active_member (clock w1) (kv w1) i"
          using 1 na Cons.prems by auto
        from Cons.IH [OF this] show ?thesis using na 1 by (auto elim!: wp_mono)
      qed
    qed
    then show ?thesis using False by simp
  qed
qed

lemma wp_batch_is_live:
  "wp (batch_is_live exec cfg b dead)
     (\<lambda>r w'. clock w \<le> clock w' \<and> kv w' = kv w \<and> (alive (clock w') (kv w) b dead \<longrightarrow> r)) (\<lambda>_ _. False) w"
  unfolding batch_is_live_def wp_bnd wp_attempt
proof (rule wp_r_smembers, goal_cases)
  case (1 ms w1)
  show ?case
  proof (cases "ms = []")
    case True
    have no: "\<not> alive t (kv w) b dead" if "clock w \<le> t" for t
      using True 1(3) alive_listed [OF _ that] by auto
    have "wp (batch_is_fresh exec cfg b) (\<lambda>r w'. clock w1 \<le> clock w' \<and> kv w' = kv w1) (\<lambda>_ _. False) w1"
      unfolding batch_is_fresh_def wp_bnd wp_attempt
      by (auto intro!: wp_r_get wp_r_time split: option.splits)
    then show ?thesis using True 1 no by (auto elim!: wp_mono)
  next
    case False
    have "wp (first_of ms (\<lambda>j. if j \<in> set dead then ret None
         else bnd (member_is_active exec j) (\<lambda>a. ret (if a then Some () else None))))
       (\<lambda>r w'. clock w \<le> clock w' \<and> kv w' = kv w \<and> (alive (clock w') (kv w) b dead \<longrightarrow> r \<noteq> None)) (\<lambda>_ _. False) w1"
    proof (rule wp_mono [OF wp_first_active [where dn = "[]" and E = "\<lambda>_ _. False"]], goal_cases)
      case 1
      then show ?case by simp
    next
      case (2 r w2)
      have "clock w \<le> clock w2" using 2 \<open>clock w \<le> clock w1\<close> by simp
      then show ?case using 2 \<open>kv w1 = kv w\<close> \<open>set ms = _\<close> set_at_later [of _ "clock w2" "kv w" "batch_jobs_key b" "clock w"]
        by (auto simp: alive_def)
    qed
    then show ?thesis using False by simp
  qed
next
  case (2 e w1)
  then show ?case by simp
qed

end

section \<open>The sweeps under any failure\<close>

lemma keeps_with_client:
  assumes "keeps I m" "keeps I (r_connect exec)" "keeps I (r_close exec)"
  shows "keeps I (with_client exec own m d)"
  unfolding with_client_def by (intro keeps_intros keeps_attempt assms)

context redis_server begin

text \<open>The finished sweep and a batch whose counters do not say it is over.\<close>

lemma keeps_sweep_finished:
  assumes b0: "batch_id_ok b0" and unfinished: "\<not> finished_at (clock w0) (kv w0) b0"
    and I: "I = (\<lambda>w. clock w0 \<le> clock w \<and> frame (\<lambda>k. k \<notin> set (batch_state_keys b0)) (kv w0) (kv w))"
  shows "keeps I (sweep_finished_batches exec cfg own)"
proof -
  let ?K = "\<lambda>k. k \<notin> set (batch_state_keys b0)"
  have t: "keeps I m" if "touches kv clock ?K m" for m :: "('w, 'b) io"
    unfolding I by (rule touches_keeps [OF that])
  have retire: "touches kv clock ?K (retire_finished_batch exec cfg False b)" if "b \<noteq> b0" for b
  proof (rule touches_retire, elim disjE)
    fix k
    show "k \<in> set (own_keys b) \<Longrightarrow> ?K k" using own_keys_disjoint [of k b b0] state_own that by blast
    show "k = active_batches_key \<Longrightarrow> ?K k" using active_key_not_state by simp
    show "starts_with resume_key_prefix k \<Longrightarrow> ?K k" using own_not_resume [OF b0] state_own by blast
  qed
  have inner: "keeps I (bnd (batch_counters_finished exec False b) (\<lambda>finished.
                if \<not> finished then ret s
                else bnd (retire_finished_batch exec cfg False b) (\<lambda>p. ret (add_purged b p s))))" for b s
  proof (cases "b = b0")
    case False
    show ?thesis by (intro keeps_bnd keeps_if keeps_ret t touches_counters_finished retire False)
  next
    case True
    show ?thesis
    proof (rule keepsI, unfold wp_bnd, rule wp_mono [OF wp_counters_finished], goal_cases)
      case (1 w r w')
      have fr: "frame ?K (kv w0) (kv w)" "clock w0 \<le> clock w" using 1(1) by (simp_all add: I)
      have "str_at (clock w) (kv w) k = str_at (clock w) (kv w0) k" if "k \<in> set (batch_state_keys b0)" for k
        by (rule str_at_cong) (use fr(1) that in \<open>simp add: frame_def\<close>)
      then have "finished_at (clock w) (kv w) b0 = finished_at (clock w) (kv w0) b0"
        by (simp add: finished_at_def batch_state_keys_def)
      then have "\<not> finished_at (clock w) (kv w) b0"
        using unfinished finished_earlier [OF _ fr(2)] by blast
      then have "\<not> r" "I w'" using 1 True by (auto simp: I)
      then show ?case by simp
    qed simp
  qed
  have body: "keeps I (bnd (batch_is_live exec cfg b []) (\<lambda>alive.
              if alive then ret s
              else bnd (batch_counters_finished exec False b) (\<lambda>finished.
                if \<not> finished then ret s
                else bnd (retire_finished_batch exec cfg False b) (\<lambda>p. ret (add_purged b p s)))))" for b s
    by (rule keeps_bnd, rule t, rule touches_batch_is_live, rule keeps_if, rule keeps_ret, rule inner)
  have conn: "keeps I (r_connect exec)" "keeps I (r_close exec)"
    by (rule t, rule touches_reads)+
  show ?thesis
    unfolding sweep_finished_batches_def
    by (intro keeps_with_client keeps_bnd keeps_for_each keeps_ret body conn t touches_known touches_purge_tombstones)
      (simp add: cancel_not_state)
qed

end

text \<open>A tombstone is kept while its batch has an active member or its stamp is within the grace.\<close>

definition tomb_kept :: "real \<Rightarrow> store \<Rightarrow> string \<Rightarrow> real \<Rightarrow> bool" where
  "tomb_kept grace m b t \<longleftrightarrow>
     alive t m b [] \<or> (\<exists>v d. m (batch_cancel_key b) = Some (VStr v, d) \<and> \<not> tombstone_expired t grace (Some v))"

lemma tombstone_expired_later: "tombstone_expired t grace raw \<Longrightarrow> t \<le> t' \<Longrightarrow> tombstone_expired t' grace raw"
  by (auto simp: tombstone_expired_def split: option.splits pyfloat.splits)

lemma tombstone_none: "\<not> tombstone_expired t grace None"
  by (simp add: tombstone_expired_def tombstone_written_at_def rpartition_at_def)

definition others :: "string \<Rightarrow> string \<Rightarrow> bool" where
  "others b k \<longleftrightarrow> k \<notin> set (own_keys b) \<and> (\<forall>j. k \<noteq> job_hash_key j)"

lemma frame_others:
  assumes "frame (others b) m0 m"
  shows "alive t m b dead = alive t m0 b dead" "m (batch_cancel_key b) = m0 (batch_cancel_key b)"
proof -
  show "m (batch_cancel_key b) = m0 (batch_cancel_key b)"
    using assms by (simp add: frame_def others_def own_keys_def)
  show "alive t m b dead = alive t m0 b dead"
  proof (rule alive_cong)
    have eq: "m k = m0 k" if "\<not> others b k" for k using assms that unfolding frame_def by blast
    show "m (batch_jobs_key b) = m0 (batch_jobs_key b)"
      by (rule eq) (simp add: others_def own_keys_def batch_state_keys_def)
    show "m (job_hash_key j) = m0 (job_hash_key j)" for j
      by (rule eq) (auto simp only: others_def)
  qed
qed

lemma others_down: "batch_id_ok b0 \<Longrightarrow> b \<noteq> b0 \<Longrightarrow> down_keys b k \<Longrightarrow> others b0 k"
  unfolding others_def
proof (intro conjI allI)
  fix j
  assume b0: "batch_id_ok b0" and ne: "b \<noteq> b0" and k: "down_keys b k"
  show "k \<notin> set (own_keys b0)"
    using k own_keys_disjoint [of k b b0] ne own_not_active [of k b0] own_not_resume [OF b0, of k] by blast
  show "k \<noteq> job_hash_key j"
    using k own_not_job [of k b j] by (auto simp: key_defs starts_with_def)
qed

lemma others_cancel: "b \<noteq> b0 \<Longrightarrow> others b0 (batch_cancel_key b)"
  unfolding others_def
proof (intro conjI allI)
  fix j
  assume "b \<noteq> b0"
  then show "batch_cancel_key b \<notin> set (own_keys b0)"
    using own_keys_disjoint [of "batch_cancel_key b" b b0] by (auto simp: own_keys_def)
  show "batch_cancel_key b \<noteq> job_hash_key j" using foreign_keys(2) [of j b] by auto
qed

context redis_server begin

lemma wp_live_guarded:
  assumes anti: "falling P" and G: "guarded kv clock P (others b0) w0 w"
  shows "wp (batch_is_live exec cfg b0 dead)
     (\<lambda>r w'. clock w \<le> clock w' \<and> guarded kv clock P (others b0) w0 w' \<and>
        (\<not> r \<longrightarrow> P (clock w') \<longrightarrow> \<not> alive (clock w') (kv w0) b0 dead)) (\<lambda>_ _. False) w"
proof (rule wp_mono [OF wp_batch_is_live], goal_cases)
  case (1 r w')
  have g: "guarded kv clock P (others b0) w0 w'"
    by (rule guarded_step [OF anti G]) (use 1 in \<open>simp_all add: frame_refl\<close>)
  then have "P (clock w') \<Longrightarrow> alive (clock w') (kv w') b0 dead = alive (clock w') (kv w0) b0 dead"
    by (intro frame_others) (simp add: guarded_def)
  then show ?case using 1 g by auto
qed simp

lemma wp_sweep_tombstones:
  assumes anti: "falling P" and kept: "\<And>t. P t \<Longrightarrow> tomb_kept grace (kv w0) b0 t"
    and ks: "\<And>k. k \<in> set ks \<Longrightarrow> starts_with batch_key_prefix k"
    and start: "now \<le> clock w" "guarded kv clock P (others b0) w0 w"
  shows "wp (sweep_tombstones exec cfg now grace ks n)
     (\<lambda>_. guarded kv clock P (others b0) w0) (\<lambda>_. guarded kv clock P (others b0) w0) w"
  using ks start
proof (induction ks arbitrary: n w)
  case Nil
  then show ?case by simp
next
  case (Cons k ks)
  let ?G = "guarded kv clock P (others b0) w0"
  let ?rest = "\<lambda>n. sweep_tombstones exec cfg now grace ks n"
  have IH: "wp (?rest n) (\<lambda>_. ?G) (\<lambda>_. ?G) w'" if "clock w \<le> clock w'" "?G w'" for n w'
    by (rule Cons.IH) (use Cons.prems that in auto)
  show ?case
  proof (cases "tombstone_batch k")
    case None
    then show ?thesis using IH [of w] Cons.prems by simp
  next
    case (Some b)
    have k: "k = batch_cancel_key b" by (rule tombstone_batch_key) (use Cons.prems(1) Some in auto)
    have del: "wp (bnd (attempt (r_del exec [k])) (\<lambda>c. ?rest (f c))) (\<lambda>_. ?G) (\<lambda>_. ?G) w2"
      if w2: "clock w \<le> clock w2" "?G w2" and no: "b = b0 \<Longrightarrow> \<not> P (clock w2)" for f w2
    proof (cases "b = b0")
      case True
      have "touches kv clock (\<lambda>_. True) (bnd (attempt (r_del exec [k])) (\<lambda>c. ?rest (f c)))"
        by (intro touches_intros touches_attempt touches_writes touches_sweep_tombstones) simp_all
      then show ?thesis by (rule wp_guarded_over [OF anti _ w2(2) no [OF True]])
    next
      case False
      have "touches kv clock (others b0) (attempt (r_del exec [k]))"
        using others_cancel [OF False] k by (intro touches_attempt touches_writes) simp
      note keep = keepsD [OF keeps_guarded [OF anti this] w2(2)] touchesD [OF this, of w2]
      show ?thesis
        unfolding wp_bnd
        by (rule wp_mono [OF wp_conj [OF keep]]) (use IH w2(1) in auto)
    qed
    have read: "wp (attempt (r_get exec k)) (\<lambda>got. wp (case got of
              None \<Rightarrow> ret n
            | Some raw \<Rightarrow>
                if \<not> tombstone_expired now grace raw then ?rest n
                else bnd (attempt (r_del exec [k])) (\<lambda>c.
                  ?rest (case c of Some c \<Rightarrow> if c \<noteq> 0 then n + 1 else n | None \<Rightarrow> n))) (\<lambda>_. ?G) (\<lambda>_. ?G))
            (\<lambda>_. ?G) w1"
      if w1: "clock w \<le> clock w1" "?G w1"
        and dead: "b = b0 \<Longrightarrow> P (clock w1) \<Longrightarrow> \<not> alive (clock w1) (kv w0) b0 []" for w1
      unfolding wp_attempt
    proof (rule wp_r_get, goal_cases)
      case (1 w2)
      have g2: "?G w2" by (rule guarded_step [OF anti w1(2)]) (use 1 in \<open>simp_all add: frame_refl\<close>)
      have c2: "clock w \<le> clock w2" using w1 1 by simp
      show ?case
      proof (cases "tombstone_expired now grace (str_at (clock w1) (kv w1) k)")
        case False
        then show ?thesis using IH [OF c2 g2] by simp
      next
        case True
        have over: "\<not> P (clock w2)" if b: "b = b0"
        proof
          assume P2: "P (clock w2)"
          then have P1: "P (clock w1)" using fallingD [OF anti] 1 by blast
          have na: "\<not> alive (clock w2) (kv w0) b0 []"
            using dead [OF b P1] alive_earlier 1(1) by blast
          obtain v d where v: "kv w0 (batch_cancel_key b0) = Some (VStr v, d)"
            "\<not> tombstone_expired (clock w2) grace (Some v)"
            using kept [OF P2] na by (auto simp: tomb_kept_def)
          have "kv w1 k = Some (VStr v, d)"
            using frame_others(2) [of b0 "kv w0" "kv w1"] w1(2) P1 v(1) k b by (simp add: guarded_def)
          then have "str_at (clock w1) (kv w1) k = Some v \<or> str_at (clock w1) (kv w1) k = None"
            by (auto simp: str_at_def live_def split: option.splits)
          moreover have "now \<le> clock w2" using Cons.prems(2) c2 by simp
          ultimately show False
            using True v(2) tombstone_none tombstone_expired_later by metis
        qed
        show ?thesis
          using del [OF c2 g2 over, where f = "\<lambda>c. case c of Some c \<Rightarrow> if c \<noteq> 0 then n + 1 else n | None \<Rightarrow> n"] True
          by simp
      qed
    next
      case (2 e w2)
      then show ?case using guarded_step [OF anti w1(2)] by (simp add: frame_refl)
    qed
    have live: "wp (batch_is_live exec cfg b [])
        (\<lambda>r w'. clock w \<le> clock w' \<and> ?G w' \<and> (\<not> r \<longrightarrow> b = b0 \<longrightarrow> P (clock w') \<longrightarrow> \<not> alive (clock w') (kv w0) b0 []))
        (\<lambda>_ _. False) w"
    proof (cases "b = b0")
      case True
      show ?thesis unfolding True by (rule wp_mono [OF wp_live_guarded [OF anti Cons.prems(3)]]) auto
    next
      case False
      show ?thesis
        by (rule wp_mono [OF wp_batch_is_live])
          (use guarded_step [OF anti Cons.prems(3)] False in \<open>auto simp: frame_refl\<close>)
    qed
    show ?thesis
      unfolding sweep_tombstones.simps Some option.case wp_bnd
    proof (rule wp_mono [OF live], goal_cases)
      case (1 r w1)
      show ?case
      proof (cases r)
        case True
        then show ?thesis using IH 1 by simp
      next
        case False
        then show ?thesis using read [of w1] 1 by simp
      qed
    qed simp
  qed
qed

lemma keeps_purge_tombstones:
  assumes anti: "falling P" and kept: "\<And>t. P t \<Longrightarrow> tomb_kept grace (kv w0) b0 t"
    and grace: "grace = (case g of None \<Rightarrow> of_int (tomb_grace cfg) | Some g \<Rightarrow> max 0 g)"
  shows "keeps (guarded kv clock P (others b0) w0) (purge_stale_tombstones exec cfg own g)"
proof -
  let ?G = "guarded kv clock P (others b0) w0"
  have step: "?G w'" if "?G w" "clock w \<le> clock w'" "kv w' = kv w" for w w'
    by (rule guarded_step [OF anti that(1,2)]) (simp add: that frame_refl)
  have "keeps ?G (bnd (r_time exec) (\<lambda>now.
           bnd (r_scan exec batch_key_prefix) (\<lambda>keys. sweep_tombstones exec cfg now grace keys 0)))"
  proof (rule keepsI, unfold wp_bnd, rule wp_r_time, rule wp_r_scan, goal_cases)
    case (1 w w1 ks w2)
    show ?case
      by (rule wp_sweep_tombstones [OF anti kept]) (use 1 step [of w w1] step [of w1 w2] in auto)
  next
    case (2 w w1 e w2)
    then show ?case using step [of w w1] step [of w1 w2] by simp
  qed
  moreover have "keeps ?G (r_connect exec)" "keeps ?G (r_close exec)"
    by (rule keeps_guarded [OF anti], rule touches_reads)+
  ultimately show ?thesis
    unfolding purge_stale_tombstones_def Let_def grace [symmetric] by (intro keeps_with_client)
qed

lemma keeps_purge_stale:
  assumes b0: "batch_id_ok b0" and P: "P = (\<lambda>t. alive t (kv w0) b0 dead)"
  shows "keeps (guarded kv clock P (others b0) w0) (purge_stale_batches exec cfg own dead reason ttl)"
proof -
  let ?G = "guarded kv clock P (others b0) w0"
  have anti: "falling P" unfolding P by (rule fallingI) (rule alive_earlier)
  have t: "keeps ?G m" if "touches kv clock (others b0) m" for m :: "('w, 'b) io"
    by (rule keeps_guarded [OF anti that])
  let ?down = "\<lambda>b s. bnd (batch_needs_tombstone exec b dead) (\<lambda>fence.
                bnd (purge_batch exec cfg False b reason ttl (Some fence)) (\<lambda>p.
                  bnd (forget_resume_membership exec b) (\<lambda>_. ret (add_purged b p s))))"
  have down: "touches kv clock K (?down b s)" if "\<And>k. down_keys b k \<Longrightarrow> K k" for K b s
    by (intro touches_bnd touches_needs_tombstone touches_purge_batch touches_forget touches_ret that) simp_all
  have body: "keeps ?G (bnd (batch_is_live exec cfg b dead) (\<lambda>alive.
              if alive then ret (s\<lparr>ps_kept := ps_kept s + 1\<rparr>) else ?down b s))" for b s
  proof (cases "b = b0")
    case False
    have "touches kv clock (others b0) (?down b s)" by (rule down) (rule others_down [OF b0 False])
    then show ?thesis by (intro keeps_bnd keeps_if keeps_ret t touches_batch_is_live) simp
  next
    case True
    show ?thesis
      unfolding True
    proof (rule keepsI)
      fix w assume G: "?G w"
      show "wp (bnd (batch_is_live exec cfg b0 dead) (\<lambda>alive.
              if alive then ret (s\<lparr>ps_kept := ps_kept s + 1\<rparr>) else ?down b0 s)) (\<lambda>_. ?G) (\<lambda>_. ?G) w"
        unfolding wp_bnd [of "batch_is_live exec cfg b0 dead"]
      proof (rule wp_mono [OF wp_live_guarded [OF anti G, of cfg dead]], goal_cases)
      case (1 r w')
      show ?case
      proof (cases r)
        case True
        then show ?thesis using 1 by simp
      next
        case False
        then have g: "?G w'" and n: "\<not> P (clock w')" using 1 by (auto simp: P)
        have "wp (?down b0 s) (\<lambda>_. ?G) (\<lambda>_. ?G) w'"
          by (rule wp_guarded_over [OF anti down g n]) simp
        then show ?thesis using False by simp
      qed
      qed simp
    qed
  qed
  have conn: "keeps ?G (r_connect exec)" "keeps ?G (r_close exec)"
    by (rule t, rule touches_reads)+
  have tomb: "keeps ?G (purge_stale_tombstones exec cfg False None)"
    by (rule keeps_purge_tombstones [OF anti, where grace = "of_int (tomb_grace cfg)"])
      (auto simp: P tomb_kept_def intro: alive_weaken)
  show ?thesis
    unfolding purge_stale_batches_def
    by (intro keeps_with_client keeps_bnd keeps_for_each keeps_ret body conn t touches_known tomb)
qed

end

text \<open>Nothing of it moves the clock of a server that is up.\<close>

context redis_up begin

lemma still_exec: "keeps (\<lambda>w. clock w = t) (fmapio f (exec c))"
  unfolding keeps_def wp_fmapio using instant by (auto intro!: wpI)

lemma still_tombstones: "keeps (\<lambda>w. clock w = t) (purge_stale_tombstones exec cfg own g)"
proof -
  have time: "keeps (\<lambda>w. clock w = t) (r_time exec)"
    unfolding r_time_def by (intro keeps_tryc still_exec keeps_ret)
  have live: "keeps (\<lambda>w. clock w = t) (batch_is_live exec cfg b dead)" for b dead
    unfolding batch_is_live_def batch_is_fresh_def member_is_active_def Let_def r_smembers_def r_get_def r_hget_def
    by (intro keeps_intros keeps_attempt still_exec time)
  have "keeps (\<lambda>w. clock w = t) (sweep_tombstones exec cfg now grace ks n)" for now grace ks n
    by (induction ks arbitrary: n)
      (simp_all add: r_get_def r_del_def keeps_ret keeps_bnd keeps_if keeps_option keeps_attempt still_exec live
        split: option.split)
  then show ?thesis
    unfolding purge_stale_tombstones_def Let_def with_client_def r_connect_def r_close_def r_scan_def
    by (intro keeps_intros keeps_attempt still_exec time)
qed

end

section \<open>Properties: the sweeps\<close>

text \<open>
  The automatic sweep of finished batches never touches the state of a batch whose own counters
  do not say every member reported - so a batch still being fed one file at a time is never torn
  down - under any failure, at any point of the sweep.
\<close>

theorem finished_sweep_spares_unfinished:
  assumes "redis_server exec kv clock" and "batch_id_ok b"
    and "\<not> counters_say_finished (str_at (clock w) (kv w) (batch_progress_key b)) (str_at (clock w) (kv w) (batch_total_key b))"
    and "k \<in> set (batch_state_keys b)"
  shows "kv (snd (sweep_finished_batches exec cfg own w)) k = kv w k"
proof -
  have "keeps (\<lambda>x. clock w \<le> clock x \<and> frame (\<lambda>k. k \<notin> set (batch_state_keys b)) (kv w) (kv x))
      (sweep_finished_batches exec cfg own)"
    by (rule redis_server.keeps_sweep_finished [OF assms(1,2) _ refl]) (use assms(3) in \<open>simp add: finished_at_def\<close>)
  from keeps_final [OF this, of w] show ?thesis using assms(4) by (simp add: frame_def)
qed

text \<open>A batch being fed (two of three done, the active job running) and one that is over.\<close>

definition demo_sweep :: mem where
  "demo_sweep = \<lparr>mstore =
     [(''ffmpeg:batch:ab:done'', VStr ''2'', None),
      (''ffmpeg:batch:ab:total'', VStr ''3'', None),
      (''ffmpeg:batch:ab:jobs'', VSet [''j1'', ''j2''], None),
      (''ffmpeg:job:j1'', VHash [(''status'', ''processing'')], None),
      (''ffmpeg:batch:cd:done'', VStr ''1'', None),
      (''ffmpeg:batch:cd:total'', VStr ''1'', None),
      (''ffmpeg:batch:ef:cancelled'', VStr ''user|10.000'', None)], mclock = 0\<rparr>"

theorem finished_sweep_spares_unfinished_witness:
  "mkv (snd (sweep_finished_batches mem_exec default_cfg True demo_sweep)) ''ffmpeg:batch:ab:done'' = Some (VStr ''2'', None)"
proof -
  have p: "py_int ''2'' = Some 2" "py_int ''3'' = Some 3" by code_simp+
  have k: "''ffmpeg:batch:ab:done'' \<in> set (batch_state_keys ''ab'')" by (simp add: batch_state_keys_def key_defs)
  have "\<not> counters_say_finished (str_at (mclock demo_sweep) (mkv demo_sweep) (batch_progress_key ''ab''))
      (str_at (mclock demo_sweep) (mkv demo_sweep) (batch_total_key ''ab''))"
    by (simp add: counters_say_finished_def str_at_def live_def mkv_def demo_sweep_def key_defs p)
  from finished_sweep_spares_unfinished [OF memory_server batch_ab this k]
  show ?thesis by (simp add: mkv_def demo_sweep_def)
qed

text \<open>
  C14: The sweep behind \<open>/cancelall\<close> keeps a batch with a member that is still active (and was not
  cancelled by this run) when the sweep ends: none of its keys, nor any job hash, is touched, under
  any failure and although other batches are taken down and old tombstones removed meanwhile.
\<close>

theorem stale_sweep_spares_live_batch:
  assumes "redis_server exec kv clock" and "batch_id_ok b"
    and "w' = snd (purge_stale_batches exec cfg own dead reason ttl w)"
    and "alive (clock w') (kv w) b dead" and "k \<in> set (own_keys b) \<or> k = job_hash_key j"
  shows "kv w' k = kv w k"
proof -
  have "guarded kv clock (\<lambda>t. alive t (kv w) b dead) (others b) w w'"
    unfolding assms(3)
    by (rule keeps_final [OF redis_server.keeps_purge_stale [OF assms(1,2) refl]]) (rule guarded_refl)
  then show ?thesis using assms(4,5) by (auto simp: guarded_def frame_def others_def)
qed

theorem stale_sweep_spares_live_batch_witness:
  "mkv (snd (purge_stale_batches mem_exec default_cfg False [''j2''] ''x'' None demo_sweep)) ''ffmpeg:batch:ab:done'' =
   Some (VStr ''2'', None)"
proof -
  have k: "''ffmpeg:batch:ab:done'' \<in> set (own_keys ''ab'') \<or> ''ffmpeg:batch:ab:done'' = job_hash_key []"
    by (simp add: own_keys_def batch_state_keys_def key_defs)
  have "alive t (mkv demo_sweep) ''ab'' [''j2'']" for t
    by (simp add: alive_def active_member_def set_at_def hash_at_def live_def mkv_def demo_sweep_def key_defs
        terminal_statuses_def)
  from stale_sweep_spares_live_batch [OF memory_server batch_ab refl this k]
  show ?thesis by (simp add: mkv_def demo_sweep_def)
qed

text \<open>
  Ageing tombstones out never removes one whose stamp is within the grace when the sweep ends,
  so a worker still finishing a member of a batch cancelled in the same run keeps the marker that
  stops it, under any failure.
\<close>

theorem fresh_tombstone_kept:
  assumes "redis_server exec kv clock"
    and "w' = snd (purge_stale_tombstones exec cfg own g w)"
    and "kv w (batch_cancel_key b) = Some (VStr v, d)"
    and "\<not> tombstone_expired (clock w') (case g of None \<Rightarrow> of_int (tomb_grace cfg) | Some g \<Rightarrow> max 0 g) (Some v)"
  shows "kv w' (batch_cancel_key b) = Some (VStr v, d)"
proof -
  let ?g = "case g of None \<Rightarrow> of_int (tomb_grace cfg) | Some g \<Rightarrow> max 0 g"
  let ?P = "\<lambda>t. \<not> tombstone_expired t ?g (Some v)"
  have anti: "falling ?P" by (rule fallingI) (use tombstone_expired_later in blast)
  have "keeps (guarded kv clock ?P (others b) w) (purge_stale_tombstones exec cfg own g)"
    by (rule redis_server.keeps_purge_tombstones [OF assms(1) anti _ refl]) (use assms(3) in \<open>simp add: tomb_kept_def\<close>)
  from keeps_final [OF this guarded_refl] have "guarded kv clock ?P (others b) w w'" by (simp add: assms(2))
  then show ?thesis using assms(3,4) by (simp add: guarded_def frame_def others_def own_keys_def)
qed

theorem fresh_tombstone_kept_witness:
  "mkv (snd (purge_stale_tombstones mem_exec default_cfg False None demo_sweep)) (batch_cancel_key ''ef'') =
   Some (VStr ''user|10.000'', None)"
proof -
  let ?w = "snd (purge_stale_tombstones mem_exec default_cfg False None demo_sweep)"
  have c: "mclock ?w = 0"
    by (rule keeps_final [OF redis_up.still_tombstones [OF memory_up]]) (simp add: demo_sweep_def)
  have s: "scaled_str 3 10000 = ''10.000''" by code_simp
  have f: "py_float ''10.000'' = Some (Fin (of_int 10000 / 10 ^ 3))"
    using py_float_scaled [of 10000 3] by (simp add: s)
  have "\<not> tombstone_expired 0 21600 (Some ''user|10.000'')"
    by (simp add: tombstone_expired_def tombstone_written_at_def rpartition_at_def f)
  then have e: "\<not> tombstone_expired (mclock ?w)
      (case None of None \<Rightarrow> of_int (tomb_grace default_cfg) | Some g \<Rightarrow> max 0 g) (Some ''user|10.000'')"
    by (simp add: c)
  show ?thesis
    by (rule fresh_tombstone_kept [OF memory_server refl _ e]) (simp add: mkv_def demo_sweep_def key_defs)
qed

end
