(* ===== verification/BatchDown.thy ===== *)
theory BatchDown
  imports BatchPurgeResults
begin

text \<open>
  With Redis up: the exact effect of taking one batch down, the batches the sweeps visit, and the
  two operations that end a job's stay with its batch, putting it back for later and finalizing it.
\<close>

section \<open>Taking one batch down\<close>

definition tombstone_entry :: "string \<Rightarrow> int \<Rightarrow> real \<Rightarrow> entry" where
  "tombstone_entry reason ttl t = (VStr (batch_tombstone_value reason t), Some (t + of_int ttl))"

definition downed :: "string \<Rightarrow> bool \<Rightarrow> string \<Rightarrow> int \<Rightarrow> real \<Rightarrow> store \<Rightarrow> store" where
  "downed b fence reason ttl t m =
     effect (Srem active_batches_key [b]) t
       (wipe (batch_state_keys b)
          (if fence then m(batch_cancel_key b \<mapsto> tombstone_entry reason ttl t) else m))"

context redis_up begin

lemma up_with_client:
  assumes "\<And>w'. clock w' = clock w \<Longrightarrow> kv w' = kv w \<Longrightarrow>
      wp body (\<lambda>x w''. \<forall>w'''. clock w''' = clock w'' \<longrightarrow> kv w''' = kv w'' \<longrightarrow> Q x w''') (\<lambda>_ _. False) w'"
  shows "wp (with_client exec own body d) Q E w"
proof (cases own)
  case True
  have "wp (fin (tryc body (\<lambda>_. ret d)) (suppress (r_close exec))) Q E w'"
    if "clock w' = clock w" "kv w' = kv w" for w'
    unfolding wp_fin wp_tryc wp_suppress
    by (rule wp_mono [OF assms [OF that]]) (auto intro!: up_close)
  then show ?thesis
    unfolding with_client_def if_P [OF True] wp_bnd wp_attempt by (auto intro!: up_connect)
next
  case False
  then show ?thesis
    unfolding with_client_def by (auto intro!: wp_mono [OF assms])
qed

lemma up_purge_batch:
  assumes typed: "typed (kv w)" and b: "batch_id_ok b"
  shows "wp (purge_batch exec cfg own b reason ttl (Some fence))
     (\<lambda>p w'. clock w' = clock w \<and>
        kv w' = downed b fence reason (state_lifetime cfg ttl) (clock w) (kv w) \<and>
        p = \<lparr>p_keys = int (length (filter (\<lambda>k. live (clock w) (kv w) k \<noteq> None) (batch_state_keys b))),
             p_message = message_of (Some (str_at (clock w) (kv w) (batch_message_key b)))\<rparr>) E w"
    (is "wp _ ?Q E w")
proof -
  let ?m1 = "if fence then (kv w)(batch_cancel_key b \<mapsto> tombstone_entry reason (state_lifetime cfg ttl) (clock w)) else kv w"
  have ne: "b \<noteq> []" using b by (simp add: batch_id_ok_def)
  have typed1: "typed ?m1" using typed b by (simp add: typed_upd tombstone_entry_def)
  have same: "?m1 k = kv w k" if "k \<in> set (batch_state_keys b)" for k
    using that cancel_not_state [of b b] by auto
  have mkey: "batch_message_key b \<in> set (batch_state_keys b)" by (simp add: batch_state_keys_def)
  have msg: "str_at (clock w) ?m1 (batch_message_key b) = str_at (clock w) (kv w) (batch_message_key b)"
    by (rule str_at_cong) (rule same [OF mkey])
  have cnt: "filter (\<lambda>k. live (clock w) ?m1 k \<noteq> None) (batch_state_keys b) =
      filter (\<lambda>k. live (clock w) (kv w) k \<noteq> None) (batch_state_keys b)"
    by (rule filter_cong [OF refl]) (use same in \<open>simp add: live_def\<close>)
  have dist: "distinct (batch_state_keys b)" by (simp add: batch_state_keys_def key_defs)
  have tail: "wp (bnd (attempt (r_get exec (batch_message_key b))) (\<lambda>stock.
               tryc
                 (bnd (r_del exec (batch_state_keys b)) (\<lambda>n.
                    bnd (suppress (r_srem exec active_batches_key [b])) (\<lambda>_.
                      ret \<lparr>p_keys = n, p_message = message_of stock\<rparr>)))
                 (\<lambda>_. ret \<lparr>p_keys = 0, p_message = message_of stock\<rparr>)))
      (\<lambda>x w''. \<forall>w'''. clock w''' = clock w'' \<longrightarrow> kv w''' = kv w'' \<longrightarrow> ?Q x w''') E' w1"
    if w1: "clock w1 = clock w" "kv w1 = ?m1" for E' w1
    unfolding wp_bnd wp_attempt wp_tryc
  proof (rule up_get, goal_cases)
    case 1
    show ?case unfolding w1 by (rule typed_str [OF typed1]) (simp add: b)
  next
    case (2 w2)
    then have w2: "clock w2 = clock w" "kv w2 = ?m1" using w1 by simp_all
    show ?case
    proof (rule up_del, goal_cases)
      case (1 w3)
      have t3: "typed (kv w3)" using 1 w2 typed1 by (simp add: typed_wipe)
      show ?case
        unfolding wp_bnd wp_suppress
      proof (rule up_srem, goal_cases)
        case 1
        show ?case by (rule typed_set [OF t3]) simp
      next
        case (2 w4)
        then have "kv w4 = downed b fence reason (state_lifetime cfg ttl) (clock w) (kv w)"
          unfolding downed_def using \<open>kv w3 = _\<close> \<open>clock w3 = _\<close> w2 by simp
        then show ?case
          using 2(1) \<open>clock w3 = _\<close> w2 w1 msg cnt dist by (simp add: distinct_remdups_id)
      qed
    qed
  qed
  show ?thesis
    unfolding purge_batch_def if_not_P [OF ne]
  proof (rule up_with_client, goal_cases)
    case (1 w0)
    show ?case
    proof (cases fence)
      case False
      then show ?thesis using tail [of w0] 1 by simp
    next
      case True
      show ?thesis
        unfolding option.case wp_bnd [of "ret (Some fence)"] wp_bnd [of "ret fence"] wp_ret
          wp_bnd [of "whenb fence m" for m] wp_whenb if_P [OF True] wp_suppress write_tombstone_def wp_bnd [of "r_time exec"]
        by (rule up_time, rule up_set, rule tail)
          (use 1 True in \<open>simp_all add: tombstone_entry_def secs_def\<close>)
    qed
  qed
qed

end

lemma downed_keys:
  assumes "typed m" and "batch_id_ok b"
  shows "k \<in> set (batch_state_keys b) \<Longrightarrow> downed b fence reason ttl t m k = None"
    and "downed b fence reason ttl t m (batch_cancel_key b) =
      (if fence then Some (tombstone_entry reason ttl t) else m (batch_cancel_key b))"
    and "set_at t (downed b fence reason ttl t m) active_batches_key = filter (\<lambda>x. x \<noteq> b) (set_at t m active_batches_key)"
    and "k \<notin> set (own_keys b) \<Longrightarrow> k \<noteq> active_batches_key \<Longrightarrow> downed b fence reason ttl t m k = m k"
proof -
  let ?m1 = "if fence then m(batch_cancel_key b \<mapsto> tombstone_entry reason ttl t) else m"
  have un: "downed b fence reason ttl t m k = wipe (batch_state_keys b) ?m1 k" if "k \<noteq> active_batches_key" for k
    unfolding downed_def by (rule effect_untouched) (use that in simp)
  show "downed b fence reason ttl t m k = None" if "k \<in> set (batch_state_keys b)"
    using un [of k] active_key_not_state [of b] that by (auto simp: wipe_def)
  show "downed b fence reason ttl t m (batch_cancel_key b) =
      (if fence then Some (tombstone_entry reason ttl t) else m (batch_cancel_key b))"
    using un [of "batch_cancel_key b"] active_key_not_cancel [of b] cancel_not_state [of b b] by (auto simp: wipe_def)
  show "downed b fence reason ttl t m k = m k" if "k \<notin> set (own_keys b)" "k \<noteq> active_batches_key"
    using un [OF that(2)] that(1) by (auto simp: wipe_def own_keys_def)
  have t1: "typed (wipe (batch_state_keys b) ?m1)"
    using assms by (simp add: typed_wipe typed_upd tombstone_entry_def)
  have "wipe (batch_state_keys b) ?m1 active_batches_key = m active_batches_key"
    using active_key_not_state [of b] active_key_not_cancel [of b] by (auto simp: wipe_def)
  then have "set_at t (wipe (batch_state_keys b) ?m1) active_batches_key = set_at t m active_batches_key"
    by (rule set_at_cong)
  then show "set_at t (downed b fence reason ttl t m) active_batches_key =
      filter (\<lambda>x. x \<noteq> b) (set_at t m active_batches_key)"
    unfolding downed_def using set_at_srem [OF t1, of active_batches_key t "[b]"] by simp
qed

section \<open>The batches the sweeps visit\<close>

lemma batch_id_of_key_ok: "batch_id_of_key key = Some b \<Longrightarrow> batch_id_ok b"
proof -
  assume "batch_id_of_key key = Some b"
  then have b: "b = fst (partition_at (CHR '':'') (drop (length batch_key_prefix) key))" "b \<noteq> []" "b \<notin> non_batch_suffixes"
    by (auto simp: batch_id_of_key_def Let_def split: if_splits)
  have "CHR '':'' \<notin> set (fst (partition_at (CHR '':'') s))" for s
    by (induction s) (auto split: prod.splits)
  then show "batch_id_ok b" using b by (simp add: batch_id_ok_def)
qed

lemma batch_id_of_state_key:
  assumes "batch_id_ok b" "k \<in> set (batch_state_keys b)"
  shows "batch_id_of_key k = Some b" "starts_with batch_key_prefix k"
proof -
  obtain s where k: "k = batch_key_prefix @ b @ CHR '':'' # s"
    using state_own [OF assms(2)] unfolding own_keys_form by blast
  then show "starts_with batch_key_prefix k" by simp
  show "batch_id_of_key k = Some b"
    using assms(1) by (simp add: k batch_id_of_key_def batch_id_ok_def Let_def)
qed

definition survives_at :: "real \<Rightarrow> store \<Rightarrow> string \<Rightarrow> bool" where
  "survives_at t m b \<longleftrightarrow> (\<exists>k \<in> set (batch_state_keys b). live t m k \<noteq> None)"

context redis_up begin

lemma up_survives:
  "(\<And>w'. clock w' = clock w \<Longrightarrow> kv w' = kv w \<Longrightarrow> Q (survives_at (clock w) (kv w) b) w') \<Longrightarrow>
   wp (batch_state_survives exec b) Q E w"
  unfolding batch_state_survives_def wp_bnd wp_attempt
  by (rule up_exists) (simp add: survives_at_def filter_empty_conv)

lemma up_gone_loop:
  "wp (for_each bs gone (\<lambda>b gone. bnd (batch_state_survives exec b) (\<lambda>s. ret (if s then gone else b # gone))))
     (\<lambda>g w'. clock w' = clock w \<and> kv w' = kv w \<and>
        set g = set gone \<union> {b \<in> set bs. \<not> survives_at (clock w) (kv w) b}) E w"
proof (induction bs arbitrary: gone w)
  case Nil
  then show ?case by simp
next
  case (Cons b bs)
  show ?case
    unfolding for_each.simps wp_bnd wp_ret
    by (rule up_survives, rule wp_mono [OF Cons.IH]) auto
qed

lemma up_known_ids:
  assumes typed: "typed (kv w)"
  shows "wp (known_batch_ids exec)
     (\<lambda>ids w'. clock w' = clock w \<and> kv w' = kv w \<and> sorted ids \<and> distinct ids \<and>
        set ids = {b \<in> set (set_at (clock w) (kv w) active_batches_key). b \<noteq> []} \<union>
                  {b. batch_id_ok b \<and> survives_at (clock w) (kv w) b}) E w"
  unfolding known_batch_ids_def wp_bnd wp_attempt Let_def
proof (rule up_scan, goal_cases)
  case (1 keys w1)
  show ?case
  proof (rule up_smembers, goal_cases)
    case 1
    show ?case by (rule typed_set) (use typed \<open>kv w1 = kv w\<close> in simp_all)
  next
    case (2 ms w2)
    have w2: "clock w2 = clock w" "kv w2 = kv w" using 2 1 by simp_all
    let ?ids = "List.map_filter batch_id_of_key keys" and ?listed = "filter (\<lambda>x. x \<noteq> []) ms"
    have ids: "b \<in> set ?ids \<longleftrightarrow> (\<exists>k \<in> set keys. batch_id_of_key k = Some b)" for b
      by (simp add: map_filter_def image_iff) force
    have from_state: "b \<in> set ?ids" if o1: "batch_id_ok b" and s1: "survives_at (clock w) (kv w) b" for b
    proof -
      obtain k where k: "k \<in> set (batch_state_keys b)" "live (clock w) (kv w) k \<noteq> None"
        using s1 by (auto simp: survives_at_def)
      then have "k \<in> set keys" using 1(3) batch_id_of_state_key [OF o1 k(1)] by simp
      then show ?thesis using ids batch_id_of_state_key(1) [OF o1 k(1)] by blast
    qed
    have ok: "batch_id_ok b" if "b \<in> set ?ids" for b using ids that batch_id_of_key_ok by blast
    have ms: "set ms = set (set_at (clock w) (kv w) active_batches_key)" using 2(3) 1 by simp
    show ?case
      unfolding option.case
      by (rule wp_mono [OF up_gone_loop])
        (use w2 ms from_state ok in \<open>auto simp: survives_at_def\<close>)
  qed
qed

end

section \<open>Putting a job back\<close>

lemma zset_at_zadd:
  "typed m \<Longrightarrow> kind_of k = KZset \<Longrightarrow>
   zset_at t (effect (Zadd k it s) t m) k = AList.update it s (zset_at t m k)"
  using typed_live [of m t k]
  by (auto simp: zset_at_def keep_ttl_def zput_def live_def split: option.splits dest!: has_kindD)

text \<open>The batch of the job carries a cancellation marker.\<close>

definition stopped_at :: "real \<Rightarrow> store \<Rightarrow> job \<Rightarrow> bool" where
  "stopped_at t m j \<longleftrightarrow> (\<exists>b. job_batch_id j = Some b \<and> b \<noteq> [] \<and> live t m (batch_cancel_key b) \<noteq> None)"

context redis_up begin

lemma up_ask_stopped:
  "wp (case job_batch_id j of None \<Rightarrow> ret False | Some b \<Rightarrow> is_batch_cancelled exec False b)
     (\<lambda>r w'. clock w' = clock w \<and> kv w' = kv w \<and> r = stopped_at (clock w) (kv w) j) E w"
  by (auto simp: is_batch_cancelled_def with_client_def stopped_at_def intro!: up_exists split: option.splits if_splits)

lemma up_defer:
  assumes typed: "typed (kv w)"
  shows "wp (defer_batch_job exec j delay)
     (\<lambda>r w'. clock w' = clock w \<and> r = (j \<noteq> [] \<and> \<not> stopped_at (clock w) (kv w) j) \<and>
        kv w' = (if r then effect (Zadd delayed_set_key (QJob j) (clock w + delay)) (clock w) (kv w) else kv w)) E w"
    (is "wp _ ?Q E w")
proof (cases "j = []")
  case True
  then show ?thesis by (simp add: defer_batch_job_def)
next
  case False
  have add: "wp (tryc (bnd (r_time exec) (\<lambda>now.
             bnd (r_zadd exec delayed_set_key (QJob j) (now + delay)) (\<lambda>_. ret True))) (\<lambda>_. ret False))
      ?Q E w1" if w1: "clock w1 = clock w" "kv w1 = kv w" and "\<not> stopped_at (clock w) (kv w) j" for w1
    unfolding wp_tryc wp_bnd r_zadd_def
    by (rule up_time, rule wp_up) (use that False typed typed_zset [OF typed, of delayed_set_key] in \<open>auto simp: is_redis_def\<close>)
  show ?thesis
    unfolding defer_batch_job_def if_not_P [OF False] wp_bnd
    by (rule wp_mono [OF up_ask_stopped]) (use add in auto)
qed

end

context redis_server begin

lemma wp_finalize_job:
  "wp (finalize_job exec given j slot)
     (\<lambda>r w'. \<forall>k. kv w' k = kv w k \<or> (kv w' k = None \<and> str_at (clock w) (kv w) k = Some (id_text (jget j ''job_id'')))) (\<lambda>_ _. False) w"
proof -
  let ?o = "id_text (jget j ''job_id'')"
  let ?R = "\<lambda>w w'. clock w \<le> clock w' \<and>
      (\<forall>k. kv w' k = kv w k \<or> (kv w' k = None \<and> str_at (clock w) (kv w) k = Some ?o))"
  have trans: "?R w w2" if "?R w w1" "?R w1 w2" for w w1 w2
  proof (intro conjI allI)
    show "clock w \<le> clock w2" using that by linarith
    fix k
    have a: "kv w1 k = kv w k \<or> (kv w1 k = None \<and> str_at (clock w) (kv w) k = Some ?o)"
      and b: "kv w2 k = kv w1 k \<or> (kv w2 k = None \<and> str_at (clock w1) (kv w1) k = Some ?o)" using that by blast+
    show "kv w2 k = kv w k \<or> (kv w2 k = None \<and> str_at (clock w) (kv w) k = Some ?o)"
    proof (cases "kv w1 k = kv w k")
      case True
      then have "str_at (clock w1) (kv w1) k = str_at (clock w1) (kv w) k" by (rule str_at_cong)
      then show ?thesis using b True str_at_later [of "clock w1" "kv w" k ?o "clock w"] that(1) by auto
    next
      case False
      then show ?thesis using a b by auto
    qed
  qed
  have rel: "wp m (\<lambda>_. ?R w) (\<lambda>_. ?R w) w"
    if "wp m (\<lambda>r w'. (kv w' = kv w \<or> (str_at (clock w) (kv w) key = Some ?o \<and> kv w' = wipe [key] (kv w)))) (\<lambda>_ _. False) w"
      "touches kv clock (\<lambda>_. True) m" for m :: "('w, bool) io" and key w
    by (rule wp_mono [OF wp_conj [OF that(1) touchesD [OF that(2), of w]]]) (auto simp: wipe_def split: if_splits)
  have slot: "wp (release_ffmpeg_slot exec (Some i) (jget j ''job_id'')) (\<lambda>_. ?R w) (\<lambda>_. ?R w) w" for i w
  proof (rule rel [where key = "ffmpeg_slot_key i"])
    show "touches kv clock (\<lambda>_. True) (release_ffmpeg_slot exec (Some i) (jget j ''job_id''))"
      unfolding release_ffmpeg_slot_def option.case by (intro touches_intros touches_writes) simp
    show "wp (release_ffmpeg_slot exec (Some i) (jget j ''job_id'')) (\<lambda>r w'. kv w' = kv w \<or>
        (str_at (clock w) (kv w) (ffmpeg_slot_key i) = Some ?o \<and> kv w' = wipe [ffmpeg_slot_key i] (kv w))) (\<lambda>_ _. False) w"
      by (rule wp_mono [OF wp_release_ffmpeg_slot]) auto
  qed
  have lock: "wp (release_batch_lock exec b (jget j ''job_id'')) (\<lambda>_. ?R w) (\<lambda>_. ?R w) w" for b w
  proof (rule rel [where key = "batch_lock_key b"])
    show "touches kv clock (\<lambda>_. True) (release_batch_lock exec b (jget j ''job_id''))"
      unfolding release_batch_lock_def by (intro touches_intros touches_writes) simp
    show "wp (release_batch_lock exec b (jget j ''job_id'')) (\<lambda>r w'. kv w' = kv w \<or>
        (str_at (clock w) (kv w) (batch_lock_key b) = Some ?o \<and> kv w' = wipe [batch_lock_key b] (kv w))) (\<lambda>_ _. False) w"
      by (rule wp_mono [OF wp_release_batch_lock]) auto
  qed
  have lazy: "wp (with_lazy_client exec given m) (\<lambda>_. ?R w) (\<lambda>_ _. False) w"
    if m: "\<And>w. wp m (\<lambda>_. ?R w) (\<lambda>_. ?R w) w" for m :: "('w, bool) io" and given w
  proof -
    have go: "wp m (\<lambda>x. ?R w) (\<lambda>_. ?R w) w1" if "?R w w1" for w1
      by (rule wp_mono [OF m]; rule trans [OF that]; assumption)
    have "wp (r_connect exec) (\<lambda>_. ?R w) (\<lambda>_. ?R w) w" by (rule wp_r_connect) simp_all
    then have "wp (r_connect exec) (\<lambda>_ w1. wp m (\<lambda>x. ?R w) (\<lambda>_. ?R w) w1) (\<lambda>_. ?R w) w"
      by (rule wp_mono) (use go in auto)
    then show ?thesis
      unfolding with_lazy_client_def wp_bnd wp_attempt using go [of w] by simp
  qed
  have step1: "wp (case slot of None \<Rightarrow> ret (given, None)
      | Some i \<Rightarrow> with_lazy_client exec given (release_ffmpeg_slot exec (Some i) (jget j ''job_id'')))
      (\<lambda>_. ?R w) (\<lambda>_ _. False) w"
    using lazy [OF slot] by (cases slot) simp_all
  have step2: "wp (case job_batch_id j of None \<Rightarrow> ret (g, None)
      | Some b \<Rightarrow> with_lazy_client exec g (release_batch_lock exec b (jget j ''job_id'')))
      (\<lambda>_. ?R w1) (\<lambda>_ _. False) w1" for g w1
    using lazy [OF lock] by (cases "job_batch_id j") simp_all
  have step3: "wp (case x of (g, freed_slot) \<Rightarrow> bnd (case job_batch_id j of None \<Rightarrow> ret (g, None)
      | Some b \<Rightarrow> with_lazy_client exec g (release_batch_lock exec b (jget j ''job_id'')))
        (\<lambda>(_, unlocked). ret \<lparr>fz_slot = freed_slot, fz_batch = unlocked\<rparr>)) (\<lambda>_. ?R w) (\<lambda>_ _. False) w1"
    if "?R w w1" for x w1
  proof (cases x)
    case (Pair g fs)
    show ?thesis
      unfolding Pair prod.case wp_bnd
      by (rule wp_mono [OF step2]) (use trans [of w w1] that in \<open>auto split: prod.split\<close>)
  qed
  show ?thesis
    unfolding finalize_job_def wp_bnd
    by (rule wp_mono [OF step1]; (rule wp_mono [OF step3])?) auto
qed

end

section \<open>Properties\<close>

text \<open>
  C15: With Redis up, taking a batch down leaves none of its state keys, removes it (and nothing
  else) from the aggregate view, writes its tombstone - stamped now, with the requested lifetime -
  exactly when the caller fences it, and touches no key of any other batch or component; it reports
  how many keys went and where the progress message is.
\<close>

theorem purge_batch_exact:
  assumes "redis_up exec kv clock" and "typed (kv w)" and "batch_id_ok b"
  shows "\<exists>p w'. purge_batch exec cfg own b reason ttl (Some fence) w = (Inr p, w') \<and>
    (\<forall>k \<in> set (batch_state_keys b). kv w' k = None) \<and>
    set_at (clock w) (kv w') active_batches_key = filter (\<lambda>x. x \<noteq> b) (set_at (clock w) (kv w) active_batches_key) \<and>
    kv w' (batch_cancel_key b) =
      (if fence then Some (VStr (batch_tombstone_value reason (clock w)), Some (clock w + of_int (state_lifetime cfg ttl)))
       else kv w (batch_cancel_key b)) \<and>
    (\<forall>k. k \<notin> set (own_keys b) \<and> k \<noteq> active_batches_key \<longrightarrow> kv w' k = kv w k) \<and>
    p_keys p = int (length (filter (\<lambda>k. live (clock w) (kv w) k \<noteq> None) (batch_state_keys b))) \<and>
    p_message p = message_of (Some (str_at (clock w) (kv w) (batch_message_key b)))"
proof -
  obtain p w' where o: "purge_batch exec cfg own b reason ttl (Some fence) w = (Inr p, w')"
    and k: "kv w' = downed b fence reason (state_lifetime cfg ttl) (clock w) (kv w)"
    and p: "p = \<lparr>p_keys = int (length (filter (\<lambda>k. live (clock w) (kv w) k \<noteq> None) (batch_state_keys b))),
       p_message = message_of (Some (str_at (clock w) (kv w) (batch_message_key b)))\<rparr>"
    using redis_up.up_purge_batch [OF assms, of cfg own reason ttl fence "\<lambda>_ _. False"] unfolding wp_outcome by auto
  show ?thesis
    by (rule exI [of _ p], rule exI [of _ w'], unfold k)
      (simp add: o p downed_keys [OF assms(2,3)] tombstone_entry_def)
qed

theorem purge_batch_exact_witness:
  "\<exists>p w'. purge_batch mem_exec default_cfg True ''ab'' ''x'' None (Some True) demo_sweep = (Inr p, w') \<and>
     p_keys p = 3 \<and> mkv w' ''ffmpeg:batch:ab:jobs'' = None \<and> mkv w' ''ffmpeg:batch:cd:done'' = Some (VStr ''1'', None)"
proof -
  have t: "typed (mkv demo_sweep)"
    unfolding mkv_def demo_sweep_def mem.simps
    by (rule typed_map_of) (simp add: kind_of_def key_defs starts_with_def rpartition_at_def)
  have n: "length (filter (\<lambda>k. live (mclock demo_sweep) (mkv demo_sweep) k \<noteq> None) (batch_state_keys ''ab'')) = 3"
    by (simp add: batch_state_keys_def key_defs live_def mkv_def demo_sweep_def)
  have i: "''ffmpeg:batch:ab:jobs'' \<in> set (batch_state_keys ''ab'')"
    "''ffmpeg:batch:cd:done'' \<notin> set (own_keys ''ab'') \<and> ''ffmpeg:batch:cd:done'' \<noteq> active_batches_key"
    by (simp_all add: own_keys_def batch_state_keys_def key_defs)
  have d: "mkv demo_sweep ''ffmpeg:batch:cd:done'' = Some (VStr ''1'', None)" by (simp add: mkv_def demo_sweep_def)
  show ?thesis
    using purge_batch_exact [OF memory_up t batch_ab, of default_cfg True "''x''" None True] i d n by fastforce
qed

text \<open>
  With Redis up, the sweeps visit, in order and once each, exactly the batches listed in the
  aggregate view and those that still own a state key.  A batch that has nothing left but its
  tombstone is not visited, so its tombstone's lifetime is never pushed out again.
\<close>

theorem known_batches_exact:
  assumes "redis_up exec kv clock" and "typed (kv w)"
  shows "\<exists>ids w'. known_batch_ids exec w = (Inr ids, w') \<and> kv w' = kv w \<and> sorted ids \<and> distinct ids \<and>
    set ids = {b \<in> set (set_at (clock w) (kv w) active_batches_key). b \<noteq> []} \<union>
      {b. batch_id_ok b \<and> (\<exists>k \<in> set (batch_state_keys b). live (clock w) (kv w) k \<noteq> None)}"
  using redis_up.up_known_ids [OF assms, of "\<lambda>_ _. False"] unfolding wp_outcome survives_at_def by blast

theorem known_batches_exact_witness:
  "\<exists>ids w'. known_batch_ids mem_exec demo_sweep = (Inr ids, w') \<and> ''ab'' \<in> set ids \<and> ''ef'' \<notin> set ids"
proof -
  have t: "typed (mkv demo_sweep)"
    unfolding mkv_def demo_sweep_def mem.simps
    by (rule typed_map_of) (simp add: kind_of_def key_defs starts_with_def rpartition_at_def)
  have a: "set_at (mclock demo_sweep) (mkv demo_sweep) active_batches_key = []"
    by (simp add: set_at_def live_def mkv_def demo_sweep_def key_defs)
  have s: "survives_at (mclock demo_sweep) (mkv demo_sweep) ''ab''" "\<not> survives_at (mclock demo_sweep) (mkv demo_sweep) ''ef''"
    by (simp_all add: survives_at_def batch_state_keys_def key_defs live_def mkv_def demo_sweep_def)
  show ?thesis
    using known_batches_exact [OF memory_up t, unfolded a survives_at_def [symmetric]] batch_ab s by auto
qed

text \<open>
  With Redis up, a job is put back for later - once, due after the delay - unless its batch
  carries a cancellation marker, in which case nothing is written.
\<close>

theorem cancelled_job_not_deferred:
  assumes "redis_up exec kv clock" and "typed (kv w)" and "j \<noteq> []"
    and "marked = stopped_at (clock w) (kv w) j"
  shows "\<exists>w'. defer_batch_job exec j delay w = (Inr (\<not> marked), w') \<and>
    zset_at (clock w) (kv w') delayed_set_key =
      (if marked then zset_at (clock w) (kv w) delayed_set_key
       else AList.update (QJob j) (clock w + delay) (zset_at (clock w) (kv w) delayed_set_key)) \<and>
    (\<forall>k. k \<noteq> delayed_set_key \<longrightarrow> kv w' k = kv w k)"
proof -
  let ?e = "effect (Zadd delayed_set_key (QJob j) (clock w + delay)) (clock w) (kv w)"
  have z: "zset_at (clock w) ?e delayed_set_key =
      AList.update (QJob j) (clock w + delay) (zset_at (clock w) (kv w) delayed_set_key)"
    by (rule zset_at_zadd) (use assms(2) in simp_all)
  have f: "?e k = kv w k" if "k \<noteq> delayed_set_key" for k by (rule effect_untouched) (use that in simp)
  obtain w' where "defer_batch_job exec j delay w = (Inr (\<not> marked), w')" "kv w' = (if marked then kv w else ?e)"
    using redis_up.up_defer [OF assms(1,2), of j delay "\<lambda>_ _. False"] assms(3,4) unfolding wp_outcome by auto
  then show ?thesis using z f by auto
qed

theorem cancelled_job_not_deferred_witness:
  "\<exists>w'. defer_batch_job mem_exec [(''batch_id'', PStr ''ef'')] 10 demo_sweep = (Inr False, w')"
proof -
  have t: "typed (mkv demo_sweep)"
    unfolding mkv_def demo_sweep_def mem.simps
    by (rule typed_map_of) (simp add: kind_of_def key_defs starts_with_def rpartition_at_def)
  have "stopped_at (mclock demo_sweep) (mkv demo_sweep) [(''batch_id'', PStr ''ef'')]"
    by (simp add: stopped_at_def job_batch_id_def jget_def live_def mkv_def demo_sweep_def key_defs)
  then show ?thesis
    using cancelled_job_not_deferred [OF memory_up t _ refl, of "[(''batch_id'', PStr ''ef'')]" 10] by auto
qed

text \<open>
  Finishing a job never raises, and the only keys it removes are claims the job itself holds,
  whatever fails: another job's slot or batch lock is never given away by it.
\<close>

theorem finalize_releases_only_own_claims:
  assumes "redis_server exec kv clock"
  shows "\<exists>r w'. finalize_job exec given j slot w = (Inr r, w') \<and>
    (\<forall>k. kv w' k = kv w k \<or>
      (kv w' k = None \<and> str_at (clock w) (kv w) k = Some (id_text (jget j ''job_id''))))"
  using redis_server.wp_finalize_job [OF assms, of given j slot w] unfolding wp_outcome .

theorem finalize_releases_only_own_claims_witness:
  "\<exists>r w'. finalize_job mem_exec False [(''job_id'', PStr ''j9''), (''batch_id'', PStr ''ab'')] (Some 0) demo_claims = (Inr r, w') \<and>
     mkv w' ''ffmpeg:slot:0'' = Some (VStr ''j1'', None)"
proof -
  have "str_at (mclock demo_claims) (mkv demo_claims) ''ffmpeg:slot:0'' = Some ''j1''"
    by (simp add: str_at_def live_def mkv_def demo_claims_def)
  moreover have "mkv demo_claims ''ffmpeg:slot:0'' = Some (VStr ''j1'', None)" by (simp add: mkv_def demo_claims_def)
  moreover have "id_text (jget [(''job_id'', PStr ''j9''), (''batch_id'', PStr ''ab'')] ''job_id'') = ''j9''"
    by (simp add: id_text_def jget_def)
  moreover obtain r w' where "finalize_job mem_exec False [(''job_id'', PStr ''j9''), (''batch_id'', PStr ''ab'')] (Some 0) demo_claims = (Inr r, w')"
    and "mkv w' ''ffmpeg:slot:0'' = mkv demo_claims ''ffmpeg:slot:0'' \<or> (mkv w' ''ffmpeg:slot:0'' = None \<and>
      str_at (mclock demo_claims) (mkv demo_claims) ''ffmpeg:slot:0'' =
      Some (id_text (jget [(''job_id'', PStr ''j9''), (''batch_id'', PStr ''ab'')] ''job_id'')))"
    using finalize_releases_only_own_claims [OF memory_server] by blast
  ultimately show ?thesis by simp
qed

end
