(* ===== verification/Interleave.thy ===== *)
theory Interleave
  imports ClaimResults
begin

text \<open>
  Many processes at once.  The programs of the model take the outside as a parameter, so a program
  can be run on a \<open>tape\<close>: the replies its process has received so far.  Where the tape ends the
  program asks for its next command (\<open>pending\<close>), and that turns every program into a process that
  moves one Redis command at a time.  \<open>move\<close> interleaves any number of them over one key space, with
  failures, with time passing, and with other clients working on other keys; \<open>race\<close> are the runs
  along which a side condition holds.  The locale \<open>claimants\<close> states what makes a program a fair
  contender for a claim, and proves mutual exclusion of those that do.
\<close>

section \<open>A program on a tape\<close>

type_synonym history = "(call \<times> (exn + reply)) list"

text \<open>\<open>Asked c\<close>: the tape ended and \<open>c\<close> is next; \<open>Broken\<close>: the tape answers another program.\<close>

datatype tape = Tape history | Asked call | Broken

fun play :: "tape exec" where
  "play c (Tape []) = (Inl RuntimeError, Asked c)"
| "play c (Tape ((c', r) # rs)) = (if c' = c then (r, Tape rs) else (Inl RuntimeError, Broken))"
| "play c (Asked d) = (Inl RuntimeError, Asked d)"
| "play c Broken = (Inl RuntimeError, Broken)"

definition pending :: "(tape, 'a) io \<Rightarrow> history \<Rightarrow> call option" where
  "pending p rs = (case snd (p (Tape rs)) of Asked c \<Rightarrow> Some c | _ \<Rightarrow> None)"

definition faultless :: "history \<Rightarrow> bool" where
  "faultless rs \<longleftrightarrow> list_all (\<lambda>(c, r). case r of Inl _ \<Rightarrow> False | Inr _ \<Rightarrow> True) rs"

lemma faultless_append [simp]: "faultless (xs @ ys) \<longleftrightarrow> faultless xs \<and> faultless ys"
  and faultless_Nil [simp]: "faultless []"
  and faultless_Cons [simp]: "faultless ((c, r) # xs) \<longleftrightarrow> (\<exists>a. r = Inr a) \<and> faultless xs"
  by (auto simp: faultless_def split: sum.splits)

lemma wp_play [simp]:
  "wp (play c) Q E (Tape []) = E RuntimeError (Asked c)"
  "wp (play c) Q E (Tape ((c', r) # rs)) =
     (if c' = c then (case r of Inl e \<Rightarrow> E e (Tape rs) | Inr a \<Rightarrow> Q a (Tape rs)) else E RuntimeError Broken)"
  "wp (play c) Q E (Asked d) = E RuntimeError (Asked d)"
  "wp (play c) Q E Broken = E RuntimeError Broken"
  by (simp_all add: wp_def split: sum.splits)

text \<open>Where a program stands after a tape: what holds of the rest, or of the command it asks for.\<close>

fun stands :: "(call \<Rightarrow> bool) \<Rightarrow> (history \<Rightarrow> bool) \<Rightarrow> tape \<Rightarrow> bool" where
  "stands asks P (Tape rs) = P rs"
| "stands asks P (Asked c) = asks c"
| "stands asks P Broken = True"

lemma wp_pending:
  assumes "wp p (\<lambda>_. stands A P) (\<lambda>_. stands A P') (Tape rs)" "pending p rs = Some c"
  shows "A c"
  using assms unfolding wp_def pending_def by (auto split: prod.splits sum.splits tape.splits)

section \<open>Processes over one key space\<close>

record conf =
  cf_time :: real
  cf_space :: store
  cf_seen :: "string \<Rightarrow> history"

text \<open>
  A process is named by its job id and runs \<open>session j\<close>.  Its pending command is answered, or done
  without its answer arriving, or not done; \<open>elsewhere\<close> is any other client, which may do anything
  but touch the contested keys \<open>K\<close>.
\<close>

inductive move :: "(string \<Rightarrow> (tape, 'a) io) \<Rightarrow> string set \<Rightarrow> string set \<Rightarrow> conf \<Rightarrow> conf \<Rightarrow> bool"
  for session J K where
  answered: "j \<in> J \<Longrightarrow> pending (session j) (cf_seen s j) = Some c \<Longrightarrow> call_ok c (cf_time s) (cf_space s) \<Longrightarrow>
    answers c (cf_time s) (cf_space s) a \<Longrightarrow>
    move session J K s (s\<lparr>cf_space := effect c (cf_time s) (cf_space s),
                        cf_seen := (cf_seen s)(j := cf_seen s j @ [(c, Inr a)])\<rparr>)"
| unheard: "j \<in> J \<Longrightarrow> pending (session j) (cf_seen s j) = Some c \<Longrightarrow> call_ok c (cf_time s) (cf_space s) \<Longrightarrow>
    move session J K s (s\<lparr>cf_space := effect c (cf_time s) (cf_space s),
                        cf_seen := (cf_seen s)(j := cf_seen s j @ [(c, Inl e)])\<rparr>)"
| undone: "j \<in> J \<Longrightarrow> pending (session j) (cf_seen s j) = Some c \<Longrightarrow>
    move session J K s (s\<lparr>cf_seen := (cf_seen s)(j := cf_seen s j @ [(c, Inl e)])\<rparr>)"
| passing: "cf_time s \<le> t \<Longrightarrow> move session J K s (s\<lparr>cf_time := t\<rparr>)"
| elsewhere: "\<forall>k \<in> K. m k = cf_space s k \<Longrightarrow> move session J K s (s\<lparr>cf_space := m\<rparr>)"

inductive race ::
    "(string \<Rightarrow> (tape, 'a) io) \<Rightarrow> string set \<Rightarrow> string set \<Rightarrow> (conf \<Rightarrow> bool) \<Rightarrow> conf \<Rightarrow> conf \<Rightarrow> bool"
  for session J K ok s0 where
  start: "ok s0 \<Longrightarrow> race session J K ok s0 s0"
| turn: "race session J K ok s0 s \<Longrightarrow> move session J K s s' \<Longrightarrow> ok s' \<Longrightarrow> race session J K ok s0 s'"

section \<open>Contending for a claim\<close>

text \<open>
  The jobs in \<open>J\<close> run, job \<open>j\<close> under the reporting worker \<open>W j\<close>.  A history is truthful when every
  answer in it was right for some key space in which that held.
\<close>

definition running_under :: "real \<Rightarrow> store \<Rightarrow> string \<Rightarrow> string \<Rightarrow> bool" where
  "running_under t m wkr j \<longleftrightarrow>
     (\<exists>status. dget (hash_at t m (job_hash_key j)) ''status'' = Some status \<and> status \<notin> terminal_statuses) \<and>
     dget (hash_at t m (job_hash_key j)) ''worker'' = Some wkr \<and>
     (wkr \<noteq> [] \<longrightarrow> live t m (worker_rss_key wkr) \<noteq> None)"

definition contending :: "(string \<Rightarrow> string) \<Rightarrow> string set \<Rightarrow> real \<Rightarrow> store \<Rightarrow> bool" where
  "contending W J t m \<longleftrightarrow> (\<forall>j \<in> J. running_under t m (W j) j)"

lemma running_under_running: "running_under t m wkr j \<Longrightarrow> owner_running t m j"
  unfolding running_under_def owner_running_def by blast

definition truthful :: "(string \<Rightarrow> string) \<Rightarrow> string set \<Rightarrow> history \<Rightarrow> bool" where
  "truthful W J rs \<longleftrightarrow> (\<forall>c a. (c, Inr a) \<in> set rs \<longrightarrow> (\<exists>t m. contending W J t m \<and> answers c t m a))"

lemma truthful_append [simp]: "truthful W J (xs @ ys) \<longleftrightarrow> truthful W J xs \<and> truthful W J ys"
  by (auto simp: truthful_def)

lemma truthful_Nil [simp]: "truthful W J []"
  by (simp add: truthful_def)

lemma truthful_Cons [simp]:
  "truthful W J ((c, r) # rs) \<longleftrightarrow>
     (\<forall>a. r = Inr a \<longrightarrow> (\<exists>t m. contending W J t m \<and> answers c t m a)) \<and> truthful W J rs"
  by (auto simp: truthful_def)

text \<open>What a contender may ask: reads, and taking, stealing from a stranger and releasing as itself.\<close>

fun lawful :: "string set \<Rightarrow> int \<Rightarrow> string \<Rightarrow> call \<Rightarrow> bool" where
  "lawful J ms j (Get k) = True"
| "lawful J ms j (Hget k f) = True"
| "lawful J ms j (Exists ks) = True"
| "lawful J ms j (SetNx k v px) = (v = j \<and> px = ms)"
| "lawful J ms j (Eval (StealScript k h v px)) = (h \<notin> J \<and> v = j \<and> px = ms)"
| "lawful J ms j (Eval (ReleaseScript k v)) = (v = j)"
| "lawful J ms j c = False"

definition won :: "string \<Rightarrow> string \<Rightarrow> int \<Rightarrow> call \<times> (exn + reply) \<Rightarrow> bool" where
  "won k j ms e \<longleftrightarrow>
     e = (SetNx k j ms, Inr ROk) \<or> (\<exists>h n. e = (Eval (StealScript k h j ms), Inr (RInt n)) \<and> n \<noteq> 0)"

lemma lawful_keeps:
  assumes "lawful J ms i c" "i \<noteq> j" "j \<in> J" "m k = Some (VStr j, Some d)" "t < d"
  shows "effect c t m k = m k"
  using assms by (cases "(J, ms, i, c)" rule: lawful.cases)
    (auto simp: live_def str_at_def lua_steal_def lua_release_def wipe_def split: if_splits)

lemma won_takes:
  assumes "won k j ms (c, Inr a)" "answers c t m a"
  shows "effect c t m k = Some (VStr j, Some (t + of_int ms / 1000))"
  using assms by (auto simp: won_def lua_steal_def split: if_splits)

text \<open>
  Inside the critical section: the claim is taken, nothing failed on the way, and the next command of
  the process is to give it back.
\<close>

definition inside :: "(string \<Rightarrow> (tape, 'a) io) \<Rightarrow> string \<Rightarrow> conf \<Rightarrow> string \<Rightarrow> bool" where
  "inside session k s j \<longleftrightarrow>
     pending (session j) (cf_seen s j) = Some (Eval (ReleaseScript k j)) \<and> faultless (cf_seen s j)"

definition in_lease :: "(string \<Rightarrow> string) \<Rightarrow> string set \<Rightarrow> real \<Rightarrow> conf \<Rightarrow> bool" where
  "in_lease W J limit s \<longleftrightarrow> cf_time s < limit \<and> contending W J (cf_time s) (cf_space s)"

definition holds_claim :: "real \<Rightarrow> store \<Rightarrow> string \<Rightarrow> string \<Rightarrow> bool" where
  "holds_claim limit m k j \<longleftrightarrow> (\<exists>d. m k = Some (VStr j, Some d) \<and> limit \<le> d)"

lemma holds_claim_unique: "holds_claim l m k i \<Longrightarrow> holds_claim l m k j \<Longrightarrow> i = j"
  by (auto simp: holds_claim_def)

locale claimants =
  fixes session :: "string \<Rightarrow> (tape, 'a) io" and K :: "string set" and ms :: int
  assumes asks_lawfully: "j \<in> J \<Longrightarrow> truthful W J rs \<Longrightarrow> pending (session j) rs = Some c \<Longrightarrow> lawful J ms j c"
    and enters_by_taking: "j \<in> J \<Longrightarrow> truthful W J rs \<Longrightarrow> faultless rs \<Longrightarrow>
      pending (session j) rs = Some (Eval (ReleaseScript k j)) \<Longrightarrow> \<exists>pre e. rs = pre @ [e] \<and> won k j ms e"
begin

lemma enters_holding:
  assumes "j \<in> J" "truthful W J (rs @ [(c, r)])" "faultless (rs @ [(c, r)])"
    and "pending (session j) (rs @ [(c, r)]) = Some (Eval (ReleaseScript k j))"
    and "\<And>a. r = Inr a \<Longrightarrow> answers c t m a" "limit \<le> t + of_int ms / 1000"
  shows "holds_claim limit (effect c t m) k j"
proof -
  obtain a where "r = Inr a" "won k j ms (c, Inr a)"
    using enters_by_taking [OF assms(1-4)] assms(3) by auto
  then show ?thesis using won_takes [of k j ms c a t m] assms(5,6) by (auto simp: holds_claim_def)
qed

lemma lawful_holding:
  assumes "lawful J ms i c" "i \<noteq> j" "j \<in> J" "holds_claim limit m k j" "t < limit"
  shows "holds_claim limit (effect c t m) k j"
  using assms lawful_keeps [OF assms(1-3)] by (force simp: holds_claim_def)

definition held :: "string set \<Rightarrow> (string \<Rightarrow> string) \<Rightarrow> real \<Rightarrow> conf \<Rightarrow> bool" where
  "held J W limit s \<longleftrightarrow>
     limit \<le> cf_time s + of_int ms / 1000 \<and> (\<forall>j \<in> J. truthful W J (cf_seen s j)) \<and>
     (\<forall>j \<in> J. \<forall>k \<in> K. inside session k s j \<longrightarrow> holds_claim limit (cf_space s) k j)"

lemma move_held:
  assumes "move session J K s s'" "held J W limit s" "in_lease W J limit s"
  shows "held J W limit s'"
  using assms(1)
proof cases
  case (answered i c a)
  have law: "lawful J ms i c" using answered asks_lawfully assms(2) by (auto simp: held_def)
  have tr: "\<forall>j \<in> J. truthful W J (cf_seen s' j)"
    using answered assms(2,3) by (auto simp: held_def in_lease_def)
  have "holds_claim limit (cf_space s') k j" if j: "j \<in> J" "k \<in> K" "inside session k s' j" for j k
  proof (cases "j = i")
    case True
    then show ?thesis
      using enters_holding [of j J W "cf_seen s j" c "Inr a" k "cf_time s" "cf_space s" limit] tr answered j assms(2)
      by (auto simp: inside_def held_def)
  next
    case False
    then have "holds_claim limit (cf_space s) k j"
      using answered j assms(2) by (auto simp: inside_def held_def)
    then show ?thesis
      using lawful_holding [OF law, of j limit "cf_space s" k "cf_time s"] False j answered assms(3)
      by (auto simp: in_lease_def)
  qed
  then show ?thesis using tr answered assms(2) by (auto simp: held_def)
next
  case (unheard i c e)
  have law: "lawful J ms i c" using unheard asks_lawfully assms(2) by (auto simp: held_def)
  have "holds_claim limit (cf_space s') k j" if j: "j \<in> J" "k \<in> K" "inside session k s' j" for j k
  proof (cases "j = i")
    case True
    then show ?thesis using unheard j by (auto simp: inside_def)
  next
    case False
    then have "holds_claim limit (cf_space s) k j"
      using unheard j assms(2) by (auto simp: inside_def held_def)
    then show ?thesis
      using lawful_holding [OF law, of j limit "cf_space s" k "cf_time s"] False j unheard assms(3)
      by (auto simp: in_lease_def)
  qed
  then show ?thesis using unheard assms(2) by (auto simp: held_def)
next
  case (undone i c e)
  then show ?thesis using assms(2) by (auto simp: held_def inside_def)
next
  case (passing t)
  then show ?thesis using assms(2) by (auto simp: held_def inside_def)
next
  case (elsewhere m)
  then show ?thesis using assms(2) by (auto simp: held_def inside_def holds_claim_def)
qed

lemma race_held:
  assumes "race session J K (in_lease W J limit) s0 s" "limit = cf_time s0 + of_int ms / 1000"
    and "\<forall>j \<in> J. cf_seen s0 j = []"
  shows "held J W limit s \<and> in_lease W J limit s"
  using assms(1)
proof induction
  case start
  have "\<not> inside session k s0 j" if "j \<in> J" for j k
    using enters_by_taking [of j J W "[]"] that assms(3) by (auto simp: inside_def)
  then show ?case using start assms(2,3) by (simp add: held_def)
next
  case (turn s s')
  then show ?case using move_held by blast
qed

lemma exclusive:
  assumes "race session J K (in_lease W J (cf_time s0 + of_int ms / 1000)) s0 s" "\<forall>j \<in> J. cf_seen s0 j = []"
    and "k \<in> K" "i \<in> J" "j \<in> J" "inside session k s i" "inside session k s j"
  shows "i = j"
  using race_held [OF assms(1) refl assms(2)] assms(3-7) holds_claim_unique unfolding held_def by blast

end

end
