(* ===== verification/LockRace.thy ===== *)
theory LockRace
  imports Interleave "HOL-Library.Sublist"
begin

text \<open>
  The claims under full interleaving.  A session takes the batch lock (or a conversion slot) with the
  code's own program and gives it back with the code's own program; any number of such sessions run
  command by command against one Redis, with failures and time passing in between.
\<close>

section \<open>The programs on a tape\<close>

lemma wp_play_tape:
  assumes "truthful W J rs"
    and "E RuntimeError (Asked c)" "E RuntimeError Broken"
    and "\<And>e rest. rs = (c, Inl e) # rest \<Longrightarrow> truthful W J rest \<Longrightarrow> E e (Tape rest)"
    and "\<And>a rest t m. rs = (c, Inr a) # rest \<Longrightarrow> truthful W J rest \<Longrightarrow> contending W J t m \<Longrightarrow>
      answers c t m a \<Longrightarrow> Q a (Tape rest)"
  shows "wp (play c) Q E (Tape rs)"
proof (cases rs)
  case Nil
  then show ?thesis using assms(2) by simp
next
  case (Cons e rest)
  then show ?thesis using assms by (cases e; cases "snd e") (auto split: sum.splits)
qed

text \<open>
  The owner question, asked by a process whose history is truthful: of a contender it never answers
  that it is gone.
\<close>

fun reads :: "call \<Rightarrow> bool" where
  "reads (Get k) = True"
| "reads (Hget k f) = True"
| "reads (Exists ks) = True"
| "reads c = False"

lemma claiming_worker_on_tape:
  assumes "truthful W J rs"
  shows "wp (claiming_worker_is_gone play h)
    (\<lambda>g. stands reads (\<lambda>rest. suffix rest rs \<and> truthful W J rest \<and> (h \<in> J \<longrightarrow> g \<noteq> Some True))) (\<lambda>_ _. False) (Tape rs)"
  unfolding claiming_worker_is_gone_def wp_bnd wp_attempt r_hget_def wp_fmapio
proof (rule wp_play_tape [OF assms], goal_cases)
  case (4 a rest t m)
  show ?case
  proof (cases "reply_str a")
    case None
    then show ?thesis using 4 by (simp add: suffix_ConsI)
  next
    case (Some wkr)
    show ?thesis
    proof (cases "wkr = []")
      case True
      then show ?thesis using 4 Some by (simp add: suffix_ConsI)
    next
      case False
      have w: "h \<in> J \<longrightarrow> wkr = W h"
        using 4 Some by (auto simp: contending_def running_under_def split: option.splits)
      have "wp (play (Exists [worker_rss_key wkr])) (\<lambda>x. stands reads (\<lambda>rest. suffix rest rs \<and> truthful W J rest \<and>
            (h \<in> J \<longrightarrow> Some (reply_int x = 0) \<noteq> Some True)))
          (\<lambda>_. stands reads (\<lambda>rest. suffix rest rs \<and> truthful W J rest)) (Tape rest)"
        by (rule wp_play_tape [OF 4(2)])
          (use 4 w False in \<open>auto simp: suffix_ConsI contending_def running_under_def\<close>)
      then show ?thesis using Some False by (simp add: r_exists_def)
    qed
  qed
qed (auto simp: suffix_ConsI)

lemma slot_owner_on_tape:
  assumes "truthful W J rs"
  shows "wp (slot_owner_is_gone play h)
    (\<lambda>g. stands reads (\<lambda>rest. suffix rest rs \<and> truthful W J rest \<and> (h \<in> J \<longrightarrow> \<not> g))) (\<lambda>_ _. False) (Tape rs)"
proof (cases "h = []")
  case True
  then show ?thesis using assms by (simp add: slot_owner_is_gone_def)
next
  case False
  have "wp (play (Hget (job_hash_key h) ''status'')) (\<lambda>a. wp (case reply_str a of
             None \<Rightarrow> ret True
           | Some status \<Rightarrow>
               bnd (claiming_worker_is_gone play h) (\<lambda>worker_gone.
                 if worker_gone = Some True then ret True
                 else if status \<in> terminal_statuses then ret (worker_gone \<noteq> Some False)
                 else ret False))
       (\<lambda>g. stands reads (\<lambda>rest. suffix rest rs \<and> truthful W J rest \<and> (h \<in> J \<longrightarrow> \<not> g))) (\<lambda>_ _. False))
     (\<lambda>_. stands reads (\<lambda>rest. suffix rest rs \<and> truthful W J rest)) (Tape rs)"
  proof (rule wp_play_tape [OF assms], goal_cases)
    case (4 a rest t m)
    have st: "h \<in> J \<longrightarrow> (\<exists>status. reply_str a = Some status \<and> status \<notin> terminal_statuses)"
      using 4 by (auto simp: contending_def running_under_def)
    show ?case
    proof (cases "reply_str a")
      case None
      then show ?thesis using 4 st by (simp add: suffix_ConsI)
    next
      case (Some status)
      have "wp (claiming_worker_is_gone play h)
         (\<lambda>g. stands reads (\<lambda>r. suffix r rest \<and> truthful W J r \<and> (h \<in> J \<longrightarrow> g \<noteq> Some True))) (\<lambda>_ _. False) (Tape rest)"
        by (rule claiming_worker_on_tape) (rule 4)
      then have "wp (claiming_worker_is_gone play h)
         (\<lambda>g. stands reads (\<lambda>r. suffix r rs \<and> truthful W J r \<and> (h \<in> J \<longrightarrow> g \<noteq> Some True))) (\<lambda>_ _. False) (Tape rest)"
        by (rule wp_mono) (auto simp: 4(1) suffix_ConsI elim!: stands.elims)
      then show ?thesis
        unfolding Some option.case wp_bnd
        by (rule wp_mono) (use st Some in \<open>auto elim!: stands.elims\<close>)
    qed
  qed (auto simp: suffix_ConsI)
  then show ?thesis using False by (simp add: slot_owner_is_gone_def r_hget_def cong: option.case_cong)
qed

text \<open>Taking a claim ends with the entry of the history that took it, unless something failed.\<close>

definition taking :: "string set \<Rightarrow> int \<Rightarrow> string \<Rightarrow> call \<Rightarrow> bool" where
  "taking J ms j c \<longleftrightarrow> lawful J ms j c \<and> (\<forall>k v. c \<noteq> Eval (ReleaseScript k v))"

definition taken_from :: "string \<Rightarrow> string \<Rightarrow> int \<Rightarrow> history \<Rightarrow> history \<Rightarrow> bool" where
  "taken_from k j ms rs rest \<longleftrightarrow> faultless rs \<longrightarrow> (\<exists>e. suffix (e # rest) rs \<and> won k j ms e)"

lemma taking_simps [simp]:
  "taking J ms j (Get k)" "taking J ms j (SetNx k v px) \<longleftrightarrow> v = j \<and> px = ms"
  "taking J ms j (Eval (StealScript k h v px)) \<longleftrightarrow> h \<notin> J \<and> v = j \<and> px = ms"
  "\<not> taking J ms j (Eval (ReleaseScript k v))"
  by (auto simp: taking_def)

lemma reads_taking: "reads c \<Longrightarrow> taking J ms j c"
  by (cases c) (auto simp: taking_def)

lemma stands_mono:
  "stands A P w \<Longrightarrow> (\<And>c. A c \<Longrightarrow> B c) \<Longrightarrow> (\<And>r. P r \<Longrightarrow> Q r) \<Longrightarrow> stands B Q w"
  by (cases w) auto

lemma steal_on_tape:
  assumes "truthful W J rs"
  shows "wp (bnd (slot_owner_is_gone play h) (\<lambda>gone.
       if \<not> gone then ret (f False)
       else bnd (r_eval play (StealScript k h j ms)) (\<lambda>n. ret (f (n \<noteq> 0)))))
     (\<lambda>r. stands (taking J ms j) (\<lambda>rest. suffix rest rs \<and> truthful W J rest \<and> (\<exists>b. r = f b \<and> (b \<longrightarrow> taken_from k j ms rs rest))))
     (\<lambda>_. stands (taking J ms j) (\<lambda>rest. suffix rest rs \<and> truthful W J rest \<and> \<not> faultless rs)) (Tape rs)"
  unfolding wp_bnd
proof (rule wp_mono [OF slot_owner_on_tape [OF assms, where h = h]], goal_cases)
  case (1 gone w)
  show ?case
  proof (cases w)
    case (Tape rest)
    show ?thesis
    proof (cases gone)
      case False
      then show ?thesis using 1 Tape by auto
    next
      case True
      then have w: "suffix rest rs" "truthful W J rest" "h \<notin> J" using 1 Tape by auto
      have "wp (play (Eval (StealScript k h j ms)))
          (\<lambda>a. stands (taking J ms j) (\<lambda>rest. suffix rest rs \<and> truthful W J rest \<and>
             (\<exists>b. f (reply_int a \<noteq> 0) = f b \<and> (b \<longrightarrow> taken_from k j ms rs rest))))
          (\<lambda>_. stands (taking J ms j) (\<lambda>rest. suffix rest rs \<and> truthful W J rest \<and> \<not> faultless rs)) (Tape rest)"
      proof (rule wp_play_tape [OF w(2)], goal_cases)
        case (3 e r)
        then show ?case using w(1) by (auto simp: suffix_def)
      next
        case (4 a r t m)
        then have "reply_int a \<noteq> 0 \<longrightarrow> taken_from k j ms rs r" "suffix r rs"
          using w(1) by (auto simp: taken_from_def won_def suffix_ConsD)
        then show ?case using 4 by auto
      qed (use w in auto)
      then show ?thesis using True Tape by (simp add: r_eval_def)
    qed
  next
    case (Asked c)
    then show ?thesis using 1 by (auto simp: r_eval_def reads_taking)
  next
    case Broken
    then show ?thesis by (simp add: r_eval_def)
  qed
qed auto

text \<open>The common part of both programs: set if absent, look at the holder, steal from a gone one.\<close>

definition landed :: "(bool \<Rightarrow> 'a) \<Rightarrow> string \<Rightarrow> string \<Rightarrow> int \<Rightarrow> (string \<Rightarrow> string) \<Rightarrow> string set \<Rightarrow> history \<Rightarrow> 'a \<Rightarrow> tape \<Rightarrow> bool" where
  "landed f k j ms W J rs x =
     stands (taking J ms j) (\<lambda>rest. suffix rest rs \<and> truthful W J rest \<and> (\<exists>b. x = f b \<and> (b \<longrightarrow> taken_from k j ms rs rest)))"

definition missed :: "string \<Rightarrow> int \<Rightarrow> (string \<Rightarrow> string) \<Rightarrow> string set \<Rightarrow> history \<Rightarrow> tape \<Rightarrow> bool" where
  "missed j ms W J rs =
     stands (taking J ms j) (\<lambda>rest. suffix rest rs \<and> truthful W J rest \<and> \<not> faultless rs)"

lemma landed_simps [simp]:
  "landed f k j ms W J rs x (Tape rest) \<longleftrightarrow>
     suffix rest rs \<and> truthful W J rest \<and> (\<exists>b. x = f b \<and> (b \<longrightarrow> taken_from k j ms rs rest))"
  "landed f k j ms W J rs x (Asked c) \<longleftrightarrow> taking J ms j c" "landed f k j ms W J rs x Broken"
  "missed j ms W J rs (Tape rest) \<longleftrightarrow> suffix rest rs \<and> truthful W J rest \<and> \<not> faultless rs"
  "missed j ms W J rs (Asked c) \<longleftrightarrow> taking J ms j c" "missed j ms W J rs Broken"
  by (simp_all add: landed_def missed_def)

lemma suffix_fault: "suffix r rs \<Longrightarrow> \<not> faultless r \<Longrightarrow> \<not> faultless rs"
  by (auto simp: suffix_def)

lemma taken_from_suffix: "taken_from k j ms r rest \<Longrightarrow> suffix r rs \<Longrightarrow> taken_from k j ms rs rest"
  unfolding taken_from_def by (metis suffix_fault suffix_order.trans)

lemma landed_suffix: "landed f k j ms W J r x w \<Longrightarrow> suffix r rs \<Longrightarrow> landed f k j ms W J rs x w"
  and missed_suffix: "missed j ms W J r w \<Longrightarrow> suffix r rs \<Longrightarrow> missed j ms W J rs w"
  by (cases w; auto intro: suffix_order.trans taken_from_suffix dest: suffix_fault)+

definition claims_on_tape ::
    "(bool \<Rightarrow> 'a) \<Rightarrow> string \<Rightarrow> string \<Rightarrow> int \<Rightarrow> (string \<Rightarrow> string) \<Rightarrow> string set \<Rightarrow> history \<Rightarrow> history \<Rightarrow> (tape, 'a) io \<Rightarrow> bool" where
  "claims_on_tape f k j ms W J rs r p \<longleftrightarrow>
     wp p (landed f k j ms W J rs) (\<lambda>_. missed j ms W J rs) (Tape r)"

lemma claims_on_tape_suffix:
  "claims_on_tape f k j ms W J r r p \<Longrightarrow> suffix r rs \<Longrightarrow> claims_on_tape f k j ms W J rs r p"
  unfolding claims_on_tape_def by (erule wp_mono) (auto intro: landed_suffix missed_suffix)

lemma steal_claims:
  assumes "truthful W J rs"
  shows "claims_on_tape f k j ms W J rs rs (bnd (slot_owner_is_gone play h) (\<lambda>gone.
       if \<not> gone then ret (f False)
       else bnd (r_eval play (StealScript k h j ms)) (\<lambda>n. ret (f (n \<noteq> 0)))))"
  unfolding claims_on_tape_def
  by (rule wp_mono [OF steal_on_tape [OF assms]]) (simp_all add: landed_def missed_def)

lemma setnx_claims:
  assumes "truthful W J rs"
  shows "claims_on_tape f k j ms W J rs rs (bnd (r_setnx play k j ms) (\<lambda>b. ret (f b)))"
  unfolding claims_on_tape_def wp_bnd r_setnx_def wp_fmapio wp_ret
proof (rule wp_play_tape [OF assms], goal_cases)
  case (3 e rest)
  then show ?case by (simp add: suffix_ConsI)
next
  case (4 a rest t m)
  then have "a = ROk \<longrightarrow> taken_from k j ms rs rest" by (auto simp: taken_from_def won_def)
  then show ?case using 4 by (auto simp: suffix_ConsI)
qed simp_all

lemma claim_program_claims:
  assumes tr: "truthful W J rs"
    and absent: "\<And>r. truthful W J r \<Longrightarrow> claims_on_tape f k j ms W J r r absent"
  shows "claims_on_tape f k j ms W J rs rs
    (bnd (r_setnx play k j ms) (\<lambda>taken.
       if taken then ret (f True)
       else bnd (r_get play k) (\<lambda>holder.
         case holder of
           None \<Rightarrow> absent
         | Some h \<Rightarrow>
             if h = [] then absent
             else bnd (slot_owner_is_gone play h) (\<lambda>gone.
               if \<not> gone then ret (f False)
               else bnd (r_eval play (StealScript k h j ms)) (\<lambda>n. ret (f (n \<noteq> 0)))))))"
  unfolding claims_on_tape_def wp_bnd r_setnx_def wp_fmapio
proof (rule wp_play_tape [OF tr], goal_cases)
  case (3 e rest)
  then show ?case by (simp add: suffix_ConsI)
next
  case (4 a rest t m)
  have sf: "suffix rest rs" using 4 by (simp add: suffix_ConsI)
  show ?case
  proof (cases "a = ROk")
    case True
    then have "taken_from k j ms rs rest" using 4 by (auto simp: taken_from_def won_def)
    then show ?thesis using True 4 sf by auto
  next
    case False
    have "wp (play (Get k)) (\<lambda>a. wp (case reply_str a of
           None \<Rightarrow> absent
         | Some h \<Rightarrow>
             if h = [] then absent
             else bnd (slot_owner_is_gone play h) (\<lambda>gone.
               if \<not> gone then ret (f False)
               else bnd (r_eval play (StealScript k h j ms)) (\<lambda>n. ret (f (n \<noteq> 0)))))
         (landed f k j ms W J rs) (\<lambda>_. missed j ms W J rs))
       (\<lambda>_. missed j ms W J rs) (Tape rest)"
    proof (rule wp_play_tape [OF 4(2)], goal_cases)
      case (3 e r)
      then have "suffix r rs" "\<not> faultless rs" using \<open>rs = (_, _) # rest\<close> by (simp_all add: suffix_ConsI)
      then show ?case using 3 by simp
    next
      case (4 a r t m)
      have s: "suffix r rs" using 4 sf by (auto dest: suffix_ConsD)
      show ?case
        using claims_on_tape_suffix [OF absent [OF 4(2)] s]
          claims_on_tape_suffix [OF steal_claims [OF 4(2), of f k j ms] s]
        by (auto simp: claims_on_tape_def simp del: wp_bnd split: option.split)
    qed simp_all
    then show ?thesis using False by (simp add: r_get_def)
  qed
qed simp_all

section \<open>Sessions\<close>

text \<open>A session takes the claim, does its work, and gives it back.\<close>

definition lock_session :: "batch_cfg \<Rightarrow> string \<Rightarrow> string \<Rightarrow> (tape, bool) io" where
  "lock_session cfg b j =
     bnd (try_acquire_batch_lock play cfg b (PStr j)) (\<lambda>got.
       if got then release_batch_lock play b (PStr j) else ret False)"

definition slot_session :: "batch_cfg \<Rightarrow> string \<Rightarrow> (tape, bool) io" where
  "slot_session cfg j =
     bnd (acquire_ffmpeg_slot play cfg (PStr j) None None) (\<lambda>i. release_ffmpeg_slot play i (PStr j))"

text \<open>After the taking, the release is asked for on an empty rest.\<close>

definition entered :: "string set \<Rightarrow> int \<Rightarrow> string \<Rightarrow> history \<Rightarrow> call \<Rightarrow> bool" where
  "entered J ms j rs c \<longleftrightarrow> lawful J ms j c \<and>
     (\<forall>k v. c = Eval (ReleaseScript k v) \<longrightarrow> faultless rs \<longrightarrow> (\<exists>pre e. rs = pre @ [e] \<and> won k j ms e))"

lemma taking_entered: "taking J ms j c \<Longrightarrow> entered J ms j rs c"
  by (simp add: taking_def entered_def)

lemma release_enters:
  assumes "truthful W J r" "suffix r rs" "taken_from k j ms rs r"
  shows "wp (tryc (bnd (r_eval play (ReleaseScript k j)) (\<lambda>n. ret (n \<noteq> 0))) (\<lambda>_. ret False))
     (\<lambda>_. stands (entered J ms j rs) (\<lambda>_. True)) (\<lambda>_. stands (entered J ms j rs) (\<lambda>_. True)) (Tape r)"
  unfolding wp_tryc wp_bnd r_eval_def wp_fmapio wp_ret
proof (cases r)
  case Nil
  have "entered J ms j rs (Eval (ReleaseScript k j))"
    using assms Nil by (auto simp: entered_def taken_from_def suffix_def)
  then show "wp (play (Eval (ReleaseScript k j))) (\<lambda>_. stands (entered J ms j rs) (\<lambda>_. True))
     (\<lambda>_. stands (entered J ms j rs) (\<lambda>_. True)) (Tape r)" using Nil by simp
next
  case (Cons e r')
  then show "wp (play (Eval (ReleaseScript k j))) (\<lambda>_. stands (entered J ms j rs) (\<lambda>_. True))
     (\<lambda>_. stands (entered J ms j rs) (\<lambda>_. True)) (Tape r)"
    by (cases e) (simp split: sum.split)
qed

lemma id_text_str [simp]: "id_text (PStr j) = j"
  by (simp add: id_text_def)

lemma lock_session_enters:
  assumes "truthful W J rs"
  shows "wp (lock_session cfg b j) (\<lambda>_. stands (entered J (lock_ttl cfg * 1000) j rs) (\<lambda>_. True))
     (\<lambda>_. stands (entered J (lock_ttl cfg * 1000) j rs) (\<lambda>_. True)) (Tape rs)"
proof -
  let ?ms = "lock_ttl cfg * 1000" and ?k = "batch_lock_key b"
  let ?E = "stands (entered J ?ms j rs) (\<lambda>_. True)"
  have "claims_on_tape (\<lambda>b. b) ?k j ?ms W J rs rs
    (bnd (r_setnx play ?k j ?ms) (\<lambda>taken.
       if taken then ret True
       else bnd (r_get play ?k) (\<lambda>holder.
         case holder of
           None \<Rightarrow> ret False
         | Some h \<Rightarrow>
             if h = [] then ret False
             else bnd (slot_owner_is_gone play h) (\<lambda>gone.
               if \<not> gone then ret False
               else bnd (r_eval play (StealScript ?k h j ?ms)) (\<lambda>n. ret (n \<noteq> 0))))))"
    by (rule claim_program_claims [OF assms, where f = "\<lambda>b. b"]) (auto simp: claims_on_tape_def intro: exI [of _ False])
  then have "wp (try_acquire_batch_lock play cfg b (PStr j))
      (\<lambda>got w. stands (taking J ?ms j) (\<lambda>r. suffix r rs \<and> truthful W J r \<and> (got \<longrightarrow> taken_from ?k j ?ms rs r)) w)
      (\<lambda>_ _. False) (Tape rs)"
    unfolding try_acquire_batch_lock_def Let_def wp_tryc claims_on_tape_def id_text_str
    by (rule wp_mono) (auto simp: landed_def missed_def taken_from_def elim!: stands_mono)
  then show ?thesis
    unfolding lock_session_def wp_bnd
  proof (rule wp_mono, goal_cases)
    case (1 got w)
    show ?case
    proof (cases w)
      case (Tape r)
      then show ?thesis
        using 1 release_enters [of W J r rs ?k j ?ms]
        by (simp add: release_batch_lock_def del: wp_tryc wp_bnd)
    next
      case (Asked c)
      then show ?thesis using 1 by (simp add: release_batch_lock_def r_eval_def taking_entered)
    qed (simp add: release_batch_lock_def r_eval_def)
  qed simp
qed

definition slot_landed :: "string \<Rightarrow> int \<Rightarrow> (string \<Rightarrow> string) \<Rightarrow> string set \<Rightarrow> history \<Rightarrow> int option \<Rightarrow> tape \<Rightarrow> bool" where
  "slot_landed j ms W J rs x =
     stands (taking J ms j) (\<lambda>rest. suffix rest rs \<and> truthful W J rest \<and>
       (\<forall>i \<ge> 0. x = Some i \<longrightarrow> taken_from (ffmpeg_slot_key i) j ms rs rest))"

lemma slot_landed_suffix: "slot_landed j ms W J r x w \<Longrightarrow> suffix r rs \<Longrightarrow> slot_landed j ms W J rs x w"
  unfolding slot_landed_def by (cases w) (auto intro: suffix_order.trans taken_from_suffix)

lemma claim_slot_on_tape:
  assumes "truthful W J rs"
  shows "wp (claim_slot play j ms i) (slot_landed j ms W J rs) (\<lambda>_ _. False) (Tape rs)"
proof -
  let ?k = "ffmpeg_slot_key i" and ?f = "\<lambda>b. if b then Some i else None"
  have "claims_on_tape ?f ?k j ms W J rs rs
    (bnd (r_setnx play ?k j ms) (\<lambda>taken.
       if taken then ret (?f True)
       else bnd (r_get play ?k) (\<lambda>holder.
         case holder of
           None \<Rightarrow> bnd (r_setnx play ?k j ms) (\<lambda>b. ret (?f b))
         | Some h \<Rightarrow>
             if h = [] then bnd (r_setnx play ?k j ms) (\<lambda>b. ret (?f b))
             else bnd (slot_owner_is_gone play h) (\<lambda>gone.
               if \<not> gone then ret (?f False)
               else bnd (r_eval play (StealScript ?k h j ms)) (\<lambda>n. ret (?f (n \<noteq> 0)))))))"
    by (rule claim_program_claims [OF assms, where f = ?f]) (rule setnx_claims)
  then show ?thesis
    unfolding claim_slot_def Let_def wp_tryc claims_on_tape_def if_True if_False
    by (rule wp_mono) (auto simp: landed_def missed_def slot_landed_def elim!: stands_mono split: if_splits)
qed

lemma slots_on_tape:
  assumes "truthful W J rs"
  shows "wp (first_of js (claim_slot play j ms)) (slot_landed j ms W J rs) (\<lambda>_ _. False) (Tape rs)"
  using assms
proof (induction js arbitrary: rs)
  case Nil
  then show ?case by (simp add: slot_landed_def)
next
  case (Cons i js)
  show ?case
    unfolding first_of.simps wp_bnd
  proof (rule wp_mono [OF claim_slot_on_tape [OF Cons.prems]], goal_cases)
    case (1 x w)
    show ?case
    proof (cases x)
      case (Some y)
      then show ?thesis using 1 by simp
    next
      case None
      show ?thesis
      proof (cases w)
        case (Tape r)
        then have "suffix r rs" "truthful W J r" using 1 by (simp_all add: slot_landed_def)
        then show ?thesis
          unfolding None Tape option.case
          by (intro wp_mono [OF Cons.IH]) (auto intro: slot_landed_suffix)
      next
        case (Asked c)
        have "wp (first_of js (claim_slot play j ms)) (\<lambda>_ w. w = Asked c) (\<lambda>_ _. False) (Asked c)"
          by (induction js) (simp_all add: claim_slot_def r_setnx_def Let_def)
        then show ?thesis
          unfolding None Asked option.case
          by (rule wp_mono) (use 1 Asked in \<open>auto simp: slot_landed_def\<close>)
      next
        case Broken
        have "wp (first_of js (claim_slot play j ms)) (\<lambda>_ w. w = Broken) (\<lambda>_ _. False) Broken"
          by (induction js) (simp_all add: claim_slot_def r_setnx_def Let_def)
        then show ?thesis
          unfolding None Broken option.case
          by (rule wp_mono) (auto simp: slot_landed_def)
      qed
    qed
  qed simp
qed

lemma slot_session_enters:
  assumes "truthful W J rs"
  shows "wp (slot_session cfg j) (\<lambda>_. stands (entered J (lock_ttl cfg * 1000) j rs) (\<lambda>_. True))
     (\<lambda>_. stands (entered J (lock_ttl cfg * 1000) j rs) (\<lambda>_. True)) (Tape rs)"
  unfolding slot_session_def wp_bnd acquire_ffmpeg_slot_def Let_def option.case id_text_str
proof (rule wp_mono [OF slots_on_tape [OF assms]], goal_cases)
  case (1 x w)
  show ?case
  proof (cases w)
    case (Tape r)
    then show ?thesis
      using 1 release_enters [of W J r rs _ j "lock_ttl cfg * 1000"]
      by (cases x) (simp_all add: release_ffmpeg_slot_def slot_landed_def del: wp_tryc wp_bnd)
  next
    case (Asked c)
    then show ?thesis using 1
      by (cases x) (simp_all add: release_ffmpeg_slot_def r_eval_def slot_landed_def taking_entered)
  next
    case Broken
    then show ?thesis by (cases x) (simp_all add: release_ffmpeg_slot_def r_eval_def)
  qed
qed simp

section \<open>Mutual exclusion\<close>

interpretation lock_race: claimants "lock_session cfg b" "{batch_lock_key b}" "lock_ttl cfg * 1000" for cfg b
  by unfold_locales (use wp_pending [OF lock_session_enters] in \<open>unfold entered_def, blast+\<close>)

interpretation slot_race: claimants "slot_session cfg" "range ffmpeg_slot_key" "lock_ttl cfg * 1000" for cfg
  by unfold_locales (use wp_pending [OF slot_session_enters] in \<open>unfold entered_def, blast+\<close>)



section \<open>A run\<close>

text \<open>Runs without failures are computed: which process moves, and what it is answered.\<close>

definition answer_to :: "(string \<Rightarrow> (tape, 'a) io) \<Rightarrow> string \<times> reply \<Rightarrow> conf \<Rightarrow> conf" where
  "answer_to session x s =
     (case pending (session (fst x)) (cf_seen s (fst x)) of
        None \<Rightarrow> s
      | Some c \<Rightarrow> s\<lparr>cf_space := effect c (cf_time s) (cf_space s),
                   cf_seen := (cf_seen s)(fst x := cf_seen s (fst x) @ [(c, Inr (snd x))])\<rparr>)"

fun legal :: "(string \<Rightarrow> (tape, 'a) io) \<Rightarrow> string set \<Rightarrow> (conf \<Rightarrow> bool) \<Rightarrow> conf \<Rightarrow> (string \<times> reply) list \<Rightarrow> bool" where
  "legal session J ok s [] = True"
| "legal session J ok s (x # xs) =
     (case pending (session (fst x)) (cf_seen s (fst x)) of
        None \<Rightarrow> False
      | Some c \<Rightarrow> fst x \<in> J \<and> call_ok c (cf_time s) (cf_space s) \<and> answers c (cf_time s) (cf_space s) (snd x) \<and>
          ok (answer_to session x s) \<and> legal session J ok (answer_to session x s) xs)"

lemma legal_race:
  "race session J K ok s0 s \<Longrightarrow> legal session J ok s xs \<Longrightarrow> race session J K ok s0 (fold (answer_to session) xs s)"
proof (induction xs arbitrary: s)
  case (Cons x xs)
  then obtain c where c: "pending (session (fst x)) (cf_seen s (fst x)) = Some c"
    by (auto split: option.splits)
  then have "move session J K s (answer_to session x s)"
    using Cons.prems(2) move.answered [of "fst x" J session s c "snd x" K] by (simp add: answer_to_def)
  then show ?case using Cons c by (auto intro: race.turn)
qed simp

definition demo_race :: conf where
  "demo_race = \<lparr>cf_time = 0, cf_space = map_of
     [(''ffmpeg:batch:b'', VStr ''j0'', Some 50), (''ffmpeg:slot:0'', VStr ''j0'', Some 50),
      (''ffmpeg:job:j1'', VHash [(''status'', ''processing''), (''worker'', ''w1'')], None),
      (''ffmpeg:worker:rss:w1'', VStr ''1000'', None),
      (''ffmpeg:job:j2'', VHash [(''status'', ''processing''), (''worker'', ''w1'')], None)], cf_seen = (\<lambda>_. [])\<rparr>"

text \<open>Both jobs find the lock held by a job that is gone, and both try to steal it.\<close>

definition demo_turns :: "(string \<times> reply) list" where
  "demo_turns = [(''j1'', RNil), (''j2'', RNil), (''j1'', RStr ''j0''), (''j2'', RStr ''j0''), (''j1'', RNil),
     (''j2'', RNil), (''j1'', RInt 1), (''j2'', RInt 0)]"

lemma demo_contending:
  "contending (\<lambda>_. ''w1'') {''j1'', ''j2''} t m \<longleftrightarrow>
     running_under t m ''w1'' ''j1'' \<and> running_under t m ''w1'' ''j2''"
  by (simp add: contending_def)

lemmas run_simps =
  demo_race_def answer_to_def pending_def in_lease_def demo_contending running_under_def lock_session_def
  slot_session_def try_acquire_batch_lock_def acquire_ffmpeg_slot_def claim_slot_def release_batch_lock_def
  release_ffmpeg_slot_def slot_owner_is_gone_def attempt_def bnd_def tryc_def fmapio_def ret_def r_setnx_def
  r_get_def r_hget_def r_eval_def key_defs Let_def live_def hash_at_def str_at_def lua_steal_def is_str_def
  is_hash_def terminal_statuses_def

lemma demo_locks:
  "legal (lock_session default_cfg ''b'') {''j1'', ''j2''} (in_lease (\<lambda>_. ''w1'') {''j1'', ''j2''} 900) demo_race demo_turns"
  unfolding demo_turns_def by (simp add: run_simps)

lemma demo_slots:
  "legal (slot_session default_cfg) {''j1'', ''j2''} (in_lease (\<lambda>_. ''w1'') {''j1'', ''j2''} 900) demo_race demo_turns"
  unfolding demo_turns_def by (simp add: run_simps int_str_01)

lemma demo_lock_inside:
  "inside (lock_session default_cfg ''b'') (batch_lock_key ''b'') (fold (answer_to (lock_session default_cfg ''b'')) demo_turns demo_race) ''j1''"
  unfolding demo_turns_def by (simp add: run_simps inside_def)

lemma demo_slot_inside:
  "inside (slot_session default_cfg) (ffmpeg_slot_key 0) (fold (answer_to (slot_session default_cfg)) demo_turns demo_race) ''j1''"
  unfolding demo_turns_def by (simp add: run_simps inside_def int_str_01)

lemma demo_in_lease: "in_lease (\<lambda>_. ''w1'') {''j1'', ''j2''} 900 demo_race"
  by (simp add: run_simps)

lemma demo_limit: "cf_time demo_race + of_int (lock_ttl default_cfg * 1000) / 1000 = 900"
  by (simp add: demo_race_def)

lemma demo_lock_race:
  "race (lock_session default_cfg ''b'') {''j1'', ''j2''} {batch_lock_key ''b''}
     (in_lease (\<lambda>_. ''w1'') {''j1'', ''j2''} (cf_time demo_race + of_int (lock_ttl default_cfg * 1000) / 1000)) demo_race
     (fold (answer_to (lock_session default_cfg ''b'')) demo_turns demo_race)"
  unfolding demo_limit by (rule legal_race [OF _ demo_locks]) (rule race.start, rule demo_in_lease)

lemma demo_slot_race:
  "race (slot_session default_cfg) {''j1'', ''j2''} (range ffmpeg_slot_key)
     (in_lease (\<lambda>_. ''w1'') {''j1'', ''j2''} (cf_time demo_race + of_int (lock_ttl default_cfg * 1000) / 1000)) demo_race
     (fold (answer_to (slot_session default_cfg)) demo_turns demo_race)"
  unfolding demo_limit by (rule legal_race [OF _ demo_slots]) (rule race.start, rule demo_in_lease)



end
