(* ===== verification/TokenBucket.thy ===== *)
theory TokenBucket
  imports Payload
begin

text \<open>
  \<open>utils/rate_limiter.py\<close>, the token buckets: \<open>RateLimiter\<close>, \<open>TelegramAPIRateLimiter\<close> and
  \<open>ConversionRateLimiter\<close>.  The state of a limiter is a record passed along, the wall clock is an
  argument, and a wait is the sequence of instants it tries again at.  The locale \<open>token_bucket\<close>
  states what a bucket promises: it holds at most its capacity, never less than nothing, and
  over any stretch of time it admits at most its capacity plus the rate times the time that passed.
\<close>

section \<open>The contract of a bucket\<close>

type_synonym bucket = "real \<times> real"

text \<open>What is in a bucket at \<open>now\<close>; a bucket never used is full.\<close>

definition available :: "real \<Rightarrow> real \<Rightarrow> bucket option \<Rightarrow> real \<Rightarrow> real" where
  "available rate cap b now =
     (case b of None \<Rightarrow> cap | Some (tokens, last_time) \<Rightarrow> min cap (tokens + (now - last_time) * rate))"

fun runs :: "(real \<Rightarrow> bucket option \<Rightarrow> bool \<times> bucket) \<Rightarrow> real list \<Rightarrow> bucket option \<Rightarrow> nat \<times> bucket option" where
  "runs take_one [] b = (0, b)"
| "runs take_one (t # ts) b =
     (case take_one t b of (ok, b') \<Rightarrow> case runs take_one ts (Some b') of (n, b'') \<Rightarrow> (if ok then n + 1 else n, b''))"

text \<open>The state between two requests: what is in the bucket, and when it was last touched.\<close>

definition holds :: "real \<Rightarrow> real \<Rightarrow> bucket option \<Rightarrow> bool" where
  "holds cap now b \<longleftrightarrow> (case b of None \<Rightarrow> True | Some (tokens, last_time) \<Rightarrow> 0 \<le> tokens \<and> tokens \<le> cap \<and> last_time \<le> now)"

lemma holds_simps [simp]:
  "holds cap now None" "holds cap now (Some (x, t)) \<longleftrightarrow> 0 \<le> x \<and> x \<le> cap \<and> t \<le> now"
  by (simp_all add: holds_def)

lemma holds_later: "holds cap now b \<Longrightarrow> now \<le> now' \<Longrightarrow> holds cap now' b"
  by (auto simp: holds_def split: option.splits)

locale token_bucket =
  fixes rate cap :: real and take_one :: "real \<Rightarrow> bucket option \<Rightarrow> bool \<times> bucket"
  assumes rate: "0 \<le> rate" and cap: "1 \<le> cap"
    and admits: "fst (take_one now b) \<longleftrightarrow> 1 \<le> available rate cap b now"
    and leaves: "snd (take_one now b) =
      (available rate cap b now - (if fst (take_one now b) then 1 else 0), now)"
begin

lemma available_bounds: "holds cap now b \<Longrightarrow> 0 \<le> available rate cap b now \<and> available rate cap b now \<le> cap"
  using rate cap by (auto simp: holds_def available_def split: option.splits)

lemma holds_step: "holds cap now b \<Longrightarrow> now \<le> now' \<Longrightarrow> holds cap now' (Some (snd (take_one now b)))"
  using available_bounds [of now b] admits [of now b] leaves [of now b] by (auto simp: holds_def)

lemma available_later:
  assumes "holds cap now b" "now \<le> now'"
  shows "available rate cap (Some (snd (take_one now b))) now' + (if fst (take_one now b) then 1 else 0)
    \<le> available rate cap b now + (now' - now) * rate"
  using leaves [of now b] by (auto simp: available_def)

lemma admitted_bound:
  "sorted (t # ts) \<Longrightarrow> holds cap t b \<Longrightarrow>
   real (fst (runs take_one (t # ts) b)) \<le> available rate cap b t + (last (t # ts) - t) * rate"
proof (induction ts arbitrary: t b)
  case Nil
  then show ?case
    using admits [of t b] available_bounds [of t b] by (auto simp: case_prod_beta)
next
  case (Cons u ts)
  let ?b' = "Some (snd (take_one t b))"
  have IH: "real (fst (runs take_one (u # ts) ?b')) \<le> available rate cap ?b' u + (last (u # ts) - u) * rate"
    by (rule Cons.IH) (use Cons.prems holds_step [of t b u] in auto)
  have "available rate cap ?b' u + (if fst (take_one t b) then 1 else 0) \<le> available rate cap b t + (u - t) * rate"
    by (rule available_later) (use Cons.prems in auto)
  moreover have "fst (runs take_one (t # u # ts) b) =
      fst (runs take_one (u # ts) ?b') + (if fst (take_one t b) then 1 else 0)"
    by (simp only: runs.simps case_prod_beta fst_conv split: if_split) simp
  ultimately have "real (fst (runs take_one (t # u # ts) b)) \<le>
      available rate cap b t + (u - t) * rate + (last (u # ts) - u) * rate"
    using IH by (auto split: if_splits)
  then show ?case by (simp add: algebra_simps)
qed

lemma admitted_window:
  assumes "sorted ts" and "set ts \<subseteq> {t0..t1}" and "t0 \<le> t1" and "holds cap t0 b"
  shows "real (fst (runs take_one ts b)) \<le> cap + (t1 - t0) * rate"
proof (cases ts)
  case Nil
  then show ?thesis using rate cap assms(3) by (simp add: add_increasing2)
next
  case (Cons t us)
  then have t: "t0 \<le> t" "last (t # us) \<le> t1" using assms(2) last_in_set [of "t # us"] by auto
  then have h: "holds cap t b" using holds_later [OF assms(4)] by simp
  have "real (fst (runs take_one ts b)) \<le> available rate cap b t + (last (t # us) - t) * rate"
    using admitted_bound [of t us b] assms(1) h by (simp only: Cons)
  also have "\<dots> \<le> cap + (t1 - t0) * rate"
    using available_bounds [OF h] t rate by (intro add_mono mult_right_mono) auto
  finally show ?thesis .
qed

text \<open>A bucket left alone for long enough is full: forgetting it changes nothing.\<close>

lemma idle_is_full:
  assumes "holds cap now (Some (tokens, last_time))" and "cap \<le> (now - last_time) * rate"
  shows "take_one now (Some (tokens, last_time)) = take_one now None"
proof -
  have "available rate cap (Some (tokens, last_time)) now = available rate cap None now"
    using assms by (auto simp: available_def holds_def)
  then have "fst (take_one now (Some (tokens, last_time))) = fst (take_one now None)"
    "snd (take_one now (Some (tokens, last_time))) = snd (take_one now None)"
    using admits leaves by simp_all
  then show ?thesis by (simp add: prod_eq_iff)
qed

end

section \<open>RateLimiter\<close>

record limiter =
  calls_per_second :: real
  per_user :: bool
  capacity :: real
  buckets :: "(string, bucket) dict"

definition new_limiter :: "real \<Rightarrow> bool \<Rightarrow> limiter" where
  "new_limiter cps pu = \<lparr>calls_per_second = cps, per_user = pu, capacity = max 1 cps, buckets = []\<rparr>"

definition bucket_key :: "limiter \<Rightarrow> string \<Rightarrow> string" where
  "bucket_key L user_id = (if per_user L then user_id else ''global'')"

text \<open>One bucket's part of \<open>acquire\<close>, and the method.\<close>

definition take_tokens :: "real \<Rightarrow> real \<Rightarrow> real \<Rightarrow> real \<Rightarrow> bucket option \<Rightarrow> bool \<times> bucket" where
  "take_tokens rate cap tokens now b =
     (let (current_tokens, last_time) = (case b of None \<Rightarrow> (cap, now) | Some x \<Rightarrow> x);
          elapsed = now - last_time;
          new_tokens = min cap (current_tokens + elapsed * rate) in
      if tokens \<le> new_tokens then (True, (new_tokens - tokens, now)) else (False, (new_tokens, now)))"

definition acquire :: "real \<Rightarrow> string \<Rightarrow> real \<Rightarrow> limiter \<Rightarrow> bool \<times> limiter" where
  "acquire now user_id tokens L =
     (let key = bucket_key L user_id in
      case take_tokens (calls_per_second L) (capacity L) tokens now (dget (buckets L) key) of
        (ok, b) \<Rightarrow> (ok, L\<lparr>buckets := dput key b (buckets L)\<rparr>))"

text \<open>
  \<open>wait_if_needed\<close>: \<open>tick i\<close> is the instant of the \<open>i\<close>-th attempt (a wait of 0.01 s lies between
  two).  The value is the attempt that succeeded; not returning is \<open>None\<close>.
\<close>

partial_function (option) wait_from :: "(nat \<Rightarrow> real) \<Rightarrow> string \<Rightarrow> real \<Rightarrow> nat \<Rightarrow> limiter \<Rightarrow> (nat \<times> limiter) option" where
  "wait_from tick user_id tokens i L =
     (let r = acquire (tick i) user_id tokens L in
      if fst r then Some (i, snd r) else wait_from tick user_id tokens (Suc i) (snd r))"

definition wait_if_needed :: "(nat \<Rightarrow> real) \<Rightarrow> string \<Rightarrow> real \<Rightarrow> limiter \<Rightarrow> (real \<times> limiter) option" where
  "wait_if_needed tick user_id tokens L =
     map_option (\<lambda>(i, L'). (tick i - tick 0, L')) (wait_from tick user_id tokens 0 L)"

text \<open>The statistics of one bucket: what it holds and the seconds until one token is there.\<close>

definition seconds_until_refill :: "real \<Rightarrow> real \<Rightarrow> pyfloat" where
  "seconds_until_refill rate tokens =
     (if 0 < rate then Fin (max 0 (max 0 (1 - tokens) / rate)) else PInf)"

definition get_stats :: "real \<Rightarrow> string option \<Rightarrow> limiter \<Rightarrow> (string, real \<times> real \<times> pyfloat) dict" where
  "get_stats now user_id L =
     (let entry = (\<lambda>(tokens, last_time). (tokens, last_time, seconds_until_refill (calls_per_second L) tokens)) in
      case user_id of
        Some u \<Rightarrow>
          if u \<noteq> [] then [(u, entry (case dget (buckets L) u of None \<Rightarrow> (capacity L, now) | Some b \<Rightarrow> b))]
          else map (\<lambda>(k, b). (k, entry b)) (buckets L)
      | None \<Rightarrow> map (\<lambda>(k, b). (k, entry b)) (buckets L))"

text \<open>The bucket of a limiter keeps the contract.\<close>

lemma take_tokens_bucket:
  assumes "0 \<le> rate" "1 \<le> cap"
  shows "token_bucket rate cap (take_tokens rate cap 1)"
  by unfold_locales
    (use assms in \<open>auto simp: take_tokens_def available_def Let_def split: option.splits prod.splits\<close>)

lemma capacity_ge_1: "1 \<le> capacity (new_limiter cps pu)"
  by (simp add: new_limiter_def)

text \<open>The limiter the bot talks to Telegram through, 30 calls a second.\<close>

interpretation telegram_bucket: token_bucket 30 30 "take_tokens 30 30 1"
  by (rule take_tokens_bucket) simp_all

section \<open>The limiters built from it\<close>

record telegram_limiter =
  global_limiter :: limiter
  per_user_limiter :: limiter

definition new_telegram_limiter :: telegram_limiter where
  "new_telegram_limiter = \<lparr>global_limiter = new_limiter 30 False, per_user_limiter = new_limiter 1 True\<rparr>"

text \<open>Both limits are consulted, and charged, whatever the first one says.\<close>

definition telegram_acquire :: "real \<Rightarrow> string \<Rightarrow> telegram_limiter \<Rightarrow> bool \<times> telegram_limiter" where
  "telegram_acquire now user_id T =
     (case acquire now ''global'' 1 (global_limiter T) of (global_ok, G) \<Rightarrow>
      case acquire now user_id 1 (per_user_limiter T) of (per_user_ok, U) \<Rightarrow>
        (global_ok \<and> per_user_ok, \<lparr>global_limiter = G, per_user_limiter = U\<rparr>))"

definition telegram_wait ::
    "(nat \<Rightarrow> real) \<Rightarrow> (nat \<Rightarrow> real) \<Rightarrow> string \<Rightarrow> telegram_limiter \<Rightarrow> ((real \<times> real) \<times> telegram_limiter) option" where
  "telegram_wait at1 at2 user_id T =
     (case wait_if_needed at1 ''global'' 1 (global_limiter T) of
        None \<Rightarrow> None
      | Some (global_wait, G) \<Rightarrow>
          (case wait_if_needed at2 user_id 1 (per_user_limiter T) of
             None \<Rightarrow> None
           | Some (per_user_wait, U) \<Rightarrow>
               Some ((global_wait, per_user_wait), \<lparr>global_limiter = G, per_user_limiter = U\<rparr>)))"

record conversion_limiter =
  conversions_per_hour :: int
  conv_limiter :: limiter
  conversion_history :: "(string, real list) dict"

definition new_conversion_limiter :: "int \<Rightarrow> conversion_limiter" where
  "new_conversion_limiter n =
     \<lparr>conversions_per_hour = n, conv_limiter = new_limiter (of_int n / 3600) True, conversion_history = []\<rparr>"

definition history_of :: "conversion_limiter \<Rightarrow> string \<Rightarrow> real list" where
  "history_of C user_id = (case dget (conversion_history C) user_id of None \<Rightarrow> [] | Some ts \<Rightarrow> ts)"

text \<open>The answer, and with a refusal the count and the seconds its message names.\<close>

definition can_convert :: "real \<Rightarrow> string \<Rightarrow> conversion_limiter \<Rightarrow> (nat \<times> real) option" where
  "can_convert now user_id C =
     (let recent = filter (\<lambda>t. now - 3600 < t) (history_of C user_id) in
      if int (length recent) < conversions_per_hour C then None
      else let earliest = (if recent = [] then now else Min (set recent))
           in Some (length recent, max 0 (earliest + 3600 - now)))"

definition mark_conversion_started :: "real \<Rightarrow> string \<Rightarrow> conversion_limiter \<Rightarrow> bool \<times> conversion_limiter" where
  "mark_conversion_started now user_id C =
     (case acquire now user_id 1 (conv_limiter C) of (allowed, L) \<Rightarrow>
        if allowed then
          (True, C\<lparr>conv_limiter := L, conversion_history :=
             dput user_id (filter (\<lambda>t. now - 3600 < t) (history_of C user_id @ [now])) (conversion_history C)\<rparr>)
        else (False, C\<lparr>conv_limiter := L\<rparr>))"

definition get_user_conversion_count :: "real \<Rightarrow> string \<Rightarrow> conversion_limiter \<Rightarrow> nat" where
  "get_user_conversion_count now user_id C = length (filter (\<lambda>t. now - 3600 < t) (history_of C user_id))"

section \<open>A sequence of requests\<close>

text \<open>How many of a limiter's requests, each at its instant, one key was granted.\<close>

fun granted :: "string \<Rightarrow> (real \<times> string) list \<Rightarrow> limiter \<Rightarrow> nat" where
  "granted key [] L = 0"
| "granted key ((now, user) # rs) L =
     (case acquire now user 1 L of (ok, L') \<Rightarrow>
        granted key rs L' + (if ok \<and> bucket_key L user = key then 1 else 0))"

lemma acquire_fixed:
  "calls_per_second (snd (acquire now u n L)) = calls_per_second L" "capacity (snd (acquire now u n L)) = capacity L"
  "per_user (snd (acquire now u n L)) = per_user L" "bucket_key (snd (acquire now u n L)) = bucket_key L"
  by (simp_all add: acquire_def bucket_key_def Let_def fun_eq_iff split: prod.splits)

lemma acquire_bucket:
  "dget (buckets (snd (acquire now u n L))) k =
     (if k = bucket_key L u
      then Some (snd (take_tokens (calls_per_second L) (capacity L) n now (dget (buckets L) k)))
      else dget (buckets L) k)"
  "fst (acquire now u n L) = fst (take_tokens (calls_per_second L) (capacity L) n now (dget (buckets L) (bucket_key L u)))"
  by (simp_all add: acquire_def Let_def update_conv' split: prod.splits)

text \<open>Requests under other keys do not matter to a key.\<close>

lemma granted_runs:
  "granted key rs L =
     fst (runs (take_tokens (calls_per_second L) (capacity L) 1)
       (map fst (filter (\<lambda>p. bucket_key L (snd p) = key) rs)) (dget (buckets L) key))"
proof (induction rs arbitrary: L)
  case Nil
  then show ?case by simp
next
  case (Cons r rs)
  obtain now u where r: "r = (now, u)" by (cases r)
  let ?L = "snd (acquire now u 1 L)" and ?take = "take_tokens (calls_per_second L) (capacity L) 1"
  have IH: "granted key rs ?L = fst (runs ?take (map fst (filter (\<lambda>p. bucket_key L (snd p) = key) rs))
      (dget (buckets ?L) key))"
    using Cons.IH [of ?L] by (simp only: acquire_fixed)
  have "granted key (r # rs) L = granted key rs ?L + (if fst (acquire now u 1 L) \<and> bucket_key L u = key then 1 else 0)"
    by (simp add: r case_prod_beta)
  then show ?case
    by (simp add: IH r acquire_bucket case_prod_beta)
qed

end
