(* ===== verification/WebLimiter.thy ===== *)
theory WebLimiter
  imports TokenBucket
begin

text \<open>
  \<open>utils/web_rate_limiter.py\<close>: the token buckets of the HTTP endpoints, one for each endpoint and
  client, with the bound on how many of them are kept.  A second provider of the contract
  \<open>token_bucket\<close>; the lock makes each method one step, so the methods are functions of the limiter.
\<close>

section \<open>The limiter\<close>

type_synonym web_key = "string \<times> string"

record web_limiter =
  web_buckets :: "(web_key, bucket) dict"
  bucket_ttl :: pyfloat
  max_buckets :: int
  endpoint_limits :: "(string, int \<times> int) dict"

definition default_limits :: "(string, int \<times> int) dict" where
  "default_limits =
     [(''status'', (5, 10)), (''download'', (2, 5)), (''events'', (5, 15)), (''sse'', (5, 15)),
      (''ws'', (5, 15)), (''search'', (10, 20)), (''health'', (10, 30)), (''upload'', (3, 10)),
      (''presign'', (3, 10)), (''enqueue_url'', (2, 5)), (''webhook'', (30, 60)), (''get_input'', (2, 5)),
      (''diag'', (1, 3)), (''debug_log'', (2, 5)), (''default'', (10, 20))]"

text \<open>The two settings as the environment has them; a text that is no number raises.\<close>

definition new_web_limiter :: "string option \<Rightarrow> string option \<Rightarrow> web_limiter option" where
  "new_web_limiter env_ttl env_max =
     (case (py_float (case env_ttl of None \<Rightarrow> ''600'' | Some s \<Rightarrow> s),
            py_int (case env_max of None \<Rightarrow> ''10000'' | Some s \<Rightarrow> s)) of
        (Some ttl, Some n) \<Rightarrow>
          Some \<lparr>web_buckets = [], bucket_ttl = ttl, max_buckets = max 16 n, endpoint_limits = default_limits\<rparr>
      | _ \<Rightarrow> None)"

text \<open>The table always has \<open>default\<close>; the value without it is never used.\<close>

definition get_limit :: "string \<Rightarrow> web_limiter \<Rightarrow> int \<times> int" where
  "get_limit endpoint W =
     (case dget (endpoint_limits W) endpoint of
        Some l \<Rightarrow> l
      | None \<Rightarrow> case dget (endpoint_limits W) ''default'' of Some l \<Rightarrow> l | None \<Rightarrow> (0, 0))"

definition web_key :: "string \<Rightarrow> string \<Rightarrow> web_key" where
  "web_key endpoint client_ip = (endpoint, if client_ip = [] then ''global'' else client_ip)"

definition web_take :: "real \<Rightarrow> real \<Rightarrow> real \<Rightarrow> bucket option \<Rightarrow> bool \<times> bucket" where
  "web_take cps burst now b =
     (let (tokens, last_refill) = (case b of None \<Rightarrow> (burst, now) | Some x \<Rightarrow> x);
          elapsed = now - last_refill;
          tokens = min burst (tokens + elapsed * cps) in
      if 1 \<le> tokens then (True, (tokens - 1, now)) else (False, (tokens, now)))"

text \<open>\<open>_prune_buckets\<close>: the buckets gone quiet, then, over the cap, all but the most recent half.\<close>

definition stale :: "pyfloat \<Rightarrow> real \<Rightarrow> real \<Rightarrow> bool" where
  "stale ttl now seen = (case ttl of Fin x \<Rightarrow> 0 < x \<and> seen < now - x | _ \<Rightarrow> False)"

definition prune_buckets :: "real \<Rightarrow> web_limiter \<Rightarrow> int \<times> web_limiter" where
  "prune_buckets now W =
     (let B = web_buckets W;
          B1 = filter (\<lambda>(k, (tokens, seen)). \<not> stale (bucket_ttl W) now seen) B;
          removed = int (length B) - int (length B1) in
      if max_buckets W < int (length B1) then
        let keep = take (nat (max_buckets W div 2)) (sort_key (\<lambda>(k, (tokens, seen)). - seen) B1)
        in (removed + (int (length B1) - int (length keep)), W\<lparr>web_buckets := keep\<rparr>)
      else (removed, W\<lparr>web_buckets := B1\<rparr>))"

definition check_limit :: "real \<Rightarrow> string \<Rightarrow> string \<Rightarrow> web_limiter \<Rightarrow> bool \<times> web_limiter" where
  "check_limit now endpoint client_ip W =
     (let key = web_key endpoint client_ip in
      case get_limit endpoint W of (cps, burst) \<Rightarrow>
      case web_take (of_int cps) (of_int burst) now (dget (web_buckets W) key) of (allowed, b) \<Rightarrow>
        let W' = W\<lparr>web_buckets := dput key b (web_buckets W)\<rparr> in
        (allowed, if max_buckets W' < int (length (web_buckets W')) then snd (prune_buckets now W') else W'))"

definition web_prune :: "real \<Rightarrow> web_limiter \<Rightarrow> int \<times> web_limiter" where
  "web_prune now W = prune_buckets now W"

definition get_retry_after :: "string \<Rightarrow> string \<Rightarrow> web_limiter \<Rightarrow> real" where
  "get_retry_after endpoint client_ip W =
     (let tokens = (case dget (web_buckets W) (web_key endpoint client_ip) of None \<Rightarrow> 0 | Some (t, _) \<Rightarrow> t);
          cps = fst (get_limit endpoint W) in
      if 1 \<le> tokens then 0
      else if cps \<le> 0 then 1
      else (1 - tokens) / of_int cps)"

definition round2 :: "real \<Rightarrow> real" where
  "round2 x = of_int (py_round (x * 100)) / 100"

definition web_stats :: "real \<Rightarrow> web_limiter \<Rightarrow> (string, real \<times> real \<times> real) dict" where
  "web_stats now W =
     fold (\<lambda>((endpoint, ip), (tokens, last_refill)) stats.
         dput (endpoint @ '':'' @ ip) (round2 tokens, round2 last_refill, round2 (now - last_refill)) stats)
       (web_buckets W) []"

section \<open>Who is asking, and the refusal\<close>

text \<open>
  A request as the function sees it: its header lookup (\<open>None\<close> where reading it raises), the
  attribute \<open>remote_addr\<close>, and \<open>client\<close>, an object with or without a host or a sequence.
\<close>

datatype web_client = Client "string option" string | ClientSeq "string list"

record web_request =
  header :: "(string \<Rightarrow> string option) option"
  remote_addr :: "string option"
  client :: "web_client option"

definition get_client_ip :: "web_request option \<Rightarrow> string" where
  "get_client_ip request =
     (case request of
        None \<Rightarrow> ''unknown''
      | Some r \<Rightarrow>
      case header r of
        None \<Rightarrow> ''unknown''
      | Some h \<Rightarrow>
          let forwarded = (case h ''X-Forwarded-For'' of None \<Rightarrow> [] | Some s \<Rightarrow> s);
              real_ip = (case h ''X-Real-IP'' of None \<Rightarrow> [] | Some s \<Rightarrow> s);
              remote = (case remote_addr r of None \<Rightarrow> [] | Some s \<Rightarrow> s) in
          if forwarded \<noteq> [] \<and> CHR '','' \<in> set forwarded then strip (hd (split_on (CHR '','') forwarded))
          else if forwarded \<noteq> [] then strip forwarded
          else if real_ip \<noteq> [] then strip real_ip
          else if remote \<noteq> [] then remote
          else case client r of
            None \<Rightarrow> ''unknown''
          | Some (ClientSeq xs) \<Rightarrow> (case xs of [] \<Rightarrow> ''unknown'' | x # _ \<Rightarrow> x)
          | Some (Client host shown) \<Rightarrow> (case host of Some h \<Rightarrow> if h \<noteq> [] then h else shown | None \<Rightarrow> shown))"

definition make_rate_limit_response ::
    "string \<Rightarrow> string \<Rightarrow> web_limiter \<Rightarrow> (string, string) dict \<times> int \<times> (string, string) dict" where
  "make_rate_limit_response endpoint client_ip W =
     (let wait = int_str (py_trunc (get_retry_after endpoint client_ip W) + 1) in
      ([(''error'', ''rate_limited''), (''detail'', ''Too many requests. Retry after '' @ wait @ '' seconds.'')],
       429,
       [(''Retry-After'', wait), (''X-RateLimit-Limit'', int_str (fst (get_limit endpoint W))),
        (''X-RateLimit-Remaining'', ''0'')]))"

section \<open>The buckets keep the contract\<close>

lemma web_take_bucket:
  assumes "0 \<le> rate" "1 \<le> cap"
  shows "token_bucket rate cap (web_take rate cap)"
  by unfold_locales
    (use assms in \<open>auto simp: web_take_def available_def Let_def split: option.splits prod.splits\<close>)

interpretation download_bucket: token_bucket 2 5 "web_take 2 5"
  by (rule web_take_bucket) simp_all

text \<open>
  A limiter in use: its table is one of limits that are at least one, with the ratio of burst to
  rate below the time after which a bucket is dropped, and its buckets are within them.
\<close>

definition limit_fits :: "pyfloat \<Rightarrow> int \<times> int \<Rightarrow> bool" where
  "limit_fits ttl l =
     (case l of (cps, burst) \<Rightarrow> 1 \<le> cps \<and> 1 \<le> burst \<and>
        (case ttl of Fin x \<Rightarrow> 0 < x \<longrightarrow> of_int burst \<le> x * of_int cps | _ \<Rightarrow> True))"

definition web_ok :: "real \<Rightarrow> web_limiter \<Rightarrow> bool" where
  "web_ok now W \<longleftrightarrow>
     1 < max_buckets W \<and> dget (endpoint_limits W) ''default'' \<noteq> None \<and>
     (\<forall>(e, l) \<in> set (endpoint_limits W). limit_fits (bucket_ttl W) l) \<and>
     distinct (map fst (web_buckets W)) \<and>
     (\<forall>((e, ip), b) \<in> set (web_buckets W). holds (of_int (snd (get_limit e W))) now (Some b))"

lemma web_ok_limit:
  assumes "web_ok now W"
  shows "limit_fits (bucket_ttl W) (get_limit e W)"
proof -
  obtain l where "(''default'', l) \<in> set (endpoint_limits W)" "dget (endpoint_limits W) ''default'' = Some l"
    using assms map_of_SomeD [of "endpoint_limits W"] by (auto simp: web_ok_def)
  then show ?thesis
    using assms map_of_SomeD [of "endpoint_limits W" e]
    by (fastforce simp: web_ok_def get_limit_def split: option.splits)
qed

lemma web_ok_bucket:
  "web_ok now W \<Longrightarrow> holds (of_int (snd (get_limit e W))) now (dget (web_buckets W) (e, ip))"
  by (cases "dget (web_buckets W) (e, ip)") (auto simp: web_ok_def dest!: map_of_SomeD)

lemma web_ok_take:
  "web_ok now W \<Longrightarrow>
    token_bucket (of_int (fst (get_limit e W))) (of_int (snd (get_limit e W)))
      (web_take (of_int (fst (get_limit e W))) (of_int (snd (get_limit e W))))"
  using web_ok_limit [of now W e]
  by (intro web_take_bucket) (auto simp: limit_fits_def split: prod.splits)

end
