(* ===== verification/WebLimiterResults.thy ===== *)
theory WebLimiterResults
  imports WebLimiter
begin

text \<open>
  What the endpoint limiter guarantees: the number of buckets is bounded whatever clients send,
  dropping a quiet bucket is not noticeable, one client of an endpoint is admitted at most burst
  plus rate times time, and the \<open>Retry-After\<close> of a refusal is a time at which the client is served.
\<close>

section \<open>Pruning\<close>

text \<open>The settings never change, so the limits do not.\<close>

lemma get_limit_cong: "endpoint_limits V = endpoint_limits W \<Longrightarrow> get_limit e V = get_limit e W"
  by (simp add: get_limit_def cong: option.case_cong)

lemma prune_settings [simp]:
  "bucket_ttl (snd (prune_buckets now W)) = bucket_ttl W"
  "max_buckets (snd (prune_buckets now W)) = max_buckets W"
  "endpoint_limits (snd (prune_buckets now W)) = endpoint_limits W"
  by (simp_all add: prune_buckets_def Let_def)

lemma prune_limit [simp]: "get_limit e (snd (prune_buckets now W)) = get_limit e W"
  by (rule get_limit_cong) simp

lemma prune_length:
  "0 \<le> max_buckets W \<Longrightarrow> int (length (web_buckets (snd (prune_buckets now W)))) \<le> max_buckets W"
  by (auto simp: prune_buckets_def Let_def min_def)

lemma prune_subset: "set (web_buckets (snd (prune_buckets now W))) \<subseteq> set (web_buckets W)"
  by (auto simp: prune_buckets_def Let_def dest: in_set_takeD)

lemma prune_distinct:
  assumes "distinct (map fst (web_buckets W))"
  shows "distinct (map fst (web_buckets (snd (prune_buckets now W))))"
proof -
  let ?f = "filter (\<lambda>(k, (tokens, seen)). \<not> stale (bucket_ttl W) now seen) (web_buckets W)"
  have d: "distinct (map fst ?f)" using assms by (rule distinct_map_filter)
  have "distinct (map fst (sort_key g ?f))" for g :: "web_key \<times> bucket \<Rightarrow> real"
    using d by (simp add: distinct_map)
  then show ?thesis
    using d by (auto simp: prune_buckets_def Let_def take_map [symmetric] simp del: distinct_map_filter)
qed

lemma prune_ok: "web_ok now W \<Longrightarrow> web_ok now (snd (prune_buckets now W))"
  using prune_distinct [of W now] prune_subset [of now W] unfolding web_ok_def prune_settings prune_limit by blast

definition stepped :: "real \<Rightarrow> string \<Rightarrow> string \<Rightarrow> web_limiter \<Rightarrow> web_limiter" where
  "stepped now e ip W =
     W\<lparr>web_buckets := dput (web_key e ip)
        (snd (web_take (of_int (fst (get_limit e W))) (of_int (snd (get_limit e W))) now
          (dget (web_buckets W) (web_key e ip)))) (web_buckets W)\<rparr>"

lemma stepped_settings [simp]:
  "bucket_ttl (stepped now e ip W) = bucket_ttl W"
  "max_buckets (stepped now e ip W) = max_buckets W"
  "endpoint_limits (stepped now e ip W) = endpoint_limits W"
  by (simp_all add: stepped_def)

lemma stepped_limit [simp]: "get_limit e' (stepped now e ip W) = get_limit e' W"
  by (rule get_limit_cong) simp

lemma check_limit_eq:
  "check_limit now e ip W =
     (fst (web_take (of_int (fst (get_limit e W))) (of_int (snd (get_limit e W))) now
        (dget (web_buckets W) (web_key e ip))),
      if max_buckets W < int (length (web_buckets (stepped now e ip W)))
      then snd (prune_buckets now (stepped now e ip W)) else stepped now e ip W)"
  by (simp add: check_limit_def stepped_def Let_def split: prod.splits)

lemma check_settings [simp]:
  "bucket_ttl (snd (check_limit now e ip W)) = bucket_ttl W"
  "max_buckets (snd (check_limit now e ip W)) = max_buckets W"
  "endpoint_limits (snd (check_limit now e ip W)) = endpoint_limits W"
  by (simp_all add: check_limit_eq)

lemma check_limit_limit [simp]: "get_limit e' (snd (check_limit now e ip W)) = get_limit e' W"
  by (rule get_limit_cong) simp

lemma web_ok_later: "web_ok now W \<Longrightarrow> now \<le> now' \<Longrightarrow> web_ok now' W"
  by (fastforce simp: web_ok_def)

lemma stepped_ok:
  assumes "web_ok now W"
  shows "web_ok now (stepped now e ip W)"
proof -
  obtain ip' where key: "web_key e ip = (e, ip')" by (simp add: web_key_def)
  have "holds (of_int (snd (get_limit e W))) now (Some (snd (web_take (of_int (fst (get_limit e W)))
      (of_int (snd (get_limit e W))) now (dget (web_buckets W) (web_key e ip)))))"
    by (rule token_bucket.holds_step [OF web_ok_take [OF assms]])
      (use web_ok_bucket [OF assms, of e ip'] in \<open>simp_all add: key\<close>)
  then show ?thesis
    using assms unfolding key web_ok_def stepped_limit by (auto simp: stepped_def key distinct_update dest!: in_dput)
qed

lemma check_limit_ok: "web_ok now W \<Longrightarrow> web_ok now (snd (check_limit now e ip W))"
  by (simp add: check_limit_eq stepped_ok prune_ok)

text \<open>
  However many clients, real or invented, call the endpoints, the limiter never keeps more
  buckets than its cap, and every bucket stays within its endpoint's burst.
\<close>

lemma buckets_bounded:
  assumes "web_ok now W" "now \<le> now'" "int (length (web_buckets W)) \<le> max_buckets W"
  shows "int (length (web_buckets (snd (check_limit now' e ip W)))) \<le> max_buckets W \<and>
    web_ok now' (snd (check_limit now' e ip W))"
proof -
  have "0 \<le> max_buckets (stepped now' e ip W)" using assms(1) by (simp add: web_ok_def stepped_def)
  then show ?thesis
    using check_limit_ok [OF web_ok_later [OF assms(1,2)]] prune_length [of "stepped now' e ip W" now']
    by (auto simp: check_limit_eq stepped_def)
qed

lemma buckets_bounded_witness:
  "\<exists>W. new_web_limiter None None = Some W \<and>
    int (length (web_buckets (snd (check_limit 5 ''status'' ''10.0.0.1'' W)))) \<le> 10000"
proof -
  have "py_float ''600'' = Some (Fin 600)" by code_simp
  moreover have "py_int ''10000'' = Some 10000" by code_simp
  ultimately have W: "new_web_limiter None None =
      Some \<lparr>web_buckets = [], bucket_ttl = Fin 600, max_buckets = 10000, endpoint_limits = default_limits\<rparr>" (is "_ = Some ?W")
    by (simp add: new_web_limiter_def)
  have "web_ok 0 ?W" by (simp add: web_ok_def default_limits_def limit_fits_def)
  then show ?thesis using buckets_bounded [of 0 ?W 5 "''status''" "''10.0.0.1''"] W by simp
qed

section \<open>Forgetting a quiet bucket\<close>

lemma stale_full:
  assumes "web_ok now W" "dget (web_buckets W) (e, ip) = Some (x, seen)" "stale (bucket_ttl W) now seen" "now \<le> now'"
  shows "of_int (snd (get_limit e W)) \<le> (now' - seen) * of_int (fst (get_limit e W))"
proof -
  obtain ttl where ttl: "bucket_ttl W = Fin ttl" "0 < ttl" "seen < now - ttl"
    using assms(3) by (auto simp: stale_def split: pyfloat.splits)
  have fit: "of_int (snd (get_limit e W)) \<le> ttl * of_int (fst (get_limit e W))" "1 \<le> fst (get_limit e W)"
    using web_ok_limit [OF assms(1), of e] ttl by (auto simp: limit_fits_def split: prod.splits)
  have "ttl * of_int (fst (get_limit e W)) \<le> (now' - seen) * of_int (fst (get_limit e W))"
    using ttl assms(4) fit(2) by (intro mult_right_mono) auto
  with fit(1) show ?thesis by linarith
qed

text \<open>
  C29: Dropping the quiet buckets changes no decision: as long as the cap is not exceeded, every
  later request of every client is answered, and charged, as if nothing had been dropped.
\<close>

lemma prune_unnoticed:
  assumes "web_ok now W" "int (length (web_buckets W)) \<le> max_buckets W" "now \<le> now'"
  shows "let W' = snd (web_prune now W) in
    fst (check_limit now' e ip W') = fst (check_limit now' e ip W) \<and>
    dget (web_buckets (stepped now' e ip W')) (web_key e ip) = dget (web_buckets (stepped now' e ip W)) (web_key e ip)"
proof -
  let ?keep = "\<lambda>(k, (tokens, seen)). \<not> stale (bucket_ttl W) now seen"
  let ?W = "snd (web_prune now W)" and ?cps = "real_of_int (fst (get_limit e W))" and ?burst = "real_of_int (snd (get_limit e W))"
  obtain ip' where key: "web_key e ip = (e, ip')" by (simp add: web_key_def)
  have "\<not> max_buckets W < int (length (filter ?keep (web_buckets W)))"
    using length_filter_le [of ?keep "web_buckets W"] assms(2) by linarith
  then have "web_buckets ?W = filter ?keep (web_buckets W)"
    by (simp add: web_prune_def prune_buckets_def Let_def)
  then have got: "dget (web_buckets ?W) (e, ip') = (case dget (web_buckets W) (e, ip') of
      Some v \<Rightarrow> if ?keep ((e, ip'), v) then Some v else None | None \<Rightarrow> None)"
    using assms(1) by (simp add: web_ok_def dget_filter)
  have "web_take ?cps ?burst now' (dget (web_buckets ?W) (e, ip')) = web_take ?cps ?burst now' (dget (web_buckets W) (e, ip'))"
  proof (cases "dget (web_buckets W) (e, ip')")
    case None
    then show ?thesis by (simp add: got)
  next
    case (Some v)
    obtain x seen where v: "v = (x, seen)" by (cases v)
    show ?thesis
    proof (cases "stale (bucket_ttl W) now seen")
      case False
      then show ?thesis using Some v by (simp add: got)
    next
      case True
      have "web_take ?cps ?burst now' (Some (x, seen)) = web_take ?cps ?burst now' None"
      proof (rule token_bucket.idle_is_full [OF web_ok_take [OF assms(1)]])
        show "holds ?burst now' (Some (x, seen))"
          using web_ok_bucket [OF assms(1), of e ip'] assms(3) Some v by simp
        show "?burst \<le> (now' - seen) * ?cps"
          by (rule stale_full [OF assms(1) _ True assms(3)]) (use Some v in simp)
      qed
      then show ?thesis using Some v True by (simp add: got)
    qed
  qed
  then show ?thesis
    by (simp add: Let_def check_limit_eq stepped_def key web_prune_def cong: get_limit_cong)
qed

text \<open>A limiter with one quiet bucket and two in use.\<close>

definition demo_web :: web_limiter where
  "demo_web = \<lparr>web_buckets = [((''diag'', ''10.0.0.1''), (0, 0)), ((''diag'', ''10.0.0.2''), (1, 700)),
       ((''diag'', ''10.0.0.3''), (0, 700))],
     bucket_ttl = Fin 600, max_buckets = 16, endpoint_limits = default_limits\<rparr>"

lemma demo_web_ok: "web_ok 700 demo_web"
  by (simp add: web_ok_def demo_web_def default_limits_def limit_fits_def get_limit_def)

lemma prune_unnoticed_witness:
  "fst (check_limit 701 ''diag'' ''10.0.0.1'' (snd (web_prune 700 demo_web))) =
   fst (check_limit 701 ''diag'' ''10.0.0.1'' demo_web)"
  using prune_unnoticed [OF demo_web_ok, of 701 "''diag''" "''10.0.0.1''"] by (simp add: Let_def demo_web_def)

section \<open>How much one client gets\<close>

text \<open>The answers to one client of one endpoint among a sequence of requests.\<close>

fun web_granted :: "web_key \<Rightarrow> (real \<times> string \<times> string) list \<Rightarrow> web_limiter \<Rightarrow> nat" where
  "web_granted key [] W = 0"
| "web_granted key ((now, e, ip) # rs) W =
     (case check_limit now e ip W of (ok, W') \<Rightarrow>
        web_granted key rs W' + (if ok \<and> web_key e ip = key then 1 else 0))"

lemma web_granted_runs:
  assumes "int (length (web_buckets W) + length rs) \<le> max_buckets W"
  shows "web_granted (e, ip) rs W =
     fst (runs (web_take (of_int (fst (get_limit e W))) (of_int (snd (get_limit e W))))
       (map fst (filter (\<lambda>r. web_key (fst (snd r)) (snd (snd r)) = (e, ip)) rs)) (dget (web_buckets W) (e, ip)))"
  using assms
proof (induction rs arbitrary: W)
  case Nil
  then show ?case by simp
next
  case (Cons r rs)
  obtain now e' ip' where r: "r = (now, e', ip')" by (cases r)
  let ?W = "stepped now e' ip' W"
  have "length (web_buckets ?W) \<le> Suc (length (web_buckets W))" by (simp add: stepped_def length_dput_le)
  then have len: "int (length (web_buckets ?W) + length rs) \<le> max_buckets W" using Cons.prems by simp
  then have next_W: "snd (check_limit now e' ip' W) = ?W" by (simp add: check_limit_eq)
  have IH: "web_granted (e, ip) rs ?W = fst (runs (web_take (of_int (fst (get_limit e W))) (of_int (snd (get_limit e W))))
       (map fst (filter (\<lambda>r. web_key (fst (snd r)) (snd (snd r)) = (e, ip)) rs)) (dget (web_buckets ?W) (e, ip)))"
    using Cons.IH [of ?W] len by simp
  have e: "web_key e' ip' = (e, ip) \<Longrightarrow> e' = e" by (simp add: web_key_def)
  have "web_granted (e, ip) (r # rs) W =
      web_granted (e, ip) rs ?W + (if fst (check_limit now e' ip' W) \<and> web_key e' ip' = (e, ip) then 1 else 0)"
    by (simp add: r next_W [symmetric] case_prod_beta)
  then show ?case
    unfolding IH using e by (auto simp: r check_limit_eq stepped_def case_prod_beta)
qed

text \<open>
  One client of an endpoint is admitted at most the burst plus the rate times the time that
  passed, whatever other clients do, as long as the number of clients stays under the cap.
\<close>

lemma client_bounded:
  assumes "web_ok t0 W" "int (length (web_buckets W) + length rs) \<le> max_buckets W"
    and "sorted (map fst rs)" "set (map fst rs) \<subseteq> {t0..t1}" "t0 \<le> t1"
  shows "real (web_granted (e, ip) rs W) \<le>
    of_int (snd (get_limit e W)) + (t1 - t0) * of_int (fst (get_limit e W))"
  unfolding web_granted_runs [OF assms(2)]
  by (rule token_bucket.admitted_window [OF web_ok_take [OF assms(1)]])
    (use assms web_ok_bucket in \<open>auto simp: sorted_map sorted_wrt_filter\<close>)

lemma client_bounded_witness:
  "real (web_granted (''diag'', ''10.0.0.1'')
     [(700, ''diag'', ''10.0.0.1''), (700, ''diag'', ''10.0.0.2''), (701, ''diag'', ''10.0.0.1'')] demo_web) \<le> 4"
  using client_bounded [OF demo_web_ok, of "[(700, ''diag'', ''10.0.0.1''), (700, ''diag'', ''10.0.0.2''),
    (701, ''diag'', ''10.0.0.1'')]" 701 "''diag''" "''10.0.0.1''"]
  by (simp add: demo_web_def get_limit_def default_limits_def)

section \<open>The time a refusal names\<close>

text \<open>
  The \<open>Retry-After\<close> a refused client is given is honest: it is positive, and asking again once
  those seconds have passed succeeds (other clients may have asked in between).
\<close>

lemma retry_after_served:
  assumes "web_ok now W" "int (length (web_buckets W)) < max_buckets W" "\<not> fst (check_limit now e ip W)"
    and "W' = snd (check_limit now e ip W)" "now + of_int (py_trunc (get_retry_after e ip W') + 1) \<le> now'"
  shows "0 < get_retry_after e ip W' \<and> fst (check_limit now' e ip W')"
proof -
  let ?cps = "real_of_int (fst (get_limit e W))" and ?burst = "real_of_int (snd (get_limit e W))"
  obtain ip' where key: "web_key e ip = (e, ip')" by (simp add: web_key_def)
  let ?b = "dget (web_buckets W) (e, ip')"
  let ?x = "available ?cps ?burst ?b now"
  note bucket = web_ok_take [OF assms(1), of e]
  have fit: "1 \<le> ?cps" "1 \<le> ?burst" using web_ok_limit [OF assms(1), of e] by (auto simp: limit_fits_def split: prod.splits)
  have "length (web_buckets (stepped now e ip W)) \<le> Suc (length (web_buckets W))"
    by (simp add: stepped_def length_dput_le)
  then have W': "W' = stepped now e ip W" using assms(2,4) by (simp add: check_limit_eq)
  have no: "\<not> fst (web_take ?cps ?burst now ?b)" using assms(3) by (simp add: check_limit_eq key)
  then have x: "?x < 1" using token_bucket.admits [OF bucket] by simp
  have b': "dget (web_buckets W') (e, ip') = Some (?x, now)"
    using token_bucket.leaves [OF bucket, of now ?b] no by (simp add: W' stepped_def key)
  have wait: "get_retry_after e ip W' = (1 - ?x) / ?cps"
    using x fit by (simp add: get_retry_after_def key b' Let_def) (simp add: W')
  then have pos: "0 < get_retry_after e ip W'" using x fit by simp
  then have "get_retry_after e ip W' \<le> now' - now"
    using assms(5) by (simp add: py_trunc_def) linarith
  then have "1 - ?x \<le> (now' - now) * ?cps" using fit wait by (simp add: pos_divide_le_eq)
  then have "1 \<le> available ?cps ?burst (Some (?x, now)) now'" using fit by (simp add: available_def)
  then have "fst (web_take ?cps ?burst now' (Some (?x, now)))" using token_bucket.admits [OF bucket] by simp
  then show ?thesis using pos by (simp add: check_limit_eq key b') (simp add: W')
qed

lemma retry_after_served_witness:
  "fst (check_limit 702 ''diag'' ''10.0.0.3'' (snd (check_limit 700 ''diag'' ''10.0.0.3'' demo_web)))"
proof -
  have "\<not> fst (check_limit 700 ''diag'' ''10.0.0.3'' demo_web)"
    by (simp add: check_limit_eq demo_web_def web_key_def web_take_def get_limit_def default_limits_def)
  moreover have "get_retry_after ''diag'' ''10.0.0.3'' (snd (check_limit 700 ''diag'' ''10.0.0.3'' demo_web)) = 1"
    by (simp add: check_limit_eq stepped_def demo_web_def web_key_def web_take_def get_limit_def default_limits_def
      get_retry_after_def)
  ultimately show ?thesis
    using retry_after_served [OF demo_web_ok, of "''diag''" "''10.0.0.3''" _ 702]
    by (simp add: demo_web_def py_trunc_def)
qed

end
