(* ===== verification/TokenBucketResults.thy ===== *)
theory TokenBucketResults
  imports TokenBucket
begin

text \<open>
  What the token buckets of \<open>utils/rate_limiter.py\<close> guarantee: their invariant, the bound on what
  one key is granted, that a waiting caller is served, and what the conversion limiter built on
  them does to a user's second conversion.
\<close>

section \<open>A limiter between calls\<close>

definition limiter_ok :: "real \<Rightarrow> limiter \<Rightarrow> bool" where
  "limiter_ok now L \<longleftrightarrow>
     0 \<le> calls_per_second L \<and> 1 \<le> capacity L \<and> (\<forall>(k, b) \<in> set (buckets L). holds (capacity L) now (Some b))"

lemma limiter_ok_bucket: "limiter_ok now L \<Longrightarrow> holds (capacity L) now (dget (buckets L) k)"
  by (cases "dget (buckets L) k") (auto simp: limiter_ok_def dest: map_of_SomeD)

lemma limiter_ok_new: "0 \<le> cps \<Longrightarrow> limiter_ok now (new_limiter cps pu)"
  by (simp add: limiter_ok_def new_limiter_def)

lemma limiter_ok_later: "limiter_ok now L \<Longrightarrow> now \<le> now' \<Longrightarrow> limiter_ok now' L"
  by (fastforce simp: limiter_ok_def)

lemma take_tokens_holds:
  assumes "0 \<le> rate" "0 \<le> cap" "0 \<le> n" "holds cap now b"
  shows "holds cap now (Some (snd (take_tokens rate cap n now b)))"
  using assms by (auto simp: take_tokens_def Let_def split: option.splits)

lemma acquire_ok:
  assumes "limiter_ok now L" "0 \<le> n"
  shows "limiter_ok now (snd (acquire now u n L))"
proof -
  let ?b = "snd (take_tokens (calls_per_second L) (capacity L) n now (dget (buckets L) (bucket_key L u)))"
  have "holds (capacity L) now (Some ?b)"
    by (rule take_tokens_holds) (use assms limiter_ok_bucket [OF assms(1)] in \<open>auto simp: limiter_ok_def\<close>)
  moreover have "buckets (snd (acquire now u n L)) = dput (bucket_key L u) ?b (buckets L)"
    by (simp add: acquire_def Let_def split: prod.split)
  ultimately show ?thesis
    using assms(1) unfolding limiter_ok_def acquire_fixed by (auto dest!: in_dput)
qed

text \<open>
  Whatever is asked of a limiter and whenever, every bucket stays between nothing and
  the capacity and is dated no later than the present; rate, capacity and keying never change.
\<close>

lemma bucket_invariant:
  assumes "limiter_ok now L" "now \<le> now'" "0 \<le> n"
  shows "limiter_ok now' (snd (acquire now' u n L)) \<and>
    (\<forall>k. k \<noteq> bucket_key L u \<longrightarrow> dget (buckets (snd (acquire now' u n L))) k = dget (buckets L) k)"
  using acquire_ok [OF limiter_ok_later [OF assms(1,2)] assms(3), of u] by (simp add: acquire_bucket)

lemma bucket_invariant_witness:
  "limiter_ok 3 (snd (acquire 3 ''7'' 1 (new_limiter 1 True)))"
  using bucket_invariant [of 2 "new_limiter 1 True" 3 1 "''7''"] by (simp add: limiter_ok_new)

text \<open>
  C28: Over any stretch of time one key is granted at most the bucket's capacity plus the rate
  times the length of the stretch, whatever the other keys ask for in between, and from any state
  the limiter can be in.
\<close>

lemma grants_bounded:
  assumes "limiter_ok t0 L" and "sorted (map fst rs)" and "set (map fst rs) \<subseteq> {t0..t1}" and "t0 \<le> t1"
  shows "real (granted key rs L) \<le> capacity L + (t1 - t0) * calls_per_second L"
proof -
  have bucket: "token_bucket (calls_per_second L) (capacity L) (take_tokens (calls_per_second L) (capacity L) 1)"
    by (rule take_tokens_bucket) (use assms(1) in \<open>auto simp: limiter_ok_def\<close>)
  show ?thesis unfolding granted_runs
    by (rule token_bucket.admitted_window [OF bucket])
      (use assms limiter_ok_bucket in \<open>auto simp: sorted_map sorted_wrt_filter\<close>)
qed

lemma grants_bounded_witness:
  "real (granted ''7'' [(0, ''7''), (0, ''8''), (1/2, ''7''), (1, ''7'')] (new_limiter 1 True)) \<le> 2"
  using grants_bounded [of 0 "new_limiter 1 True" "[(0, ''7''), (0, ''8''), (1/2, ''7''), (1, ''7'')]" 1 "''7''"]
  by (simp add: limiter_ok_new) (simp add: new_limiter_def)

section \<open>Waiting\<close>

lemma take_tokens_fst: "fst (take_tokens rate cap n now b) \<longleftrightarrow> n \<le> available rate cap b now"
  and take_tokens_refused:
    "\<not> fst (take_tokens rate cap n now b) \<Longrightarrow> snd (take_tokens rate cap n now b) = (available rate cap b now, now)"
  by (auto simp: take_tokens_def available_def Let_def split: option.splits prod.splits if_splits)

text \<open>Each refusal leaves at least a hundredth of a second's worth of tokens more.\<close>

lemma wait_from_returns:
  assumes "\<forall>j. tick j + 1 / 100 \<le> tick (Suc j)" and "0 < calls_per_second L" and "n \<le> capacity L"
    and "n - available (calls_per_second L) (capacity L) (dget (buckets L) (bucket_key L u)) (tick i)
          \<le> real m * (calls_per_second L / 100)"
  shows "\<exists>k L'. k \<le> i + m \<and> wait_from tick u n i L = Some (k, L')"
  using assms
proof (induction m arbitrary: i L)
  case 0
  then have "fst (acquire (tick i) u n L)" by (simp add: acquire_bucket take_tokens_fst)
  then show ?case by (subst wait_from.simps) (simp add: Let_def)
next
  case (Suc m)
  let ?r = "acquire (tick i) u n L" and ?cps = "calls_per_second L" and ?cap = "capacity L"
  let ?b = "dget (buckets L) (bucket_key L u)"
  show ?case
  proof (cases "fst ?r")
    case True
    then show ?thesis by (subst wait_from.simps) (simp add: Let_def)
  next
    case False
    then have b: "dget (buckets (snd ?r)) (bucket_key L u) = Some (available ?cps ?cap ?b (tick i), tick i)"
      by (simp add: acquire_bucket take_tokens_refused)
    have gained: "?cps / 100 \<le> (tick (Suc i) - tick i) * ?cps"
      using Suc.prems(1,2) mult_right_mono [of "1 / 100" "tick (Suc i) - tick i" ?cps] by (simp add: algebra_simps)
    have "0 \<le> real m * (?cps / 100)" using Suc.prems(2) by simp
    moreover have "real (Suc m) * (?cps / 100) = real m * (?cps / 100) + ?cps / 100" by (simp add: field_simps)
    ultimately have "n - min ?cap (available ?cps ?cap ?b (tick i) + (tick (Suc i) - tick i) * ?cps) \<le> real m * (?cps / 100)"
      using gained Suc.prems(3,4) by linarith
    then have "n - available ?cps ?cap (Some (available ?cps ?cap ?b (tick i), tick i)) (tick (Suc i))
        \<le> real m * (?cps / 100)"
      by (simp add: available_def [of _ _ "Some _"])
    then have "\<exists>k L'. k \<le> Suc i + m \<and> wait_from tick u n (Suc i) (snd ?r) = Some (k, L')"
      by (intro Suc.IH) (use Suc.prems in \<open>simp_all add: acquire_fixed b\<close>)
    then show ?thesis using False by (subst wait_from.simps) (auto simp: Let_def)
  qed
qed

text \<open>
  A caller that waits is served: when no more tokens are asked for than the bucket can hold and
  the attempts are at least the 0.01 s of the sleep apart, \<open>wait_if_needed\<close> returns, after at most
  as many attempts as the rate needs to fill the bucket with what was asked.
\<close>

lemma wait_returns:
  assumes "limiter_ok (tick 0) L" and "0 < calls_per_second L" and "n \<le> capacity L"
    and "\<forall>j. tick j + 1 / 100 \<le> tick (Suc j)"
  shows "\<exists>k L'. k \<le> nat \<lceil>n / (calls_per_second L / 100)\<rceil> \<and> wait_if_needed tick u n L = Some (tick k - tick 0, L')"
proof -
  let ?cps = "calls_per_second L"
  let ?a = "available ?cps (capacity L) (dget (buckets L) (bucket_key L u)) (tick 0)"
  have "0 \<le> ?a"
    using limiter_ok_bucket [OF assms(1), of "bucket_key L u"] assms(1)
    by (auto simp: available_def limiter_ok_def split: option.splits)
  moreover have "n \<le> real (nat \<lceil>n / (?cps / 100)\<rceil>) * (?cps / 100)"
    using assms(2) by (subst pos_divide_le_eq [symmetric]) (auto intro: real_nat_ceiling_ge)
  ultimately have "n - ?a \<le> real (nat \<lceil>n / (?cps / 100)\<rceil>) * (?cps / 100)" by linarith
  then obtain k L' where "k \<le> 0 + nat \<lceil>n / (?cps / 100)\<rceil>" "wait_from tick u n 0 L = Some (k, L')"
    using wait_from_returns [OF assms(4,2,3), of u 0 "nat \<lceil>n / (?cps / 100)\<rceil>"] by auto
  then show ?thesis by (auto simp: wait_if_needed_def)
qed

lemma wait_returns_witness:
  "\<exists>k L'. k \<le> 100 \<and> wait_if_needed (\<lambda>i. real i / 50) ''7'' 1 (new_limiter 1 True) = Some (real k / 50, L')"
  using wait_returns [of "\<lambda>i. real i / 50" "new_limiter 1 True" 1 "''7''"]
  by (simp add: limiter_ok_new) (simp add: new_limiter_def field_simps)

section \<open>The conversion limiter\<close>

text \<open>
  A limit of \<open>n\<close> conversions an hour, \<open>n\<close> at least 2 and at most 3600, does not let a user start
  two conversions less than \<open>3600 / n\<close> seconds apart: the second start is refused, with one
  start of the hour's \<open>n\<close> used, and although \<open>can_convert\<close> has just said that it is allowed.
\<close>

lemma second_conversion_refused:
  assumes "2 \<le> n" "n \<le> 3600" "t \<le> t'" "(t' - t) * of_int n < 3600"
  shows "fst (mark_conversion_started t u (new_conversion_limiter n)) \<and>
    (let C = snd (mark_conversion_started t u (new_conversion_limiter n)) in
      can_convert t' u C = None \<and> get_user_conversion_count t' u C = 1 \<and> \<not> fst (mark_conversion_started t' u C))"
proof -
  have near: "t' - t < 3600"
  proof (rule ccontr)
    assume "\<not> t' - t < 3600"
    then have "3600 * 1 \<le> (t' - t) * of_int n" using assms(1) by (intro mult_mono) auto
    then show False using assms(4) by simp
  qed
  have "of_int n / 3600 \<le> (1 :: real)" using assms(2) by simp
  then have one: "new_conversion_limiter n = \<lparr>conversions_per_hour = n,
      conv_limiter = \<lparr>calls_per_second = of_int n / 3600, per_user = True, capacity = 1, buckets = []\<rparr>,
      conversion_history = []\<rparr>"
    by (simp add: new_conversion_limiter_def new_limiter_def)
  have first: "mark_conversion_started t u (new_conversion_limiter n) = (True, \<lparr>conversions_per_hour = n,
      conv_limiter = \<lparr>calls_per_second = of_int n / 3600, per_user = True, capacity = 1, buckets = [(u, (0, t))]\<rparr>,
      conversion_history = [(u, [t])]\<rparr>)"
    by (simp add: one mark_conversion_started_def acquire_def take_tokens_def bucket_key_def history_of_def Let_def)
  have "\<not> 1 \<le> (t' - t) * (of_int n / 3600)" using assms(4) by simp
  then show ?thesis
    using near assms(1) unfolding first Let_def
    by (simp add: Let_def can_convert_def history_of_def get_user_conversion_count_def
      mark_conversion_started_def acquire_def take_tokens_def bucket_key_def min_def)
qed

lemma second_conversion_refused_witness:
  "let C = snd (mark_conversion_started 0 ''7'' (new_conversion_limiter 100)) in
    can_convert 35 ''7'' C = None \<and> \<not> fst (mark_conversion_started 35 ''7'' C)"
  using second_conversion_refused [of 100 0 35 "''7''"] by (simp add: Let_def)

end
