(* ===== verification/FloodGate.thy ===== *)
theory FloodGate
  imports Claims
begin

text \<open>
  \<open>utils/rate_limiter.py\<close>, the rest: \<open>TelegramFloodGate\<close> (open flood-control windows, kept per
  process and shared through Redis), \<open>TelegramEditCoalescer\<close> (what each message shows) and
  \<open>ConversionRateLimiterRedis\<close>.  The gate and the coalescer are records passed along.
  \<open>monotonic\<close> is \<open>time.monotonic()\<close>, read off the world: it passes while a call is outside the process.
  \<open>None\<close> for \<open>retry_after\<close> is a value \<open>float\<close> refuses.  A NaN is not modelled.
\<close>

section \<open>The gate\<close>

record flood_cfg =
  flood_key_prefix :: string
  flood_namespace :: string
  redis_backoff :: real

definition namespace_of :: "string option \<Rightarrow> string" where
  "namespace_of bot_token =
     (case bot_token of
        None \<Rightarrow> ''default''
      | Some tok \<Rightarrow> if CHR '':'' \<in> set tok then hd (split_on (CHR '':'') tok) else ''default'')"

record flood_gate =
  inline_max :: real
  resync_interval :: real
  attached :: bool
  until :: "(string, real) dict"
  last_read :: "(string, real) dict"
  backend_down_until :: real

definition new_gate :: "flood_cfg \<Rightarrow> real \<Rightarrow> real option \<Rightarrow> real \<Rightarrow> bool \<Rightarrow> flood_gate" where
  "new_gate cfg default_max inline resync redis =
     \<lparr>inline_max = (case inline of None \<Rightarrow> default_max | Some x \<Rightarrow> x), resync_interval = resync,
      attached = redis, until = [], last_read = [], backend_down_until = 0\<rparr>"

definition attach_redis :: "flood_gate \<Rightarrow> flood_gate" where
  "attach_redis g = g\<lparr>attached := True\<rparr>"

definition scope_for_chat :: "int option \<Rightarrow> string" where
  "scope_for_chat chat_id = (case chat_id of None \<Rightarrow> ''global'' | Some c \<Rightarrow> ''chat:'' @ int_str c)"

definition flood_key :: "flood_cfg \<Rightarrow> string \<Rightarrow> string" where
  "flood_key cfg scope = flood_key_prefix cfg @ flood_namespace cfg @ '':'' @ scope"

definition gate_reset :: "flood_gate \<Rightarrow> flood_gate" where
  "gate_reset g = g\<lparr>until := [], last_read := [], backend_down_until := 0\<rparr>"

definition round1 :: "real \<Rightarrow> real" where
  "round1 x = of_int (py_round (x * 10)) / 10"

definition snapshot :: "real \<Rightarrow> flood_gate \<Rightarrow> (string, real) dict" where
  "snapshot now g = map (\<lambda>(k, v). (k, round1 (max 0 (v - now)))) (until g)"

definition until_of :: "flood_gate \<Rightarrow> string \<Rightarrow> real" where
  "until_of g scope = (case dget (until g) scope of None \<Rightarrow> 0 | Some d \<Rightarrow> d)"

definition gate_prune :: "real \<Rightarrow> flood_gate \<Rightarrow> flood_gate" where
  "gate_prune now g =
     (let g1 = g\<lparr>until := filter (\<lambda>(k, deadline). now < deadline) (until g)\<rparr>;
          cutoff = now - max 60 (resync_interval g * 10) in
      if 512 < length (last_read g) then g1\<lparr>last_read := filter (\<lambda>(k, seen). cutoff \<le> seen) (last_read g)\<rparr> else g1)"

definition remember :: "real \<Rightarrow> string \<Rightarrow> real \<Rightarrow> flood_gate \<Rightarrow> flood_gate" where
  "remember now scope seconds g =
     (let deadline = now + seconds in
      gate_prune now (if until_of g scope < deadline then g\<lparr>until := dput scope deadline (until g)\<rparr> else g))"

definition r_mono :: "('w \<Rightarrow> real) \<Rightarrow> ('w, real) io" where
  "r_mono monotonic w = (Inr (monotonic w), w)"

definition shared_flood_redis :: "'w exec \<Rightarrow> ('w, bool) io" where
  "shared_flood_redis exec = tryc (fmapio (\<lambda>_. True) (r_connect exec)) (\<lambda>_. ret False)"

text \<open>\<open>True\<close>: there is a client.\<close>

definition gate_client :: "'w exec \<Rightarrow> ('w \<Rightarrow> real) \<Rightarrow> flood_cfg \<Rightarrow> flood_gate \<Rightarrow> ('w, bool \<times> flood_gate) io" where
  "gate_client exec monotonic cfg g =
     (if \<not> attached g then ret (False, g)
      else bnd (r_mono monotonic) (\<lambda>now.
        if now < backend_down_until g then ret (False, g)
        else bnd (shared_flood_redis exec) (\<lambda>ok.
          if ok then ret (True, g)
          else bnd (r_mono monotonic) (\<lambda>now. ret (False, g\<lparr>backend_down_until := now + redis_backoff cfg\<rparr>)))))"

definition gate_release :: "'w exec \<Rightarrow> ('w, unit) io" where
  "gate_release exec = suppress (r_close exec)"

definition gate_down :: "('w \<Rightarrow> real) \<Rightarrow> flood_cfg \<Rightarrow> flood_gate \<Rightarrow> ('w, flood_gate) io" where
  "gate_down monotonic cfg g = bnd (r_mono monotonic) (\<lambda>now. ret (g\<lparr>backend_down_until := now + redis_backoff cfg\<rparr>))"

definition gate_publish ::
    "'w exec \<Rightarrow> ('w \<Rightarrow> real) \<Rightarrow> flood_cfg \<Rightarrow> string \<Rightarrow> real \<Rightarrow> flood_gate \<Rightarrow> ('w, real \<times> flood_gate) io" where
  "gate_publish exec monotonic cfg scope seconds g =
     bnd (gate_client exec monotonic cfg g) (\<lambda>(ok, g).
       if \<not> ok then ret (0, g)
       else bnd (r_time exec) (\<lambda>now.
         fin (tryc (bnd (r_eval exec (FloodExtendScript (flood_key cfg scope) now (now + seconds)))
                      (\<lambda>n. ret (of_int n, g)))
                (\<lambda>_. bnd (gate_down monotonic cfg g) (\<lambda>g. ret (0, g))))
           (gate_release exec)))"

text \<open>\<open>_sync\<close>: the time of the read is noted first, whatever the read gives.\<close>

definition gate_enter :: "real \<Rightarrow> string \<Rightarrow> flood_gate \<Rightarrow> flood_gate" where
  "gate_enter now scope g =
     (let g = g\<lparr>last_read := dput scope now (last_read g)\<rparr> in
      if 512 < length (last_read g) then gate_prune now g else g)"

definition gate_read ::
    "'w exec \<Rightarrow> ('w \<Rightarrow> real) \<Rightarrow> flood_cfg \<Rightarrow> string \<Rightarrow> flood_gate \<Rightarrow> ('w, string option \<times> flood_gate) io" where
  "gate_read exec monotonic cfg scope g =
     bnd (gate_client exec monotonic cfg g) (\<lambda>(ok, g).
       if \<not> ok then ret (None, g)
       else
         fin (tryc (bnd (r_get exec (flood_key cfg scope)) (\<lambda>raw. ret (raw, g)))
                (\<lambda>_. bnd (gate_down monotonic cfg g) (\<lambda>g. ret (None, g))))
           (gate_release exec))"

definition gate_sync ::
    "'w exec \<Rightarrow> ('w \<Rightarrow> real) \<Rightarrow> flood_cfg \<Rightarrow> string \<Rightarrow> flood_gate \<Rightarrow> ('w, flood_gate) io" where
  "gate_sync exec monotonic cfg scope g =
     (if \<not> attached g then ret g
      else bnd (r_mono monotonic) (\<lambda>now.
        if (case dget (last_read g) scope of None \<Rightarrow> False | Some t \<Rightarrow> now - t < resync_interval g) then ret g
        else bnd (gate_read exec monotonic cfg scope (gate_enter now scope g)) (\<lambda>(raw, g).
          case Option.bind raw number_of of
            None \<Rightarrow> ret g
          | Some deadline \<Rightarrow>
              bnd (r_time exec) (\<lambda>t.
                if 0 < deadline - t
                then bnd (r_mono monotonic) (\<lambda>now. ret (remember now scope (deadline - t) g))
                else ret g))))"

definition note_flood ::
    "'w exec \<Rightarrow> ('w \<Rightarrow> real) \<Rightarrow> flood_cfg \<Rightarrow> real option \<Rightarrow> string \<Rightarrow> flood_gate \<Rightarrow> ('w, real \<times> flood_gate) io" where
  "note_flood exec monotonic cfg retry_after scope g =
     (let seconds = (case retry_after of None \<Rightarrow> 0 | Some x \<Rightarrow> x) in
      if seconds \<le> 0 then ret (0, g)
      else
        let seconds = min seconds (24 * 3600) in
        bnd (r_mono monotonic) (\<lambda>now.
        bnd (gate_publish exec monotonic cfg scope seconds (remember now scope seconds g)) (\<lambda>(shared, g).
          if seconds < shared
          then bnd (r_mono monotonic) (\<lambda>now. ret (shared, remember now scope shared g))
          else ret (seconds, g))))"

definition remaining :: "'w exec \<Rightarrow> ('w \<Rightarrow> real) \<Rightarrow> flood_cfg \<Rightarrow> string \<Rightarrow> flood_gate \<Rightarrow> ('w, real \<times> flood_gate) io" where
  "remaining exec monotonic cfg scope g =
     bnd (gate_sync exec monotonic cfg scope g) (\<lambda>g.
     bnd (r_mono monotonic) (\<lambda>now. ret (max 0 (until_of g scope - now), g)))"

definition is_open :: "'w exec \<Rightarrow> ('w \<Rightarrow> real) \<Rightarrow> flood_cfg \<Rightarrow> string \<Rightarrow> flood_gate \<Rightarrow> ('w, bool \<times> flood_gate) io" where
  "is_open exec monotonic cfg scope g =
     bnd (remaining exec monotonic cfg scope g) (\<lambda>(left, g). ret (0 < left, g))"

definition should_drop_inline ::
    "'w exec \<Rightarrow> ('w \<Rightarrow> real) \<Rightarrow> flood_cfg \<Rightarrow> string \<Rightarrow> flood_gate \<Rightarrow> ('w, bool \<times> flood_gate) io" where
  "should_drop_inline exec monotonic cfg scope g =
     bnd (remaining exec monotonic cfg scope g) (\<lambda>(left, g). ret (inline_max g < left, g))"

text \<open>\<open>pause\<close> is \<open>asyncio.sleep\<close>.\<close>

definition wait_flood ::
    "'w exec \<Rightarrow> ('w \<Rightarrow> real) \<Rightarrow> (real \<Rightarrow> ('w, unit) io) \<Rightarrow> flood_cfg \<Rightarrow> string \<Rightarrow> real option \<Rightarrow> flood_gate \<Rightarrow>
     ('w, real \<times> flood_gate) io" where
  "wait_flood exec monotonic pause cfg scope max_wait g =
     (let limit = (case max_wait of None \<Rightarrow> inline_max g | Some x \<Rightarrow> x) in
      bnd (remaining exec monotonic cfg scope g) (\<lambda>(left, g).
        if left \<le> 0 then ret (0, g)
        else if limit < left then ret (left, g)
        else bnd (pause (left + 1 / 2)) (\<lambda>_. remaining exec monotonic cfg scope g)))"

section \<open>The edit coalescer\<close>

text \<open>What a message shows is kept as the time of the edit and the hash of its text.\<close>

record coalescer =
  min_interval :: real
  max_tracked :: int
  last_edit :: "(int \<times> int, real \<times> int) dict"

definition new_coalescer :: "real \<Rightarrow> int \<Rightarrow> coalescer" where
  "new_coalescer interval cap = \<lparr>min_interval = interval, max_tracked = cap, last_edit = []\<rparr>"

definition message_key :: "int option \<Rightarrow> int option \<Rightarrow> (int \<times> int) option" where
  "message_key chat_id message_id =
     (case (chat_id, message_id) of (Some c, Some m) \<Rightarrow> Some (c, m) | _ \<Rightarrow> None)"

definition should_skip ::
    "(string \<Rightarrow> int) \<Rightarrow> real \<Rightarrow> int option \<Rightarrow> int option \<Rightarrow> string \<Rightarrow> real option \<Rightarrow> bool \<Rightarrow> coalescer \<Rightarrow> bool" where
  "should_skip digest now chat_id message_id content interval force C =
     (case message_key chat_id message_id of
        None \<Rightarrow> False
      | Some key \<Rightarrow>
      case dget (last_edit C) key of
        None \<Rightarrow> False
      | Some (last_time, last_digest) \<Rightarrow>
          if digest content = last_digest then True
          else
            let gap = (case interval of None \<Rightarrow> min_interval C | Some x \<Rightarrow> x) in
            \<not> force \<and> now - last_time < gap)"

definition shows_text :: "(string \<Rightarrow> int) \<Rightarrow> int option \<Rightarrow> int option \<Rightarrow> string \<Rightarrow> coalescer \<Rightarrow> bool" where
  "shows_text digest chat_id message_id content C =
     (case message_key chat_id message_id of
        None \<Rightarrow> False
      | Some key \<Rightarrow>
      case dget (last_edit C) key of
        None \<Rightarrow> False
      | Some (_, last_digest) \<Rightarrow> last_digest = digest content)"

definition coalescer_prune :: "real \<Rightarrow> coalescer \<Rightarrow> coalescer" where
  "coalescer_prune now C =
     (let keep = max 60 (min_interval C * 20);
          L = filter (\<lambda>(k, (seen, d)). \<not> keep < now - seen) (last_edit C);
          oldest = sort_key (\<lambda>(k, (seen, d)). seen) L;
          over = map fst (take (nat (int (length L) - max_tracked C)) oldest) in
      C\<lparr>last_edit := (if max_tracked C < int (length L) then filter (\<lambda>(k, _). k \<notin> set over) L else L)\<rparr>)"

definition record_edit :: "(string \<Rightarrow> int) \<Rightarrow> real \<Rightarrow> int option \<Rightarrow> int option \<Rightarrow> string \<Rightarrow> coalescer \<Rightarrow> coalescer" where
  "record_edit digest now chat_id message_id content C =
     (case message_key chat_id message_id of
        None \<Rightarrow> C
      | Some key \<Rightarrow>
          let C' = C\<lparr>last_edit := dput key (now, digest content) (last_edit C)\<rparr> in
          if max_tracked C < int (length (last_edit C')) then coalescer_prune now C' else C')"

definition forget_edit :: "int option \<Rightarrow> int option \<Rightarrow> coalescer \<Rightarrow> coalescer" where
  "forget_edit chat_id message_id C =
     (case message_key chat_id message_id of
        None \<Rightarrow> C
      | Some key \<Rightarrow> C\<lparr>last_edit := dpop key (last_edit C)\<rparr>)"

definition coalescer_reset :: "coalescer \<Rightarrow> coalescer" where
  "coalescer_reset C = C\<lparr>last_edit := []\<rparr>"

section \<open>The conversion limiter in Redis\<close>

text \<open>\<open>has_redis\<close>: \<open>get_redis\<close> could be imported.  \<open>None\<close> is the answer "allowed".\<close>

definition conv_key :: "string \<Rightarrow> string \<Rightarrow> string" where
  "conv_key prefix user_id = prefix @ user_id"

definition r_zrem_upto :: "'w exec \<Rightarrow> string \<Rightarrow> real \<Rightarrow> ('w, unit) io" where
  "r_zrem_upto exec k c = fmapio (\<lambda>_. ()) (exec (ZremUpto k c))"

definition r_zfirst :: "'w exec \<Rightarrow> string \<Rightarrow> ('w, real option) io" where
  "r_zfirst exec k = fmapio (\<lambda>r. case r of RReal s \<Rightarrow> Some s | _ \<Rightarrow> None) (exec (Zfirst k))"

definition can_convert_redis :: "'w exec \<Rightarrow> bool \<Rightarrow> int \<Rightarrow> string \<Rightarrow> string \<Rightarrow> ('w, (int \<times> real) option) io" where
  "can_convert_redis exec has_redis per_hour prefix user_id =
     (if \<not> has_redis then ret None
      else
        tryc
          (bnd (r_connect exec) (\<lambda>_.
           bnd (fin (bnd (r_time exec) (\<lambda>t.
                     let key = conv_key prefix user_id; now = py_trunc t; cutoff = now - 3600 in
                     bnd (suppress (r_zrem_upto exec key (of_int cutoff))) (\<lambda>_.
                     bnd (r_zcard exec key) (\<lambda>cnt. ret (key, now, cnt)))))
                  (r_close exec)) (\<lambda>(key, now, cnt).
           if cnt < per_hour then ret None
           else
             bnd (tryc
                    (bnd (r_connect exec) (\<lambda>_.
                     bnd (fin (r_zfirst exec key) (r_close exec)) (\<lambda>vals.
                     ret (case vals of Some earliest \<Rightarrow> max 0 (earliest + 3600 - of_int now) | None \<Rightarrow> 3600))))
                    (\<lambda>_. ret 3600)) (\<lambda>wait.
             ret (Some (per_hour, wait))))))
          (\<lambda>_. ret None))"

definition mark_started_redis :: "'w exec \<Rightarrow> bool \<Rightarrow> int \<Rightarrow> string \<Rightarrow> string \<Rightarrow> ('w, bool) io" where
  "mark_started_redis exec has_redis per_hour prefix user_id =
     (if \<not> has_redis then ret True
      else
        bnd (attempt (r_connect exec)) (\<lambda>client.
        if client = None then ret True
        else
          bnd (r_time exec) (\<lambda>t.
          let key = conv_key prefix user_id; now = py_trunc t; cutoff = now - 3600 in
          tryc
            (bnd (r_eval exec (ConvStartScript key cutoff per_hour now (3600 + 60))) (\<lambda>res.
             bnd (r_close exec) (\<lambda>_. ret (res \<noteq> 0))))
            (\<lambda>_. bnd (suppress (r_close exec)) (\<lambda>_. ret True)))))"

end
