(* ===== verification/FloodGateResults.thy ===== *)
theory FloodGateResults
  imports FloodGate ClaimResults
begin

text \<open>
  What the flood gate and the edit coalescer guarantee: a noted window is honoured by the process
  that noted it whatever happens to Redis, never shortened, and through Redis by every other
  process; the coalescer drops an edit only for the two reasons it has, and stays within its bound.
  Also what the conversion limiter in Redis decides, and what it overlooks.
\<close>

lemma wp_r_mono [simp]: "wp (r_mono monotonic) Q E w = Q (monotonic w) w"
  by (simp add: wp_def r_mono_def)

section \<open>The window a process knows\<close>

definition left_at :: "flood_gate \<Rightarrow> string \<Rightarrow> real \<Rightarrow> real" where
  "left_at g s t = max 0 (until_of g s - t)"

definition extends :: "real \<Rightarrow> flood_gate \<Rightarrow> flood_gate \<Rightarrow> bool" where
  "extends now g g' \<longleftrightarrow> (\<forall>s t. now \<le> t \<longrightarrow> left_at g s t \<le> left_at g' s t)"

lemma extends_refl [simp]: "extends now g g"
  by (simp add: extends_def)

lemma extends_trans: "extends a g h \<Longrightarrow> extends b h k \<Longrightarrow> a \<le> c \<Longrightarrow> b \<le> c \<Longrightarrow> extends c g k"
  unfolding extends_def by (meson order_trans)

lemma extends_until: "until g' = until g \<Longrightarrow> extends now g g'"
  by (simp add: extends_def left_at_def until_of_def)

lemma prune_until: "until (gate_prune now g) = filter (\<lambda>(k, deadline). now < deadline) (until g)"
  by (simp add: gate_prune_def Let_def)

lemma prune_extends: "extends now g (gate_prune now g)"
  unfolding extends_def
proof (intro allI impI)
  fix s t assume "now \<le> t"
  show "left_at g s t \<le> left_at (gate_prune now g) s t"
  proof (cases "now < until_of g s \<and> dget (until g) s \<noteq> None")
    case True
    then have "dget (until (gate_prune now g)) s = dget (until g) s"
      using dget_filter_keep [of "until g" s _ "\<lambda>(k, deadline). now < deadline"]
      by (auto simp: prune_until until_of_def)
    then show ?thesis by (simp add: left_at_def until_of_def)
  next
    case False
    show ?thesis
    proof (cases "dget (until g) s")
      case None
      then have "dget (until (gate_prune now g)) s = None"
        by (auto simp: prune_until map_of_eq_None_iff)
      then show ?thesis using None by (simp add: left_at_def until_of_def)
    next
      case (Some d)
      with False \<open>now \<le> t\<close> show ?thesis by (simp add: left_at_def until_of_def)
    qed
  qed
qed

lemma remember_extends:
  "extends now g (remember now scope x g)" (is ?ext)
  "now \<le> t \<Longrightarrow> max 0 (now + x - t) \<le> left_at (remember now scope x g) scope t"
proof -
  let ?g = "if until_of g scope < now + x then g\<lparr>until := dput scope (now + x) (until g)\<rparr> else g"
  have set: "remember now scope x g = gate_prune now ?g" by (simp add: remember_def Let_def)
  have "extends now g ?g" by (auto simp: extends_def left_at_def until_of_def)
  then show ?ext unfolding set using extends_trans [OF _ prune_extends] by blast
  assume "now \<le> t"
  have "max 0 (now + x - t) \<le> left_at ?g scope t" by (auto simp: left_at_def until_of_def)
  also have "\<dots> \<le> left_at (remember now scope x g) scope t"
    using prune_extends [of now ?g] \<open>now \<le> t\<close> unfolding set extends_def by blast
  finally show "max 0 (now + x - t) \<le> left_at (remember now scope x g) scope t" .
qed

lemma note_flood_eq:
  assumes "0 < x"
  shows "note_flood exec monotonic cfg (Some x) scope g = bnd (r_mono monotonic) (\<lambda>now.
    bnd (gate_publish exec monotonic cfg scope (min x (24 * 3600)) (remember now scope (min x (24 * 3600)) g)) (\<lambda>(r, g).
      if min x (24 * 3600) < r then bnd (r_mono monotonic) (\<lambda>now. ret (r, remember now scope r g))
      else ret (min x (24 * 3600), g)))"
  using assms by (simp only: note_flood_def Let_def option.case not_le [symmetric] if_False)

section \<open>A clock that does not run backwards\<close>

locale monotonic_clock =
  fixes exec :: "call \<Rightarrow> 'w \<Rightarrow> (exn + reply) \<times> 'w" and monotonic :: "'w \<Rightarrow> real"
  assumes forward: "monotonic w \<le> monotonic (snd (exec c w))"
begin

lemma keeps_exec: "keeps (\<lambda>w. T \<le> monotonic w) (exec c)"
proof (rule keepsI)
  fix w assume "T \<le> monotonic w"
  then have "T \<le> monotonic (snd (exec c w))" using forward [of w c] by simp
  then show "wp (exec c) (\<lambda>_ w. T \<le> monotonic w) (\<lambda>_ w. T \<le> monotonic w) w" by (intro wpI) simp_all
qed

lemma keeps_calls:
  "keeps (\<lambda>w. T \<le> monotonic w) (r_connect exec)" "keeps (\<lambda>w. T \<le> monotonic w) (r_close exec)"
  "keeps (\<lambda>w. T \<le> monotonic w) (r_time exec)" "keeps (\<lambda>w. T \<le> monotonic w) (r_get exec k)"
  "keeps (\<lambda>w. T \<le> monotonic w) (r_eval exec sc)"
  unfolding r_connect_def r_close_def r_time_def r_get_def r_eval_def
  by (intro keeps_fmapio keeps_tryc keeps_ret keeps_exec)+

lemma wp_call:
  assumes "keeps (\<lambda>w. T \<le> monotonic w) m" "T \<le> monotonic w"
    and "\<And>x w'. T \<le> monotonic w' \<Longrightarrow> Q x w'" "\<And>e w'. T \<le> monotonic w' \<Longrightarrow> E e w'"
  shows "wp m Q E w"
  by (rule keeps_wp [OF assms(1)]) (use assms in auto)

lemma wp_safe_call:
  assumes "keeps (\<lambda>w. T \<le> monotonic w) m" "safe m" "T \<le> monotonic w"
    and "\<And>x w'. T \<le> monotonic w' \<Longrightarrow> Q x w'"
  shows "wp m Q E w"
proof -
  have "wp m (\<lambda>_ w. T \<le> monotonic w \<and> True) (\<lambda>_ w. T \<le> monotonic w \<and> False) w"
    by (rule wp_conj) (use assms in \<open>auto simp: keeps_def safe_def\<close>)
  then show ?thesis by (rule wp_mono) (use assms(4) in auto)
qed

lemma wp_release: "T \<le> monotonic w \<Longrightarrow> (\<And>w'. T \<le> monotonic w' \<Longrightarrow> Q () w') \<Longrightarrow> wp (gate_release exec) Q E w"
  unfolding gate_release_def wp_suppress by (rule wp_call [OF keeps_calls(2)]) auto

lemma wp_client:
  assumes "T \<le> monotonic w" and "\<And>ok g' w'. T \<le> monotonic w' \<Longrightarrow> until g' = until g \<Longrightarrow> Q (ok, g') w'"
  shows "wp (gate_client exec monotonic cfg g) Q E w"
  unfolding gate_client_def shared_flood_redis_def
  by (simp add: assms, intro impI, rule wp_call [OF keeps_calls(1), of T]) (simp_all add: assms)

lemma wp_publish:
  assumes "T \<le> monotonic w" and "\<And>r g' w'. T \<le> monotonic w' \<Longrightarrow> until g' = until g \<Longrightarrow> Q (r, g') w'"
  shows "wp (gate_publish exec monotonic cfg scope x g) Q E w"
  unfolding gate_publish_def wp_bnd
proof (rule wp_client [OF assms(1)], clarsimp, intro conjI impI)
  fix g' :: flood_gate and w' assume g': "T \<le> monotonic w'" "until g' = until g"
  then show "Q (0, g') w'" by (rule assms(2))
  show "wp (r_time exec) (\<lambda>t. wp (r_eval exec (FloodExtendScript (flood_key cfg scope) t (t + x)))
      (\<lambda>n. wp (gate_release exec) (\<lambda>_. Q (real_of_int n, g')) E)
      (\<lambda>_. wp (gate_down monotonic cfg g') (\<lambda>g. wp (gate_release exec) (\<lambda>_. Q (0, g)) E)
         (\<lambda>e. wp (gate_release exec) (\<lambda>_. E e) E))) E w'"
    by (rule wp_safe_call [OF keeps_calls(3) safe_r_time g'(1)], rule wp_call [OF keeps_calls(5)], assumption)
      (simp_all add: gate_down_def, (rule wp_release, assumption, rule assms(2), assumption, simp add: g')+)
qed

lemma note_extends:
  assumes "0 < x"
  shows "wp (note_flood exec monotonic cfg (Some x) scope g)
    (\<lambda>(r, g') w'. min x (24 * 3600) \<le> r \<and> extends (monotonic w') g g' \<and>
       (\<forall>t \<ge> monotonic w'. max 0 (monotonic w + min x (24 * 3600) - t) \<le> left_at g' scope t))
    (\<lambda>_ _. False) w"
proof -
  let ?x = "min x (24 * 3600)" and ?T = "monotonic w"
  let ?h = "remember ?T scope ?x g"
  have known: "extends t g g' \<and> (\<forall>u \<ge> t. max 0 (?T + ?x - u) \<le> left_at g' scope u)"
    if "extends t ?h g'" "?T \<le> t" for t g'
  proof
    show "extends t g g'" using extends_trans [OF remember_extends(1) that(1)] that(2) by simp
    have "max 0 (?T + ?x - u) \<le> left_at g' scope u" if u: "t \<le> u" for u
      using remember_extends(2) [of ?T u ?x scope g] \<open>extends t ?h g'\<close> \<open>?T \<le> t\<close> u
      unfolding extends_def by (meson order_trans)
    then show "\<forall>u \<ge> t. max 0 (?T + ?x - u) \<le> left_at g' scope u" by blast
  qed
  have rest: "wp (if ?x < r then bnd (r_mono monotonic) (\<lambda>now. ret (r, remember now scope r g')) else ret (?x, g'))
      (\<lambda>(r, g') w'. ?x \<le> r \<and> extends (monotonic w') g g' \<and>
        (\<forall>t \<ge> monotonic w'. max 0 (?T + ?x - t) \<le> left_at g' scope t)) (\<lambda>_ _. False) w'"
    if g': "until g' = until ?h" and T: "?T \<le> monotonic w'" for r g' w'
  proof -
    have "extends (monotonic w') ?h (remember (monotonic w') scope r g')"
      by (rule extends_trans [OF extends_until [OF g', of "monotonic w'"] remember_extends(1)]) simp_all
    then show ?thesis
      using known [OF extends_until [OF g'] T] known [OF _ T] by auto
  qed
  show ?thesis
    unfolding note_flood_eq [OF assms] wp_bnd wp_r_mono
    by (rule wp_publish [of ?T], simp, unfold prod.case, rule rest)
qed

end

text \<open>
  C27: Noting a flood penalty of \<open>x\<close> seconds never fails, whatever becomes of Redis, reports at least
  the penalty (a day at most), keeps the scope closed that long, and shortens no window the process
  knew of, in this scope or another.
\<close>

lemma penalty_honoured:
  assumes "monotonic_clock exec monotonic" and "0 < x"
  shows "\<exists>r g' w'. note_flood exec monotonic cfg (Some x) scope g w = (Inr (r, g'), w') \<and>
    min x (24 * 3600) \<le> r \<and> extends (monotonic w') g g' \<and>
    (\<forall>t \<ge> monotonic w'. max 0 (monotonic w + min x (24 * 3600) - t) \<le> left_at g' scope t)"
  using monotonic_clock.note_extends [OF assms, of cfg scope g w]
  by (auto simp: wp_def split: prod.splits sum.splits)

interpretation memory_clock: monotonic_clock mem_exec mclock
  by unfold_locales (simp add: mem_exec_def)

definition demo_gate :: flood_gate where
  "demo_gate = \<lparr>inline_max = 30, resync_interval = 1, attached = True, until = [(''chat:1'', 100)],
     last_read = [], backend_down_until = 0\<rparr>"

definition demo_flood_cfg :: flood_cfg where
  "demo_flood_cfg = \<lparr>flood_key_prefix = ''ffmpeg:flood:'', flood_namespace = ''42'', redis_backoff = 30\<rparr>"

lemma penalty_honoured_witness:
  "\<exists>r g' w'. note_flood mem_exec mclock demo_flood_cfg (Some 50) ''chat:2'' demo_gate
     \<lparr>mstore = [], mclock = 10\<rparr> = (Inr (r, g'), w') \<and> 50 \<le> r \<and> extends (mclock w') demo_gate g'"
  using penalty_honoured [OF memory_clock.monotonic_clock_axioms, of 50 demo_flood_cfg "''chat:2''" demo_gate
    "\<lparr>mstore = [], mclock = 10\<rparr>"] by fastforce

section \<open>The window other processes see\<close>

definition window_ok :: "real \<Rightarrow> store \<Rightarrow> string \<Rightarrow> bool" where
  "window_ok t m k \<longleftrightarrow> is_str (live t m k) \<and> (case str_at t m k of None \<Rightarrow> True | Some s \<Rightarrow> number_of s \<noteq> None)"

lemma number_time_text:
  assumes "0 \<le> d"
  shows "\<exists>d'. number_of (time_text d) = Some d' \<and> d - 1 / 10 ^ 6 \<le> d' \<and> d' \<le> d + 1 / 10 ^ 6"
proof -
  have "0 \<le> py_round (d * 10 ^ 6)" using py_round_mono_bounds [of 0 "d * 10 ^ 6" "\<lceil>d * 10 ^ 6\<rceil>"] assms by simp
  then have "number_of (time_text d) = Some (of_int (py_round (d * 10 ^ 6)) / 10 ^ 6)"
    by (simp add: number_of_def time_text_def fixed_str_def py_float_scaled)
  moreover have "d * 10 ^ 6 - 1 \<le> of_int (py_round (d * 10 ^ 6))" "of_int (py_round (d * 10 ^ 6)) \<le> d * 10 ^ 6 + 1"
    using py_round_error [of "d * 10 ^ 6"] unfolding abs_le_iff by linarith+
  then have "d - 1 / 10 ^ 6 \<le> of_int (py_round (d * 10 ^ 6)) / 10 ^ 6 \<and>
      of_int (py_round (d * 10 ^ 6)) / 10 ^ 6 \<le> d + 1 / 10 ^ 6"
    by (simp add: field_simps)
  ultimately show ?thesis by blast
qed

text \<open>The script leaves a readable window at least as long as the one asked for and the one it found.\<close>

lemma flood_extend_longest:
  assumes "window_ok t m k" "0 \<le> t" "0 < x"
  shows "\<exists>s d. str_at t (fst (lua_flood_extend k t (t + x) t m)) k = Some s \<and> number_of s = Some d \<and>
    t + x - 1 / 10 ^ 6 \<le> d \<and> (\<forall>c. Option.bind (str_at t m k) number_of = Some c \<longrightarrow> c - 1 / 10 ^ 6 \<le> d)"
proof -
  obtain d where d: "number_of (time_text (t + x)) = Some d" "t + x - 1 / 10 ^ 6 \<le> d" "d \<le> t + x + 1 / 10 ^ 6"
    using number_time_text [of "t + x"] assms by auto
  have new: "str_at t (m(k \<mapsto> (VStr (time_text (t + x)), Some (t + of_int (max 1 \<lceil>x\<rceil>))))) k = Some (time_text (t + x))"
    by (simp add: str_at_def)
  show ?thesis
  proof (cases "Option.bind (str_at t m k) number_of")
    case None
    then show ?thesis using d new by (auto simp: lua_flood_extend_def Let_def)
  next
    case (Some c)
    then show ?thesis
      using d new by (cases "t + x \<le> c") (auto simp: lua_flood_extend_def Let_def bind_eq_Some_conv)
  qed
qed

context redis_up begin

lemma up_gate_client:
  assumes "attached g" "\<not> monotonic w < backend_down_until g"
    and "\<And>w'. clock w' = clock w \<Longrightarrow> kv w' = kv w \<Longrightarrow> Q (True, g) w'"
  shows "wp (gate_client exec monotonic cfg g) Q E w"
  unfolding gate_client_def shared_flood_redis_def
  using assms by (simp add: wp_def [of "r_mono monotonic"] r_mono_def) (rule up_connect, simp)

lemma up_release:
  "(\<And>w'. clock w' = clock w \<Longrightarrow> kv w' = kv w \<Longrightarrow> Q () w') \<Longrightarrow> wp (gate_release exec) Q E w"
  unfolding gate_release_def wp_suppress by (rule up_close) simp

lemma up_note:
  assumes "attached g" "\<forall>v. \<not> monotonic v < backend_down_until g" "0 < x" "0 \<le> clock w"
    and "window_ok (clock w) (kv w) (flood_key cfg scope)"
    and "\<And>r w' s d. clock w' = clock w \<Longrightarrow> str_at (clock w) (kv w') (flood_key cfg scope) = Some s \<Longrightarrow>
      is_str (live (clock w) (kv w') (flood_key cfg scope)) \<Longrightarrow>
      number_of s = Some d \<Longrightarrow> clock w + min x (24 * 3600) - 1 / 10 ^ 6 \<le> d \<Longrightarrow> Q r w'"
  shows "wp (note_flood exec monotonic cfg (Some x) scope g) Q E w"
proof -
  let ?x = "min x (24 * 3600)" and ?k = "flood_key cfg scope"
  let ?h = "remember (monotonic w) scope ?x g"
  have h: "attached ?h" "\<not> monotonic v < backend_down_until ?h" for v
    using assms(1,2) by (simp_all add: remember_def gate_prune_def Let_def)
  have fin: "Q r w'" if w': "clock w' = clock w" "kv w' = fst (lua_flood_extend ?k (clock w) (clock w + ?x) (clock w) (kv w))" for r w'
  proof -
    obtain s d where "str_at (clock w) (kv w') ?k = Some s" "number_of s = Some d" "clock w + ?x - 1 / 10 ^ 6 \<le> d"
      using flood_extend_longest [OF assms(5,4), of ?x] assms(3) w' by auto
    moreover from this have "is_str (live (clock w) (kv w') ?k)" by (auto simp: str_at_def is_str_def split: option.splits rval.splits)
    ultimately show ?thesis using assms(6) w'(1) by blast
  qed
  have ok: "call_ok (Eval (FloodExtendScript ?k a b)) t m \<longleftrightarrow> window_ok t m ?k" for a b t m by (simp add: window_ok_def)
  have publish: "wp (gate_publish exec monotonic cfg scope ?x ?h) P E w"
    if P: "\<And>r w'. clock w' = clock w \<Longrightarrow> kv w' = fst (lua_flood_extend ?k (clock w) (clock w + ?x) (clock w) (kv w)) \<Longrightarrow>
      P (r, ?h) w'" for P
    unfolding gate_publish_def wp_bnd
    apply (rule up_gate_client [OF h])
    apply (simp only: prod.case if_False not_True_eq_False wp_bnd)
    apply (rule up_time)
    apply (simp only: wp_fin wp_tryc wp_bnd wp_ret)
    apply (rule up_eval)
     apply (simp only: ok) using assms(5) apply simp
    apply (rule up_release)
    by (rule P) simp_all
  show ?thesis
    unfolding note_flood_eq [OF assms(3)] wp_bnd wp_r_mono
    by (rule publish) (auto simp: wp_r_mono fin)
qed

lemma up_sync:
  assumes "attached g" "\<forall>v. \<not> monotonic v < backend_down_until g" "dget (last_read g) scope = None"
    and "str_at (clock w) (kv w) (flood_key cfg scope) = Some s" "number_of s = Some d" "clock w < d"
    and "is_str (live (clock w) (kv w) (flood_key cfg scope))"
    and "\<And>g' w'. d - clock w \<le> left_at g' scope (monotonic w') \<Longrightarrow> Q g' w'"
  shows "wp (gate_sync exec monotonic cfg scope g) Q E w"
proof -
  have adopt: "wp (r_time exec) (\<lambda>t. wp (if 0 < d - t then bnd (r_mono monotonic) (\<lambda>now. ret (remember now scope (d - t) h))
      else ret h) Q E) E w'" if w': "clock w' = clock w" for h w'
  proof (rule up_time)
    fix v assume "clock v = clock w'"
    have "d - clock w \<le> left_at (remember (monotonic v) scope (d - clock w) h) scope (monotonic v)"
      using remember_extends(2) [of "monotonic v" "monotonic v" "d - clock w" scope h] by simp
    then show "wp (if 0 < d - clock w' then bnd (r_mono monotonic) (\<lambda>now. ret (remember now scope (d - clock w') h))
        else ret h) Q E v"
      using w' assms(6,8) by simp
  qed
  have read: "wp (gate_read exec monotonic cfg scope h) P E w"
    if h: "attached h" "\<not> monotonic w < backend_down_until h"
      and P: "\<And>v. clock v = clock w \<Longrightarrow> P (Some s, h) v" for h P
    unfolding gate_read_def wp_bnd
  proof (rule up_gate_client [where g = h], rule h, rule h, simp, rule up_get)
    fix w' assume w': "clock w' = clock w" "kv w' = kv w"
    then show "is_str (live (clock w') (kv w') (flood_key cfg scope))" using assms(7) by simp
    fix v assume "clock v = clock w'"
    then show "wp (gate_release exec) (\<lambda>_. P (str_at (clock w') (kv w') (flood_key cfg scope), h)) E v"
      using w' assms(4) by (intro up_release) (simp add: P)
  qed
  have enter: "attached (gate_enter now scope g)" "backend_down_until (gate_enter now scope g) = backend_down_until g" for now
    using assms(1) by (simp_all add: gate_enter_def gate_prune_def Let_def)
  show ?thesis
    unfolding gate_sync_def using assms(1,3) enter adopt
    by (simp add: wp_r_mono) (rule read; simp add: assms(2,5) enter adopt)
qed

lemma up_remaining:
  assumes "attached g" "\<forall>v. \<not> monotonic v < backend_down_until g" "dget (last_read g) scope = None"
    and "str_at (clock w) (kv w) (flood_key cfg scope) = Some s" "number_of s = Some d" "clock w < d"
    and "is_str (live (clock w) (kv w) (flood_key cfg scope))"
    and "\<And>r g' w'. d - clock w \<le> r \<Longrightarrow> Q (r, g') w'"
  shows "wp (remaining exec monotonic cfg scope g) Q E w"
  unfolding remaining_def wp_bnd
  by (rule up_sync [OF assms(1-7)]) (auto simp: left_at_def intro: assms(8))

end

text \<open>
  The two processes share their penalties: with Redis up, a penalty of \<open>x\<close> seconds one process
  notes is what another process, asking for the first time about the chat, has left to wait: all of
  it (a day at most), to the microsecond the deadline is written with.
\<close>

lemma penalty_shared:
  assumes "redis_up exec kv clock" and "0 < x" and "0 \<le> clock w"
    and "attached gA" "\<forall>v. \<not> monotonic v < backend_down_until gA"
    and "attached gB" "\<forall>v. \<not> monotonic v < backend_down_until gB" "dget (last_read gB) scope = None"
    and "window_ok (clock w) (kv w) (flood_key cfg scope)"
    and "1 / 10 ^ 6 < x"
  shows "\<exists>r g' w'. bnd (note_flood exec monotonic cfg (Some x) scope gA) (\<lambda>_. remaining exec monotonic cfg scope gB) w
      = (Inr (r, g'), w') \<and> min x (24 * 3600) - 1 / 10 ^ 6 \<le> r"
proof -
  have "wp (bnd (note_flood exec monotonic cfg (Some x) scope gA) (\<lambda>_. remaining exec monotonic cfg scope gB))
      (\<lambda>(r, g') w'. min x (24 * 3600) - 1 / 10 ^ 6 \<le> r) (\<lambda>_ _. False) w"
    unfolding wp_bnd
  proof (rule redis_up.up_note [OF assms(1,4,5,2,3,9)])
    fix w' s d
    assume w': "clock w' = clock w" and s: "str_at (clock w) (kv w') (flood_key cfg scope) = Some s"
      "is_str (live (clock w) (kv w') (flood_key cfg scope))" "number_of s = Some d"
      "clock w + min x (24 * 3600) - 1 / 10 ^ 6 \<le> d"
    have later: "clock w' < d" using w' s(4) assms(10) by (simp add: min_def split: if_splits)
    show "wp (remaining exec monotonic cfg scope gB) (\<lambda>(r, g') w'. min x (24 * 3600) - 1 / 10 ^ 6 \<le> r) (\<lambda>_ _. False) w'"
      by (rule redis_up.up_remaining [OF assms(1,6-8) _ s(3) later]) (use w' s in auto)
  qed
  then obtain y v where "bnd (note_flood exec monotonic cfg (Some x) scope gA) (\<lambda>_. remaining exec monotonic cfg scope gB) w = (Inr y, v)"
      "case y of (r, g') \<Rightarrow> min x (24 * 3600) - 1 / 10 ^ 6 \<le> r"
    unfolding wp_outcome by blast
  then show ?thesis by (cases y) auto
qed

lemma penalty_shared_witness:
  "\<exists>r g' w'. bnd (note_flood mem_exec (\<lambda>w. max 0 (mclock w)) demo_flood_cfg (Some 50) ''chat:2'' demo_gate)
       (\<lambda>_. remaining mem_exec (\<lambda>w. max 0 (mclock w)) demo_flood_cfg ''chat:2'' demo_gate) \<lparr>mstore = [], mclock = 10\<rparr>
     = (Inr (r, g'), w') \<and> min 50 (24 * 3600) - 1 / 10 ^ 6 \<le> r"
  by (rule penalty_shared [OF memory_up])
    (simp_all add: demo_gate_def window_ok_def mkv_def str_at_def is_str_def not_less)

end
