(* ===== verification/EditResults.thy ===== *)
theory EditResults
  imports FloodGateResults
begin

text \<open>
  The edit coalescer's bound and pacing, and what the conversion limiter in Redis decides and
  overlooks.
\<close>

section \<open>The coalescer stays within its bound\<close>

lemma length_drop_keys:
  assumes "distinct (map fst L)" "distinct ks" "set ks \<subseteq> set (map fst L)"
  shows "length (filter (\<lambda>(k, v). k \<notin> set ks) L) + length ks = length L"
proof -
  let ?D = "filter (\<lambda>(k, v). k \<in> set ks) L"
  have "length (map fst ?D) = card (set (map fst ?D))"
    by (rule distinct_card [symmetric]) (use assms(1) in \<open>simp add: distinct_map_filter\<close>)
  also have "set (map fst ?D) = set ks" using assms(3) by force
  also have "card (set ks) = length ks" by (rule distinct_card [OF assms(2)])
  finally have "length ?D = length ks" by simp
  moreover have "(\<lambda>p :: 'a \<times> 'b. \<not> (case p of (k, v) \<Rightarrow> k \<in> set ks)) = (\<lambda>(k, v). k \<notin> set ks)" by auto
  ultimately show ?thesis using sum_length_filter_compl [of "\<lambda>(k, v). k \<in> set ks" L] by simp
qed

text \<open>What is kept of a full coalescer after its stale entries are gone.\<close>

definition fresh_edits :: "real \<Rightarrow> coalescer \<Rightarrow> (int \<times> int, real \<times> int) dict" where
  "fresh_edits now C = filter (\<lambda>(k, (seen, d)). \<not> max 60 (min_interval C * 20) < now - seen) (last_edit C)"

definition dropped_edits :: "real \<Rightarrow> coalescer \<Rightarrow> (int \<times> int) list" where
  "dropped_edits now C =
     map fst (take (nat (int (length (fresh_edits now C)) - max_tracked C))
       (sort_key (\<lambda>(k, (seen, d)). seen) (fresh_edits now C)))"

lemma coalescer_prune_eq:
  "last_edit (coalescer_prune now C) =
     (if max_tracked C < int (length (fresh_edits now C))
      then filter (\<lambda>(k, _). k \<notin> set (dropped_edits now C)) (fresh_edits now C) else fresh_edits now C)"
  by (simp add: coalescer_prune_def fresh_edits_def dropped_edits_def Let_def)

lemma fresh_distinct: "distinct (map fst (last_edit C)) \<Longrightarrow> distinct (map fst (fresh_edits now C))"
  by (simp add: fresh_edits_def distinct_map_filter)

lemma dropped_keys:
  assumes "distinct (map fst (last_edit C))"
  shows "distinct (dropped_edits now C)" "set (dropped_edits now C) \<subseteq> set (map fst (fresh_edits now C))"
proof -
  have "distinct (map fst (sort_key (\<lambda>(k, (seen :: real, d)). seen) (fresh_edits now C)))"
    using fresh_distinct [OF assms, of now] by (simp add: distinct_map)
  then show "distinct (dropped_edits now C)" unfolding dropped_edits_def take_map [symmetric] by simp
  show "set (dropped_edits now C) \<subseteq> set (map fst (fresh_edits now C))"
    unfolding dropped_edits_def set_map by (rule image_mono) (metis set_take_subset set_sort)
qed

lemma prune_bounded:
  assumes "distinct (map fst (last_edit C))" "0 \<le> max_tracked C"
  shows "int (length (last_edit (coalescer_prune now C))) \<le> max_tracked C"
  using length_drop_keys [OF fresh_distinct [OF assms(1)] dropped_keys [OF assms(1)], of now] assms(2)
  by (auto simp: coalescer_prune_eq dropped_edits_def min_def split: if_splits)

text \<open>The entry just made is the youngest, so it is never among those dropped.\<close>

lemma newest_survives:
  assumes "distinct (map fst (last_edit C))" "dget (last_edit C) key = Some (now, x)"
    and "\<forall>(k, (seen, d)) \<in> set (last_edit C). k \<noteq> key \<longrightarrow> seen < now"
    and "1 \<le> max_tracked C"
  shows "dget (last_edit (coalescer_prune now C)) key = Some (now, x)"
proof -
  let ?L = "fresh_edits now C" and ?f = "\<lambda>(k :: int \<times> int, (seen :: real, d :: int)). seen"
  have got: "dget ?L key = Some (now, x)"
    unfolding fresh_edits_def by (rule dget_filter_keep [OF assms(2)]) simp
  have "key \<notin> set (dropped_edits now C)" if over: "max_tracked C < int (length ?L)"
  proof
    let ?S = "sort_key ?f ?L" and ?n = "nat (int (length ?L) - max_tracked C)"
    assume "key \<in> set (dropped_edits now C)"
    then obtain v where "(key, v) \<in> set (take ?n ?S)" by (auto simp: dropped_edits_def)
    then obtain i where i: "i < ?n" "i < length ?S" "?S ! i = (key, v)" by (auto simp: in_set_conv_nth)
    have v: "v = (now, x)"
    proof -
      have "(key, v) \<in> set ?L" using i(2,3) by (metis nth_mem set_sort)
      then show ?thesis using got fresh_distinct [OF assms(1)] by (simp add: map_of_eq_Some_iff)
    qed
    have j: "Suc i < length ?S" using i(1,2) over assms(4) by simp
    have "?f (?S ! i) \<le> ?f (?S ! Suc i)"
      using sorted_nth_mono [of "map ?f ?S" i "Suc i"] j sorted_sort_key [of ?f ?L] by simp
    moreover obtain k seen d where k: "?S ! Suc i = (k, (seen, d))" by (metis surj_pair)
    ultimately have "now \<le> seen" by (simp add: i(3) v)
    moreover have "k \<noteq> key"
    proof -
      have "distinct (map fst ?S)" using fresh_distinct [OF assms(1), of now] by (simp add: distinct_map)
      then show ?thesis using nth_eq_iff_index_eq [of "map fst ?S" i "Suc i"] i(3) j k by auto
    qed
    moreover have "(k, (seen, d)) \<in> set (last_edit C)"
    proof -
      have "(k, (seen, d)) \<in> set ?L" using nth_mem [OF j] k by simp
      then show ?thesis by (simp add: fresh_edits_def)
    qed
    ultimately show False using assms(3) by fastforce
  qed
  then show ?thesis
    using dget_filter_keep [OF got, of "\<lambda>(k, _). k \<notin> set (dropped_edits now C)"] got
    by (simp add: coalescer_prune_eq)
qed

definition coalescer_ok :: "coalescer \<Rightarrow> bool" where
  "coalescer_ok C \<longleftrightarrow> 1 \<le> max_tracked C \<and> distinct (map fst (last_edit C)) \<and>
     int (length (last_edit C)) \<le> max_tracked C"

text \<open>
  The coalescer never remembers more messages than its bound, and recording an edit makes
  the message show it, however full it was: what is forgotten is older.
\<close>

lemma edit_recorded:
  assumes "coalescer_ok C" "\<forall>(k, (seen, d)) \<in> set (last_edit C). seen < now"
  shows "coalescer_ok (record_edit digest now (Some c) (Some m) content C) \<and>
    shows_text digest (Some c) (Some m) content (record_edit digest now (Some c) (Some m) content C)"
proof -
  let ?C = "C\<lparr>last_edit := dput (c, m) (now, digest content) (last_edit C)\<rparr>"
  have d: "distinct (map fst (last_edit ?C))" using assms(1) by (simp add: coalescer_ok_def distinct_update)
  have "\<forall>(k, (seen, d)) \<in> set (last_edit ?C). k \<noteq> (c, m) \<longrightarrow> seen < now"
    using assms(2) by (auto dest!: in_dput)
  then have "dget (last_edit (coalescer_prune now ?C)) (c, m) = Some (now, digest content)"
    using d assms(1) by (intro newest_survives) (auto simp: coalescer_ok_def)
  moreover have "int (length (last_edit (coalescer_prune now ?C))) \<le> max_tracked C"
    using prune_bounded [of ?C now] d assms(1) by (simp add: coalescer_ok_def)
  moreover have "distinct (map fst (last_edit (coalescer_prune now ?C)))"
    using fresh_distinct [OF d, of now] by (simp add: coalescer_prune_eq distinct_map_filter)
  moreover have "max_tracked (coalescer_prune now ?C) = max_tracked C" by (simp add: coalescer_prune_def Let_def)
  ultimately show ?thesis
    using d assms(1) by (auto simp: record_edit_def message_key_def shows_text_def coalescer_ok_def Let_def)
qed

lemma edit_recorded_witness:
  "shows_text (\<lambda>s. int (length s)) (Some 1) (Some 3) ''50%''
     (record_edit (\<lambda>s. int (length s)) 9 (Some 1) (Some 3) ''50%''
       \<lparr>min_interval = 5 / 2, max_tracked = 2, last_edit = [((1, 1), (4, 0)), ((1, 2), (3, 7))]\<rparr>)"
  by (rule edit_recorded [THEN conjunct2]) (simp_all add: coalescer_ok_def)

section \<open>Pacing\<close>

text \<open>
  The edits of one message, each with its instant, text and \<open>force\<close>, sent when the coalescer does
  not drop them, and recorded then.
\<close>

fun sent :: "(string \<Rightarrow> int) \<Rightarrow> int \<Rightarrow> int \<Rightarrow> (real \<times> string \<times> bool) list \<Rightarrow> coalescer \<Rightarrow> (real \<times> string \<times> bool) list" where
  "sent digest c m [] C = []"
| "sent digest c m ((now, content, force) # es) C =
     (if should_skip digest now (Some c) (Some m) content None force C then sent digest c m es C
      else (now, content, force) # sent digest c m es (record_edit digest now (Some c) (Some m) content C))"

definition paced :: "(string \<Rightarrow> int) \<Rightarrow> real \<Rightarrow> (real \<times> string \<times> bool) \<Rightarrow> (real \<times> string \<times> bool) \<Rightarrow> bool" where
  "paced digest gap e e' \<longleftrightarrow>
     (case (e, e') of ((t, x, _), (t', x', force)) \<Rightarrow> digest x' \<noteq> digest x \<and> (\<not> force \<longrightarrow> gap \<le> t' - t))"

lemma record_single:
  "1 \<le> cap \<Longrightarrow> record_edit digest now (Some c) (Some m) x \<lparr>min_interval = gap, max_tracked = cap, last_edit = []\<rparr> =
     \<lparr>min_interval = gap, max_tracked = cap, last_edit = [((c, m), (now, digest x))]\<rparr>"
  "1 \<le> cap \<Longrightarrow> record_edit digest now (Some c) (Some m) x
       \<lparr>min_interval = gap, max_tracked = cap, last_edit = [((c, m), y)]\<rparr> =
     \<lparr>min_interval = gap, max_tracked = cap, last_edit = [((c, m), (now, digest x))]\<rparr>"
  by (simp_all add: record_edit_def message_key_def Let_def)

lemma sent_paced:
  assumes "1 \<le> cap"
  shows "successively (paced digest gap)
    ((t, x, f) # sent digest c m es \<lparr>min_interval = gap, max_tracked = cap, last_edit = [((c, m), (t, digest x))]\<rparr>)"
proof (induction es arbitrary: t x f)
  case Nil
  then show ?case by simp
next
  case (Cons e es)
  obtain t' x' f' where e: "e = (t', x', f')" by (cases e)
  show ?case
  proof (cases "should_skip digest t' (Some c) (Some m) x' None f'
      \<lparr>min_interval = gap, max_tracked = cap, last_edit = [((c, m), (t, digest x))]\<rparr>")
    case True
    then show ?thesis using Cons.IH by (simp add: e)
  next
    case False
    then have "paced digest gap (t, x, f) (t', x', f')"
      by (auto simp: paced_def should_skip_def message_key_def Let_def split: if_splits)
    then show ?thesis using False Cons.IH [of t' x' f'] by (simp add: e record_single [OF assms])
  qed
qed

text \<open>
  Of the edits of a message, no two sent in a row carry the same text, and one that is not
  forced comes no sooner than the interval after the one before it, however many watchers ask.
\<close>

lemma edits_paced:
  assumes "1 \<le> cap"
  shows "successively (paced digest gap) (sent digest c m es (new_coalescer gap cap))"
proof (induction es)
  case Nil
  then show ?case by simp
next
  case (Cons e es)
  obtain t x f where e: "e = (t, x, f)" by (cases e)
  show ?case
    using sent_paced [OF assms]
    by (simp add: e new_coalescer_def should_skip_def message_key_def record_single [OF assms])
qed

lemma edits_paced_witness:
  "successively (paced (\<lambda>s. int (length s)) (5 / 2)) (sent (\<lambda>s. int (length s)) 1 7
     [(0, ''1%'', False), (1, ''10%'', False), (3, ''10%'', False), (4, ''done'', True)] (new_coalescer (5 / 2) 512))"
  by (rule edits_paced) simp

section \<open>Conversions counted in Redis\<close>

text \<open>The starts of the last hour a user's set holds at the second \<open>now\<close>.\<close>

definition recent_starts :: "int \<Rightarrow> (qitem \<times> real) list \<Rightarrow> (qitem \<times> real) list" where
  "recent_starts now z = filter (\<lambda>(_, s). \<not> (0 \<le> s \<and> s \<le> of_int (now - 3600))) z"

lemma conv_start_zset:
  "zset_at t (fst (lua_conv_start k (now - 3600) limit now 3660 t m)) k =
     (if int (length (recent_starts now (zset_at t m k))) < limit
      then zput (QJson (int_str now)) (of_int now) (recent_starts now (zset_at t m k))
      else recent_starts now (zset_at t m k))"
  "snd (lua_conv_start k (now - 3600) limit now 3660 t m) =
     (if int (length (recent_starts now (zset_at t m k))) < limit then 1 else 0)"
proof -
  have keep: "zset_at t (m(k \<mapsto> (VZset z, keep_ttl t m k))) k = z" if "zset_at t m k \<noteq> []" for z
  proof -
    have "live t m k \<noteq> None" using that by (auto simp: zset_at_def split: option.splits)
    then show ?thesis
      by (auto simp: zset_at_def keep_ttl_def live_def split: option.splits if_splits)
  qed
  have "recent_starts now (zset_at t m k) \<noteq> [] \<Longrightarrow> zset_at t m k \<noteq> []" by (auto simp: recent_starts_def)
  with keep show "zset_at t (fst (lua_conv_start k (now - 3600) limit now 3660 t m)) k =
     (if int (length (recent_starts now (zset_at t m k))) < limit
      then zput (QJson (int_str now)) (of_int now) (recent_starts now (zset_at t m k))
      else recent_starts now (zset_at t m k))"
    unfolding lua_conv_start_def Let_def recent_starts_def [symmetric]
    by (simp add: zset_at_def [of _ "_(_ \<mapsto> _)"] zset_at_def [of _ "wipe _ _"])
  show "snd (lua_conv_start k (now - 3600) limit now 3660 t m) =
     (if int (length (recent_starts now (zset_at t m k))) < limit then 1 else 0)"
    unfolding lua_conv_start_def Let_def recent_starts_def [symmetric] by simp
qed

context redis_up begin

lemma up_mark_started:
  assumes "is_zset (live (clock w) (kv w) (conv_key prefix u))"
    and "\<And>w'. clock w' = clock w \<Longrightarrow> zset_at (clock w) (kv w') (conv_key prefix u) =
        zset_at (clock w) (fst (lua_conv_start (conv_key prefix u) (py_trunc (clock w) - 3600) limit (py_trunc (clock w)) 3660
          (clock w) (kv w))) (conv_key prefix u) \<Longrightarrow>
      Q (snd (lua_conv_start (conv_key prefix u) (py_trunc (clock w) - 3600) limit (py_trunc (clock w)) 3660 (clock w) (kv w)) \<noteq> 0) w'"
  shows "wp (mark_started_redis exec True limit prefix u) Q E w"
  unfolding mark_started_redis_def
  by (simp add: Let_def, rule up_connect, rule up_time, rule up_eval, use assms(1) in simp, rule up_close,
      simp, rule assms(2), simp_all)

end

text \<open>
  With Redis up, a start is recorded exactly when fewer than the limit of the user's recorded
  starts lie in the last hour, and the set then holds those starts and this second's.
\<close>

lemma start_decision:
  assumes "redis_up exec kv clock" and "is_zset (live (clock w) (kv w) (conv_key prefix u))"
    and "recent = recent_starts (py_trunc (clock w)) (zset_at (clock w) (kv w) (conv_key prefix u))"
  shows "\<exists>w'. mark_started_redis exec True limit prefix u w = (Inr (int (length recent) < limit), w') \<and>
    zset_at (clock w) (kv w') (conv_key prefix u) =
      (if int (length recent) < limit
       then zput (QJson (int_str (py_trunc (clock w)))) (of_int (py_trunc (clock w))) recent else recent)"
proof -
  have "wp (mark_started_redis exec True limit prefix u)
     (\<lambda>ok w'. ok = (int (length recent) < limit) \<and> zset_at (clock w) (kv w') (conv_key prefix u) =
      (if int (length recent) < limit
       then zput (QJson (int_str (py_trunc (clock w)))) (of_int (py_trunc (clock w))) recent else recent))
     (\<lambda>_ _. False) w"
    by (rule redis_up.up_mark_started [OF assms(1,2)]) (simp add: conv_start_zset assms(3))
  then show ?thesis unfolding wp_outcome by blast
qed

definition demo_starts :: mem where
  "demo_starts = \<lparr>mstore = [(''rl:conv:7'', (VZset [(QJson ''100'', 100), (QJson ''5000'', 5000)], None))], mclock = 5001\<rparr>"

lemma demo_starts_facts:
  "clock_now = mclock demo_starts \<Longrightarrow> py_trunc clock_now = 5001"
  "is_zset (live (mclock demo_starts) (mkv demo_starts) (conv_key ''rl:conv:'' ''7''))"
  "recent_starts 5001 (zset_at (mclock demo_starts) (mkv demo_starts) (conv_key ''rl:conv:'' ''7'')) = [(QJson ''5000'', 5000)]"
  by (simp_all add: demo_starts_def py_trunc_def conv_key_def mkv_def is_zset_def zset_at_def live_def recent_starts_def)

lemma start_decision_witness:
  "\<exists>w'. mark_started_redis mem_exec True 2 ''rl:conv:'' ''7'' demo_starts = (Inr True, w')"
  using start_decision [OF memory_up demo_starts_facts(2) refl, of 2]
  by (auto simp: demo_starts_facts)

text \<open>
  A user's starts within one second count once: with a limit of two or more, a start in a
  second that already has one is allowed, and leaves the recorded starts as they were, so any
  number of conversions can be started in that second.
\<close>

lemma same_second_uncounted:
  assumes "redis_up exec kv clock" and "is_zset (live (clock w) (kv w) (conv_key prefix u))"
    and "zset_at (clock w) (kv w) (conv_key prefix u) = [(QJson (int_str (py_trunc (clock w))), of_int (py_trunc (clock w)))]"
    and "0 \<le> clock w" "2 \<le> limit"
  shows "\<exists>w'. mark_started_redis exec True limit prefix u w = (Inr True, w') \<and>
    zset_at (clock w) (kv w') (conv_key prefix u) = zset_at (clock w) (kv w) (conv_key prefix u)"
proof -
  let ?z = "zset_at (clock w) (kv w) (conv_key prefix u)"
  have "recent_starts (py_trunc (clock w)) ?z = ?z" by (simp add: assms(3) recent_starts_def)
  then show ?thesis
    using start_decision [OF assms(1,2) refl, of limit] assms(5) by (simp add: assms(3) zput_def)
qed

lemma same_second_uncounted_witness:
  "\<exists>w'. mark_started_redis mem_exec True 2 ''rl:conv:'' ''7''
     \<lparr>mstore = [(''rl:conv:7'', (VZset [(QJson (int_str 8), 8)], None))], mclock = 17 / 2\<rparr> = (Inr True, w')"
proof -
  have "py_trunc (17 / 2) = 8" by (simp add: py_trunc_def floor_eq_iff)
  then show ?thesis
    using same_second_uncounted [OF memory_up, of "\<lparr>mstore = [(''rl:conv:7'', (VZset [(QJson (int_str 8), 8)], None))],
      mclock = 17 / 2\<rparr>" "''rl:conv:''" "''7''" 2]
    by (auto simp: conv_key_def mkv_def is_zset_def zset_at_def live_def)
qed

end
