(* ===== verification/JobQueue.thy ===== *)
theory JobQueue
  imports BatchDown
begin

text \<open>
  \<open>utils/job_queue.py\<close>: the payload helpers, the per-loop client cache, \<open>enqueue_job\<close>,
  \<open>pop_job\<close>, \<open>cancel_job\<close> and \<open>release_input_lock\<close>.  Parameters stand for what the code calls
  elsewhere: \<open>pref\<close> is the user's stored \<open>upload_mode\<close> (\<open>None\<close> where reading it raises), \<open>uuid\<close> the
  fresh request id, \<open>sha\<close> the hex digest.  The event log and the Mongo write that follow a push are
  best-effort side channels and are left out; bytes keys do not occur with decoded responses.
\<close>

section \<open>Payload helpers\<close>

definition as_hash_str :: "pyval \<Rightarrow> string option" where
  "as_hash_str v =
     (case v of PNone \<Rightarrow> None | PStr s \<Rightarrow> if s = [] then None else Some s | _ \<Rightarrow> Some (py_str v))"

definition upload_modes :: "string list" where
  "upload_modes = [''video'', ''file'']"

definition stamp_upload_mode :: "(pyval \<Rightarrow> string option) \<Rightarrow> job \<Rightarrow> job" where
  "stamp_upload_mode pref j =
     (if truthy (jget j ''upload_mode'') then j
      else
        let owner = py_or (jget j ''user_id'') (jget j ''chat_id'') in
        if \<not> truthy owner then j
        else case pref owner of
          None \<Rightarrow> j
        | Some s \<Rightarrow>
            let mode = lower (strip s) in
            if mode \<in> set upload_modes then dput ''upload_mode'' (PStr mode) j else j)"

definition naming_fields :: "(string \<times> string list) list" where
  "naming_fields = [(''original_filename'', [''original_filename'', ''original_name'']), (''output_filename'', [''output_filename''])]"

fun first_value :: "job \<Rightarrow> string list \<Rightarrow> string option" where
  "first_value stored [] = None"
| "first_value stored (source # sources) =
     (case as_hash_str (jget stored source) of Some v \<Rightarrow> Some v | None \<Rightarrow> first_value stored sources)"

definition stored_job_naming :: "job \<Rightarrow> (string, string) dict" where
  "stored_job_naming stored =
     List.map_filter (\<lambda>(field, sources). map_option (Pair field) (first_value stored sources)) naming_fields"

definition carry_over_job_naming :: "job \<Rightarrow> job \<Rightarrow> bool \<Rightarrow> job" where
  "carry_over_job_naming j stored overwrite =
     fold (\<lambda>(field, v) j. if overwrite \<or> \<not> truthy (jget j field) then dput field (PStr v) j else j)
       (stored_job_naming stored) j"

definition owner_fields :: "string list" where
  "owner_fields = [''chat_id'', ''user_id'']"

definition stored_job_owners :: "job \<Rightarrow> (string, string) dict" where
  "stored_job_owners stored =
     List.map_filter (\<lambda>field. map_option (Pair field) (as_hash_str (jget stored field))) owner_fields"

definition carry_over_job_owners :: "job \<Rightarrow> job \<Rightarrow> bool \<Rightarrow> job" where
  "carry_over_job_owners j stored overwrite =
     fold (\<lambda>(field, v) j.
         if overwrite \<or> \<not> truthy (jget j field)
         then dput field (case py_int v of Some i \<Rightarrow> PInt i | None \<Rightarrow> PStr v) j else j)
       (stored_job_owners stored) j"

section \<open>One client per event loop\<close>

text \<open>
  A loop has an id, which a later loop may reuse, and an identity of its own; a client remembers
  the loop it was opened on.
\<close>

record event_loop =
  loop_id :: int
  loop_no :: nat

datatype redis_client = Client (opened_on: event_loop) nat

type_synonym client_cache = "(int, event_loop \<times> redis_client) dict"

definition drop_closed_clients :: "(event_loop \<Rightarrow> bool) \<Rightarrow> client_cache \<Rightarrow> client_cache" where
  "drop_closed_clients gone cache = filter (\<lambda>(k, (l, c)). \<not> gone l) cache"

definition get_redis ::
    "bool \<Rightarrow> string option \<Rightarrow> (event_loop \<Rightarrow> bool) \<Rightarrow> event_loop \<Rightarrow> nat \<Rightarrow> client_cache \<Rightarrow>
     (exn + redis_client) \<times> client_cache" where
  "get_redis has_redis url gone loop serial cache =
     (if \<not> has_redis then (Inl RuntimeError, cache)
      else if (case url of None \<Rightarrow> True | Some u \<Rightarrow> u = []) then (Inl RuntimeError, cache)
      else
        let fresh =
          (let client = Client loop serial
           in (Inr client, dput (loop_id loop) (loop, client) (drop_closed_clients gone cache))) in
        case dget cache (loop_id loop) of
          None \<Rightarrow> fresh
        | Some (l, c) \<Rightarrow> if l = loop \<and> \<not> gone loop then (Inr c, cache) else fresh)"

text \<open>\<open>close_redis\<close>: the cache is emptied before the clients are closed, each on its own.\<close>

definition close_redis :: "client_cache \<Rightarrow> redis_client list \<times> client_cache" where
  "close_redis cache = (map (\<lambda>(k, (l, c)). c) cache, [])"

section \<open>The payload a job is queued with\<close>

text \<open>\<open>pathlib.PurePath(p).as_posix()\<close> on a POSIX system.\<close>

fun join_with :: "string \<Rightarrow> string list \<Rightarrow> string" where
  "join_with sep [] = []"
| "join_with sep [x] = x"
| "join_with sep (x # y # ys) = x @ sep @ join_with sep (y # ys)"

definition pure_path :: "string \<Rightarrow> string" where
  "pure_path p =
     (let root = (if starts_with ''///'' p then ''/'' else if starts_with ''//'' p then ''//''
                  else if starts_with ''/'' p then ''/'' else []);
          parts = filter (\<lambda>s. s \<noteq> [] \<and> s \<noteq> ''.'') (split_on (CHR ''/'') p) in
      if root = [] \<and> parts = [] then ''.'' else root @ join_with ''/'' parts)"

definition slashes :: "string \<Rightarrow> string" where
  "slashes p = map (\<lambda>c. if c = CHR 0x5C then CHR ''/'' else c) p"

definition is_text :: "pyval \<Rightarrow> bool" where
  "is_text v = (case v of PStr _ \<Rightarrow> True | _ \<Rightarrow> False)"

text \<open>
  A path that is not text raises in the first attempt and in its fallback: the output path is then
  not reached, or the input path is rewritten once more.
\<close>

definition normalize_paths :: "job \<Rightarrow> job" where
  "normalize_paths j =
     (let set_path = (\<lambda>field f j. case jget j field of PStr s \<Rightarrow> if s = [] then j else dput field (PStr (f s)) j | _ \<Rightarrow> j);
          bad = (\<lambda>field j. truthy (jget j field) \<and> \<not> is_text (jget j field)) in
      if bad ''input_path'' j then j
      else
        let j1 = set_path ''input_path'' pure_path j in
        if bad ''output_path'' j then set_path ''input_path'' slashes j1
        else set_path ''output_path'' pure_path j1)"

definition with_request_id :: "string \<Rightarrow> job \<Rightarrow> job" where
  "with_request_id uuid j = (if truthy (jget j ''request_id'') then j else dput ''request_id'' (PStr uuid) j)"

definition prepare_job :: "(pyval \<Rightarrow> string option) \<Rightarrow> string \<Rightarrow> job \<Rightarrow> job" where
  "prepare_job pref uuid j = stamp_upload_mode pref (with_request_id uuid (normalize_paths j))"

text \<open>The job hash.  A value the client cannot encode (None, a flag, a list) makes \<open>hset\<close> raise.\<close>

definition put_given :: "string \<Rightarrow> job \<Rightarrow> job \<Rightarrow> job" where
  "put_given field j mapping =
     (if jget j field = PNone \<or> jget j field = PStr [] then mapping
      else dput field (PStr (py_str (jget j field))) mapping)"

definition job_mapping :: "real \<Rightarrow> job \<Rightarrow> job" where
  "job_mapping now j =
     (let m0 =
        [(''status'', PStr ''queued''), (''progress'', PInt 0), (''message'', PStr ''queued''),
         (''input'', py_or (py_or (py_or (jget j ''input_path'') (jget j ''input_key'')) (jget j ''source_url'')) (PStr [])),
         (''input_key'', py_or (jget j ''input_key'') (PStr [])),
         (''created_at'', PStr (time_text now)),
         (''request_id'', py_or (jget j ''request_id'') (PStr []))];
          m1 = fold (\<lambda>f. put_given f j) [''batch_id'', ''batch_seq'', ''batch_total''] m0;
          out = py_or (py_or (jget j ''output_path'') (jget j ''output'')) (PStr []);
          m2 = (if truthy out then dput ''output'' out m1 else m1);
          m3 = fold (\<lambda>f. put_given f j) [''chat_id'', ''user_id''] m2;
          m4 = fold (\<lambda>(f, v). dput f (PStr v)) (stored_job_naming j) m3 in
      if truthy (jget j ''upload_mode'') then dput ''upload_mode'' (PStr (py_str (jget j ''upload_mode''))) m4 else m4)"

fun hash_text :: "pyval \<Rightarrow> string option" where
  "hash_text (PStr s) = Some s"
| "hash_text (PInt i) = Some (int_str i)"
| "hash_text (PFloat s) = Some s"
| "hash_text _ = None"

fun encode_hash :: "job \<Rightarrow> (string, string) dict option" where
  "encode_hash [] = Some []"
| "encode_hash ((f, v) # m) =
     (case (hash_text v, encode_hash m) of (Some s, Some h) \<Rightarrow> Some ((f, s) # h) | _ \<Rightarrow> None)"

section \<open>enqueue_job\<close>

definition stopped_mark :: "(string, string) dict" where
  "stopped_mark = [(''status'', ''cancelled''), (''cancel'', ''1''), (''message'', ''batch cancelled'')]"

text \<open>
  A check of the batch's marker: \<open>True\<close> is \<open>return\<close>.  An exception anywhere in the check, also
  after the marker was seen, lets the job go on.
\<close>

definition refuse_if_stopped :: "'w exec \<Rightarrow> bool \<Rightarrow> pyval \<Rightarrow> pyval \<Rightarrow> ('w, bool) io" where
  "refuse_if_stopped exec indexed batch_id job_id =
     (if \<not> truthy batch_id then ret False
      else
        tryc
          (bnd (r_exists exec [batch_cancel_key (py_str batch_id)]) (\<lambda>n.
           if n = 0 then ret False
           else
             bnd (whenb (truthy job_id)
                    (bnd (r_hset exec (job_hash_key (py_str job_id)) stopped_mark) (\<lambda>_.
                     whenb indexed (r_srem exec (batch_jobs_key (py_str batch_id)) [py_str job_id])))) (\<lambda>_.
             ret True)))
          (\<lambda>_. ret False))"

definition write_job_hash :: "'w exec \<Rightarrow> int \<Rightarrow> job \<Rightarrow> ('w, unit) io" where
  "write_job_hash exec ttl j =
     (let job_id = jget j ''job_id''; batch_id = jget j ''batch_id'' in
      if \<not> truthy job_id then ret ()
      else
        bnd (r_time exec) (\<lambda>now.
        bnd (suppress
               (case encode_hash (job_mapping now j) of
                  None \<Rightarrow> ret ()
                | Some h \<Rightarrow>
                    bnd (r_hset exec (job_hash_key (py_str job_id)) h) (\<lambda>_.
                    whenb (0 < ttl) (suppress (r_expire exec (job_hash_key (py_str job_id)) ttl))))) (\<lambda>_.
        whenb (truthy batch_id)
          (suppress
             (bnd (r_sadd exec (batch_jobs_key (py_str batch_id)) (py_str job_id)) (\<lambda>_.
              r_expire exec (batch_jobs_key (py_str batch_id)) (if ttl = 0 then 86400 else ttl)))))))"

definition publish_job :: "'w exec \<Rightarrow> job \<Rightarrow> ('w, bool) io" where
  "publish_job exec j = tryc (fmapio (\<lambda>r. r = RBool True) (exec (BrokerPublish j))) (\<lambda>_. ret False)"

text \<open>The value is the payload as the caller's dictionary is left.\<close>

definition enqueue_job :: "'w exec \<Rightarrow> (pyval \<Rightarrow> string option) \<Rightarrow> string \<Rightarrow> int \<Rightarrow> job \<Rightarrow> ('w, job) io" where
  "enqueue_job exec pref uuid ttl j =
     bnd (r_connect exec) (\<lambda>_.
     bnd (refuse_if_stopped exec False (jget j ''batch_id'') (jget j ''job_id'')) (\<lambda>stopped.
     if stopped then ret j
     else
       let j1 = prepare_job pref uuid j in
       bnd (write_job_hash exec ttl j1) (\<lambda>_.
       bnd (refuse_if_stopped exec True (jget j ''batch_id'') (jget j ''job_id'')) (\<lambda>stopped.
       if stopped then ret j1
       else
         bnd (publish_job exec j1) (\<lambda>routed.
         bnd (whenb (\<not> routed) (suppress (r_lpush exec job_list_key (QJob j1)))) (\<lambda>_.
         bnd (r_close exec) (\<lambda>_. ret j1)))))))"

section \<open>pop_job\<close>

definition promote_due :: "'w exec \<Rightarrow> qitem list \<Rightarrow> ('w, unit) io" where
  "promote_due exec items =
     for_each items () (\<lambda>item _.
       bnd (suppress (r_zrem exec delayed_set_key item)) (\<lambda>_.
       suppress (r_lpush exec job_list_key item)))"

definition loads_item :: "qitem \<Rightarrow> ('w, qitem option) io" where
  "loads_item item = (case item of QText _ \<Rightarrow> raise ValueError | _ \<Rightarrow> ret (Some item))"

definition pop_job :: "'w exec \<Rightarrow> ('w, qitem option) io" where
  "pop_job exec =
     bnd (r_connect exec) (\<lambda>_.
     fin
       (bnd (suppress (bnd (r_time exec) (\<lambda>t.
               bnd (r_zdue exec delayed_set_key (of_int (py_trunc t)) 50) (promote_due exec)))) (\<lambda>_.
        bnd (r_brpop exec job_list_key) (\<lambda>item.
          case item of None \<Rightarrow> ret None | Some raw \<Rightarrow> loads_item raw)))
       (r_close exec))"

section \<open>Cancelling\<close>

definition input_lock_prefix :: string where
  "input_lock_prefix = ''ffmpeg:lock:''"

definition release_input_lock :: "'w exec \<Rightarrow> bool \<Rightarrow> string \<Rightarrow> string \<Rightarrow> ('w, bool) io" where
  "release_input_lock exec given lock_key owner =
     (if lock_key = [] \<or> owner = [] then ret False
      else
        bnd (if given then ret (Some ()) else attempt (r_connect exec)) (\<lambda>client.
        if client = None then ret False
        else
          fin
            (bnd (attempt (r_eval exec (ReleaseScript lock_key owner))) (\<lambda>res.
             if (case res of Some n \<Rightarrow> n \<noteq> 0 | None \<Rightarrow> False) then ret True
             else
               bnd (attempt
                      (bnd (r_get exec lock_key) (\<lambda>current.
                       if current = Some owner then bnd (r_del exec [lock_key]) (\<lambda>_. ret True)
                       else ret False))) (\<lambda>freed.
               ret (freed = Some True))))
            (whenb (\<not> given) (suppress (r_close exec)))))"

definition user_cancel_mark :: "(string, string) dict" where
  "user_cancel_mark =
     [(''cancel'', ''1''), (''status'', ''cancelled''), (''message'', ''cancelled by user''),
      (''progress'', ''0''), (''cancel_notified'', ''1'')]"

definition or_text :: "string option \<Rightarrow> string \<Rightarrow> string" where
  "or_text a b = (case a of None \<Rightarrow> b | Some s \<Rightarrow> if s = [] then b else s)"

definition lock_name :: "(string, string) dict \<Rightarrow> string \<Rightarrow> string" where
  "lock_name stored job_id =
     or_text (dget stored ''input_key'') (or_text (dget stored ''input'') (or_text (dget stored ''source_url'') job_id))"

definition stored_status :: "(string, string) dict \<Rightarrow> string" where
  "stored_status stored = lower (strip (case dget stored ''status'' of None \<Rightarrow> [] | Some s \<Rightarrow> s))"

definition cancel_job :: "'w exec \<Rightarrow> (string \<Rightarrow> string) \<Rightarrow> string \<Rightarrow> ('w, string) io" where
  "cancel_job exec sha job_id =
     bnd (r_connect exec) (\<lambda>_.
     fin
       (bnd (attempt (r_hgetall exec (job_hash_key job_id))) (\<lambda>got.
        let stored = (case got of None \<Rightarrow> [] | Some h \<Rightarrow> h); status = stored_status stored in
        if status \<in> {''done'', ''error''} then ret status
        else if status = ''cancelled'' then ret ''cancelled''
        else if got \<noteq> None \<and> stored = [] then ret ''missing''
        else
          bnd (suppress (r_hset exec (job_hash_key job_id) user_cancel_mark)) (\<lambda>_.
          bnd (suppress (r_eval exec (PruneJobScript job_list_key job_id))) (\<lambda>_.
          bnd (suppress (release_input_lock exec True (input_lock_prefix @ sha (lock_name stored job_id)) job_id)) (\<lambda>_.
          ret ''cancelled'')))))
       (r_close exec))"

end
