(* ===== verification/JobQueueResults.thy ===== *)
theory JobQueueResults
  imports JobQueue
begin

text \<open>
  What the job queue guarantees: what a push and a pop do to the list, that promotion neither loses
  nor invents a job while Redis answers (and what happens when two poppers promote at once), the
  outcomes of a cancellation, that a job of a stopped batch is not queued, that a requeued job keeps
  its owner and name, and that a client is only used on its own event loop.
\<close>

section \<open>Commands on the list and the delayed set\<close>

lemma live_keep_ttl [simp]:
  "(case keep_ttl t m k of None \<Rightarrow> Some v | Some e \<Rightarrow> if t < e then Some v else None) = Some v"
  by (auto simp: keep_ttl_def live_def split: option.splits if_splits)

lemma hash_at_put:
  "hash_at t (m(k \<mapsto> (VHash h, keep_ttl t m k))) k = h"
  "is_hash (live t (m(k \<mapsto> (VHash h, keep_ttl t m k))) k)"
  by (simp_all add: hash_at_def [of _ "_(_ \<mapsto> _)"] is_hash_def)

lemma zset_at_cong: "m k = m' k \<Longrightarrow> zset_at t m k = zset_at t m' k"
  and list_at_cong: "m k = m' k \<Longrightarrow> list_at t m k = list_at t m' k"
  by (simp_all add: zset_at_def list_at_def live_def)

lemma list_at_lpush [simp]: "list_at t (effect (Lpush k it) t m) k = it # list_at t m k"
  by (simp add: list_at_def [of _ "_(_ \<mapsto> _)"])

lemma list_at_put [simp]: "list_at t (put_list k xs (keep_ttl t m k) m) k = xs"
  by (simp add: list_at_def [of _ "wipe _ _"] list_at_def [of _ "_(_ \<mapsto> _)"] put_list_def)

lemma list_at_brpop [simp]: "list_at t (effect (Brpop k) t m) k = butlast (list_at t m k)"
  by simp

lemma zset_at_zrem [simp]: "zset_at t (effect (Zrem k it) t m) k = zdel it (zset_at t m k)"
  by (cases "live t m k")
    (simp_all add: put_zset_def zdel_def zset_at_def [of _ "wipe _ _"] zset_at_def [of _ "_(_ \<mapsto> _)"],
     simp add: zset_at_def)

lemma queue_keys [simp]: "job_list_key \<noteq> delayed_set_key" "delayed_set_key \<noteq> job_list_key"
  by (simp_all add: key_defs)

lemma job_hash_not_queue [simp]:
  "job_hash_key j \<noteq> job_list_key" "job_hash_key j \<noteq> delayed_set_key"
  "job_list_key \<noteq> job_hash_key j" "delayed_set_key \<noteq> job_hash_key j"
  by (simp_all add: key_defs)

section \<open>Promotion and popping\<close>

definition is_junk :: "qitem \<Rightarrow> bool" where
  "is_junk it = (case it of QText _ \<Rightarrow> True | _ \<Rightarrow> False)"

lemma loads_item_ok: "\<not> is_junk it \<Longrightarrow> loads_item it = ret (Some it)"
  and loads_item_junk: "is_junk it \<Longrightarrow> loads_item it = raise ValueError"
  by (auto simp: loads_item_def is_junk_def split: qitem.splits)

context redis_up begin

lemma up_promote_due:
  assumes "typed (kv w)"
    and "\<And>w'. clock w' = clock w \<Longrightarrow> typed (kv w') \<Longrightarrow>
      list_at (clock w) (kv w') job_list_key = rev ds @ list_at (clock w) (kv w) job_list_key \<Longrightarrow>
      zset_at (clock w) (kv w') delayed_set_key = filter (\<lambda>p. fst p \<notin> set ds) (zset_at (clock w) (kv w) delayed_set_key) \<Longrightarrow>
      Q () w'"
  shows "wp (promote_due exec ds) Q E w"
proof -
  let ?L = "list_at (clock w) (kv w) job_list_key" and ?Z = "zset_at (clock w) (kv w) delayed_set_key"
  let ?I = "\<lambda>dn (_ :: unit) v. clock v = clock w \<and> typed (kv v) \<and> list_at (clock w) (kv v) job_list_key = rev dn @ ?L \<and>
      zset_at (clock w) (kv v) delayed_set_key = filter (\<lambda>p. fst p \<notin> set dn) ?Z"
  have "wp (promote_due exec ds) (?I ([] @ ds)) E w"
    unfolding promote_due_def
  proof (rule wp_for_each_prefix)
    fix x dn rest s v
    assume I: "?I dn s v"
    show "wp (bnd (suppress (r_zrem exec delayed_set_key x)) (\<lambda>_. suppress (r_lpush exec job_list_key x)))
        (?I (dn @ [x])) E v"
      unfolding wp_bnd wp_suppress
    proof (rule up_zrem, goal_cases)
      case 1
      then show ?case using I by (intro typed_zset) auto
    next
      case (2 v1)
      then have k1: "kv v1 = effect (Zrem delayed_set_key x) (clock w) (kv v)"
        using I by (simp del: effect.simps)
      have t1: "typed (kv v1)" unfolding k1 by (rule effect_typed) (use I in simp_all)
      have Z1: "zset_at (clock w) (kv v1) delayed_set_key = filter (\<lambda>p. fst p \<notin> set (dn @ [x])) ?Z"
        unfolding k1 zset_at_zrem using I by (auto simp: zdel_def AList.delete_eq intro: filter_cong)
      have L1: "list_at (clock w) (kv v1) job_list_key = rev dn @ ?L"
      proof -
        have "kv v1 job_list_key = kv v job_list_key"
          unfolding k1 by (rule effect_untouched) simp
        then show ?thesis using I list_at_cong by metis
      qed
      show ?case
      proof (rule up_lpush, goal_cases)
        case 1
        then show ?case using t1 by (intro typed_list) auto
      next
        case (2 v2)
        then have k: "kv v2 = effect (Lpush job_list_key x) (clock w) (kv v1)" "clock v2 = clock w"
          using \<open>clock v1 = clock v\<close> I by auto
        have "list_at (clock w) (kv v2) job_list_key = x # rev dn @ ?L" unfolding k list_at_lpush L1 ..
        moreover have "zset_at (clock w) (kv v2) delayed_set_key = zset_at (clock w) (kv v1) delayed_set_key"
          unfolding k by (rule zset_at_cong, rule effect_untouched) simp
        moreover have "typed (kv v2)" unfolding k by (rule effect_typed [OF t1]) simp
        ultimately show ?case using k Z1 by simp
      qed
    qed
  qed (use assms(1) in simp_all)
  then show ?thesis by (rule wp_mono) (use assms(2) in auto)
qed

lemma up_pop_job:
  assumes "typed (kv w)"
    and post: "\<And>ds L' w'. mset ds \<subseteq># mset (due (of_int (py_trunc (clock w))) (zset_at (clock w) (kv w) delayed_set_key)) \<Longrightarrow>
      length ds = min 50 (length (due (of_int (py_trunc (clock w))) (zset_at (clock w) (kv w) delayed_set_key))) \<Longrightarrow>
      L' = rev ds @ list_at (clock w) (kv w) job_list_key \<Longrightarrow>
      list_at (clock w) (kv w') job_list_key = butlast L' \<Longrightarrow>
      zset_at (clock w) (kv w') delayed_set_key = filter (\<lambda>p. fst p \<notin> set ds) (zset_at (clock w) (kv w) delayed_set_key) \<Longrightarrow>
      (if L' \<noteq> [] \<and> is_junk (last L') then E ValueError w' else Q (if L' = [] then None else Some (last L')) w')"
  shows "wp (pop_job exec) Q E w"
  unfolding pop_job_def wp_bnd
proof (rule up_connect, unfold wp_fin wp_bnd wp_suppress, rule up_time, rule up_zdue, goal_cases)
  case (1 w0 w1)
  then show ?case using assms(1) by (intro typed_zset) auto
next
  case (2 w0 w1 ds w2)
  let ?now = "of_int (py_trunc (clock w))" and ?L = "list_at (clock w) (kv w) job_list_key"
    and ?Z = "zset_at (clock w) (kv w) delayed_set_key"
  have w2: "clock w2 = clock w" "kv w2 = kv w" using 2 by simp_all
  have ds: "mset ds \<subseteq># mset (due ?now ?Z)" "length ds = min 50 (length (due ?now ?Z))" using 2 by simp_all
  show ?case
  proof (rule up_promote_due, goal_cases)
    case 1
    then show ?case using assms(1) w2 by simp
  next
    case (2 w3)
    show ?case
    proof (rule up_brpop, goal_cases)
      case 1
      then show ?case using 2 by (intro typed_list) auto
    next
      case (2 w4)
      let ?L' = "rev ds @ ?L"
      have k4: "kv w4 = effect (Brpop job_list_key) (clock w) (kv w3)" "clock w4 = clock w"
        using 2 \<open>clock w3 = clock w2\<close> w2 by (simp_all del: effect.simps)
      have L3: "list_at (clock w3) (kv w3) job_list_key = ?L'"
        using \<open>list_at (clock w2) (kv w3) job_list_key = _\<close> \<open>clock w3 = clock w2\<close> w2 by simp
      have L4: "list_at (clock w) (kv w4) job_list_key = butlast ?L'"
        unfolding k4 list_at_brpop using L3 \<open>clock w3 = clock w2\<close> w2 by simp
      have "kv w4 delayed_set_key = kv w3 delayed_set_key" unfolding k4 by (rule effect_untouched) simp
      then have "zset_at (clock w) (kv w4) delayed_set_key = zset_at (clock w) (kv w3) delayed_set_key"
        by (rule zset_at_cong)
      then have Z4: "zset_at (clock w) (kv w4) delayed_set_key = filter (\<lambda>p. fst p \<notin> set ds) ?Z"
        using \<open>zset_at (clock w2) (kv w3) delayed_set_key = _\<close> w2 by simp
      have fin: "if ?L' \<noteq> [] \<and> is_junk (last ?L') then E ValueError w5
          else Q (if ?L' = [] then None else Some (last ?L')) w5" if "kv w5 = kv w4" for w5
        by (rule post [OF ds refl]) (use L4 Z4 that in simp_all)
      show ?case
      proof (cases "?L' = []")
        case True
        then show ?thesis using fin by (simp add: L3 del: append_is_Nil_conv) (rule up_close, simp)
      next
        case False
        then show ?thesis
          using fin by (cases "is_junk (last ?L')")
            (simp add: L3 loads_item_junk loads_item_ok del: append_is_Nil_conv last_append, rule up_close, simp)+
      qed
    qed
  qed
qed

end

definition popped :: "qitem option \<Rightarrow> qitem multiset" where
  "popped r = (case r of None \<Rightarrow> {#} | Some it \<Rightarrow> {#it#})"

text \<open>
  C22: With Redis up, a pop loses and invents nothing: the jobs in the list, the delayed set and the
  popper's hands are together the jobs there were.  At most 50 jobs whose time has come join the
  list, behind the jobs that wait there, and the oldest job of the list is the one popped.
\<close>

lemma pop_conserves:
  assumes "redis_up exec kv clock" and "typed (kv w)"
    and "L = list_at (clock w) (kv w) job_list_key" and "Z = zset_at (clock w) (kv w) delayed_set_key"
    and "distinct (map fst Z)" and "\<forall>it \<in> set L \<union> fst ` set Z. \<not> is_junk it"
  shows "\<exists>r w' ds. pop_job exec w = (Inr r, w') \<and>
    mset (list_at (clock w) (kv w') job_list_key) + mset (map fst (zset_at (clock w) (kv w') delayed_set_key)) + popped r =
      mset L + mset (map fst Z) \<and>
    length ds \<le> 50 \<and> set ds \<subseteq> set (due (of_int (py_trunc (clock w))) Z) \<and>
    r = (if rev ds @ L = [] then None else Some (last (rev ds @ L)))"
proof -
  have "wp (pop_job exec) (\<lambda>r w'. mset (list_at (clock w) (kv w') job_list_key) +
        mset (map fst (zset_at (clock w) (kv w') delayed_set_key)) + popped r = mset L + mset (map fst Z) \<and>
      (\<exists>ds. length ds \<le> 50 \<and> set ds \<subseteq> set (due (of_int (py_trunc (clock w))) Z) \<and>
        r = (if rev ds @ L = [] then None else Some (last (rev ds @ L))))) (\<lambda>_ _. False) w"
  proof (rule redis_up.up_pop_job [OF assms(1,2)], goal_cases)
    case (1 ds L' w')
    note 2 = 1
    let ?due = "due (of_int (py_trunc (clock w))) Z"
    have sub: "mset ds \<subseteq># mset ?due" using 2(1) assms(4) by simp
    have "mset ?due \<subseteq># mset (map fst Z)"
      unfolding due_def by (metis mset_map mset_filter image_mset_subseteq_mono multiset_filter_subset)
    then have in_Z: "mset ds \<subseteq># mset (map fst Z)" using sub by (rule subset_mset.order_trans [rotated])
    have dd: "distinct ds"
    proof -
      obtain ys where "mset (map fst Z) = mset (ds @ ys)"
        using in_Z by (metis mset_subset_eq_exists_conv ex_mset mset_append)
      then show ?thesis using assms(5) mset_eq_imp_distinct_iff [of "map fst Z" "ds @ ys"] by simp
    qed
    have ok: "\<not> (L' \<noteq> [] \<and> is_junk (last L'))"
    proof
      assume bad: "L' \<noteq> [] \<and> is_junk (last L')"
      have "set L' \<subseteq> set L \<union> fst ` set Z" using 2(3) assms(3) set_mset_mono [OF in_Z] by auto
      moreover have "last L' \<in> set L'" using bad by simp
      ultimately show False using bad assms(6) by blast
    qed
    have "mset (filter (\<lambda>x. x \<in> set ds) (map fst Z)) = mset ds"
    proof (rule set_eq_iff_mset_eq_distinct [THEN iffD1])
      show "distinct (filter (\<lambda>x. x \<in> set ds) (map fst Z))" "distinct ds" using assms(5) dd by simp_all
      show "set (filter (\<lambda>x. x \<in> set ds) (map fst Z)) = set ds" using set_mset_mono [OF in_Z] by auto
    qed
    moreover have "mset (filter (\<lambda>x. x \<in> set ds) (map fst Z)) + mset (filter (\<lambda>x. x \<notin> set ds) (map fst Z)) = mset (map fst Z)"
      by (metis mset_filter multiset_partition)
    moreover have "map fst (zset_at (clock w) (kv w') delayed_set_key) = filter (\<lambda>x. x \<notin> set ds) (map fst Z)"
      using 2(5) assms(4) by (simp add: filter_map o_def)
    moreover have "mset (butlast L') + popped (if L' = [] then None else Some (last L')) = mset L'"
      by (cases L' rule: rev_cases) (simp_all add: popped_def)
    moreover have "set ds \<subseteq> set ?due" using set_mset_mono [OF sub] by simp
    ultimately show ?case using 2(2,3,4) assms(3) unfolding if_not_P [OF ok] by (auto simp: ac_simps)
  qed
  then show ?thesis unfolding wp_outcome by blast
qed

definition demo_queue :: mem where
  "demo_queue = \<lparr>mstore =
     [(''ffmpeg:jobs'', (VList [QJob [(''job_id'', PStr ''b'')], QJob [(''job_id'', PStr ''a'')]], None)),
      (''ffmpeg:delayed'', (VZset [(QJob [(''job_id'', PStr ''c'')], 5), (QJob [(''job_id'', PStr ''d'')], 90)], None)),
      (''ffmpeg:job:b'', (VHash [(''status'', ''queued''), (''input_key'', ''k'')], None)),
      (''ffmpeg:job:z'', (VHash [(''status'', ''done'')], None))],
     mclock = 10\<rparr>"

lemma demo_queue_typed: "typed (mkv demo_queue)"
  unfolding mkv_def by (rule typed_map_of) (simp add: demo_queue_def kind_of_def key_defs starts_with_def)

lemma demo_queue_at:
  "list_at 10 (mkv demo_queue) job_list_key = [QJob [(''job_id'', PStr ''b'')], QJob [(''job_id'', PStr ''a'')]]"
  "zset_at 10 (mkv demo_queue) delayed_set_key = [(QJob [(''job_id'', PStr ''c'')], 5), (QJob [(''job_id'', PStr ''d'')], 90)]"
  "mclock demo_queue = 10"
  by (simp_all add: demo_queue_def mkv_def list_at_def zset_at_def live_def job_list_key_def delayed_set_key_def)

lemma pop_conserves_witness:
  "\<exists>r w'. pop_job mem_exec demo_queue = (Inr r, w') \<and>
     mset (list_at 10 (mkv w') job_list_key) + mset (map fst (zset_at 10 (mkv w') delayed_set_key)) + popped r =
     {#QJob [(''job_id'', PStr ''a'')], QJob [(''job_id'', PStr ''b'')], QJob [(''job_id'', PStr ''c'')], QJob [(''job_id'', PStr ''d'')]#}"
proof -
  obtain r w' where "pop_job mem_exec demo_queue = (Inr r, w')"
    "mset (list_at 10 (mkv w') job_list_key) + mset (map fst (zset_at 10 (mkv w') delayed_set_key)) + popped r =
      mset (list_at 10 (mkv demo_queue) job_list_key) + mset (map fst (zset_at 10 (mkv demo_queue) delayed_set_key))"
    using pop_conserves [OF memory_up demo_queue_typed refl refl] by (auto simp: demo_queue_at is_junk_def)
  then show ?thesis by (simp add: demo_queue_at add_mset_commute)
qed

definition demo_junk :: mem where
  "demo_junk = \<lparr>mstore = [(''ffmpeg:jobs'', (VList [QJob [(''job_id'', PStr ''a'')], QText ''oops''], None))], mclock = 1\<rparr>"

text \<open>
  An entry of the list that is not JSON does not block the queue: with Redis up and no job due,
  the pop that reaches it raises a \<open>ValueError\<close>, gives the client back and leaves the list without
  the entry, so the next pop sees the next job.
\<close>

lemma junk_entry_dropped:
  assumes "redis_up exec kv clock" and "typed (kv w)"
    and "L = list_at (clock w) (kv w) job_list_key" and "L \<noteq> []" and "last L = QText s"
    and "due (of_int (py_trunc (clock w))) (zset_at (clock w) (kv w) delayed_set_key) = []"
  shows "\<exists>w'. pop_job exec w = (Inl ValueError, w') \<and> list_at (clock w) (kv w') job_list_key = butlast L \<and>
    zset_at (clock w) (kv w') delayed_set_key = zset_at (clock w) (kv w) delayed_set_key"
proof -
  have "wp (pop_job exec) (\<lambda>_ _. False) (\<lambda>e w'. e = ValueError \<and> list_at (clock w) (kv w') job_list_key = butlast L \<and>
    zset_at (clock w) (kv w') delayed_set_key = zset_at (clock w) (kv w) delayed_set_key) w"
    by (rule redis_up.up_pop_job [OF assms(1,2)]) (use assms in \<open>auto simp: is_junk_def\<close>)
  then show ?thesis by (auto simp: wp_def split: prod.splits sum.splits)
qed

lemma junk_entry_dropped_witness:
  "\<exists>w'. pop_job mem_exec demo_junk = (Inl ValueError, w') \<and>
     list_at (mclock demo_junk) (mkv w') job_list_key = [QJob [(''job_id'', PStr ''a'')]]"
proof -
  have t: "typed (mkv demo_junk)" unfolding mkv_def
    by (rule typed_map_of) (simp add: demo_junk_def kind_of_def key_defs starts_with_def)
  have L: "list_at (mclock demo_junk) (mkv demo_junk) job_list_key = [QJob [(''job_id'', PStr ''a'')], QText ''oops'']"
    and Z: "zset_at (mclock demo_junk) (mkv demo_junk) delayed_set_key = []"
    by (simp_all add: demo_junk_def mkv_def list_at_def zset_at_def live_def job_list_key_def delayed_set_key_def)
  have "due x [] = []" for x by (simp add: due_def)
  then show ?thesis
    using junk_entry_dropped [OF memory_up t refl, of "''oops''"] by (simp add: L Z) blast
qed

text \<open>The read of a popper.\<close>

definition read_due :: "'w exec \<Rightarrow> real \<Rightarrow> ('w, qitem list) io" where
  "read_due exec now = r_zdue exec delayed_set_key now 50"

text \<open>
  Two poppers that promote at the same moment each see the same due jobs, and neither looks at
  what its removal replied: every due job joins the list twice.
\<close>

lemma double_promotion:
  assumes up: "redis_up exec kv clock" and typed: "typed (kv w)"
    and few: "length (due now (zset_at (clock w) (kv w) delayed_set_key)) \<le> 50"
  shows "\<exists>w'. bnd (read_due exec now) (\<lambda>ds. bnd (read_due exec now) (\<lambda>ds'.
      bnd (promote_due exec ds) (\<lambda>_. promote_due exec ds'))) w = (Inr (), w') \<and>
    mset (list_at (clock w) (kv w') job_list_key) = mset (list_at (clock w) (kv w) job_list_key) +
      mset (due now (zset_at (clock w) (kv w) delayed_set_key)) + mset (due now (zset_at (clock w) (kv w) delayed_set_key))"
proof -
  let ?L = "list_at (clock w) (kv w) job_list_key" and ?D = "due now (zset_at (clock w) (kv w) delayed_set_key)"
  have all: "mset ds = mset ?D" if "mset ds \<subseteq># mset ?D" "length ds = min 50 (length ?D)" for ds
  proof -
    have "size (mset ds) = size (mset ?D)" using that(2) few by simp
    then show ?thesis using that(1) by (metis mset_subset_size nat_neq_iff subset_mset.le_imp_less_or_eq)
  qed
  have "wp (bnd (read_due exec now) (\<lambda>ds. bnd (read_due exec now) (\<lambda>ds'.
      bnd (promote_due exec ds) (\<lambda>_. promote_due exec ds'))))
      (\<lambda>_ w'. mset (list_at (clock w) (kv w') job_list_key) = mset ?L + mset ?D + mset ?D) (\<lambda>_ _. False) w"
    unfolding read_due_def wp_bnd
  proof (rule redis_up.up_zdue [OF up], goal_cases)
    case 1
    show ?case by (rule typed_zset [OF typed]) simp
  next
    case (2 ds w1)
    show ?case
    proof (rule redis_up.up_zdue [OF up], goal_cases)
      case 1
      show ?case unfolding 2 by (rule typed_zset [OF typed]) simp
    next
      case (2 ds' w2)
      note here = \<open>clock w1 = clock w\<close> \<open>kv w1 = kv w\<close>
      have ds: "mset ds = mset ?D" by (rule all) (use \<open>mset ds \<subseteq># _\<close> \<open>length ds = _\<close> in auto)
      have ds': "mset ds' = mset ?D" by (rule all) (use 2(3,4) here in auto)
      have w2: "clock w2 = clock w" "kv w2 = kv w" using 2 here by simp_all
      show ?case
      proof (rule redis_up.up_promote_due [OF up], goal_cases)
        case 1
        show ?case using typed w2 by simp
      next
        case (2 w3)
        then show ?case
          by (intro redis_up.up_promote_due [OF up]) (use w2 ds ds' in auto)
      qed
    qed
  qed
  then show ?thesis unfolding wp_outcome by auto
qed

lemma double_promotion_witness:
  "\<exists>w'. bnd (read_due mem_exec 10) (\<lambda>ds. bnd (read_due mem_exec 10) (\<lambda>ds'.
      bnd (promote_due mem_exec ds) (\<lambda>_. promote_due mem_exec ds'))) demo_queue = (Inr (), w') \<and>
    mset (list_at 10 (mkv w') job_list_key) =
      {#QJob [(''job_id'', PStr ''b'')], QJob [(''job_id'', PStr ''a'')], QJob [(''job_id'', PStr ''c'')], QJob [(''job_id'', PStr ''c'')]#}"
proof -
  have "due 10 [(QJob [(''job_id'', PStr ''c'')], 5 :: real), (QJob [(''job_id'', PStr ''d'')], 90)] = [QJob [(''job_id'', PStr ''c'')]]"
    by (simp add: due_def)
  then show ?thesis
    using double_promotion [OF memory_up demo_queue_typed, of 10] by (auto simp: demo_queue_at add_mset_commute)
qed

section \<open>Queueing a job\<close>

text \<open>A batch that is not stopped, or no batch.\<close>

definition not_stopped :: "real \<Rightarrow> store \<Rightarrow> pyval \<Rightarrow> bool" where
  "not_stopped t m batch_id \<longleftrightarrow> \<not> truthy batch_id \<or> live t m (batch_cancel_key (py_str batch_id)) = None"

lemma encode_hash_keys: "encode_hash m = Some h \<Longrightarrow> map fst h = map fst m"
  by (induction m arbitrary: h) (auto split: option.splits)

lemma encode_hash_get: "encode_hash m = Some h \<Longrightarrow> dget h f = Option.bind (dget m f) hash_text"
  by (induction m arbitrary: h) (auto split: option.splits)

lemma distinct_put_given: "distinct (map fst m) \<Longrightarrow> distinct (map fst (put_given f j m))"
  by (simp add: put_given_def distinct_update)

lemma dget_put_given: "dget (put_given f j m) g =
    (if g = f \<and> jget j f \<noteq> PNone \<and> jget j f \<noteq> PStr [] then Some (PStr (py_str (jget j f))) else dget m g)"
  by (simp add: put_given_def)

lemma stored_job_naming_eq:
  "stored_job_naming j =
     (case first_value j [''original_filename'', ''original_name''] of None \<Rightarrow> [] | Some v \<Rightarrow> [(''original_filename'', v)]) @
     (case first_value j [''output_filename''] of None \<Rightarrow> [] | Some v \<Rightarrow> [(''output_filename'', v)])"
  by (simp add: stored_job_naming_def naming_fields_def map_filter_simps del: first_value.simps split: option.split)

lemma distinct_job_mapping: "distinct (map fst (job_mapping now j))"
  by (auto simp: job_mapping_def Let_def stored_job_naming_eq distinct_put_given distinct_update
      simp del: first_value.simps split: option.split)

lemma dget_fold_given:
  "dget (fold (\<lambda>f. put_given f j) fs m) g =
    (if g \<in> set fs \<and> jget j g \<noteq> PNone \<and> jget j g \<noteq> PStr [] then Some (PStr (py_str (jget j g))) else dget m g)"
  by (induction fs arbitrary: m) (auto simp: dget_put_given)

lemma naming_keys: "set (map fst (stored_job_naming j)) \<subseteq> {''original_filename'', ''output_filename''}"
  by (auto simp: stored_job_naming_eq simp del: first_value.simps split: option.splits)

lemma dget_fold_naming:
  "g \<notin> set (map fst xs) \<Longrightarrow> dget (fold (\<lambda>(f, v). dput f (PStr v)) xs m) g = dget m g"
  by (induction xs arbitrary: m) auto

text \<open>The fields of a job hash, stage by stage.\<close>

definition base_mapping :: "real \<Rightarrow> job \<Rightarrow> job" where
  "base_mapping now j =
     [(''status'', PStr ''queued''), (''progress'', PInt 0), (''message'', PStr ''queued''),
      (''input'', py_or (py_or (py_or (jget j ''input_path'') (jget j ''input_key'')) (jget j ''source_url'')) (PStr [])),
      (''input_key'', py_or (jget j ''input_key'') (PStr [])),
      (''created_at'', PStr (time_text now)),
      (''request_id'', py_or (jget j ''request_id'') (PStr []))]"

lemma job_mapping_stages:
  assumes "g \<notin> {''original_filename'', ''output_filename'', ''upload_mode'', ''output''}"
  shows "dget (job_mapping now j) g =
    (if g \<in> set [''batch_id'', ''batch_seq'', ''batch_total'', ''chat_id'', ''user_id''] \<and> jget j g \<noteq> PNone \<and> jget j g \<noteq> PStr []
     then Some (PStr (py_str (jget j g))) else dget (base_mapping now j) g)"
proof -
  let ?m1 = "fold (\<lambda>f. put_given f j) [''batch_id'', ''batch_seq'', ''batch_total''] (base_mapping now j)"
  let ?out = "py_or (py_or (jget j ''output_path'') (jget j ''output'')) (PStr [])"
  let ?m2 = "if truthy ?out then dput ''output'' ?out ?m1 else ?m1"
  let ?m3 = "fold (\<lambda>f. put_given f j) [''chat_id'', ''user_id''] ?m2"
  let ?m4 = "fold (\<lambda>(f, v). dput f (PStr v)) (stored_job_naming j) ?m3"
  have m: "job_mapping now j =
      (if truthy (jget j ''upload_mode'') then dput ''upload_mode'' (PStr (py_str (jget j ''upload_mode''))) ?m4 else ?m4)"
    by (simp only: job_mapping_def Let_def base_mapping_def)
  have 1: "dget ?m1 g = (if g \<in> set [''batch_id'', ''batch_seq'', ''batch_total''] \<and> jget j g \<noteq> PNone \<and> jget j g \<noteq> PStr []
      then Some (PStr (py_str (jget j g))) else dget (base_mapping now j) g)"
    by (rule dget_fold_given)
  have 2: "dget ?m2 g = dget ?m1 g" using assms by (simp del: fold_simps)
  have 3: "dget ?m3 g = (if g \<in> set [''chat_id'', ''user_id''] \<and> jget j g \<noteq> PNone \<and> jget j g \<noteq> PStr []
      then Some (PStr (py_str (jget j g))) else dget ?m2 g)"
    by (rule dget_fold_given)
  have 4: "dget ?m4 g = dget ?m3 g" by (rule dget_fold_naming) (use naming_keys [of j] assms in auto)
  have "dget (job_mapping now j) g = dget ?m4 g" unfolding m using assms by (simp del: fold_simps)
  then show ?thesis unfolding 4 3 2 1 by auto
qed

lemma job_mapping_given:
  "g \<in> {''batch_id'', ''batch_seq'', ''batch_total'', ''chat_id'', ''user_id''} \<Longrightarrow>
   dget (job_mapping now j) g =
    (if jget j g \<noteq> PNone \<and> jget j g \<noteq> PStr [] then Some (PStr (py_str (jget j g))) else None)"
  by (subst job_mapping_stages) (auto simp: base_mapping_def)

lemma job_mapping_status: "dget (job_mapping now j) ''status'' = Some (PStr ''queued'')"
  by (subst job_mapping_stages) (auto simp: base_mapping_def)

lemma hash_at_hset:
  assumes "distinct (map fst h)"
  shows "dget (hash_at t (effect (Hset k h) t m) k) f = (case dget h f of Some v \<Rightarrow> Some v | None \<Rightarrow> dget (hash_at t m k) f)"
  using assms by (simp add: hash_at_def [of _ "_(_ \<mapsto> _)"] dget_dmerge)

lemma hash_at_expire:
  "0 < s \<Longrightarrow> hash_at t (effect (Expire k s) t m) k' = hash_at t m k'"
  by (cases "live t m k") (auto simp: hash_at_def)

lemma list_at_effect: "k \<notin> set (touched c) \<Longrightarrow> list_at t (effect c t m) k = list_at t m k"
  by (rule list_at_cong) (rule effect_untouched)

lemma hash_at_effect: "k \<notin> set (touched c) \<Longrightarrow> hash_at t (effect c t m) k = hash_at t m k"
  by (rule hash_at_cong) (rule effect_untouched)

lemma batch_jobs_not [simp]:
  "batch_jobs_key b \<noteq> job_list_key" "job_list_key \<noteq> batch_jobs_key b"
  "batch_jobs_key b \<noteq> job_hash_key j" "job_hash_key j \<noteq> batch_jobs_key b"
  "batch_cancel_key b \<noteq> job_hash_key j" "batch_cancel_key b \<noteq> batch_jobs_key b'"
  by (simp_all add: key_defs cancel_not_state)

context redis_up begin

lemma up_not_refused:
  assumes "not_stopped (clock w) (kv w) b" and "\<And>w'. clock w' = clock w \<Longrightarrow> kv w' = kv w \<Longrightarrow> Q False w'"
  shows "wp (refuse_if_stopped exec indexed b j) Q E w"
  unfolding refuse_if_stopped_def
  using assms by (cases "truthy b") (auto simp: not_stopped_def intro!: up_exists)

lemma up_write_job_hash:
  assumes "typed (kv w)" "truthy (jget j ''job_id'')" "0 < ttl"
    and "truthy (jget j ''batch_id'') \<longrightarrow> batch_id_ok (py_str (jget j ''batch_id''))"
    and "encode_hash (job_mapping (clock w) j) = Some h"
    and "\<And>w'. clock w' = clock w \<Longrightarrow> typed (kv w') \<Longrightarrow>
      frame (\<lambda>k. k = job_hash_key (py_str (jget j ''job_id'')) \<or> k = batch_jobs_key (py_str (jget j ''batch_id''))) (kv w) (kv w') \<Longrightarrow>
      dget (hash_at (clock w) (kv w') (job_hash_key (py_str (jget j ''job_id'')))) ''status'' = Some ''queued'' \<Longrightarrow> Q () w'"
  shows "wp (write_job_hash exec ttl j) Q E w"
proof -
  let ?k = "job_hash_key (py_str (jget j ''job_id''))" and ?b = "batch_jobs_key (py_str (jget j ''batch_id''))"
  let ?K = "\<lambda>k. k = ?k \<or> k = ?b" and ?t = "clock w"
  let ?I = "\<lambda>v. clock v = ?t \<and> typed (kv v) \<and> frame ?K (kv w) (kv v) \<and> dget (hash_at ?t (kv v) ?k) ''status'' = Some ''queued''"
  have d: "distinct (map fst h)" "dget h ''status'' = Some ''queued''"
    using encode_hash_keys [OF assms(5)] encode_hash_get [OF assms(5), of "''status''"]
    by (simp_all add: distinct_job_mapping job_mapping_status)
  have hset: "?I v" if "clock v = ?t" "kv v = effect (Hset ?k h) ?t (kv w)" for v
  proof -
    have "typed (kv v)" unfolding that by (rule effect_typed [OF assms(1)]) simp
    moreover have "frame ?K (kv w) (kv v)" unfolding that frame_def by (auto intro!: effect_untouched simp del: effect.simps)
    ultimately show ?thesis using that d by (simp add: hash_at_hset del: effect.simps)
  qed
  have step: "?I v'" if "?I v" "clock v' = clock v" "kv v' = effect c ?t (kv v)" "call_typed c"
      "set (touched c) \<subseteq> {?k, ?b}" "?k \<in> set (touched c) \<longrightarrow> (\<exists>s > 0. c = Expire ?k s)" for v v' c
  proof -
    have "typed (kv v')" unfolding that(3) by (rule effect_typed) (use that in simp_all)
    moreover have "frame ?K (kv v) (kv v')" unfolding that(3) frame_def
      using that(5) by (auto intro!: effect_untouched)
    moreover have "hash_at ?t (kv v') ?k = hash_at ?t (kv v) ?k"
      using that(3,6) hash_at_effect [of ?k c ?t "kv v"] hash_at_expire by fastforce
    ultimately show ?thesis using that(1,2) frame_trans by auto
  qed
  have indexed: "wp (whenb (truthy (jget j ''batch_id'')) (suppress
      (bnd (r_sadd exec ?b (py_str (jget j ''job_id''))) (\<lambda>_. r_expire exec ?b (if ttl = 0 then 86400 else ttl))))) Q E v"
    if I: "?I v" for v
  proof (cases "truthy (jget j ''batch_id'')")
    case False
    then show ?thesis using I assms(6) by simp
  next
    case True
    then have b: "kind_of ?b = KSet" using assms(4) by simp
    show ?thesis
      unfolding wp_whenb if_P [OF True] wp_suppress wp_bnd
    proof (rule up_sadd, goal_cases)
      case 1
      then show ?case using I b by (intro typed_set) auto
    next
      case (2 v1)
      have I1: "?I v1" by (rule step [OF I 2(1), of "Sadd ?b (py_str (jget j ''job_id''))"]) (use 2 I b in simp_all)
      show ?case
      proof (rule up_expire, goal_cases)
        case (1 v2)
        have "?I v2" by (rule step [OF I1 1(1), of "Expire ?b (if ttl = 0 then 86400 else ttl)"]) (use 1 I1 in simp_all)
        then show ?case using assms(6) by blast
      qed
    qed
  qed
  show ?thesis
    unfolding write_job_hash_def Let_def if_not_P [OF not_not [THEN iffD2, OF assms(2)]] wp_bnd
  proof (rule up_time, goal_cases)
    case (1 w1)
    show ?case
      unfolding assms(5) option.case wp_suppress wp_bnd
    proof (rule up_hset, goal_cases)
      case 1
      show ?case using \<open>kv w1 = kv w\<close> assms(1) by (intro typed_hash) auto
    next
      case (2 w2)
      have I2: "?I w2" by (rule hset) (use 2 1 in \<open>simp_all del: effect.simps\<close>)
      show ?case
        unfolding wp_whenb if_P [OF assms(3)] wp_suppress
      proof (rule up_expire, goal_cases)
        case (1 w3)
        have "?I w3" by (rule step [OF I2 1(1), of "Expire ?k ttl"]) (use 1 I2 assms(3) in simp_all)
        then show ?case using indexed unfolding wp_whenb wp_suppress by blast
      qed
    qed
  qed
qed

lemma up_enqueue:
  assumes "typed (kv w)" "truthy (jget j ''job_id'')" "0 < ttl"
    and "truthy (jget j ''batch_id'') \<longrightarrow> batch_id_ok (py_str (jget j ''batch_id''))"
    and "not_stopped (clock w) (kv w) (jget j ''batch_id'')"
    and "jget j1 ''job_id'' = jget j ''job_id''" "jget j1 ''batch_id'' = jget j ''batch_id''" "j1 = prepare_job pref uuid j"
    and "encode_hash (job_mapping (clock w) j1) = Some h"
    and "\<And>v. fst (exec (BrokerPublish j1) v) \<noteq> Inr (RBool True)"
    and post: "\<And>w'. clock w' = clock w \<Longrightarrow>
      list_at (clock w) (kv w') job_list_key = QJob j1 # list_at (clock w) (kv w) job_list_key \<Longrightarrow>
      dget (hash_at (clock w) (kv w') (job_hash_key (py_str (jget j ''job_id'')))) ''status'' = Some ''queued'' \<Longrightarrow> Q j1 w'"
  shows "wp (enqueue_job exec pref uuid ttl j) Q E w"
  unfolding enqueue_job_def wp_bnd Let_def assms(8) [symmetric]
proof (rule up_connect, rule up_not_refused, goal_cases)
  case (1 w1)
  then show ?case using assms(5) by simp
next
  case (2 w1 w2)
  let ?t = "clock w" and ?k = "job_hash_key (py_str (jget j ''job_id''))"
  have w2: "clock w2 = ?t" "kv w2 = kv w" using 2 by simp_all
  show ?case
    unfolding if_False wp_bnd
  proof (rule up_write_job_hash [of _ _ _ h], goal_cases)
    case (6 w3)
    note w3 = 6
    have t3: "clock w3 = ?t" using w3 w2 by simp
    have cancel: "kv w3 (batch_cancel_key b) = kv w (batch_cancel_key b)" for b
      using w3(3) w2 unfolding frame_def by (auto simp: assms(6,7))
    have list3: "list_at ?t (kv w3) job_list_key = list_at ?t (kv w) job_list_key"
      by (rule list_at_cong) (use w3(3) w2 in \<open>auto simp: frame_def\<close>)
    have status3: "dget (hash_at ?t (kv w3) ?k) ''status'' = Some ''queued''" using w3(4) w2 assms(6) by simp
    show ?case
    proof (rule up_not_refused, goal_cases)
      case 1
      then show ?case using assms(5) cancel t3 live_cong [of "kv w3" _ "kv w"] by (simp add: not_stopped_def)
    next
      case (2 w4)
      have w4: "clock w4 = ?t" "kv w4 = kv w3" using 2 t3 by simp_all
      have close: "wp (r_close exec) (\<lambda>_. wp (ret j1) Q E) E v"
        if "clock v = ?t" "kv v = effect (Lpush job_list_key (QJob j1)) ?t (kv w3)" for v
      proof (rule up_close, unfold wp_ret, rule post)
        fix v' assume v': "clock v' = clock v" "kv v' = kv v"
        show "clock v' = ?t" using v' that by simp
        show "list_at ?t (kv v') job_list_key = QJob j1 # list_at ?t (kv w) job_list_key"
          unfolding v'(2) that list_at_lpush list3 ..
        have "hash_at ?t (kv v') ?k = hash_at ?t (kv w3) ?k"
          unfolding v'(2) that by (rule hash_at_effect) simp
        then show "dget (hash_at ?t (kv v') ?k) ''status'' = Some ''queued''" using status3 by simp
      qed
      have push: "wp (suppress (r_lpush exec job_list_key (QJob j1))) (\<lambda>_. wp (r_close exec) (\<lambda>_. wp (ret j1) Q E) E) E v"
        if v: "clock v = ?t" "kv v = kv w3" for v
        unfolding wp_suppress
      proof (rule up_lpush, goal_cases)
        case 1
        then show ?case using v w3(2) by (intro typed_list) auto
      next
        case (2 v')
        then show ?case by (intro close) (use v in simp_all)
      qed
      have routed: "wp (publish_job exec j1) (\<lambda>routed. wp (whenb (\<not> routed) (suppress (r_lpush exec job_list_key (QJob j1))))
          (\<lambda>_. wp (r_close exec) (\<lambda>_. wp (ret j1) Q E) E) E) E w4"
        unfolding publish_job_def wp_tryc wp_fmapio
      proof (rule wpI)
        fix r v assume r: "exec (BrokerPublish j1) w4 = (Inr r, v)"
        then have v: "clock v = ?t" "kv v = kv w3" using instant [OF r] replied [OF r] w4 by simp_all
        have "r \<noteq> RBool True" using assms(10) [of w4] r by auto
        then show "wp (whenb (\<not> r = RBool True) (suppress (r_lpush exec job_list_key (QJob j1))))
          (\<lambda>_. wp (r_close exec) (\<lambda>_. wp (ret j1) Q E) E) E v" using push [OF v] by simp
      next
        fix e v assume r: "exec (BrokerPublish j1) w4 = (Inl e, v)"
        then have "clock v = ?t" "kv v = kv w3" using instant [OF r] failed [OF r] w4 by auto
        then show "wp (ret False) (\<lambda>routed. wp (whenb (\<not> routed) (suppress (r_lpush exec job_list_key (QJob j1))))
          (\<lambda>_. wp (r_close exec) (\<lambda>_. wp (ret j1) Q E) E) E) E v" using push by simp
      qed
      then show ?case by (simp only: if_False wp_bnd)
    qed
  qed (use assms w2 in simp_all)
qed

end

lemma prepare_job_keeps:
  assumes "f \<notin> {''input_path'', ''output_path'', ''request_id'', ''upload_mode''}"
  shows "jget (prepare_job pref uuid j) f = jget j f"
proof -
  have "jget (normalize_paths j) f = jget j f"
    using assms by (auto simp: normalize_paths_def Let_def jget_dput split: pyval.splits)
  moreover have "jget (with_request_id uuid i) f = jget i f" for i
    using assms by (simp add: with_request_id_def jget_dput)
  moreover have "jget (stamp_upload_mode pref i) f = jget i f" for i
    using assms by (simp add: stamp_upload_mode_def Let_def jget_dput split: option.split)
  ultimately show ?thesis by (simp add: prepare_job_def)
qed



section \<open>Jobs of a stopped batch\<close>

text \<open>
  C16: A job of a batch that has been stopped is not queued: with Redis up, \<open>enqueue_job\<close> is then
  nothing but opening the client, seeing the marker and marking the job's hash as cancelled; the
  broker and the list are never reached.
\<close>

lemma stopped_not_queued:
  assumes up: "redis_up exec kv clock" and "typed (kv w)" and b: "truthy (jget j ''batch_id'')"
    and stopped: "live (clock w) (kv w) (batch_cancel_key (py_str (jget j ''batch_id''))) \<noteq> None"
  shows "enqueue_job exec pref uuid ttl j w =
      bnd (r_connect exec) (\<lambda>_.
      bnd (r_exists exec [batch_cancel_key (py_str (jget j ''batch_id''))]) (\<lambda>_.
      bnd (whenb (truthy (jget j ''job_id'')) (r_hset exec (job_hash_key (py_str (jget j ''job_id''))) stopped_mark)) (\<lambda>_.
      ret j))) w \<and>
    list_at (clock w) (kv (snd (enqueue_job exec pref uuid ttl j w))) job_list_key = list_at (clock w) (kv w) job_list_key"
proof -
  let ?c = "batch_cancel_key (py_str (jget j ''batch_id''))" and ?k = "job_hash_key (py_str (jget j ''job_id''))"
  have "wp (r_connect exec) (\<lambda>_ v. clock v = clock w \<and> kv v = kv w) (\<lambda>_ _. False) w"
    by (rule redis_up.up_connect [OF up]) simp
  then obtain w1 where w1: "r_connect exec w = (Inr (), w1)" "clock w1 = clock w" "kv w1 = kv w"
    unfolding wp_outcome by auto
  have "wp (r_exists exec [?c]) (\<lambda>n v. n = 1 \<and> clock v = clock w \<and> kv v = kv w) (\<lambda>_ _. False) w1"
    by (rule redis_up.up_exists [OF up]) (use w1 stopped in simp)
  then obtain w2 where w2: "r_exists exec [?c] w1 = (Inr 1, w2)" "clock w2 = clock w" "kv w2 = kv w"
    unfolding wp_outcome by auto
  have "wp (r_hset exec ?k stopped_mark) (\<lambda>_ v. kv v = effect (Hset ?k stopped_mark) (clock w) (kv w)) (\<lambda>_ _. False) w2"
    by (rule redis_up.up_hset [OF up]) (use w2 assms(2) in \<open>auto intro: typed_hash\<close>)
  then obtain w3 where w3: "r_hset exec ?k stopped_mark w2 = (Inr (), w3)" "kv w3 = effect (Hset ?k stopped_mark) (clock w) (kv w)"
    unfolding wp_outcome by auto
  have same: "list_at (clock w) (kv w3) job_list_key = list_at (clock w) (kv w) job_list_key"
    unfolding w3(2) by (rule list_at_effect) simp
  show ?thesis
  proof (cases "truthy (jget j ''job_id'')")
    case True
    then have "enqueue_job exec pref uuid ttl j w = (Inr j, w3)"
      using b by (simp add: enqueue_job_def refuse_if_stopped_def bnd_def tryc_def whenb_def ret_def w1 w2 w3)
    then show ?thesis using True same by (simp add: bnd_def whenb_def ret_def w1 w2 w3(1))
  next
    case False
    then have "enqueue_job exec pref uuid ttl j w = (Inr j, w2)"
      using b by (simp add: enqueue_job_def refuse_if_stopped_def bnd_def tryc_def whenb_def ret_def w1 w2)
    then show ?thesis using False w2 by (simp add: bnd_def whenb_def ret_def w1 w2(1))
  qed
qed

definition demo_stopped :: mem where
  "demo_stopped = \<lparr>mstore = [(''ffmpeg:batch:ab:cancelled'', (VStr ''1'', None))], mclock = 10\<rparr>"

lemma stopped_not_queued_witness:
  "list_at 10 (mkv (snd (enqueue_job mem_exec (\<lambda>_. None) ''r1'' 60 [(''job_id'', PStr ''n''), (''batch_id'', PStr ''ab'')]
     demo_stopped))) job_list_key = []"
proof -
  let ?j = "[(''job_id'', PStr ''n''), (''batch_id'', PStr ''ab'')]"
  have t: "typed (mkv demo_stopped)" unfolding mkv_def
    by (rule typed_map_of) (simp add: demo_stopped_def kind_of_def key_defs starts_with_def rpartition_at_def)
  have b: "truthy (jget ?j ''batch_id'')" by (simp add: jget_def)
  have l: "live (mclock demo_stopped) (mkv demo_stopped) (batch_cancel_key (py_str (jget ?j ''batch_id''))) \<noteq> None"
    by (simp add: demo_stopped_def mkv_def live_def jget_def batch_cancel_key_def batch_key_prefix_def)
  have "list_at (mclock demo_stopped) (mkv demo_stopped) job_list_key = []" "mclock demo_stopped = 10"
    by (simp_all add: demo_stopped_def mkv_def live_def list_at_def job_list_key_def)
  then show ?thesis
    using stopped_not_queued [OF memory_up t b l, THEN conjunct2, of "\<lambda>_. None" "''r1''" 60] by simp
qed

end
