(* ===== verification/JobCancelResults.thy ===== *)
theory JobCancelResults
  imports JobQueueResults
begin

text \<open>
  The rest of the job queue's guarantees: what a cancellation does and answers, whose input lock a
  release may delete, what a requeued job keeps, and which client a loop is given.
\<close>

section \<open>Input locks\<close>

context redis_server begin

lemma wp_release_input_lock:
  "wp (release_input_lock exec True k owner)
    (\<lambda>r w'. clock w \<le> clock w' \<and> (kv w' = kv w \<or> (str_at (clock w) (kv w) k = Some owner \<and> kv w' = wipe [k] (kv w))) \<and>
       (r \<longrightarrow> kv w' = wipe [k] (kv w))) (\<lambda>_ _. False) w"
proof (cases "k = [] \<or> owner = []")
  case True
  then show ?thesis by (simp add: release_input_lock_def)
next
  case False
  let ?ok = "\<lambda>m. m = kv w \<or> (str_at (clock w) (kv w) k = Some owner \<and> m = wipe [k] (kv w))"
  let ?Q = "\<lambda>r w'. clock w \<le> clock w' \<and> ?ok (kv w') \<and> (r \<longrightarrow> kv w' = wipe [k] (kv w))"
  have del: "?ok (wipe [k] m)" if "?ok m" "str_at t m k = Some owner" "clock w \<le> t" for m t
  proof -
    have "m \<noteq> wipe [k] (kv w)" using that(2) by (auto simp: str_at_def)
    then have "m = kv w" using that(1) by auto
    moreover have "str_at (clock w) (kv w) k = Some owner"
      using that(2,3) unfolding \<open>m = kv w\<close> str_at_def
      by (auto simp: live_def split: option.splits rval.splits if_splits)
    ultimately show ?thesis by simp
  qed
  have wiped: "wipe [k] m = wipe [k] (kv w)" if "?ok m" for m
    using that by (auto simp: wipe_def fun_eq_iff)
  have fallback: "wp (attempt (bnd (r_get exec k) (\<lambda>current.
        if current = Some owner then bnd (r_del exec [k]) (\<lambda>_. ret True) else ret False)))
      (\<lambda>freed. ?Q (freed = Some True)) (\<lambda>_ _. False) v"
    if v: "clock w \<le> clock v" "?ok (kv v)" for v
    unfolding wp_attempt wp_bnd
  proof (rule wp_r_get, goal_cases)
    case (1 v1)
    then have v1: "clock w \<le> clock v1" "?ok (kv v1)" using v by auto
    show ?case
    proof (cases "str_at (clock v) (kv v) k = Some owner")
      case False
      then show ?thesis using v1 by simp
    next
      case True
      then have ok: "?ok (wipe [k] (kv v1))" using del [of "kv v" "clock v"] v 1 by simp
      then show ?thesis
        unfolding if_P [OF True] wp_bnd wp_ret
        by (intro wp_r_del) (use v1 wiped [OF v1(2)] in auto)
    qed
  next
    case (2 e v1)
    then show ?case using v by auto
  qed
  have script: "?ok (fst (lua_release k owner (clock w) (kv w)))" "snd (lua_release k owner (clock w) (kv w)) \<noteq> 0 \<Longrightarrow>
      fst (lua_release k owner (clock w) (kv w)) = wipe [k] (kv w)"
    by (auto simp: lua_release_def)
  let ?first = "attempt (r_eval exec (ReleaseScript k owner))"
  have body: "wp ?first (\<lambda>res. wp (if (case res of Some n \<Rightarrow> n \<noteq> 0 | None \<Rightarrow> False) then ret True
        else bnd (attempt (bnd (r_get exec k) (\<lambda>current.
          if current = Some owner then bnd (r_del exec [k]) (\<lambda>_. ret True) else ret False)))
          (\<lambda>freed. ret (freed = Some True))) ?Q (\<lambda>_ _. False)) (\<lambda>_ _. False) w"
    unfolding wp_attempt
  proof (rule wp_r_eval, goal_cases)
    case (1 v)
    show ?case
    proof (cases "snd (lua_release k owner (clock w) (kv w)) \<noteq> 0")
      case True
      then show ?thesis using 1 script by simp
    next
      case False
      then show ?thesis using fallback [of v] 1 script(1) by (simp del: wp_attempt)
    qed
  next
    case (2 e v)
    then show ?case using fallback [of v] script(1) by (auto simp del: wp_attempt)
  qed
  have "wp (fin (bnd ?first (\<lambda>res. if (case res of Some n \<Rightarrow> n \<noteq> 0 | None \<Rightarrow> False) then ret True
        else bnd (attempt (bnd (r_get exec k) (\<lambda>current.
          if current = Some owner then bnd (r_del exec [k]) (\<lambda>_. ret True) else ret False)))
          (\<lambda>freed. ret (freed = Some True)))) (whenb (\<not> True) (suppress (r_close exec)))) ?Q (\<lambda>_ _. False) w"
    unfolding wp_fin wp_bnd by (rule wp_mono [OF body [unfolded wp_bnd]]) auto
  then show ?thesis
    unfolding release_input_lock_def if_not_P [OF False] if_P [OF TrueI] wp_bnd wp_ret by simp
qed

end

text \<open>
  Releasing an input lock never raises and never frees a lock another job holds, whatever fails
  on the way, the fallback included: the key space is unchanged, or the one lock is gone and the
  job held it; and it is gone whenever the release says so.
\<close>

lemma input_lock_released_by_owner:
  assumes "redis_server exec kv clock"
  shows "\<exists>r w'. release_input_lock exec True k owner w = (Inr r, w') \<and>
    (kv w' = kv w \<or> (str_at (clock w) (kv w) k = Some owner \<and> kv w' = wipe [k] (kv w))) \<and>
    (r \<longrightarrow> kv w' = wipe [k] (kv w))"
  using redis_server.wp_release_input_lock [OF assms, of k owner w] unfolding wp_outcome by blast

lemma input_lock_released_by_owner_witness:
  "\<exists>r w'. release_input_lock mem_exec True ''ffmpeg:lock:h'' ''j2''
     \<lparr>mstore = [(''ffmpeg:lock:h'', (VStr ''j1'', None))], mclock = 0\<rparr> = (Inr r, w') \<and>
     str_at 0 (mkv w') ''ffmpeg:lock:h'' = Some ''j1''"
proof -
  let ?w = "\<lparr>mstore = [(''ffmpeg:lock:h'', (VStr ''j1'', None))], mclock = 0\<rparr>"
  have "str_at (mclock ?w) (mkv ?w) ''ffmpeg:lock:h'' = Some ''j1''" by (simp add: mkv_def str_at_def live_def)
  then show ?thesis
    using input_lock_released_by_owner [OF memory_server, of "''ffmpeg:lock:h''" "''j2''" ?w] by force
qed

section \<open>Cancelling\<close>

lemma lrem_each_all:
  assumes "\<forall>x \<in> set A. \<not> p x"
  shows "fst (lrem_each p its (A @ its @ B)) = A @ filter (\<lambda>x. \<not> p x) its @ B"
  using assms
proof (induction its arbitrary: A)
  case Nil
  then show ?case by simp
next
  case (Cons x its)
  show ?case
  proof (cases "p x")
    case True
    then have "x \<notin> set A" using Cons.prems by auto
    then have "remove1 x (A @ x # its @ B) = A @ its @ B" by (simp add: remove1_append)
    then show ?thesis using True Cons.IH [OF Cons.prems] by (simp add: case_prod_beta)
  next
    case False
    then show ?thesis using Cons.IH [of "A @ [x]"] Cons.prems by simp
  qed
qed

lemma lrem_each_none: "snd (lrem_each p its xs) = 0 \<Longrightarrow> fst (lrem_each p its xs) = xs"
  and lrem_each_nonneg: "0 \<le> snd (lrem_each p its xs)"
proof (induction its arbitrary: xs)
  case (Cons it its)
  { case 1 then show ?case using Cons.IH(2) [of "remove1 it xs"] Cons.IH(1) [of xs]
      by (auto simp: case_prod_beta split: if_splits)
  next
    case 2 then show ?case using Cons.IH(2) [of "remove1 it xs"] Cons.IH(2) [of xs]
      by (auto simp: case_prod_beta split: if_splits) }
qed simp_all

text \<open>What the pruning script leaves of the list: the job's entries among the first 501 are gone.\<close>

lemma prune_job_list:
  "list_at t (fst (lua_prune_job k jid t m)) k =
     filter (\<lambda>it. \<not> item_has_job_id jid it) (take 501 (list_at t m k)) @ drop 501 (list_at t m k)"
proof -
  let ?L = "list_at t m k" and ?p = "item_has_job_id jid"
  have eq: "fst (lrem_each ?p (take 501 ?L) ?L) = filter (\<lambda>it. \<not> ?p it) (take 501 ?L) @ drop 501 ?L"
    using lrem_each_all [of "[]" ?p "take 501 ?L" "drop 501 ?L"] by simp
  show ?thesis
  proof (cases "snd (lrem_each ?p (take 501 ?L) ?L) = 0")
    case True
    then show ?thesis using eq lrem_each_none [OF True] by (simp add: lua_prune_job_def case_prod_beta)
  next
    case False
    then show ?thesis using eq by (simp add: lua_prune_job_def case_prod_beta)
  qed
qed

lemma lock_key_kind [simp]: "kind_of (input_lock_prefix @ s) = KStr"
  by (simp add: kind_of_def input_lock_prefix_def key_defs starts_with_def)

lemma lock_key_not [simp]:
  "input_lock_prefix @ s \<noteq> job_hash_key j" "input_lock_prefix @ s \<noteq> job_list_key"
  "job_hash_key j \<noteq> input_lock_prefix @ s" "job_list_key \<noteq> input_lock_prefix @ s"
  by (simp_all add: input_lock_prefix_def key_defs)

context redis_up begin

lemma up_release_input_lock:
  assumes "is_str (live (clock w) (kv w) k)" "k \<noteq> []" "owner \<noteq> []"
    and "\<And>r w'. clock w' = clock w \<Longrightarrow>
      kv w' = (if str_at (clock w) (kv w) k = Some owner then wipe [k] (kv w) else kv w) \<Longrightarrow> Q r w'"
  shows "wp (release_input_lock exec True k owner) Q E w"
proof -
  have "\<not> (k = [] \<or> owner = [])" using assms(2,3) by simp
  then show ?thesis
    unfolding release_input_lock_def
    by (simp only: if_False if_True wp_bnd wp_ret option.distinct wp_fin wp_attempt not_True_eq_False wp_whenb)
      (rule up_eval, use assms(1) in simp,
       cases "str_at (clock w) (kv w) k = Some owner",
       simp add: lua_release_def assms(4),
       simp add: lua_release_def, rule up_get, use assms(1) in simp, use assms(4) in simp)
qed

lemma up_cancel_job:
  assumes "typed (kv w)" "jid \<noteq> []"
    and "stored = hash_at (clock w) (kv w) (job_hash_key jid)" and "status = stored_status stored"
    and over: "\<And>w'. kv w' = kv w \<Longrightarrow> status \<in> {''done'', ''error'', ''cancelled''} \<Longrightarrow> Q status w'"
    and missing: "\<And>w'. kv w' = kv w \<Longrightarrow> status \<notin> {''done'', ''error'', ''cancelled''} \<Longrightarrow> stored = [] \<Longrightarrow> Q ''missing'' w'"
    and stop: "\<And>m2 w'. status \<notin> {''done'', ''error'', ''cancelled''} \<Longrightarrow> stored \<noteq> [] \<Longrightarrow>
      m2 = fst (lua_prune_job job_list_key jid (clock w) (effect (Hset (job_hash_key jid) user_cancel_mark) (clock w) (kv w))) \<Longrightarrow>
      kv w' = (if str_at (clock w) m2 (input_lock_prefix @ sha (lock_name stored jid)) = Some jid
               then wipe [input_lock_prefix @ sha (lock_name stored jid)] m2 else m2) \<Longrightarrow> Q ''cancelled'' w'"
  shows "wp (cancel_job exec sha jid) Q E w"
  unfolding cancel_job_def wp_bnd
proof (rule up_connect, unfold wp_fin wp_bnd wp_attempt, rule up_hgetall, goal_cases)
  case (1 w1)
  then show ?case using assms(1) by (intro typed_hash) auto
next
  case (2 w1 w2)
  let ?k = "job_hash_key jid" and ?lock = "input_lock_prefix @ sha (lock_name stored jid)"
  have w2: "clock w2 = clock w" "kv w2 = kv w" and st: "hash_at (clock w1) (kv w1) ?k = stored"
    using 2 assms(3) by simp_all
  show ?case
    unfolding st option.case Let_def assms(4) [symmetric]
  proof (cases "status \<in> {''done'', ''error'', ''cancelled''}")
    case True
    then show "wp (if status \<in> {''done'', ''error''} then ret status
          else if status = ''cancelled'' then ret ''cancelled''
          else if Some stored \<noteq> None \<and> stored = [] then ret ''missing''
          else bnd (suppress (r_hset exec ?k user_cancel_mark)) (\<lambda>_.
               bnd (suppress (r_eval exec (PruneJobScript job_list_key jid))) (\<lambda>_.
               bnd (suppress (release_input_lock exec True ?lock jid)) (\<lambda>_. ret ''cancelled''))))
        (\<lambda>x. wp (r_close exec) (\<lambda>_. Q x) E) (\<lambda>e. wp (r_close exec) (\<lambda>_. E e) E) w2"
      using over w2 by (auto intro!: up_close)
  next
    case running: False
    show "wp (if status \<in> {''done'', ''error''} then ret status
          else if status = ''cancelled'' then ret ''cancelled''
          else if Some stored \<noteq> None \<and> stored = [] then ret ''missing''
          else bnd (suppress (r_hset exec ?k user_cancel_mark)) (\<lambda>_.
               bnd (suppress (r_eval exec (PruneJobScript job_list_key jid))) (\<lambda>_.
               bnd (suppress (release_input_lock exec True ?lock jid)) (\<lambda>_. ret ''cancelled''))))
        (\<lambda>x. wp (r_close exec) (\<lambda>_. Q x) E) (\<lambda>e. wp (r_close exec) (\<lambda>_. E e) E) w2"
    proof (cases "stored = []")
      case True
      then show ?thesis using running missing w2 by (auto intro!: up_close)
    next
      case False
      let ?m1 = "effect (Hset ?k user_cancel_mark) (clock w) (kv w)"
      let ?m2 = "fst (lua_prune_job job_list_key jid (clock w) ?m1)"
      have t1: "typed ?m1" by (rule effect_typed [OF assms(1)]) simp
      have t2: "typed ?m2" using script_typed [OF t1, of "PruneJobScript job_list_key jid"] by (simp del: effect.simps)
      have "wp (suppress (r_hset exec ?k user_cancel_mark)) (\<lambda>_. wp (suppress (r_eval exec (PruneJobScript job_list_key jid)))
          (\<lambda>_. wp (suppress (release_input_lock exec True ?lock jid)) (\<lambda>_. wp (r_close exec) (\<lambda>_. Q ''cancelled'') E) E2) E3) E4 w2"
        for E2 E3 E4
        unfolding wp_suppress
      proof (rule up_hset, goal_cases)
        case 1
        then show ?case using assms(1) w2 by (intro typed_hash) auto
      next
        case (2 w3)
        then have w3: "clock w3 = clock w" "kv w3 = ?m1" using w2 by (simp_all del: effect.simps)
        show ?case
        proof (rule up_eval, goal_cases)
          case 1
          have "is_list (live (clock w3) (kv w3) job_list_key)" unfolding w3 by (rule typed_list [OF t1]) simp
          then show ?case by simp
        next
          case (2 w4)
          then have w4: "clock w4 = clock w" "kv w4 = ?m2" using w3 by (simp_all del: effect.simps)
          show ?case
          proof (rule up_release_input_lock, goal_cases)
            case 1
            show ?case unfolding w4 by (rule typed_str [OF t2]) simp
          next
            case 2 then show ?case by (simp add: input_lock_prefix_def)
          next
            case 3 then show ?case by (rule assms(2))
          next
            case (4 r w5)
            then show ?case
              using running False w4 by (intro up_close stop) (auto simp del: effect.simps)
          qed
        qed
      qed
      then show ?thesis using running False by (simp del: wp_suppress)
    qed
  qed
qed

end



section \<open>Types\<close>

context redis_server begin

lemmas typed_intros = keeps_bnd keeps_fin keeps_tryc keeps_suppress keeps_fmapio keeps_whenb keeps_ret keeps_for_each

lemma typed_refuse:
  assumes "truthy b \<longrightarrow> batch_id_ok (py_str b)"
  shows "keeps_typed kv (refuse_if_stopped exec indexed b j)"
  unfolding refuse_if_stopped_def
  by (rule keeps_if, rule keeps_ret, intro typed_intros keeps_if typed_calls; use assms in simp)

lemma typed_write_hash:
  assumes "truthy (jget j ''batch_id'') \<longrightarrow> batch_id_ok (py_str (jget j ''batch_id''))"
  shows "keeps_typed kv (write_job_hash exec ttl j)"
  unfolding write_job_hash_def Let_def
  by (intro keeps_if typed_intros keeps_option typed_calls typed_r_time; use assms in simp)

lemma typed_enqueue:
  assumes "truthy (jget j ''batch_id'') \<longrightarrow> batch_id_ok (py_str (jget j ''batch_id''))"
  shows "keeps_typed kv (enqueue_job exec pref uuid ttl j)"
  unfolding enqueue_job_def Let_def publish_job_def
  by (intro keeps_if typed_intros typed_refuse typed_write_hash typed_calls typed_exec;
      use assms in \<open>simp add: prepare_job_keeps\<close>)

lemma typed_pop: "keeps_typed kv (pop_job exec)"
  unfolding pop_job_def promote_due_def loads_item_def
  by (intro typed_intros typed_calls typed_r_time keeps_option; (simp split: qitem.split add: keeps_ret keeps_raise)?)

lemma typed_release_lock: "kind_of k = KStr \<Longrightarrow> keeps_typed kv (release_input_lock exec given k owner)"
  unfolding release_input_lock_def attempt_def
  by (intro keeps_if typed_intros typed_calls; simp)

lemma typed_cancel: "keeps_typed kv (cancel_job exec sha jid)"
  unfolding cancel_job_def attempt_def Let_def
  by (intro keeps_if typed_intros typed_calls typed_release_lock; simp)

end



section \<open>Requeueing\<close>

text \<open>The payload a requeue reads back from a job hash.\<close>

definition stored_payload :: "(string, string) dict \<Rightarrow> job" where
  "stored_payload h = map (\<lambda>(f, v). (f, PStr v)) h"

lemma stored_payload_get: "jget (stored_payload h) f = (case dget h f of None \<Rightarrow> PNone | Some s \<Rightarrow> PStr s)"
  by (induction h) (auto simp: stored_payload_def jget_def)

lemma stored_payload_text: "as_hash_str (jget (stored_payload h) f) =
    (case dget h f of None \<Rightarrow> None | Some s \<Rightarrow> if s = [] then None else Some s)"
  by (simp add: stored_payload_get as_hash_str_def split: option.split)

lemma stored_owner_eq:
  "stored_job_owners j =
     (case as_hash_str (jget j ''chat_id'') of None \<Rightarrow> [] | Some v \<Rightarrow> [(''chat_id'', v)]) @
     (case as_hash_str (jget j ''user_id'') of None \<Rightarrow> [] | Some v \<Rightarrow> [(''user_id'', v)])"
  by (simp add: stored_job_owners_def owner_fields_def map_filter_simps split: option.split)

lemma carry_owners_get:
  assumes "as_hash_str (jget s f) = Some v" "f \<in> {''chat_id'', ''user_id''}" "\<not> truthy (jget j f)"
  shows "jget (carry_over_job_owners j s ow) f = (case py_int v of Some i \<Rightarrow> PInt i | None \<Rightarrow> PStr v)"
  using assms
  by (elim insertE; simp add: carry_over_job_owners_def stored_owner_eq jget_dput split: option.split)

lemma hash_field:
  assumes "encode_hash (job_mapping now j) = Some h"
  shows "dget h f = Option.bind (dget (job_mapping now j) f) hash_text"
  by (rule encode_hash_get [OF assms])

text \<open>
  A requeue keeps the job's owner: whatever is queued for chat \<open>c\<close> and user \<open>u\<close>, a payload
  rebuilt from the hash \<open>enqueue_job\<close> writes names the same chat and the same user, as the numbers
  they were, unless the requeue names its own.
\<close>

lemma requeue_keeps_owner:
  assumes "encode_hash (job_mapping now j) = Some h" and "jget j f = PInt i" and "f \<in> {''chat_id'', ''user_id''}"
  shows "jget (carry_over_job_owners k (stored_payload h) False) f = (if truthy (jget k f) then jget k f else PInt i)"
proof -
  have "dget (job_mapping now j) f = Some (PStr (int_str i))"
    using assms(2,3) by (subst job_mapping_given) auto
  then have "dget h f = Some (int_str i)" using hash_field [OF assms(1), of f] by simp
  then have v: "as_hash_str (jget (stored_payload h) f) = Some (int_str i)" by (simp add: stored_payload_text)
  show ?thesis
  proof (cases "truthy (jget k f)")
    case False
    then show ?thesis using carry_owners_get [OF v assms(3) False, of False] by simp
  next
    case True
    then show ?thesis
      using assms(3) by (elim insertE; simp add: carry_over_job_owners_def stored_owner_eq jget_dput split: option.split)
  qed
qed

lemma requeue_keeps_owner_witness:
  "\<exists>h. encode_hash (job_mapping 0 [(''job_id'', PStr ''n''), (''chat_id'', PInt (- 100))]) = Some h \<and>
     jget (carry_over_job_owners [(''job_id'', PStr ''n'')] (stored_payload h) False) ''chat_id'' = PInt (- 100)"
proof -
  let ?j = "[(''job_id'', PStr ''n''), (''chat_id'', PInt (- 100))]"
  have "\<exists>h. encode_hash (job_mapping 0 ?j) = Some h"
    by (simp add: job_mapping_def stored_job_naming_eq put_given_def jget_def py_or_def as_hash_str_def Let_def)
  then obtain h where h: "encode_hash (job_mapping 0 ?j) = Some h" by blast
  then show ?thesis
    using requeue_keeps_owner [OF h, of "''chat_id''" "- 100" "[(''job_id'', PStr ''n'')]"] by (simp add: jget_def)
qed

section \<open>Clients\<close>

definition cache_ok :: "client_cache \<Rightarrow> bool" where
  "cache_ok cache \<longleftrightarrow> (\<forall>(k, (l, c)) \<in> set cache. opened_on c = l)"

text \<open>
  A caller is only ever given a client that was opened on its own event loop, also when a new
  loop has the id of a dead one, and the cache keeps that so.
\<close>

lemma client_of_own_loop:
  assumes "cache_ok cache" and "get_redis has url gone loop serial cache = (r, cache')"
  shows "cache_ok cache' \<and> (\<forall>c. r = Inr c \<longrightarrow> opened_on c = loop)"
proof -
  have fresh: "cache_ok (dput (loop_id loop) (loop, Client loop serial) (drop_closed_clients gone cache))"
    using assms(1) by (auto simp: cache_ok_def drop_closed_clients_def dest!: in_dput)
  have "dget cache (loop_id loop) = Some (l, c) \<Longrightarrow> opened_on c = l" for l c
    using assms(1) by (auto simp: cache_ok_def dest!: map_of_SomeD)
  then show ?thesis
    using assms fresh by (auto simp: get_redis_def Let_def split: if_splits option.splits)
qed

lemma client_of_own_loop_witness:
  "\<exists>c cache'. get_redis True (Some ''redis://r'') (\<lambda>l. loop_no l = 1) \<lparr>loop_id = 5, loop_no = 2\<rparr> 9
      [(5, (\<lparr>loop_id = 5, loop_no = 1\<rparr>, Client \<lparr>loop_id = 5, loop_no = 1\<rparr> 3))] = (Inr c, cache') \<and>
    opened_on c = \<lparr>loop_id = 5, loop_no = 2\<rparr>"
proof -
  let ?r = "get_redis True (Some ''redis://r'') (\<lambda>l. loop_no l = 1) \<lparr>loop_id = 5, loop_no = 2\<rparr> 9
      [(5, (\<lparr>loop_id = 5, loop_no = 1\<rparr>, Client \<lparr>loop_id = 5, loop_no = 1\<rparr> 3))]"
  have "isl (fst ?r) = False" by (simp add: get_redis_def Let_def)
  then obtain c cache' where "?r = (Inr c, cache')" by (cases ?r; cases "fst ?r") auto
  then show ?thesis using client_of_own_loop [of _ _ _ _ _ _ "Inr c" cache'] by (force simp: cache_ok_def)
qed

end
