(* ===== verification/QueueAdmin.thy ===== *)
theory QueueAdmin
  imports JobCancelResults
begin

text \<open>
  \<open>utils/queue_admin.py\<close>: \<open>/cancelall\<close>, which drains the Redis queue and the broker and takes down
  what the drained jobs leave behind, and \<open>/clear_cache\<close>.  A report is a mutable object in the code,
  so what a step counted before it raised stays counted: a step returns the report with the exception
  it ended in, if any.  An error line of a report is kept as its label with the exception.
\<close>

section \<open>The report\<close>

record queue_report =
  q_queued :: nat
  q_delayed :: nat
  q_in_flight :: nat
  q_progress_keys :: nat
  q_locks_released :: nat
  q_dedup_keys :: int
  q_batches :: nat
  q_batch_messages :: nat
  q_batch_keys :: int
  q_batch_tombstones :: int
  q_batches_kept :: int
  q_slots_freed :: int
  q_locks_freed :: int
  q_job_ids :: "string list"
  q_broker :: "(string, string) dict"
  q_errors :: "(string \<times> exn) list"

definition new_report :: queue_report where
  "new_report = \<lparr>q_queued = 0, q_delayed = 0, q_in_flight = 0, q_progress_keys = 0, q_locks_released = 0,
     q_dedup_keys = 0, q_batches = 0, q_batch_messages = 0, q_batch_keys = 0, q_batch_tombstones = 0,
     q_batches_kept = 0, q_slots_freed = 0, q_locks_freed = 0, q_job_ids = [], q_broker = [], q_errors = []\<rparr>"

definition cancelled_jobs :: "queue_report \<Rightarrow> nat" where
  "cancelled_jobs r = q_queued r + q_delayed r + q_in_flight r"

definition report_error :: "string \<Rightarrow> exn \<Rightarrow> queue_report \<Rightarrow> queue_report" where
  "report_error label e r = r\<lparr>q_errors := q_errors r @ [(label, e)]\<rparr>"

text \<open>The \<open>cancelled\<close> set is the ids noted so far; it only grows together with \<open>q_job_ids\<close>.\<close>

definition note_cancelled :: "string \<Rightarrow> queue_report \<Rightarrow> queue_report" where
  "note_cancelled jid r = r\<lparr>q_job_ids := q_job_ids r @ [jid]\<rparr>"

type_synonym 'w admin_step = "queue_report \<Rightarrow> ('w, queue_report \<times> exn option) io"

definition outcome_of :: "('w, 'a) io \<Rightarrow> ('w, exn + 'a) io" where
  "outcome_of m = tryc (fmapio Inr m) (\<lambda>e. ret (Inl e))"

lemma wp_outcome_of [simp]: "wp (outcome_of m) Q E = wp m (\<lambda>x. Q (Inr x)) (\<lambda>e. Q (Inl e))"
  by (simp add: outcome_of_def)

lemma safe_outcome_of [intro!]: "safe (outcome_of m)"
  unfolding outcome_of_def by (intro safe_intros)

section \<open>Job entries and hashes\<close>

definition progress_prefix :: string where
  "progress_prefix = ''ffmpeg:progress:''"

definition active_statuses :: "string set" where
  "active_statuses = {''processing'', ''queued'', ''waiting'', ''started'', ''uploading'', ''sending''}"

definition pending_placeholder :: string where
  "pending_placeholder = ''pending''"

definition cancel_reason :: string where
  "cancel_reason = ''cancelled by admin''"

definition job_id_of :: "qitem \<Rightarrow> string" where
  "job_id_of it = (case it of QJob j \<Rightarrow> id_text (jget j ''job_id'') | _ \<Rightarrow> [])"

definition admin_cancel_mark :: "(string, string) dict" where
  "admin_cancel_mark =
     [(''cancel'', ''1''), (''status'', ''cancelled''), (''message'', cancel_reason), (''progress'', ''0'')]"

definition flag_job_cancelled :: "'w exec \<Rightarrow> string \<Rightarrow> ('w, unit) io" where
  "flag_job_cancelled exec job_id =
     (if job_id = [] then ret () else suppress (r_hset exec (job_hash_key job_id) admin_cancel_mark))"

definition status_text :: "(string, string) dict \<Rightarrow> string" where
  "status_text h = (case dget h ''status'' of None \<Rightarrow> [] | Some s \<Rightarrow> s)"

definition job_is_active :: "'w exec \<Rightarrow> string \<Rightarrow> ('w, bool) io" where
  "job_is_active exec job_id =
     (if job_id = pending_placeholder then ret True
      else bnd (attempt (r_hgetall exec (job_hash_key job_id))) (\<lambda>got.
        case got of
          None \<Rightarrow> ret True
        | Some h \<Rightarrow> ret (h \<noteq> [] \<and> status_text h \<in> active_statuses)))"

section \<open>The steps of /cancelall\<close>

definition flag_entries :: "'w exec \<Rightarrow> qitem list \<Rightarrow> queue_report \<Rightarrow> ('w, queue_report) io" where
  "flag_entries exec entries r =
     for_each entries r (\<lambda>entry r.
       let job_id = job_id_of entry in
       if job_id = [] then ret r
       else bnd (flag_job_cancelled exec job_id) (\<lambda>_. ret (note_cancelled job_id r)))"

definition drain_job_list :: "'w exec \<Rightarrow> 'w admin_step" where
  "drain_job_list exec r =
     bnd (outcome_of (r_lrange exec job_list_key)) (\<lambda>got.
       case got of
         Inl e \<Rightarrow> ret (r, Some e)
       | Inr entries \<Rightarrow>
           bnd (flag_entries exec entries r) (\<lambda>r1.
           bnd (outcome_of (whenb (entries \<noteq> []) (r_del exec [job_list_key]))) (\<lambda>d.
             case d of Inl e \<Rightarrow> ret (r1, Some e) | Inr _ \<Rightarrow> ret (r1\<lparr>q_queued := length entries\<rparr>, None))))"

definition drain_delayed_set :: "'w exec \<Rightarrow> 'w admin_step" where
  "drain_delayed_set exec r =
     bnd (outcome_of (r_zrange exec delayed_set_key)) (\<lambda>got.
       case got of
         Inl e \<Rightarrow> ret (r, Some e)
       | Inr entries \<Rightarrow>
           bnd (flag_entries exec entries r) (\<lambda>r1.
           bnd (outcome_of (whenb (entries \<noteq> []) (r_del exec [delayed_set_key]))) (\<lambda>d.
             case d of Inl e \<Rightarrow> ret (r1, Some e) | Inr _ \<Rightarrow> ret (r1\<lparr>q_delayed := length entries\<rparr>, None))))"

definition cancel_in_flight_key :: "'w exec \<Rightarrow> string \<Rightarrow> queue_report \<Rightarrow> ('w, queue_report) io" where
  "cancel_in_flight_key exec key r =
     (let job_id = drop (length job_hash_prefix) key in
      if job_id = [] then ret r
      else bnd (outcome_of (r_hgetall exec key)) (\<lambda>got.
        case got of
          Inl e \<Rightarrow> ret (report_error key e r)
        | Inr h \<Rightarrow>
            if h = [] \<or> status_text h \<in> terminal_statuses then ret r
            else bnd (flag_job_cancelled exec job_id) (\<lambda>_.
              let r1 = note_cancelled job_id r in ret (r1\<lparr>q_in_flight := q_in_flight r1 + 1\<rparr>))))"

definition scan_step :: "'w exec \<Rightarrow> string \<Rightarrow> (string list \<Rightarrow> queue_report \<Rightarrow> ('w, queue_report) io) \<Rightarrow> 'w admin_step" where
  "scan_step exec prefix body r =
     bnd (outcome_of (r_scan exec prefix)) (\<lambda>got.
       case got of Inl e \<Rightarrow> ret (r, Some e) | Inr keys \<Rightarrow> bnd (body keys r) (\<lambda>r1. ret (r1, None)))"

definition cancel_in_flight :: "'w exec \<Rightarrow> 'w admin_step" where
  "cancel_in_flight exec =
     scan_step exec job_hash_prefix (\<lambda>keys r. for_each keys r (cancel_in_flight_key exec))"

text \<open>\<open>for start in range(0, len(keys), 500)\<close>.\<close>

function slices :: "nat \<Rightarrow> 'a list \<Rightarrow> 'a list list" where
  "slices n xs = (if xs = [] \<or> n = 0 then [] else take n xs # slices n (drop n xs))"
  by pat_completeness auto

termination slices
  by (relation "measure (\<lambda>(n, xs). length xs)") auto

declare slices.simps [simp del]

definition drop_progress_keys :: "'w exec \<Rightarrow> 'w admin_step" where
  "drop_progress_keys exec =
     scan_step exec progress_prefix (\<lambda>keys r.
       bnd (for_each (slices 500 keys) () (\<lambda>batch _. suppress (r_del exec batch))) (\<lambda>_.
         ret (r\<lparr>q_progress_keys := length keys\<rparr>)))"

definition drop_dedup_key :: "'w exec \<Rightarrow> string \<Rightarrow> queue_report \<Rightarrow> ('w, queue_report) io" where
  "drop_dedup_key exec key r =
     bnd (outcome_of (r_get exec key)) (\<lambda>got.
       case got of
         Inl e \<Rightarrow> ret (report_error key e r)
       | Inr raw \<Rightarrow>
           (let owner = (case raw of None \<Rightarrow> [] | Some s \<Rightarrow> s) in
            if owner = [] then ret r
            else bnd (if owner = pending_placeholder then ret False else job_is_active exec owner) (\<lambda>active.
              if active then ret r
              else bnd (attempt (r_del exec [key])) (\<lambda>d.
                ret (if d = None then r else r\<lparr>q_dedup_keys := q_dedup_keys r + 1\<rparr>)))))"

definition drop_stale_dedup_keys :: "'w exec \<Rightarrow> 'w admin_step" where
  "drop_stale_dedup_keys exec =
     scan_step exec pipeline_dedup_prefix (\<lambda>keys r. for_each keys r (drop_dedup_key exec))"

definition release_stale_lock :: "'w exec \<Rightarrow> string \<Rightarrow> queue_report \<Rightarrow> ('w, queue_report) io" where
  "release_stale_lock exec key r =
     bnd (outcome_of (r_get exec key)) (\<lambda>got.
       case got of
         Inl e \<Rightarrow> ret (report_error key e r)
       | Inr raw \<Rightarrow>
           (let owner = (case raw of None \<Rightarrow> [] | Some s \<Rightarrow> s) in
            if owner = [] then ret r
            else bnd (if owner \<in> set (q_job_ids r) then ret False else job_is_active exec owner) (\<lambda>active.
              if active then ret r
              else bnd (outcome_of (release_input_lock exec True key owner)) (\<lambda>rel.
                case rel of
                  Inl e \<Rightarrow> ret (report_error key e r)
                | Inr freed \<Rightarrow> ret (if freed then r\<lparr>q_locks_released := q_locks_released r + 1\<rparr> else r)))))"

definition release_stale_locks :: "'w exec \<Rightarrow> 'w admin_step" where
  "release_stale_locks exec =
     scan_step exec input_lock_prefix (\<lambda>keys r. for_each keys r (release_stale_lock exec))"

text \<open>
  The broker.  \<open>consumes\<close> is what the settings say (or the exception reading them ends in); the purge
  replies with the number of messages dropped from each queue.
\<close>

definition purge_label :: "exn \<Rightarrow> string" where
  "purge_label e = (if e = TimeoutError then ''broker purge timed out'' else ''broker purge'')"

definition purge_broker_queues :: "'w exec \<Rightarrow> exn + bool \<Rightarrow> queue_report \<Rightarrow> ('w, queue_report) io" where
  "purge_broker_queues exec consumes r =
     (case consumes of
        Inl e \<Rightarrow> ret (report_error (purge_label e) e r)
      | Inr b \<Rightarrow>
          if \<not> b then ret r
          else bnd (outcome_of (exec BrokerPurge)) (\<lambda>got.
            case got of
              Inl e \<Rightarrow> ret (report_error (purge_label e) e r)
            | Inr a \<Rightarrow> ret (r\<lparr>q_broker := (case a of RHash h \<Rightarrow> h | _ \<Rightarrow> [])\<rparr>)))"

definition delete_batch_message :: "'w exec \<Rightarrow> bool \<Rightarrow> int \<times> int \<Rightarrow> ('w, bool) io" where
  "delete_batch_message exec has_bot ref =
     (if \<not> has_bot then ret False
      else tryc (fmapio (\<lambda>_. True) (exec (DeleteMessage (fst ref) (snd ref)))) (\<lambda>_. ret False))"

definition drop_stale_batches :: "'w exec \<Rightarrow> batch_cfg \<Rightarrow> bool \<Rightarrow> 'w admin_step" where
  "drop_stale_batches exec cfg has_bot r =
     bnd (outcome_of (purge_stale_batches exec cfg False (q_job_ids r) cancel_reason None)) (\<lambda>got.
       case got of
         Inl e \<Rightarrow> ret (r, Some e)
       | Inr s \<Rightarrow>
           bnd (for_each (ps_messages s)
                  (r\<lparr>q_batches := length (ps_batches s), q_batch_keys := ps_keys s,
                     q_batch_tombstones := ps_tombstones s, q_batches_kept := ps_kept s\<rparr>)
                  (\<lambda>ref r. bnd (delete_batch_message exec has_bot ref) (\<lambda>gone.
                     ret (if gone then r\<lparr>q_batch_messages := q_batch_messages r + 1\<rparr> else r)))) (\<lambda>r1.
             ret (r1, None)))"

definition sweep_ghost_work :: "'w exec \<Rightarrow> 'w admin_step" where
  "sweep_ghost_work exec r =
     bnd (outcome_of (sweep_ghost_claims exec)) (\<lambda>got.
       case got of
         Inl e \<Rightarrow> ret (r, Some e)
       | Inr f \<Rightarrow> ret (r\<lparr>q_slots_freed := freed_slots f, q_locks_freed := freed_locks f,
                         q_dedup_keys := q_dedup_keys r + freed_dedup f\<rparr>, None))"

section \<open>/cancelall\<close>

text \<open>\<open>try: await step\<close> with the failure recorded under the step's name.\<close>

definition isolated :: "string \<Rightarrow> 'w admin_step \<Rightarrow> queue_report \<Rightarrow> ('w, queue_report) io" where
  "isolated name step r =
     bnd (step r) (\<lambda>(r1, failure). ret (case failure of None \<Rightarrow> r1 | Some e \<Rightarrow> report_error name e r1))"

definition cancel_steps :: "'w exec \<Rightarrow> batch_cfg \<Rightarrow> bool \<Rightarrow> (string \<times> 'w admin_step) list" where
  "cancel_steps exec cfg has_bot =
     [(''queued'', drain_job_list exec), (''delayed'', drain_delayed_set exec),
      (''in-flight'', cancel_in_flight exec), (''progress keys'', drop_progress_keys exec),
      (''stale locks'', release_stale_locks exec), (''dedup keys'', drop_stale_dedup_keys exec),
      (''stale batches'', drop_stale_batches exec cfg has_bot), (''ghost work'', sweep_ghost_work exec)]"

definition cancel_all_jobs :: "'w exec \<Rightarrow> batch_cfg \<Rightarrow> exn + bool \<Rightarrow> bool \<Rightarrow> bool \<Rightarrow> ('w, queue_report) io" where
  "cancel_all_jobs exec cfg consumes purge_broker has_bot =
     bnd (outcome_of (r_connect exec)) (\<lambda>client.
     bnd (case client of
            Inl e \<Rightarrow> ret (report_error ''Redis unavailable'' e new_report)
          | Inr _ \<Rightarrow> for_each (cancel_steps exec cfg has_bot) new_report (\<lambda>(name, step). isolated name step)) (\<lambda>r.
     if purge_broker then purge_broker_queues exec consumes r else ret r))"

section \<open>/clear_cache\<close>

record cache_report =
  c_prefixes :: "(string, int) dict"
  c_media_cache :: int
  c_media_storage_keys :: int
  c_route_cache_keys :: int
  c_route_cache_memory :: int
  c_errors :: "(string \<times> exn option) list"

definition new_cache_report :: cache_report where
  "new_cache_report = \<lparr>c_prefixes = [], c_media_cache = 0, c_media_storage_keys = 0, c_route_cache_keys = 0,
     c_route_cache_memory = 0, c_errors = []\<rparr>"

definition total_keys :: "cache_report \<Rightarrow> int" where
  "total_keys r = sum_list (map snd (c_prefixes r)) + c_media_cache r + c_route_cache_keys r"

definition cache_error :: "string \<Rightarrow> exn option \<Rightarrow> cache_report \<Rightarrow> cache_report" where
  "cache_error label e r = r\<lparr>c_errors := c_errors r @ [(label, e)]\<rparr>"

definition prefix_job :: string where "prefix_job = ''cache:job:''"
definition prefix_file :: string where "prefix_file = ''cache:file:''"
definition prefix_user :: string where "prefix_user = ''cache:user:''"
definition prefix_meta :: string where "prefix_meta = ''cache:meta:''"
definition prefix_response :: string where "prefix_response = ''cache:resp:''"
definition route_cache_prefix :: string where "route_cache_prefix = ''routecache:''"

definition star :: "string \<Rightarrow> string" where
  "star p = p @ ''*''"

definition delete_prefix :: "'w exec \<Rightarrow> string \<Rightarrow> cache_report \<Rightarrow> ('w, cache_report \<times> exn option) io" where
  "delete_prefix exec prefix r =
     bnd (outcome_of (r_scan exec prefix)) (\<lambda>got.
       case got of
         Inl e \<Rightarrow> ret (r, Some e)
       | Inr keys \<Rightarrow>
           bnd (for_each (slices 500 keys) (r, 0) (\<lambda>batch (r, removed).
                  bnd (outcome_of (r_del exec batch)) (\<lambda>d.
                    ret (case d of Inl e \<Rightarrow> (cache_error (star prefix) (Some e) r, removed) | Inr n \<Rightarrow> (r, removed + n)))))
             (\<lambda>(r1, removed). ret (r1\<lparr>c_prefixes := dput prefix removed (c_prefixes r1)\<rparr>, None)))"

definition wipe_prefix :: "'w exec \<Rightarrow> string \<Rightarrow> cache_report \<Rightarrow> ('w, cache_report \<times> bool) io" where
  "wipe_prefix exec prefix r =
     bnd (delete_prefix exec prefix r) (\<lambda>(r1, failure).
       ret (case failure of None \<Rightarrow> (r1, True) | Some e \<Rightarrow> (cache_error (star prefix) (Some e) r1, False)))"

text \<open>\<open>report.prefixes.pop(prefix, 0)\<close>.\<close>

definition taken_out :: "string \<Rightarrow> cache_report \<Rightarrow> int" where
  "taken_out prefix r = (case dget (c_prefixes r) prefix of None \<Rightarrow> 0 | Some n \<Rightarrow> n)"

definition without_prefix :: "string \<Rightarrow> cache_report \<Rightarrow> cache_report" where
  "without_prefix prefix r = r\<lparr>c_prefixes := dpop prefix (c_prefixes r)\<rparr>"

text \<open>
  The media library in storage.  The storage backend is a parameter: whether there is one, the keys it
  lists (an entry may lack one), the names found by walking a local root, and what deleting answers.
\<close>

record library_backend =
  lb_present :: "exn + bool"
  lb_listed :: "exn + string option list"
  lb_walked :: "string list"
  lb_delete :: "string list \<Rightarrow> exn + int"

definition purge_media_library :: "library_backend \<Rightarrow> cache_report \<Rightarrow> cache_report" where
  "purge_media_library b r =
     (let failed = (\<lambda>e. cache_error ''media library purge'' (Some e) r) in
      case lb_present b of
        Inl e \<Rightarrow> failed e
      | Inr there \<Rightarrow>
          if \<not> there then cache_error ''media library purge: no storage backend configured'' None r
          else case lb_listed b of
            Inl e \<Rightarrow> failed e
          | Inr entries \<Rightarrow>
              let names = sort (remdups (filter (\<lambda>n. n \<noteq> []) (List.map_filter id entries @ lb_walked b))) in
              if names = [] then r
              else case lb_delete b names of Inl e \<Rightarrow> failed e | Inr n \<Rightarrow> r\<lparr>c_media_storage_keys := n\<rparr>)"

text \<open>\<open>route_memory\<close> is what emptying the in-process route cache answers.\<close>

definition clear_cache_keys ::
    "'w exec \<Rightarrow> exn + int \<Rightarrow> library_backend \<Rightarrow> bool \<Rightarrow> bool \<Rightarrow> ('w, cache_report) io" where
  "clear_cache_keys exec route_memory backend clear_route_cache clear_media_storage =
     bnd (outcome_of (r_connect exec)) (\<lambda>client.
     case client of
       Inl e \<Rightarrow> ret (cache_error ''Redis unavailable'' (Some e) new_cache_report)
     | Inr _ \<Rightarrow>
         bnd (for_each [prefix_job, prefix_user, prefix_meta, prefix_response] new_cache_report
                (\<lambda>prefix r. fmapio fst (wipe_prefix exec prefix r))) (\<lambda>r1.
         bnd (wipe_prefix exec prefix_file r1) (\<lambda>(r2, ok).
         let r3 = (if ok then without_prefix prefix_file (r2\<lparr>c_media_cache := taken_out prefix_file r2\<rparr>) else r2) in
         bnd (if \<not> clear_route_cache then ret r3
              else bnd (wipe_prefix exec route_cache_prefix r3) (\<lambda>(r4, ok).
                let r5 = (if ok then without_prefix route_cache_prefix
                                       (r4\<lparr>c_route_cache_keys := taken_out route_cache_prefix r4\<rparr>) else r4) in
                ret (case route_memory of
                       Inl e \<Rightarrow> cache_error ''in-memory route cache'' (Some e) r5
                     | Inr n \<Rightarrow> r5\<lparr>c_route_cache_memory := n\<rparr>))) (\<lambda>r6.
         ret (if clear_media_storage then purge_media_library backend r6 else r6)))))"

end
