(* ===== verification/QueueAdminResults.thy ===== *)
theory QueueAdminResults
  imports QueueAdmin
begin

text \<open>
  What the admin commands guarantee: they never raise, \<open>/cancelall\<close> with Redis up leaves both queues
  empty and no job running unflagged, which dedup keys it drops, and whatever fails \<open>/clear_cache\<close>
  touches cache keys only and \<open>/cancelall\<close> no key of another part of the bot.
\<close>

section \<open>The commands never raise\<close>

lemmas safe_parts = safe_intros safe_cases safe_outcome_of safe_attempt

lemma safe_flag: "safe (flag_job_cancelled exec j)"
  unfolding flag_job_cancelled_def by (intro safe_parts)

lemma safe_job_is_active: "safe (job_is_active exec j)"
  unfolding job_is_active_def by (intro safe_parts)

lemma safe_flag_entries: "safe (flag_entries exec es r)"
  unfolding flag_entries_def Let_def by (intro safe_parts safe_flag)

lemma safe_scan_step: "(\<And>keys r. safe (body keys r)) \<Longrightarrow> safe (scan_step exec p body r)"
  unfolding scan_step_def by (intro safe_parts)

lemma safe_steps:
  "safe (drain_job_list exec r)" "safe (drain_delayed_set exec r)" "safe (cancel_in_flight exec r)"
  "safe (drop_progress_keys exec r)" "safe (release_stale_locks exec r)" "safe (drop_stale_dedup_keys exec r)"
  "safe (drop_stale_batches exec cfg has_bot r)" "safe (sweep_ghost_work exec r)"
  unfolding drain_job_list_def drain_delayed_set_def cancel_in_flight_def drop_progress_keys_def
    release_stale_locks_def drop_stale_dedup_keys_def drop_stale_batches_def sweep_ghost_work_def
    cancel_in_flight_key_def release_stale_lock_def drop_dedup_key_def delete_batch_message_def Let_def
  by (intro safe_parts safe_scan_step safe_flag_entries safe_flag safe_job_is_active)+

lemma safe_isolated: "safe (step r) \<Longrightarrow> safe (isolated name step r)"
  unfolding isolated_def by (intro safe_parts)

lemma safe_cancel_all: "safe (cancel_all_jobs exec cfg consumes pb has_bot)"
  unfolding cancel_all_jobs_def cancel_steps_def for_each.simps split purge_broker_queues_def
  by (intro safe_parts safe_isolated safe_steps)

lemma safe_wipe_prefix: "safe (wipe_prefix exec p r)"
  unfolding wipe_prefix_def delete_prefix_def by (intro safe_parts)

lemma safe_clear_cache: "safe (clear_cache_keys exec mem backend route storage)"
  unfolding clear_cache_keys_def Let_def by (intro safe_parts safe_wipe_prefix)

text \<open>
  Both admin commands answer with a report whatever happens: no failure of Redis, of the broker,
  of Telegram or of the storage backend escapes them.
\<close>

theorem admin_always_reports:
  "(\<exists>r. fst (cancel_all_jobs exec cfg consumes pb has_bot w) = Inr r) \<and>
   (\<exists>r. fst (clear_cache_keys exec mem backend route storage w) = Inr r)"
  by (intro conjI safe_result safe_cancel_all safe_clear_cache)

section \<open>Which keys they touch\<close>

definition cache_key :: "string \<Rightarrow> bool" where
  "cache_key k \<longleftrightarrow> starts_with ''cache:'' k \<or> starts_with route_cache_prefix k"

definition queue_key :: "string \<Rightarrow> bool" where
  "queue_key k \<longleftrightarrow> k = job_list_key \<or> k = delayed_set_key \<or> starts_with job_hash_prefix k"

definition debris_key :: "string \<Rightarrow> bool" where
  "debris_key k \<longleftrightarrow> starts_with progress_prefix k \<or> starts_with input_lock_prefix k \<or> starts_with pipeline_dedup_prefix k \<or>
     starts_with batch_key_prefix k \<or> starts_with ffmpeg_slot_prefix k"

lemma in_slices: "xs \<in> set (slices n ys) \<Longrightarrow> x \<in> set xs \<Longrightarrow> x \<in> set ys"
proof (induction n ys arbitrary: xs rule: slices.induct)
  case (1 n ys)
  then show ?case by (subst (asm) (2) slices.simps) (auto split: if_splits dest: in_set_takeD in_set_dropD)
qed

context redis_server begin

lemma touches_sum:
  "(\<And>a. touches kv clock K (f a)) \<Longrightarrow> (\<And>b. s = Inr b \<Longrightarrow> touches kv clock K (g b)) \<Longrightarrow>
   touches kv clock K (case s of Inl a \<Rightarrow> f a | Inr b \<Rightarrow> g b)"
  by (cases s) auto

lemma touches_outcome_of: "touches kv clock K m \<Longrightarrow> touches kv clock K (outcome_of m)"
  unfolding outcome_of_def by (intro touches_intros)

lemma touches_scan_outcome:
  assumes "\<And>ks. (\<And>k. k \<in> set ks \<Longrightarrow> starts_with p k) \<Longrightarrow> touches kv clock K (f ks)" and "\<And>e. touches kv clock K (g e)"
  shows "touches kv clock K (bnd (outcome_of (r_scan exec p)) (\<lambda>ks. case ks of Inl e \<Rightarrow> g e | Inr x \<Rightarrow> f x))"
proof (rule touchesI, unfold wp_bnd wp_outcome_of, rule wp_r_scan, goal_cases)
  case (1 w ks w')
  then have "touches kv clock K (f ks)" by (intro assms(1)) auto
  from touchesD [OF this, of w'] show ?case using 1 by (auto elim!: wp_mono)
next
  case (2 w e w')
  from touchesD [OF assms(2) [of e], of w'] show ?case using 2 by (auto elim!: wp_mono)
qed

lemma touches_wipe_prefix:
  assumes "\<And>k. starts_with p k \<Longrightarrow> K k"
  shows "touches kv clock K (wipe_prefix exec p r)"
  unfolding wipe_prefix_def delete_prefix_def
proof (rule touches_bnd, rule touches_scan_outcome, goal_cases)
  case (1 ks)
  have "K k" if "b \<in> set (slices 500 ks)" "k \<in> set b" for b k
    using 1 [OF in_slices [OF that]] by (rule assms)
  then show ?case by (intro touches_intros touches_outcome_of touches_writes) blast+
qed (intro touches_intros)+

lemma touches_clear_cache: "touches kv clock cache_key (clear_cache_keys exec mem backend route storage)"
proof -
  have "touches kv clock cache_key (wipe_prefix exec p r)"
    if "p \<in> {prefix_job, prefix_user, prefix_meta, prefix_response, prefix_file, route_cache_prefix}" for p r
    using that by (intro touches_wipe_prefix)
      (auto simp: cache_key_def prefix_job_def prefix_user_def prefix_meta_def prefix_response_def prefix_file_def
        starts_with_iff)
  note w = this
  show ?thesis
    unfolding clear_cache_keys_def Let_def
    by (intro touches_intros touches_sum touches_outcome_of touches_reads w) auto
qed

lemma touches_slot_owner: "touches kv clock K (slot_owner_is_gone exec h)"
  unfolding slot_owner_is_gone_def claiming_worker_is_gone_def
  by (intro touches_intros touches_attempt touches_reads)

lemma touches_sweep_claim: "K key \<Longrightarrow> touches kv clock K (sweep_claim exec bump key f)"
  unfolding sweep_claim_def
  by (intro touches_intros touches_attempt touches_reads touches_writes touches_slot_owner) auto

lemma touches_sweep_dedup_key: "K key \<Longrightarrow> touches kv clock K (sweep_dedup_key exec key f)"
  unfolding sweep_dedup_key_def Let_def
  by (intro touches_intros touches_attempt touches_reads touches_writes touches_slot_owner) auto

lemma touches_sweep_ghost:
  assumes "\<And>k. debris_key k \<Longrightarrow> K k"
  shows "touches kv clock K (sweep_ghost_claims exec)"
proof -
  have k: "K k" if "starts_with ffmpeg_slot_prefix k \<or> starts_with batch_key_prefix k \<or> starts_with pipeline_dedup_prefix k" for k
    using that by (intro assms) (auto simp: debris_key_def)
  have dedup: "touches kv clock K (sweep_stale_dedup_keys exec f)" for f
    unfolding sweep_stale_dedup_keys_def
    by (intro touches_scan_then touches_intros touches_sweep_dedup_key k) simp
  show ?thesis
    unfolding sweep_ghost_claims_def
    by (rule touches_scan_then, rule touches_bnd, rule touches_for_each, rule touches_sweep_claim, rule k, simp,
        rule touches_scan_then, rule touches_bnd, rule touches_for_each, rule touches_if, rule touches_sweep_claim,
        rule k, simp, rule touches_ret, rule dedup, rule touches_ret, rule touches_ret)
qed

lemma touches_purge_stale:
  assumes "\<And>k. starts_with batch_key_prefix k \<Longrightarrow> K k"
  shows "touches kv clock K (purge_stale_batches exec cfg own dead reason ttl)"
proof -
  have "K k" if "down_keys b k" for b k
    using that by (intro assms) (auto simp: own_keys_form starts_with_iff resume_key_prefix_def active_batches_key_def)
  note k = this
  show ?thesis
    unfolding purge_stale_batches_def
    by (intro touches_with_client touches_intros touches_known touches_batch_is_live touches_needs_tombstone
        touches_purge_batch touches_forget touches_purge_tombstones)
      (auto intro: k simp: own_keys_form batch_cancel_key_def)
qed

lemma touches_flag: "K (job_hash_key j) \<Longrightarrow> touches kv clock K (flag_job_cancelled exec j)"
  unfolding flag_job_cancelled_def by (intro touches_intros touches_writes)

lemma touches_flag_entries: "(\<And>j. K (job_hash_key j)) \<Longrightarrow> touches kv clock K (flag_entries exec es r)"
  unfolding flag_entries_def Let_def by (intro touches_intros touches_flag)

lemma touches_job_is_active: "touches kv clock K (job_is_active exec j)"
  unfolding job_is_active_def by (intro touches_intros touches_attempt touches_reads)

lemma touches_scan_step:
  "(\<And>keys r. (\<And>k. k \<in> set keys \<Longrightarrow> starts_with p k) \<Longrightarrow> touches kv clock K (body keys r)) \<Longrightarrow>
   touches kv clock K (scan_step exec p body r)"
  unfolding scan_step_def by (intro touches_scan_outcome touches_intros) auto

lemma touches_cancel_in_flight:
  "(\<And>j. K (job_hash_key j)) \<Longrightarrow> touches kv clock K (cancel_in_flight exec r)"
  unfolding cancel_in_flight_def cancel_in_flight_key_def Let_def
  by (intro touches_scan_step touches_intros touches_sum touches_outcome_of touches_reads touches_flag)

lemma touches_release_input_lock:
  "K key \<Longrightarrow> touches kv clock K (release_input_lock exec given key owner)"
  unfolding release_input_lock_def
  by (intro touches_intros touches_attempt touches_reads touches_writes) auto

text \<open>The steps after the queues are drained touch only what the drained jobs leave behind.\<close>

lemma touches_debris_steps:
  assumes "\<And>k. debris_key k \<Longrightarrow> K k"
  shows "touches kv clock K (drop_progress_keys exec r)" "touches kv clock K (release_stale_locks exec r)"
    "touches kv clock K (drop_stale_dedup_keys exec r)" "touches kv clock K (drop_stale_batches exec cfg has_bot r)"
    "touches kv clock K (sweep_ghost_work exec r)"
proof -
  have k: "K k" if "starts_with progress_prefix k \<or> starts_with input_lock_prefix k \<or>
      starts_with pipeline_dedup_prefix k \<or> starts_with batch_key_prefix k" for k
    using that by (intro assms) (auto simp: debris_key_def)
  show "touches kv clock K (drop_progress_keys exec r)"
    unfolding drop_progress_keys_def
    by (intro touches_scan_step touches_intros touches_writes) (meson in_slices k)
  show "touches kv clock K (release_stale_locks exec r)"
    unfolding release_stale_locks_def release_stale_lock_def Let_def
    by (intro touches_scan_step touches_intros touches_sum touches_outcome_of touches_reads touches_job_is_active
        touches_release_input_lock) (use k in blast)
  show "touches kv clock K (drop_stale_dedup_keys exec r)"
    unfolding drop_stale_dedup_keys_def drop_dedup_key_def Let_def
    by (intro touches_scan_step touches_intros touches_sum touches_outcome_of touches_attempt touches_reads
        touches_job_is_active touches_writes) (use k in auto)
  show "touches kv clock K (drop_stale_batches exec cfg has_bot r)"
    unfolding drop_stale_batches_def delete_batch_message_def
    by (intro touches_intros touches_sum touches_outcome_of touches_purge_stale touches_call) (use k in auto)
  show "touches kv clock K (sweep_ghost_work exec r)"
    unfolding sweep_ghost_work_def
    by (intro touches_intros touches_sum touches_outcome_of touches_sweep_ghost assms)
qed

lemma touches_drain_steps:
  assumes "\<And>k. queue_key k \<Longrightarrow> K k"
  shows "touches kv clock K (drain_job_list exec r)" "touches kv clock K (drain_delayed_set exec r)"
    "touches kv clock K (cancel_in_flight exec r)"
proof -
  have k: "K job_list_key" "K delayed_set_key" "K (job_hash_key j)" for j
    by (rule assms, simp add: queue_key_def job_hash_key_def starts_with_iff)+
  show "touches kv clock K (drain_job_list exec r)" "touches kv clock K (drain_delayed_set exec r)"
    unfolding drain_job_list_def drain_delayed_set_def
    by (intro touches_intros touches_sum touches_outcome_of touches_reads touches_writes touches_flag_entries;
        use k in auto)+
  show "touches kv clock K (cancel_in_flight exec r)" by (intro touches_cancel_in_flight k)
qed

lemma touches_isolated: "(touches kv clock K (step r)) \<Longrightarrow> touches kv clock K (isolated name step r)"
  unfolding isolated_def by (intro touches_intros)

lemma touches_purge_broker: "touches kv clock K (purge_broker_queues exec consumes r)"
  unfolding purge_broker_queues_def by (intro touches_intros touches_sum touches_outcome_of touches_exec) simp

lemma touches_cancel_all:
  "touches kv clock (\<lambda>k. queue_key k \<or> debris_key k) (cancel_all_jobs exec cfg consumes pb has_bot)"
  unfolding cancel_all_jobs_def cancel_steps_def for_each.simps split
  by (intro touches_intros touches_sum touches_outcome_of touches_reads touches_isolated touches_debris_steps
      touches_drain_steps touches_purge_broker) auto

end

section \<open>Nothing is left to run\<close>

definition unflagged :: "real \<Rightarrow> store \<Rightarrow> string \<Rightarrow> bool" where
  "unflagged t m j \<longleftrightarrow>
     j \<noteq> [] \<and> hash_at t m (job_hash_key j) \<noteq> [] \<and> status_text (hash_at t m (job_hash_key j)) \<notin> terminal_statuses"

definition drained :: "real \<Rightarrow> store \<Rightarrow> bool" where
  "drained t m \<longleftrightarrow> list_at t m job_list_key = [] \<and> zset_at t m delayed_set_key = [] \<and> (\<forall>j. \<not> unflagged t m j)"

lemma at_later:
  assumes "t \<le> t'"
  shows "list_at t m k = [] \<Longrightarrow> list_at t' m k = []" "zset_at t m k = [] \<Longrightarrow> zset_at t' m k = []"
    "hash_at t' m k = [] \<or> hash_at t' m k = hash_at t m k"
  using assms live_later_same [of t' m k _ t] by (cases "live t' m k"; auto simp: list_at_def zset_at_def hash_at_def)+

lemma drained_later:
  assumes "drained t m" "t \<le> t'" "m' job_list_key = m job_list_key" "m' delayed_set_key = m delayed_set_key"
    "\<And>j. m' (job_hash_key j) = m (job_hash_key j)"
  shows "drained t' m'"
proof -
  have "list_at t' m' job_list_key = list_at t' m job_list_key" "zset_at t' m' delayed_set_key = zset_at t' m delayed_set_key"
    "hash_at t' m' (job_hash_key j) = hash_at t' m (job_hash_key j)" for j
    using assms(3-5) by (simp_all add: list_at_def zset_at_def hash_at_def live_def)
  then show ?thesis
    using assms(1) at_later [OF assms(2), of m] unfolding drained_def unflagged_def by metis
qed

lemma admin_mark_terminal: "status_text (dmerge h admin_cancel_mark) \<in> terminal_statuses"
  by (simp add: status_text_def admin_cancel_mark_def dget_dmerge terminal_statuses_def)

text \<open>Flagging entries keeps everything but job hashes, and leaves no new job unflagged.\<close>

definition flags_only :: "real \<Rightarrow> store \<Rightarrow> store \<Rightarrow> bool" where
  "flags_only t m m' \<longleftrightarrow> typed m' \<and> (\<forall>k. (\<forall>j. k \<noteq> job_hash_key j) \<longrightarrow> m' k = m k) \<and>
     (\<forall>j. unflagged t m' j \<longrightarrow> unflagged t m j)"

lemma flags_only_flag:
  assumes "flags_only t m m1" "typed m2" "\<And>k. k \<noteq> job_hash_key j \<Longrightarrow> m2 k = m1 k"
    and "j \<noteq> [] \<Longrightarrow> hash_at t m2 (job_hash_key j) = dmerge (hash_at t m1 (job_hash_key j)) admin_cancel_mark"
  shows "flags_only t m m2" "\<not> unflagged t m2 j"
proof -
  show n: "\<not> unflagged t m2 j"
    using assms(4) admin_mark_terminal by (cases "j = []") (auto simp: unflagged_def)
  have "unflagged t m1 i" if "unflagged t m2 i" for i
  proof -
    have "i \<noteq> j" using that n by blast
    then have "hash_at t m2 (job_hash_key i) = hash_at t m1 (job_hash_key i)"
      by (intro hash_at_cong assms(3)) (simp add: job_hash_key_def)
    then show ?thesis using that by (simp add: unflagged_def)
  qed
  then show "flags_only t m m2" using assms(1-3) by (simp add: flags_only_def)
qed

lemma job_hash_inj: "job_hash_key i = job_hash_key j \<longleftrightarrow> i = j"
  by (simp add: job_hash_key_def)

lemma wp_isolated:
  "wp (isolated n s r) Q E =
     wp (s r) (\<lambda>x. Q (case snd x of None \<Rightarrow> fst x | Some e \<Rightarrow> report_error n e (fst x))) E"
  by (simp add: isolated_def split_beta)

lemma debris_not_queue:
  "\<not> debris_key job_list_key" "\<not> debris_key delayed_set_key" "\<not> debris_key (job_hash_key j)"
  by (simp_all add: debris_key_def key_defs starts_with_def progress_prefix_def input_lock_prefix_def)

context redis_up begin

lemma up_flag:
  assumes "typed (kv w)"
    and "\<And>w'. clock w' = clock w \<Longrightarrow> typed (kv w') \<Longrightarrow>
      (\<And>k. k \<noteq> job_hash_key j \<Longrightarrow> kv w' k = kv w k) \<Longrightarrow>
      (j \<noteq> [] \<Longrightarrow> hash_at (clock w) (kv w') (job_hash_key j) = dmerge (hash_at (clock w) (kv w) (job_hash_key j)) admin_cancel_mark) \<Longrightarrow>
      Q () w'"
  shows "wp (flag_job_cancelled exec j) Q E w"
proof (cases "j = []")
  case True
  then show ?thesis using assms by (simp add: flag_job_cancelled_def)
next
  case False
  have "wp (r_hset exec (job_hash_key j) admin_cancel_mark) (\<lambda>_. Q ()) (\<lambda>_. Q ()) w"
  proof (rule up_hset, goal_cases)
    case 1
    then show ?case by (rule typed_hash [OF assms(1)]) simp
  next
    case (2 w')
    show ?case
      by (rule assms(2))
        (use 2 effect_typed [OF assms(1), of "Hset (job_hash_key j) admin_cancel_mark" "clock w"] in \<open>auto simp: hash_at_put\<close>)
  qed
  then show ?thesis using False by (simp add: flag_job_cancelled_def)
qed

lemma up_flag_entries:
  assumes "typed (kv w)"
  shows "wp (flag_entries exec es r) (\<lambda>_ w'. clock w' = clock w \<and> flags_only (clock w) (kv w) (kv w')) E w"
  unfolding flag_entries_def
proof (rule wp_for_each, goal_cases)
  case (1 x s w1)
  then have 1: "clock w1 = clock w" "flags_only (clock w) (kv w) (kv w1)" by simp_all
  show ?case
  proof (cases "job_id_of x = []")
    case False
    have "wp (flag_job_cancelled exec (job_id_of x)) (\<lambda>_ w'. clock w' = clock w \<and> flags_only (clock w) (kv w) (kv w')) E w1"
    proof (rule up_flag, goal_cases)
      case 1
      then show ?case using \<open>flags_only _ _ _\<close> by (simp add: flags_only_def)
    next
      case (2 w')
      then show ?case using 1 flags_only_flag(1) [of "clock w" "kv w" "kv w1" "kv w'" "job_id_of x"] by auto
    qed
    then show ?thesis using False by (simp add: Let_def)
  qed (use 1 in simp)
qed (use assms in \<open>simp add: flags_only_def\<close>)

lemma up_cancel_in_flight:
  assumes "typed (kv w)"
  shows "wp (cancel_in_flight exec r) (\<lambda>(_, e) w'. e = None \<and> clock w' = clock w \<and> flags_only (clock w) (kv w) (kv w') \<and>
     (\<forall>j. \<not> unflagged (clock w) (kv w') j)) E w"
  unfolding cancel_in_flight_def scan_step_def wp_bnd wp_outcome_of
proof (rule up_scan, goal_cases)
  case (1 keys w0)
  let ?I = "\<lambda>dn (_ :: queue_report) w'. clock w' = clock w \<and> flags_only (clock w) (kv w) (kv w') \<and>
     (\<forall>j. unflagged (clock w) (kv w') j \<longrightarrow> job_hash_key j \<in> set keys - set dn)"
  have start: "?I [] r w0"
  proof -
    have "job_hash_key j \<in> set keys" if "unflagged (clock w) (kv w) j" for j
      using that 1(3) by (auto simp: unflagged_def hash_at_def job_hash_key_def starts_with_iff split: option.splits)
    then show ?thesis using 1 assms by (simp add: flags_only_def)
  qed
  have "wp (for_each keys r (cancel_in_flight_key exec)) (?I ([] @ keys)) E w0"
  proof (rule wp_for_each_prefix)
    fix x dn rest s w1
    assume I: "?I dn s w1" and split: "[] @ keys = dn @ x # rest"
    have "x \<in> set keys" using split by simp
    then have "starts_with job_hash_prefix x" using 1(3) by blast
    then have x: "x = job_hash_key (drop (length job_hash_prefix) x)"
      by (auto simp: job_hash_key_def starts_with_iff)
    let ?j = "drop (length job_hash_prefix) x"
    have stays: "?I (dn @ [x]) s' w'"
      if "clock w' = clock w1" "flags_only (clock w) (kv w) (kv w')" "\<not> unflagged (clock w) (kv w') ?j"
        "\<And>j. unflagged (clock w) (kv w') j \<Longrightarrow> unflagged (clock w) (kv w1) j" for s' w'
      using I that x by (metis DiffE DiffI Un_iff empty_iff empty_set list.simps(15) insert_iff set_append job_hash_inj)
    show "wp (cancel_in_flight_key exec x s) (?I (dn @ [x])) E w1"
    proof (cases "?j = []")
      case True
      then show ?thesis
        using stays [of w1] I by (simp add: cancel_in_flight_key_def unflagged_def)
    next
      case False
      have h: "is_hash (live (clock w1) (kv w1) x)" using I by (subst x, intro typed_hash) (auto simp: flags_only_def)
      show ?thesis
        unfolding cancel_in_flight_key_def Let_def if_not_P [OF False] wp_bnd wp_outcome_of
      proof (rule up_hgetall [OF h], goal_cases)
        case (1 w2)
        show ?case
        proof (cases "hash_at (clock w1) (kv w1) x = [] \<or> status_text (hash_at (clock w1) (kv w1) x) \<in> terminal_statuses")
          case True
          then have "\<not> unflagged (clock w) (kv w2) ?j" using I 1 x by (auto simp: unflagged_def)
          then show ?thesis using True 1 I stays [of w2] by simp
        next
          case unfl: False
          have "wp (flag_job_cancelled exec ?j) (\<lambda>_. ?I (dn @ [x]) s) E w2"
          proof (rule up_flag, goal_cases)
            case 1
            then show ?case using I \<open>kv w2 = kv w1\<close> by (simp add: flags_only_def)
          next
            case (2 w')
            have f: "flags_only (clock w) (kv w1) (kv w')" "\<not> unflagged (clock w) (kv w') ?j"
              using flags_only_flag [of "clock w" "kv w1" "kv w1" "kv w'" ?j] 2 1 I by (auto simp: flags_only_def)
            then have "flags_only (clock w) (kv w) (kv w')" using I by (auto simp: flags_only_def)
            then show ?case using stays [of w'] f 2 1 by (simp add: flags_only_def)
          qed
          then show ?thesis using unfl by simp
        qed
      qed
    qed
  qed (rule start)
  then show ?case by (auto elim!: wp_mono)
qed

lemma up_drop_key:
  assumes "typed (kv w)" "es = [] \<Longrightarrow> P (kv w)" "P (wipe [k] (kv w))"
  shows "wp (outcome_of (whenb (es \<noteq> []) (r_del exec [k])))
    (\<lambda>d w'. (\<exists>u. d = Inr u) \<and> clock w' = clock w \<and> typed (kv w') \<and> P (kv w') \<and> (\<forall>k'. k' \<noteq> k \<longrightarrow> kv w' k' = kv w k')) E w"
proof (cases "es = []")
  case False
  have "wp (r_del exec [k]) (\<lambda>_ w'. clock w' = clock w \<and> typed (kv w') \<and> P (kv w') \<and> (\<forall>k'. k' \<noteq> k \<longrightarrow> kv w' k' = kv w k')) F w" for F
    by (rule up_del) (use assms typed_wipe [OF assms(1), of "[k]"] in \<open>simp add: wipe_def\<close>)
  then show ?thesis using False by (simp add: outcome_of_def)
qed (use assms in \<open>simp add: outcome_of_def\<close>)

definition emptied :: "(real \<Rightarrow> store \<Rightarrow> bool) \<Rightarrow> string \<Rightarrow> real \<Rightarrow> store \<Rightarrow> store \<Rightarrow> bool" where
  "emptied gone k t m m' \<longleftrightarrow> typed m' \<and> gone t m' \<and> (\<forall>k'. k' \<noteq> k \<and> (\<forall>j. k' \<noteq> job_hash_key j) \<longrightarrow> m' k' = m k')"

lemma up_drain:
  assumes "typed (kv w)" and k: "\<And>j. k \<noteq> job_hash_key j"
    and "\<And>m'. m' k = kv w k \<Longrightarrow> es = [] \<Longrightarrow> gone (clock w) m'" "\<And>m. gone (clock w) (wipe [k] m)"
  shows "wp (bnd (flag_entries exec es r) (\<lambda>r1. bnd (outcome_of (whenb (es \<noteq> []) (r_del exec [k]))) (\<lambda>d. case d of
            Inl e \<Rightarrow> ret (r1, Some e) | Inr u \<Rightarrow> ret (f r1, None))))
          (\<lambda>(_, e) w'. e = None \<and> clock w' = clock w \<and> emptied gone k (clock w) (kv w) (kv w')) E w"
  unfolding wp_bnd
proof (rule wp_mono [OF up_flag_entries [OF assms(1)]], goal_cases)
  case (1 r1 w1)
  then have k1: "kv w1 k = kv w k" using k by (simp add: flags_only_def)
  have "wp (outcome_of (whenb (es \<noteq> []) (r_del exec [k])))
    (\<lambda>d w'. (\<exists>u. d = Inr u) \<and> clock w' = clock w1 \<and> typed (kv w') \<and> gone (clock w) (kv w') \<and>
       (\<forall>k'. k' \<noteq> k \<longrightarrow> kv w' k' = kv w1 k')) E w1"
    by (rule up_drop_key) (use 1 k1 assms(3,4) in \<open>auto simp: flags_only_def\<close>)
  then show ?case
    by (rule wp_mono) (use 1 in \<open>auto simp: emptied_def flags_only_def\<close>)
qed

lemma up_drain_job_list:
  assumes "typed (kv w)"
  shows "wp (drain_job_list exec r) (\<lambda>(_, e) w'. e = None \<and> clock w' = clock w \<and>
     emptied (\<lambda>t m. list_at t m job_list_key = []) job_list_key (clock w) (kv w) (kv w')) E w"
  unfolding drain_job_list_def wp_bnd [of "outcome_of (r_lrange exec job_list_key)"]
    wp_outcome_of [of "r_lrange exec job_list_key"]
proof (rule up_lrange, goal_cases)
  case 1
  then show ?case by (rule typed_list [OF assms]) simp
next
  case (2 w1)
  note w1 = 2
  show ?case
    unfolding sum.case w1 [symmetric]
  proof (rule up_drain, goal_cases)
    case (3 m')
    then show ?case using list_at_cong [of m' job_list_key "kv w1"] by simp
  qed (use assms w1 in \<open>auto simp: list_at_def\<close>)
qed

lemma up_drain_delayed_set:
  assumes "typed (kv w)"
  shows "wp (drain_delayed_set exec r) (\<lambda>(_, e) w'. e = None \<and> clock w' = clock w \<and>
     emptied (\<lambda>t m. zset_at t m delayed_set_key = []) delayed_set_key (clock w) (kv w) (kv w')) E w"
  unfolding drain_delayed_set_def wp_bnd [of "outcome_of (r_zrange exec delayed_set_key)"]
    wp_outcome_of [of "r_zrange exec delayed_set_key"]
proof (rule up_zrange, goal_cases)
  case 1
  then show ?case by (rule typed_zset [OF assms]) simp
next
  case (2 xs w1)
  note w1 = 2
  show ?case
    unfolding sum.case w1(1,2) [symmetric]
  proof (rule up_drain, goal_cases)
    case (3 m')
    then show ?case using w1 zset_at_cong [of m' delayed_set_key "kv w1"] by simp
  qed (use assms w1 in \<open>auto simp: zset_at_def\<close>)
qed

lemma up_drains_queues:
  assumes "typed (kv w)" and Q: "\<And>r w'. drained (clock w') (kv w') \<Longrightarrow> Q r w'"
  shows "wp (isolated a (drain_job_list exec) r) (\<lambda>r1. wp (isolated b (drain_delayed_set exec) r1) (\<lambda>r2.
      wp (isolated c (cancel_in_flight exec) r2) Q E) E) E w"
  unfolding wp_isolated
proof (rule wp_mono [OF up_drain_job_list [OF assms(1)]], goal_cases)
  case (1 x1 w1)
  then have w1: "clock w1 = clock w" "emptied (\<lambda>t m. list_at t m job_list_key = []) job_list_key (clock w) (kv w) (kv w1)"
    by auto
  have t1: "typed (kv w1)" using w1 by (simp add: emptied_def)
  show ?case
  proof (rule wp_mono [OF up_drain_delayed_set [OF t1]], goal_cases)
    case (1 x2 w2)
    then have w2: "clock w2 = clock w" "emptied (\<lambda>t m. zset_at t m delayed_set_key = []) delayed_set_key (clock w) (kv w1) (kv w2)"
      using w1 by auto
    have "kv w2 job_list_key = kv w1 job_list_key" using w2 by (simp add: emptied_def)
    then have l: "list_at (clock w) (kv w2) job_list_key = []"
      using w1 list_at_cong [of "kv w2" job_list_key] by (simp add: emptied_def)
    have t2: "typed (kv w2)" using w2 by (simp add: emptied_def)
    show ?case
    proof (rule wp_mono [OF up_cancel_in_flight [OF t2]], goal_cases)
      case (1 x3 w3)
      then have w3: "clock w3 = clock w" "flags_only (clock w) (kv w2) (kv w3)" "\<forall>j. \<not> unflagged (clock w) (kv w3) j"
        using w2 by auto
      have "kv w3 job_list_key = kv w2 job_list_key" "kv w3 delayed_set_key = kv w2 delayed_set_key"
        using w3(2) by (simp_all add: flags_only_def)
      then have "list_at (clock w) (kv w3) job_list_key = []" "zset_at (clock w) (kv w3) delayed_set_key = []"
        using l w2(2) list_at_cong [of "kv w3" job_list_key "kv w2"] zset_at_cong [of "kv w3" delayed_set_key "kv w2"]
        by (simp_all only: emptied_def)
      then have "drained (clock w3) (kv w3)" using w3 by (simp add: drained_def)
      then show ?case by (rule Q)
    qed simp
  qed simp
qed simp

lemma up_cancel_all:
  assumes "typed (kv w)"
  shows "wp (cancel_all_jobs exec cfg consumes pb has_bot) (\<lambda>_ w'. drained (clock w') (kv w')) (\<lambda>_ w'. drained (clock w') (kv w')) w"
    (is "wp _ ?Q ?E w")
proof -
  let ?run = "\<lambda>steps r. bnd (for_each steps r (\<lambda>(name, step). isolated name step))
      (\<lambda>r. if pb then purge_broker_queues exec consumes r else ret r)"
  let ?rest = "[(''progress keys'', drop_progress_keys exec), (''stale locks'', release_stale_locks exec),
      (''dedup keys'', drop_stale_dedup_keys exec), (''stale batches'', drop_stale_batches exec cfg has_bot),
      (''ghost work'', sweep_ghost_work exec)]"
  have t: "touches kv clock debris_key (?run ?rest r)" for r
    unfolding for_each.simps split
    by (intro touches_intros touches_isolated touches_debris_steps touches_purge_broker)
  have rest: "wp (?run ?rest r) ?Q ?E w'" if "drained (clock w') (kv w')" for r w'
    by (rule wp_mono [OF touchesD [OF t]]; rule drained_later [OF that]; simp add: frame_def debris_not_queue)
  have "wp (?run (cancel_steps exec cfg has_bot) new_report) ?Q ?E w'" if "typed (kv w')" for w'
  proof -
    have "wp (isolated ''queued'' (drain_job_list exec) new_report) (\<lambda>r1.
        wp (isolated ''delayed'' (drain_delayed_set exec) r1) (\<lambda>r2.
        wp (isolated ''in-flight'' (cancel_in_flight exec) r2) (\<lambda>r3. wp (?run ?rest r3) ?Q ?E) ?E) ?E) ?E w'"
      by (rule up_drains_queues [OF that rest])
    then show ?thesis unfolding cancel_steps_def for_each.simps(2) split wp_bnd .
  qed
  then show ?thesis
    unfolding cancel_all_jobs_def wp_bnd [of "outcome_of (r_connect exec)"] wp_outcome_of [of "r_connect exec"]
    by (intro up_connect) (use assms in \<open>simp del: wp_bnd\<close>)
qed

end


text \<open>
  Whatever fails, \<open>/clear_cache\<close> changes cache and route-cache keys only - never a queue, a job, a
  lock, a claim or a batch - and \<open>/cancelall\<close> changes nothing but the queues, the job hashes and what jobs
  leave behind: progress mirrors, input locks, dedup keys, batch keys and conversion slots.
\<close>

theorem admin_touches_only:
  assumes "redis_server exec kv clock"
  shows "(\<not> cache_key k \<longrightarrow> kv (snd (clear_cache_keys exec mem backend route storage w)) k = kv w k) \<and>
     (\<not> (queue_key k \<or> debris_key k) \<longrightarrow> kv (snd (cancel_all_jobs exec cfg consumes pb has_bot w)) k = kv w k)"
  using touches_final [OF redis_server.touches_clear_cache [OF assms]]
    touches_final [OF redis_server.touches_cancel_all [OF assms]] by blast

section \<open>Which dedup keys go\<close>

definition active_job :: "real \<Rightarrow> store \<Rightarrow> string \<Rightarrow> bool" where
  "active_job t m j \<longleftrightarrow>
     hash_at t m (job_hash_key j) \<noteq> [] \<and> status_text (hash_at t m (job_hash_key j)) \<in> active_statuses"

definition stale_dedup :: "real \<Rightarrow> store \<Rightarrow> string \<Rightarrow> bool" where
  "stale_dedup t m k \<longleftrightarrow>
     (case str_at t m k of None \<Rightarrow> False | Some j \<Rightarrow> j \<noteq> [] \<and> (j = pending_placeholder \<or> \<not> active_job t m j))"

lemma kind_of_dedup:
  assumes "starts_with pipeline_dedup_prefix k"
  shows "kind_of k = KStr"
proof -
  obtain t where "k = pipeline_dedup_prefix @ t" using assms by (auto simp: starts_with_iff)
  then show ?thesis by (simp add: kind_of_def key_defs starts_with_def)
qed

lemma dedup_not_job: "starts_with pipeline_dedup_prefix k \<Longrightarrow> k \<noteq> job_hash_key j"
  by (auto simp: key_defs starts_with_iff)

context redis_up begin

lemma up_job_is_active:
  assumes "is_hash (live (clock w) (kv w) (job_hash_key j))" and "j \<noteq> pending_placeholder"
    and "\<And>w'. clock w' = clock w \<Longrightarrow> kv w' = kv w \<Longrightarrow> Q (active_job (clock w) (kv w) j) w'"
  shows "wp (job_is_active exec j) Q E w"
  unfolding job_is_active_def if_not_P [OF assms(2)] wp_bnd wp_attempt
  by (rule up_hgetall [OF assms(1)]) (use assms(3) in \<open>simp add: active_job_def\<close>)

lemma up_drop_dedup_key:
  assumes "typed (kv w)" and k: "starts_with pipeline_dedup_prefix k"
  shows "wp (drop_dedup_key exec k r) (\<lambda>_ w'. clock w' = clock w \<and>
     kv w' = (if stale_dedup (clock w) (kv w) k then wipe [k] (kv w) else kv w)) E w"
  unfolding drop_dedup_key_def wp_bnd [of "outcome_of (r_get exec k)"] wp_outcome_of Let_def
proof (rule up_get, goal_cases)
  case 1
  then show ?case by (rule typed_str [OF assms(1) kind_of_dedup [OF k]])
next
  case (2 w1)
  let ?drop = "\<lambda>active. if active then ret r
     else bnd (attempt (r_del exec [k])) (\<lambda>d. ret (if d = None then r else r\<lparr>q_dedup_keys := q_dedup_keys r + 1\<rparr>))"
  show ?case
  proof (cases "str_at (clock w) (kv w) k")
    case None
    then show ?thesis using 2 by (simp add: stale_dedup_def)
  next
    case (Some j)
    have drop: "wp (?drop a) (\<lambda>_ w'. clock w' = clock w \<and> kv w' = (if a then kv w else wipe [k] (kv w))) E w2"
      if "clock w2 = clock w" "kv w2 = kv w" for a w2
      using that by (cases a) (auto intro: up_del)
    show ?thesis
    proof (cases "j = [] \<or> j = pending_placeholder")
      case True
      then show ?thesis
        using drop [of w1 False] 2 Some by (auto simp: stale_dedup_def pending_placeholder_def)
    next
      case False
      have "wp (job_is_active exec j) (\<lambda>a. wp (?drop a) (\<lambda>_ w'. clock w' = clock w \<and>
          kv w' = (if stale_dedup (clock w) (kv w) k then wipe [k] (kv w) else kv w)) E) E w1"
      proof (rule up_job_is_active, goal_cases)
        case 1
        then show ?case using 2 by (simp add: typed_hash [OF assms(1)])
      next
        case (3 w2)
        then show ?case using drop [of w2 "active_job (clock w) (kv w) j"] 2 Some False
          by (cases "active_job (clock w) (kv w) j") (simp_all add: stale_dedup_def del: wp_bnd)
      qed (use False in simp)
      then show ?thesis using 2 Some False by (simp add: wp_bnd [of "job_is_active exec j"] del: wp_bnd)
    qed
  qed
qed

lemma stale_dedup_cong:
  assumes "m' k = m k" "\<And>j. m' (job_hash_key j) = m (job_hash_key j)"
  shows "stale_dedup t m' k = stale_dedup t m k"
proof -
  have "hash_at t m' (job_hash_key j) = hash_at t m (job_hash_key j)" for j by (rule hash_at_cong) (rule assms(2))
  moreover have "str_at t m' k = str_at t m k" by (rule str_at_cong) (rule assms(1))
  ultimately show ?thesis by (simp add: stale_dedup_def active_job_def split: option.split)
qed

lemma up_drop_stale_dedup:
  assumes "typed (kv w)"
  shows "wp (drop_stale_dedup_keys exec r) (\<lambda>_ w'.
     kv w' = (\<lambda>k. if starts_with pipeline_dedup_prefix k \<and> stale_dedup (clock w) (kv w) k then None else kv w k)) E w"
  unfolding drop_stale_dedup_keys_def scan_step_def wp_bnd wp_outcome_of
proof (rule up_scan, goal_cases)
  case (1 keys w0)
  let ?gone = "\<lambda>k. starts_with pipeline_dedup_prefix k \<and> stale_dedup (clock w) (kv w) k"
  let ?I = "\<lambda>dn (_ :: queue_report) w'. clock w' = clock w \<and> kv w' = (\<lambda>k. if k \<in> set dn \<and> ?gone k then None else kv w k)"
  have "wp (for_each keys r (drop_dedup_key exec)) (?I ([] @ keys)) E w0"
  proof (rule wp_for_each_prefix)
    fix x dn rest s w1
    assume I: "?I dn s w1" and split: "[] @ keys = dn @ x # rest"
    have "x \<in> set keys" using split by simp
    then have x: "starts_with pipeline_dedup_prefix x" using 1(3) by blast
    have "typed (kv w1)" using I assms by (simp add: typed_def)
    from up_drop_dedup_key [OF this x, of s E]
    show "wp (drop_dedup_key exec x s) (?I (dn @ [x])) E w1"
    proof (rule wp_mono, goal_cases)
      case (1 _ w2)
      have "stale_dedup (clock w) (kv w1) x = (if x \<in> set dn \<and> ?gone x then False else stale_dedup (clock w) (kv w) x)"
      proof (cases "x \<in> set dn \<and> ?gone x")
        case True
        then show ?thesis using I by (simp add: stale_dedup_def str_at_def)
      next
        case False
        have "kv w1 (job_hash_key j) = kv w (job_hash_key j)" for j using I dedup_not_job by auto
        then show ?thesis using False I by (subst stale_dedup_cong [of "kv w1" x "kv w"]) auto
      qed
      then show ?case using 1 I x by (auto simp: wipe_def fun_eq_iff)
    qed
  qed (use 1 in simp)
  then show ?case
  proof (simp, elim wp_mono, goal_cases)
    case (1 _ w')
    have "live (clock w) (kv w) k \<noteq> None" if "stale_dedup (clock w) (kv w) k" for k
      using that by (auto simp: stale_dedup_def str_at_def split: option.splits)
    then have "?gone k \<longleftrightarrow> k \<in> set keys \<and> ?gone k" for k using \<open>set keys = _\<close> by blast
    then show ?case using 1 by auto
  qed
qed

end

text \<open>
  With Redis up the dedup pass of \<open>/cancelall\<close> removes exactly the dedup keys whose job has no hash or
  no active status - and every key that still holds \<open>pending\<close>, the placeholder of an ingest that is
  running.
\<close>

theorem dedup_pass_exact:
  assumes "redis_up exec kv clock" and "typed (kv w)"
  shows "kv (snd (drop_stale_dedup_keys exec r w)) =
     (\<lambda>k. if starts_with pipeline_dedup_prefix k \<and> stale_dedup (clock w) (kv w) k then None else kv w k)"
  using redis_up.up_drop_stale_dedup [OF assms, of r "\<lambda>_ _. False"]
  by (auto simp: wp_def split: prod.splits sum.splits)

section \<open>Runs\<close>

definition demo_admin :: mem where
  "demo_admin = \<lparr>mstore =
     [(''ffmpeg:jobs'', VList [QJob [(''job_id'', PStr ''j1'')]], None),
      (''ffmpeg:delayed'', VZset [(QJob [(''job_id'', PStr ''j2'')], 5)], None),
      (''ffmpeg:job:j3'', VHash [(''status'', ''processing'')], None),
      (''ffmpeg:pipeline_dedup:7:a'', VStr ''pending'', None),
      (''ffmpeg:pipeline_dedup:7:b'', VStr ''j3'', None),
      (''cache:job:x'', VStr ''{}'', None),
      (''user:settings:7'', VStr ''{}'', None)], mclock = 0\<rparr>"

lemma demo_admin_typed: "typed (mkv demo_admin)"
  unfolding mkv_def demo_admin_def mem.simps
  by (rule typed_map_of) (simp add: kind_of_def key_defs starts_with_def rpartition_at_def)

definition demo_after :: mem where
  "demo_after = snd (cancel_all_jobs mem_exec default_cfg (Inr True) True False demo_admin)"


definition no_backend :: library_backend where
  "no_backend = \<lparr>lb_present = Inr False, lb_listed = Inr [], lb_walked = [], lb_delete = (\<lambda>_. Inr 0)\<rparr>"

lemma admin_touches_only_witness:
  "mkv (snd (clear_cache_keys mem_exec (Inr 0) no_backend True True demo_admin)) ''ffmpeg:job:j3'' = mkv demo_admin ''ffmpeg:job:j3'' \<and>
   mkv (snd (cancel_all_jobs mem_exec default_cfg (Inr True) True False demo_admin)) ''user:settings:7'' = mkv demo_admin ''user:settings:7''"
proof -
  have "\<not> cache_key ''ffmpeg:job:j3''" "\<not> (queue_key ''user:settings:7'' \<or> debris_key ''user:settings:7'')"
    by (simp_all add: cache_key_def queue_key_def debris_key_def key_defs starts_with_def route_cache_prefix_def
        progress_prefix_def input_lock_prefix_def)
  then show ?thesis
    using admin_touches_only [OF memory_server, of "''ffmpeg:job:j3''" "Inr 0" no_backend True True demo_admin
        default_cfg "Inr True" True False]
      admin_touches_only [OF memory_server, of "''user:settings:7''" "Inr 0" no_backend True True demo_admin
        default_cfg "Inr True" True False] by blast
qed

lemma dedup_pass_exact_witness:
  "mkv (snd (drop_stale_dedup_keys mem_exec new_report demo_admin)) ''ffmpeg:pipeline_dedup:7:a'' = None \<and>
   mkv (snd (drop_stale_dedup_keys mem_exec new_report demo_admin)) ''ffmpeg:pipeline_dedup:7:b'' = Some (VStr ''j3'', None)"
  unfolding dedup_pass_exact [OF memory_up demo_admin_typed]
  by (simp add: starts_with_def key_defs stale_dedup_def str_at_def live_def mkv_def demo_admin_def pending_placeholder_def
      active_job_def hash_at_def status_text_def active_statuses_def)

end
