(* ===== verification/EventBus.thy ===== *)
theory EventBus
  imports BatchKeys
begin

text \<open>
  \<open>utils/eventbus\<close>, the parts that decide: the settings of \<open>config.py\<close> and which queue a job goes to,
  the projection of a job that \<open>messages.py\<close> lets into the event log, and the envelope
  \<open>emit_event\<close> of \<open>__init__.py\<close> sends.  The first eight hex digits of the SHA-256 digest are the
  parameter \<open>digest\<close>; whether a client library is installed is a parameter too.
\<close>

section \<open>Settings\<close>

definition bus_env :: "env \<Rightarrow> string \<Rightarrow> string \<Rightarrow> string" where
  "bus_env env name dflt = strip (case env name of None \<Rightarrow> dflt | Some s \<Rightarrow> if s = [] then dflt else s)"

definition bus_env_int :: "env \<Rightarrow> string \<Rightarrow> int \<Rightarrow> int" where
  "bus_env_int env name dflt =
     (let raw = bus_env env name [] in
      if raw = [] then dflt
      else case py_float raw of Some (Fin x) \<Rightarrow> py_trunc x | _ \<Rightarrow> dflt)"

definition bus_env_bool :: "env \<Rightarrow> string \<Rightarrow> bool \<Rightarrow> bool" where
  "bus_env_bool env name dflt =
     (let raw = lower (bus_env env name []) in
      if raw = [] then dflt else raw \<in> {''1'', ''true'', ''yes'', ''on''})"

definition clamp :: "int \<Rightarrow> int \<Rightarrow> int \<Rightarrow> int" where
  "clamp v low high = max low (min high v)"

datatype degraded = UnknownBackend string | NoBrokerUrl | NoBrokerClient

record bus_settings =
  bs_queue_backend :: string
  bs_rollout :: int
  bs_events_backend :: string
  bs_degraded :: "degraded option"
  bs_require_brokers :: bool
  bs_rabbitmq_url :: string
  bs_exchange :: string
  bs_jobs_queue :: string
  bs_jobs_routing_key :: string
  bs_retry_queue :: string
  bs_dead_queue :: string
  bs_dlx :: string
  bs_dead_routing_key :: string
  bs_prefetch :: int
  bs_max_retries :: int
  bs_retry_ttl_ms :: int
  bs_publisher_timeout :: real
  bs_kafka_servers :: string
  bs_kafka_topic :: string
  bs_kafka_client_id :: string
  bs_kafka_security_protocol :: string
  bs_kafka_sasl_mechanism :: string
  bs_kafka_sasl_username :: string
  bs_kafka_sasl_password :: string
  bs_kafka_ssl_cafile :: string
  bs_kafka_acks :: string
  bs_kafka_linger_ms :: int
  bs_emit_progress :: bool
  bs_progress_interval_ms :: int

definition queue_enabled :: "bus_settings \<Rightarrow> bool" where
  "queue_enabled s \<longleftrightarrow> bs_queue_backend s = ''rabbitmq'' \<and> 0 < bs_rollout s \<and> bs_degraded s = None"

definition events_enabled :: "bus_settings \<Rightarrow> bool" where
  "events_enabled s \<longleftrightarrow> bs_events_backend s = ''kafka'' \<and> bs_kafka_servers s \<noteq> []"

definition consumes_redis :: "bus_settings \<Rightarrow> bool" where
  "consumes_redis s \<longleftrightarrow> \<not> queue_enabled s \<or> bs_rollout s < 100"

definition consumes_rabbitmq :: "bus_settings \<Rightarrow> bool" where
  "consumes_rabbitmq s \<longleftrightarrow> bs_queue_backend s = ''rabbitmq'' \<and> bs_degraded s = None"

text \<open>The backend asked for, and the one used with the reason it differs.\<close>

definition or_default :: "string \<Rightarrow> string \<Rightarrow> string" where
  "or_default s dflt = (if s = [] then dflt else s)"

definition resolve_backend :: "env \<Rightarrow> bool \<Rightarrow> string \<times> degraded option" where
  "resolve_backend env aio_pika =
     (let backend = or_default (lower (bus_env env ''EVENTBUS_QUEUE_BACKEND'' ''redis'')) ''redis'' in
      if backend \<notin> {''redis'', ''rabbitmq''} then (''redis'', Some (UnknownBackend backend))
      else if backend = ''rabbitmq'' then
        (if bus_env env ''RABBITMQ_URL'' [] = [] then (''redis'', Some NoBrokerUrl)
         else if \<not> aio_pika then (''redis'', Some NoBrokerClient)
         else (backend, None))
      else (backend, None))"

definition resolve_events :: "env \<Rightarrow> string" where
  "resolve_events env =
     (let backend = or_default (lower (bus_env env ''EVENTBUS_EVENTS_BACKEND'' ''off'')) ''off'' in
      if backend \<in> {''off'', ''kafka''} then backend else ''off'')"

definition load_settings :: "env \<Rightarrow> bool \<Rightarrow> bus_settings" where
  "load_settings env aio_pika =
     \<lparr>bs_queue_backend = fst (resolve_backend env aio_pika),
      bs_rollout = clamp (bus_env_int env ''EVENTBUS_QUEUE_ROLLOUT_PERCENT'' 0) 0 100,
      bs_events_backend = resolve_events env,
      bs_degraded = snd (resolve_backend env aio_pika),
      bs_require_brokers = bus_env_bool env ''EVENTBUS_REQUIRE_BROKERS'' False,
      bs_rabbitmq_url = bus_env env ''RABBITMQ_URL'' [],
      bs_exchange = bus_env env ''RABBITMQ_EXCHANGE'' ''media.jobs'',
      bs_jobs_queue = bus_env env ''RABBITMQ_JOBS_QUEUE'' ''media.jobs.run'',
      bs_jobs_routing_key = bus_env env ''RABBITMQ_JOBS_ROUTING_KEY'' ''jobs.run'',
      bs_retry_queue = bus_env env ''RABBITMQ_RETRY_QUEUE'' ''media.jobs.retry'',
      bs_dead_queue = bus_env env ''RABBITMQ_DEAD_QUEUE'' ''media.jobs.dead'',
      bs_dlx = bus_env env ''RABBITMQ_DLX'' ''media.jobs.dlx'',
      bs_dead_routing_key = bus_env env ''RABBITMQ_DEAD_ROUTING_KEY'' ''jobs.dead'',
      bs_prefetch = clamp (bus_env_int env ''RABBITMQ_PREFETCH'' 1) 1 100,
      bs_max_retries = clamp (bus_env_int env ''RABBITMQ_MAX_RETRIES'' 3) 0 20,
      bs_retry_ttl_ms = clamp (bus_env_int env ''RABBITMQ_RETRY_TTL_MS'' 30000) 1000 3600000,
      bs_publisher_timeout = of_int (bus_env_int env ''RABBITMQ_PUBLISH_TIMEOUT'' 10),
      bs_kafka_servers = bus_env env ''KAFKA_BOOTSTRAP_SERVERS'' [],
      bs_kafka_topic = bus_env env ''KAFKA_EVENTS_TOPIC'' ''media.job.events'',
      bs_kafka_client_id = bus_env env ''KAFKA_CLIENT_ID'' ''media-bot'',
      bs_kafka_security_protocol = bus_env env ''KAFKA_SECURITY_PROTOCOL'' [],
      bs_kafka_sasl_mechanism = bus_env env ''KAFKA_SASL_MECHANISM'' [],
      bs_kafka_sasl_username = bus_env env ''KAFKA_SASL_USERNAME'' [],
      bs_kafka_sasl_password = bus_env env ''KAFKA_SASL_PASSWORD'' [],
      bs_kafka_ssl_cafile = bus_env env ''KAFKA_SSL_CAFILE'' [],
      bs_kafka_acks = bus_env env ''KAFKA_ACKS'' ''all'',
      bs_kafka_linger_ms = clamp (bus_env_int env ''KAFKA_LINGER_MS'' 20) 0 1000,
      bs_emit_progress = bus_env_bool env ''KAFKA_EMIT_PROGRESS_EVENTS'' False,
      bs_progress_interval_ms = clamp (bus_env_int env ''KAFKA_PROGRESS_MIN_INTERVAL_MS'' 2000) 0 60000\<rparr>"

text \<open>\<open>get_settings\<close> with the module's cache as a value of its own.\<close>

definition get_settings :: "env \<Rightarrow> bool \<Rightarrow> bus_settings option \<Rightarrow> bus_settings \<times> bus_settings option" where
  "get_settings env aio_pika cache =
     (case cache of Some s \<Rightarrow> (s, cache) | None \<Rightarrow> let s = load_settings env aio_pika in (s, Some s))"

section \<open>Routing\<close>

definition job_bucket :: "(string \<Rightarrow> int) \<Rightarrow> string \<Rightarrow> int \<Rightarrow> int" where
  "job_bucket digest job_id buckets = digest job_id mod max 1 buckets"

definition queue_backend_for_job :: "(string \<Rightarrow> int) \<Rightarrow> bus_settings \<Rightarrow> job option \<Rightarrow> string" where
  "queue_backend_for_job digest s j =
     (if \<not> queue_enabled s then ''redis''
      else if 100 \<le> bs_rollout s then ''rabbitmq''
      else
        let job_id = (case j of None \<Rightarrow> [] | Some d \<Rightarrow> id_text (jget d ''job_id'')) in
        if job_id = [] then ''redis''
        else if job_bucket digest job_id 100 < bs_rollout s then ''rabbitmq'' else ''redis'')"

section \<open>What a job shows the event log\<close>

definition safe_job_fields :: "string list" where
  "safe_job_fields =
     [''job_id'', ''request_id'', ''type'', ''status'', ''chat_id'', ''user_id'', ''output_ext'', ''remux_to'',
      ''size_bytes'', ''file_size'', ''duration'', ''attempt'', ''source'']"

definition secret_markers :: "string list" where
  "secret_markers =
     [''secret'', ''token'', ''password'', ''passwd'', ''api_key'', ''apikey'', ''session'', ''credential'',
      ''signature'', ''presign'', ''url'', ''auth'']"

fun contains :: "string \<Rightarrow> string \<Rightarrow> bool" where
  "contains needle [] = (needle = [])"
| "contains needle (c # s) = (starts_with needle (c # s) \<or> contains needle s)"

definition is_secret_key :: "string \<Rightarrow> bool" where
  "is_secret_key key = list_ex (\<lambda>marker. contains marker (lower key)) secret_markers"

definition summarised :: "pyval \<Rightarrow> pyval" where
  "summarised v = (case v of POther s \<Rightarrow> PStr s | _ \<Rightarrow> v)"

definition flattened :: "pyval \<Rightarrow> pyval" where
  "flattened v = (case v of POther s \<Rightarrow> PStr s | PNone \<Rightarrow> PStr ''None'' | _ \<Rightarrow> v)"

text \<open>\<open>extras\<close> is the dictionary under \<open>extra\<close>, empty when there is none.\<close>

definition job_summary :: "job option \<Rightarrow> job \<Rightarrow> job" where
  "job_summary j extras =
     (case j of
        None \<Rightarrow> []
      | Some d \<Rightarrow>
          fold (\<lambda>(key, v) s. if is_secret_key key then s else dput (''extra.'' @ key) (flattened v) s) extras
            (fold (\<lambda>field s. case dget d field of None \<Rightarrow> s | Some v \<Rightarrow> dput field (summarised v) s) safe_job_fields []))"

section \<open>The envelope\<close>

record event =
  ev_id :: string
  ev_type :: string
  ev_version :: int
  ev_ts :: real
  ev_job_id :: string
  ev_request_id :: string
  ev_source :: string
  ev_payload :: job

definition new_event ::
    "string \<Rightarrow> string \<Rightarrow> string \<Rightarrow> string \<Rightarrow> job \<Rightarrow> string option \<Rightarrow> real option \<Rightarrow> string \<Rightarrow> real \<Rightarrow> event" where
  "new_event event_type job_id request_id source payload event_id ts uuid now =
     \<lparr>ev_id = (case event_id of None \<Rightarrow> uuid | Some e \<Rightarrow> if e = [] then uuid else e), ev_type = event_type,
      ev_version = 1, ev_ts = (case ts of None \<Rightarrow> now | Some t \<Rightarrow> t), ev_job_id = job_id,
      ev_request_id = request_id, ev_source = source, ev_payload = payload\<rparr>"

definition job_text :: "job option \<Rightarrow> string \<Rightarrow> string" where
  "job_text j field = (case j of None \<Rightarrow> [] | Some d \<Rightarrow> id_text (jget d field))"

text \<open>The envelope \<open>emit_event\<close> hands to the log, or \<open>None\<close> when events are off.\<close>

definition event_to_emit ::
    "bus_settings \<Rightarrow> string \<Rightarrow> job option \<Rightarrow> job \<Rightarrow> string \<Rightarrow> job \<Rightarrow> string \<Rightarrow> string \<Rightarrow> real \<Rightarrow> event option" where
  "event_to_emit s event_type j extras job_id payload source uuid now =
     (if \<not> events_enabled s then None
      else Some (new_event event_type (if job_id = [] then job_text j ''job_id'' else job_id) (job_text j ''request_id'')
             source (dmerge (job_summary j extras) payload) None None uuid now))"

definition terminal_events :: "string list" where
  "terminal_events = [''job.completed'', ''job.failed'', ''job.cancelled'']"

definition is_terminal :: "string \<Rightarrow> bool" where
  "is_terminal event_type \<longleftrightarrow> event_type \<in> set terminal_events"

section \<open>Throttled progress events\<close>

definition progress_allowed :: "real option \<Rightarrow> real \<Rightarrow> int \<Rightarrow> bool" where
  "progress_allowed last_sent now min_interval_ms =
     (if min_interval_ms \<le> 0 then True
      else case last_sent of None \<Rightarrow> True | Some t \<Rightarrow> of_int min_interval_ms \<le> (now - t) * 1000)"

record kafka_bus =
  kb_progress_seen :: "(string, real) dict"
  kb_published :: nat
  kb_failed :: nat
  kb_suppressed :: nat

text \<open>What the producer does with an event: it does not start, it raises, or it is acknowledged.\<close>

datatype send_outcome = NotStarted | SendFailed | Sent

definition emit :: "bus_settings \<Rightarrow> send_outcome \<Rightarrow> kafka_bus \<Rightarrow> bool \<times> kafka_bus" where
  "emit s outcome b =
     (if \<not> events_enabled s then (False, b)
      else case outcome of
        NotStarted \<Rightarrow> (False, b)
      | SendFailed \<Rightarrow> (False, b\<lparr>kb_failed := kb_failed b + 1\<rparr>)
      | Sent \<Rightarrow> (True, b\<lparr>kb_published := kb_published b + 1\<rparr>))"

definition emit_progress :: "bus_settings \<Rightarrow> send_outcome \<Rightarrow> string \<Rightarrow> real \<Rightarrow> kafka_bus \<Rightarrow> bool \<times> kafka_bus" where
  "emit_progress s outcome job_id moment b =
     (if \<not> events_enabled s \<or> \<not> bs_emit_progress s then (False, b\<lparr>kb_suppressed := kb_suppressed b + 1\<rparr>)
      else if \<not> progress_allowed (dget (kb_progress_seen b) job_id) moment (bs_progress_interval_ms s)
      then (False, b\<lparr>kb_suppressed := kb_suppressed b + 1\<rparr>)
      else
        let seen = dput job_id moment (kb_progress_seen b);
            kept = (if 5000 < length seen then filter (\<lambda>(k, v). moment - 3600 \<le> v) seen else seen) in
        emit s outcome (b\<lparr>kb_progress_seen := kept\<rparr>))"

definition forget_progress :: "string \<Rightarrow> kafka_bus \<Rightarrow> kafka_bus" where
  "forget_progress job_id b = b\<lparr>kb_progress_seen := dpop job_id (kb_progress_seen b)\<rparr>"

text \<open>\<open>emit_event\<close> as a whole: a terminal event that was acknowledged ends the throttling of its job.\<close>

definition emit_event ::
    "bus_settings \<Rightarrow> send_outcome \<Rightarrow> string \<Rightarrow> job option \<Rightarrow> job \<Rightarrow> string \<Rightarrow> job \<Rightarrow> string \<Rightarrow> string \<Rightarrow> real \<Rightarrow>
     kafka_bus \<Rightarrow> bool \<times> kafka_bus" where
  "emit_event s outcome event_type j extras job_id payload source uuid now b =
     (case event_to_emit s event_type j extras job_id payload source uuid now of
        None \<Rightarrow> (False, b)
      | Some ev \<Rightarrow>
          if event_type = ''job.progress'' then emit_progress s outcome (ev_job_id ev) now b
          else
            let (sent, b1) = emit s outcome b in
            if sent \<and> is_terminal event_type then (True, forget_progress (ev_job_id ev) b1) else (sent, b1))"

end
