(* ===== verification/Broker.thy ===== *)
theory Broker
  imports EventBus
begin

text \<open>
  \<open>utils/eventbus/rabbit.py\<close>: publishing a job, handling one delivery (acknowledge, retry, dead-letter)
  and sending a job back, as steps over the three declared queues.  The broker itself is not part of
  the repository: when a message of the delay queue may come back is the parameter \<open>expires\<close>, about
  which the locale \<open>delay_queue\<close> states what RabbitMQ documents - the queue is declared without
  \<open>x-message-ttl\<close>, so only a message with an expiration of its own ever leaves it.
\<close>

section \<open>Retry decisions\<close>

definition retry_header :: string where
  "retry_header = ''x-retry-count''"

definition origin_key :: string where
  "origin_key = ''_eventbus_origin''"

definition rabbitmq_origin :: string where
  "rabbitmq_origin = ''rabbitmq''"

type_synonym headers = job

definition retry_count :: "headers \<Rightarrow> int" where
  "retry_count h = (case int_of (case dget h retry_header of None \<Rightarrow> PInt 0 | Some v \<Rightarrow> v) of None \<Rightarrow> 0 | Some n \<Rightarrow> max 0 n)"

definition should_retry :: "headers \<Rightarrow> int \<Rightarrow> bool" where
  "should_retry h max_retries \<longleftrightarrow> retry_count h < max 0 max_retries"

definition retry_headers :: "headers \<Rightarrow> headers" where
  "retry_headers h = dput retry_header (PInt (retry_count h + 1)) h"

definition backoff_ms :: "int \<Rightarrow> int \<Rightarrow> int" where
  "backoff_ms attempt base_ms = min (base_ms * 2 ^ nat (max 1 attempt - 1)) (base_ms * 10)"

definition retry_expiration :: "int \<Rightarrow> int" where
  "retry_expiration delay_ms = max 0 delay_ms"

definition is_rabbitmq_job :: "job \<Rightarrow> bool" where
  "is_rabbitmq_job j \<longleftrightarrow> dget j origin_key = Some (PStr rabbitmq_origin)"

definition mark_origin :: "job \<Rightarrow> job" where
  "mark_origin j = dput origin_key (PStr rabbitmq_origin) j"

section \<open>Declarations\<close>

definition jobs_queue_arguments :: "bus_settings \<Rightarrow> (string, string) dict" where
  "jobs_queue_arguments s =
     [(''x-dead-letter-exchange'', bs_dlx s), (''x-dead-letter-routing-key'', bs_dead_routing_key s)]"

definition retry_queue_arguments :: "bus_settings \<Rightarrow> (string, string) dict" where
  "retry_queue_arguments s =
     [(''x-dead-letter-exchange'', bs_exchange s), (''x-dead-letter-routing-key'', bs_jobs_routing_key s)]"

section \<open>Messages and queues\<close>

text \<open>The body is a text: a job, other JSON, or no JSON.  The expiration is in milliseconds.\<close>

record message =
  msg_id :: string
  msg_body :: qitem
  msg_headers :: headers
  msg_expiration :: "int option"

record broker =
  bk_jobs :: "message list"
  bk_retry :: "message list"
  bk_dead :: "message list"
  bk_done :: "message list"

definition job_message :: "job \<Rightarrow> bool \<Rightarrow> message" where
  "job_message j retrying =
     \<lparr>msg_id = id_text (jget j ''job_id''), msg_body = QJob j,
      msg_headers = (let h = [(retry_header, PInt 0)] in if retrying then retry_headers h else h), msg_expiration = None\<rparr>"

text \<open>\<open>taken\<close>: the client is there, the connection opens and the broker confirms.\<close>

definition rabbit_publish :: "bool \<Rightarrow> job \<Rightarrow> bool \<Rightarrow> broker \<Rightarrow> bool \<times> broker" where
  "rabbit_publish taken j retrying b =
     (if \<not> taken then (False, b)
      else if retrying then (True, b\<lparr>bk_retry := bk_retry b @ [job_message j True]\<rparr>)
      else (True, b\<lparr>bk_jobs := bk_jobs b @ [job_message j False]\<rparr>))"

definition rabbit_requeue :: "bool \<Rightarrow> job \<Rightarrow> broker \<Rightarrow> bool \<times> broker" where
  "rabbit_requeue taken j b = rabbit_publish taken j True b"

text \<open>\<open>publish_job\<close> and \<open>requeue_job\<close> of the package: \<open>False\<close> sends the caller to the Redis queue.\<close>

definition bus_publish :: "(string \<Rightarrow> int) \<Rightarrow> bus_settings \<Rightarrow> bool \<Rightarrow> job \<Rightarrow> broker \<Rightarrow> bool \<times> broker" where
  "bus_publish digest s taken j b =
     (if queue_backend_for_job digest s (Some j) \<noteq> ''rabbitmq'' then (False, b) else rabbit_publish taken j False b)"

definition bus_requeue :: "bool \<Rightarrow> job \<Rightarrow> broker \<Rightarrow> bool \<times> broker" where
  "bus_requeue taken j b = (if \<not> is_rabbitmq_job j then (False, b) else rabbit_requeue taken j b)"

section \<open>One delivery\<close>

datatype handled = Returns | Raises | Cancelled

datatype verdict = Ack | Reject | NackRequeue

text \<open>
  The retry that is published, if any, and how the delivery is settled.  \<open>published\<close> tells whether the
  broker takes the retry.
\<close>

definition handle_failure :: "bus_settings \<Rightarrow> bool \<Rightarrow> message \<Rightarrow> message option \<times> verdict" where
  "handle_failure s published m =
     (let h = msg_headers m in
      if should_retry h (bs_max_retries s) then
        (if published
         then (Some (m\<lparr>msg_headers := retry_headers h,
                       msg_expiration := Some (retry_expiration (backoff_ms (retry_count h + 1) (bs_retry_ttl_ms s)))\<rparr>), Ack)
         else (None, NackRequeue))
      else (None, Reject))"

definition process_message :: "bus_settings \<Rightarrow> (job \<Rightarrow> handled) \<Rightarrow> bool \<Rightarrow> message \<Rightarrow> message option \<times> verdict" where
  "process_message s handler published m =
     (case msg_body m of
        QJob j \<Rightarrow>
          (case handler (mark_origin j) of
             Returns \<Rightarrow> (None, Ack)
           | Cancelled \<Rightarrow> (None, NackRequeue)
           | Raises \<Rightarrow> handle_failure s published m)
      | _ \<Rightarrow> (None, Reject))"

text \<open>
  What the broker does with a settlement.  The settling call is best effort (\<open>suppress\<close>): where it is
  lost the delivery stays unacknowledged and is redelivered.
\<close>

definition settle :: "verdict option \<Rightarrow> message \<Rightarrow> broker \<Rightarrow> broker" where
  "settle v m b =
     (case v of
        Some Ack \<Rightarrow> b\<lparr>bk_done := bk_done b @ [m]\<rparr>
      | Some Reject \<Rightarrow> b\<lparr>bk_dead := bk_dead b @ [m]\<rparr>
      | Some NackRequeue \<Rightarrow> b\<lparr>bk_jobs := bk_jobs b @ [m]\<rparr>
      | None \<Rightarrow> b\<lparr>bk_jobs := bk_jobs b @ [m]\<rparr>)"

definition deliver :: "bus_settings \<Rightarrow> (job \<Rightarrow> handled) \<Rightarrow> bool \<Rightarrow> bool \<Rightarrow> message \<Rightarrow> broker \<Rightarrow> broker" where
  "deliver s handler published settled m b =
     (let (retry, v) = process_message s handler published m;
          b1 = b\<lparr>bk_jobs := remove1 m (bk_jobs b), bk_retry := bk_retry b @ (case retry of None \<Rightarrow> [] | Some r \<Rightarrow> [r])\<rparr>
      in settle (if settled then Some v else None) m b1)"

definition come_back :: "message \<Rightarrow> broker \<Rightarrow> broker" where
  "come_back m b = b\<lparr>bk_retry := remove1 m (bk_retry b), bk_jobs := bk_jobs b @ [m\<lparr>msg_expiration := None\<rparr>]\<rparr>"

text \<open>\<open>purge_queues\<close>, where each queue answers.\<close>

definition purge_queues :: "bool \<Rightarrow> broker \<Rightarrow> (nat \<times> nat \<times> nat option) \<times> broker" where
  "purge_queues include_dead b =
     ((length (bk_jobs b), length (bk_retry b), if include_dead then Some (length (bk_dead b)) else None),
      b\<lparr>bk_jobs := [], bk_retry := [], bk_dead := (if include_dead then [] else bk_dead b)\<rparr>)"

section \<open>The broker at work\<close>

text \<open>\<open>may j o\<close>: handling job \<open>j\<close> can end in \<open>o\<close>, now this way and now that.\<close>

inductive work ::
    "(message list \<Rightarrow> message \<Rightarrow> bool) \<Rightarrow> (job \<Rightarrow> handled \<Rightarrow> bool) \<Rightarrow> bus_settings \<Rightarrow> broker \<Rightarrow> broker \<Rightarrow> bool"
  for expires may s where
  publishing: "work expires may s b (snd (rabbit_publish taken j False b))"
| requeueing: "work expires may s b (snd (rabbit_requeue taken j b))"
| delivering: "m \<in> set (bk_jobs b) \<Longrightarrow> (\<And>j. may j (handler j)) \<Longrightarrow>
    work expires may s b (deliver s handler published settled m b)"
| expiring: "m \<in> set (bk_retry b) \<Longrightarrow> expires (bk_retry b) m \<Longrightarrow> work expires may s b (come_back m b)"

inductive works ::
    "(message list \<Rightarrow> message \<Rightarrow> bool) \<Rightarrow> (job \<Rightarrow> handled \<Rightarrow> bool) \<Rightarrow> bus_settings \<Rightarrow> broker \<Rightarrow> broker \<Rightarrow> bool"
  for expires may s b0 where
  idle: "works expires may s b0 b0"
| onward: "works expires may s b0 b \<Longrightarrow> work expires may s b b' \<Longrightarrow> works expires may s b0 b'"

inductive_cases workE [elim]: "work expires may s b b'"

end
