(* ===== verification/BrokerResults.thy ===== *)
theory BrokerResults
  imports Broker
begin

text \<open>
  What the event bus guarantees: no job whose handler has not returned ever leaves the three queues,
  attempts and delays are bounded, every queue a job can be routed to is consumed, settings stay in
  their ranges, and no secret of a job reaches the event log by itself.  And what it does not: a job
  sent back through \<open>requeue_job\<close> carries no expiration and stays in the delay queue for good.
\<close>

section \<open>A broker with nothing on it\<close>

definition idle_broker :: broker where
  "idle_broker = \<lparr>bk_jobs = [], bk_retry = [], bk_dead = [], bk_done = []\<rparr>"

definition stock_settings :: bus_settings where
  "stock_settings = load_settings (\<lambda>name. None) False"

text \<open>RabbitMQ's classic queues expire messages at their head.\<close>

definition head_expires :: "message list \<Rightarrow> message \<Rightarrow> bool" where
  "head_expires q m \<longleftrightarrow> q \<noteq> [] \<and> hd q = m \<and> msg_expiration m \<noteq> None"

section \<open>Nothing is lost\<close>

definition copies :: "qitem \<Rightarrow> broker \<Rightarrow> nat" where
  "copies body b = length (filter (\<lambda>m. msg_body m = body) (bk_jobs b @ bk_retry b @ bk_dead b))"

lemma length_filter_remove1:
  "x \<in> set xs \<Longrightarrow> length (filter P xs) = length (filter P (remove1 x xs)) + (if P x then 1 else 0)"
  by (induction xs) auto

lemma deliver_copies:
  assumes "m \<in> set (bk_jobs b)" and "msg_body m = QJob j \<Longrightarrow> handler (mark_origin j) \<noteq> Returns"
  shows "copies (QJob j) b \<le> copies (QJob j) (deliver s handler published settled m b)"
proof -
  obtain retry v where p: "process_message s handler published m = (retry, v)" by fastforce
  have stays: "v \<noteq> Ack \<or> (\<exists>r. retry = Some r \<and> msg_body r = QJob j)" if "msg_body m = QJob j"
    using p assms(2) [OF that] that
    by (auto simp: process_message_def handle_failure_def Let_def split: handled.splits if_splits)
  note n = length_filter_remove1 [OF assms(1), of "\<lambda>m. msg_body m = QJob j"]
  show ?thesis
  proof (cases settled)
    case False
    then show ?thesis using n by (simp add: deliver_def settle_def p copies_def)
  next
    case True
    then show ?thesis
      using n stays by (cases v) (auto simp: deliver_def settle_def p copies_def)
  qed
qed

lemma come_back_copies:
  assumes "m \<in> set (bk_retry b)"
  shows "copies body (come_back m b) = copies body b"
  using length_filter_remove1 [OF assms, of "\<lambda>m. msg_body m = body"] by (simp add: come_back_def copies_def)

lemma publish_copies: "copies body b \<le> copies body (snd (rabbit_publish taken j r b))"
  by (simp add: rabbit_publish_def copies_def)

text \<open>
  C24: A job on RabbitMQ whose handler never returns normally - it raises, or its worker is stopped - is
  never lost: along any run of the broker and its workers, with publishes, acknowledgements and
  expirations failing or repeating, the work, retry and dead-letter queues together never hold fewer
  copies of it than before.
\<close>

theorem unfinished_job_stays:
  assumes "works expires may s b0 b" and "\<not> may (mark_origin j) Returns"
  shows "copies (QJob j) b0 \<le> copies (QJob j) b"
  using assms(1)
proof induction
  case (onward b b')
  from onward.hyps(2) have "copies (QJob j) b \<le> copies (QJob j) b'"
  proof cases
    case (delivering m handler published settled)
    have "handler (mark_origin j) \<noteq> Returns" using assms(2) delivering(3) [of "mark_origin j"] by auto
    then show ?thesis using delivering(1,2) deliver_copies by simp
  qed (simp_all add: publish_copies rabbit_requeue_def come_back_copies)
  then show ?case using onward.IH by simp
qed simp

theorem unfinished_job_stays_witness:
  "copies (QJob []) (idle_broker\<lparr>bk_jobs := [job_message [] False]\<rparr>) \<le>
   copies (QJob []) (deliver stock_settings (\<lambda>j. Raises) True True (job_message [] False)
     (idle_broker\<lparr>bk_jobs := [job_message [] False]\<rparr>))"
proof (rule unfinished_job_stays)
  show "works head_expires (\<lambda>j out. out = Raises) stock_settings (idle_broker\<lparr>bk_jobs := [job_message [] False]\<rparr>)
     (deliver stock_settings (\<lambda>j. Raises) True True (job_message [] False)
       (idle_broker\<lparr>bk_jobs := [job_message [] False]\<rparr>))"
    by (rule onward [OF idle delivering]) simp_all
qed simp


section \<open>Attempts and delays are bounded\<close>

definition messages :: "broker \<Rightarrow> message set" where
  "messages b = set (bk_jobs b) \<union> set (bk_retry b) \<union> set (bk_dead b) \<union> set (bk_done b)"

definition bounded :: "bus_settings \<Rightarrow> message \<Rightarrow> bool" where
  "bounded s m \<longleftrightarrow> retry_count (msg_headers m) \<le> max 1 (bs_max_retries s) \<and>
     (\<forall>d. msg_expiration m = Some d \<longrightarrow> 0 \<le> d \<and> d \<le> max 0 (10 * bs_retry_ttl_ms s))"

lemma retry_count_headers [simp]: "retry_count (retry_headers h) = retry_count h + 1"
  by (auto simp: retry_headers_def retry_count_def int_of_def split: option.splits)

lemma retry_count_fresh [simp]: "retry_count [(retry_header, PInt n)] = max 0 n"
  by (simp add: retry_count_def int_of_def)

lemma bounded_publish: "bounded s (job_message j r)"
  by (simp add: bounded_def job_message_def Let_def max_def)

lemma bounded_retry:
  assumes "handle_failure s published m = (Some r, v)"
  shows "bounded s r"
  using assms by (auto simp: handle_failure_def Let_def bounded_def should_retry_def retry_expiration_def backoff_ms_def split: if_splits)

lemma deliver_messages:
  assumes "m \<in> set (bk_jobs b)" "x \<in> messages (deliver s handler published settled m b)"
  shows "x \<in> messages b \<or> (\<exists>v. handle_failure s published m = (Some x, v))"
proof -
  obtain retry v where p: "process_message s handler published m = (retry, v)" by fastforce
  then have r: "retry = Some r \<Longrightarrow> handle_failure s published m = (Some r, v)" for r
    by (auto simp: process_message_def split: qitem.splits handled.splits)
  show ?thesis
    using assms r
    by (cases v; cases settled; cases retry)
      (auto simp: deliver_def settle_def p messages_def dest: notin_set_remove1 [rotated])
qed

text \<open>
  No message is tried for ever: in every state the broker reaches from empty queues a message has
  been retried at most \<open>max(1, max_retries)\<close> times, and a retry waits at most ten times the configured
  delay.
\<close>

theorem attempts_bounded:
  assumes "works expires may s idle_broker b" and "m \<in> messages b"
  shows "bounded s m"
proof -
  have "\<forall>m \<in> messages b. bounded s m"
    using assms(1)
  proof induction
    case idle
    then show ?case by (simp add: messages_def idle_broker_def)
  next
    case (onward b b')
    show ?case
      using onward.hyps(2)
    proof cases
      case (publishing taken j)
      then show ?thesis using onward.IH bounded_publish by (auto simp: rabbit_publish_def messages_def)
    next
      case (requeueing taken j)
      then show ?thesis
        using onward.IH bounded_publish by (auto simp: rabbit_requeue_def rabbit_publish_def messages_def)
    next
      case (delivering m handler published settled)
      then show ?thesis
        using onward.IH deliver_messages [OF delivering(2)] bounded_retry by metis
    next
      case (expiring m)
      then have "bounded s (m\<lparr>msg_expiration := None\<rparr>)" using onward.IH by (auto simp: messages_def bounded_def)
      then show ?thesis
        using expiring onward.IH by (auto simp: come_back_def messages_def dest: notin_set_remove1 [rotated])
    qed
  qed
  then show ?thesis using assms(2) by blast
qed

theorem attempts_bounded_witness: "bounded stock_settings (job_message [] False)"
proof (rule attempts_bounded)
  show "works head_expires (\<lambda>j out. True) stock_settings idle_broker
     (snd (rabbit_publish True [] False idle_broker))"
    by (rule onward [OF idle publishing])
qed (simp add: rabbit_publish_def messages_def idle_broker_def)


section \<open>A job sent back is parked\<close>

text \<open>
  What RabbitMQ documents of a queue declared without \<open>x-message-ttl\<close> (\<open>retry_queue_arguments\<close> has none):
  only a message that carries an expiration of its own expires.
\<close>

locale delay_queue =
  fixes expires :: "message list \<Rightarrow> message \<Rightarrow> bool"
  assumes own_ttl: "expires q m \<Longrightarrow> msg_expiration m \<noteq> None"
begin

lemma stays_parked:
  assumes "work expires may s b b'" "msg_expiration m = None" "m \<in> set (bk_retry b)"
  shows "m \<in> set (bk_retry b')"
  using assms(1)
proof cases
  case (expiring x)
  then have "x \<noteq> m" using assms(2) own_ttl by blast
  then show ?thesis using expiring(1) assms(3) by (simp add: come_back_def in_set_remove1)
next
  case (delivering x handler published settled)
  then show ?thesis
    using assms(3) by (auto simp: deliver_def settle_def Let_def split: prod.splits option.splits verdict.splits if_splits)
qed (use assms(3) in \<open>auto simp: rabbit_publish_def rabbit_requeue_def\<close>)

lemma parked_for_good:
  assumes "works expires may s b0 b" "msg_expiration m = None" "m \<in> set (bk_retry b0)"
  shows "m \<in> set (bk_retry b)"
  using assms(1) by induction (use assms(2,3) stays_parked in blast)+

end

interpretation classic_queue: delay_queue head_expires
  by unfold_locales (simp add: head_expires_def)

text \<open>
  C30: A job that \<open>requeue_job\<close> put back on the broker - the worker does so when the job's input is locked,
  and then acknowledges the delivery - never runs again: its message carries no expiration, so it stays
  in the delay queue in every state the broker can reach.
\<close>

theorem requeued_job_parked:
  assumes "delay_queue expires" and "bus_requeue taken j b = (True, b0)" and "works expires may s b0 b'"
  shows "job_message j True \<in> set (bk_retry b')"
proof (rule delay_queue.parked_for_good [OF assms(1,3)])
  show "msg_expiration (job_message j True) = None" by (simp add: job_message_def)
  show "job_message j True \<in> set (bk_retry b0)"
    using assms(2) by (auto simp: bus_requeue_def rabbit_requeue_def rabbit_publish_def split: if_splits)
qed

definition returned_job :: job where
  "returned_job = [(origin_key, PStr rabbitmq_origin)]"

theorem requeued_job_parked_witness:
  "job_message returned_job True \<in> set (bk_retry (snd (rabbit_publish True [] False (snd (bus_requeue True returned_job idle_broker)))))"
proof (rule requeued_job_parked)
  show "delay_queue head_expires" by (rule classic_queue.delay_queue_axioms)
  show "bus_requeue True returned_job idle_broker = (True, snd (bus_requeue True returned_job idle_broker))"
    by (simp add: bus_requeue_def returned_job_def is_rabbitmq_job_def rabbit_requeue_def rabbit_publish_def)
  show "works head_expires (\<lambda>j out. True) stock_settings (snd (bus_requeue True returned_job idle_broker))
     (snd (rabbit_publish True [] False (snd (bus_requeue True returned_job idle_broker))))"
    by (rule onward [OF idle publishing])
qed


section \<open>Routing and settings\<close>

text \<open>
  Whatever the environment, the resolved settings are usable: the shares and limits are in their
  ranges, the broker is only used with a URL and a client, a job routed to RabbitMQ is consumed there,
  and raising the rollout share never moves a job back to Redis.
\<close>

theorem routing_sound:
  assumes "s = load_settings env aio_pika"
  shows "0 \<le> bs_rollout s \<and> bs_rollout s \<le> 100 \<and> 0 \<le> bs_max_retries s \<and> bs_max_retries s \<le> 20 \<and>
     1000 \<le> bs_retry_ttl_ms s \<and> (consumes_rabbitmq s \<longrightarrow> bs_rabbitmq_url s \<noteq> [] \<and> aio_pika) \<and>
     (queue_backend_for_job digest s j = ''rabbitmq'' \<longrightarrow>
        consumes_rabbitmq s \<and>
        (\<forall>r. bs_rollout s \<le> r \<longrightarrow> queue_backend_for_job digest (s\<lparr>bs_rollout := r\<rparr>) j = ''rabbitmq''))"
proof -
  have clamped: "0 \<le> bs_rollout s \<and> bs_rollout s \<le> 100 \<and> 0 \<le> bs_max_retries s \<and> bs_max_retries s \<le> 20 \<and>
     1000 \<le> bs_retry_ttl_ms s"
    by (simp add: assms load_settings_def clamp_def)
  have broker: "consumes_rabbitmq s \<longrightarrow> bs_rabbitmq_url s \<noteq> [] \<and> aio_pika"
    by (auto simp: assms load_settings_def consumes_rabbitmq_def resolve_backend_def Let_def split: if_splits)
  have "consumes_rabbitmq s \<and>
      (\<forall>r. bs_rollout s \<le> r \<longrightarrow> queue_backend_for_job digest (s\<lparr>bs_rollout := r\<rparr>) j = ''rabbitmq'')"
    if "queue_backend_for_job digest s j = ''rabbitmq''"
    using that
    by (auto simp: queue_backend_for_job_def queue_enabled_def consumes_rabbitmq_def Let_def split: if_splits)
  then show ?thesis using clamped broker by blast
qed

definition broker_env :: env where
  "broker_env = [''EVENTBUS_QUEUE_BACKEND'' \<mapsto> ''rabbitmq'', ''RABBITMQ_URL'' \<mapsto> ''amqp://broker'',
     ''EVENTBUS_QUEUE_ROLLOUT_PERCENT'' \<mapsto> ''250'']"

lemma broker_env_routes: "queue_backend_for_job (\<lambda>x. 0) (load_settings broker_env True) None = ''rabbitmq''"
  by code_simp

theorem routing_sound_witness:
  "bs_rollout (load_settings broker_env True) \<le> 100 \<and> consumes_rabbitmq (load_settings broker_env True)"
  using routing_sound [OF refl, of broker_env True "\<lambda>x. 0" None] broker_env_routes by blast


section \<open>What reaches the event log\<close>

definition public_key :: "string \<Rightarrow> bool" where
  "public_key k \<longleftrightarrow> k \<in> set safe_job_fields \<or> (\<exists>x. k = ''extra.'' @ x \<and> \<not> is_secret_key x)"

lemma summary_fields:
  assumes "\<And>k. k \<in> fst ` set s \<Longrightarrow> public_key k" "\<And>f. f \<in> set fs \<Longrightarrow> f \<in> set safe_job_fields"
    and "k \<in> fst ` set (fold (\<lambda>field s. case dget d field of None \<Rightarrow> s | Some v \<Rightarrow> dput field (summarised v) s) fs s)"
  shows "public_key k"
  using assms
proof (induction fs arbitrary: s)
  case (Cons f fs)
  have "public_key k'" if "k' \<in> fst ` set (case dget d f of None \<Rightarrow> s | Some v \<Rightarrow> dput f (summarised v) s)" for k'
    using that Cons.prems(1,2) by (auto simp: public_key_def dom_update split: option.splits dest!: in_dput)
  then show ?case
    by (rule Cons.IH) (use Cons.prems(2,3) in simp_all)
qed simp

lemma summary_extras:
  assumes "\<And>k. k \<in> fst ` set s \<Longrightarrow> public_key k"
    and "k \<in> fst ` set (fold (\<lambda>(key, v) s. if is_secret_key key then s else dput (''extra.'' @ key) (flattened v) s) extras s)"
  shows "public_key k"
  using assms
proof (induction extras arbitrary: s)
  case (Cons x extras)
  obtain key v where x: "x = (key, v)" by fastforce
  have "public_key k'" if "k' \<in> fst ` set (if is_secret_key key then s else dput (''extra.'' @ key) (flattened v) s)" for k'
    using that Cons.prems(1) by (auto simp: public_key_def split: if_splits dest!: in_dput)
  then show ?case
    by (rule Cons.IH) (use Cons.prems(2) in \<open>simp_all add: x\<close>)
qed simp

lemma summary_public:
  assumes "k \<in> fst ` set (job_summary j extras)"
  shows "public_key k"
proof (cases j)
  case None
  then show ?thesis using assms by (simp add: job_summary_def)
next
  case (Some d)
  define base where
    "base = fold (\<lambda>field s. case dget d field of None \<Rightarrow> s | Some v \<Rightarrow> dput field (summarised v) s) safe_job_fields []"
  have base: "public_key k" if "k \<in> fst ` set base" for k
    using summary_fields [of "[]" safe_job_fields] that by (simp add: base_def)
  show ?thesis
    using summary_extras [of base] base assms by (simp add: job_summary_def Some base_def)
qed

text \<open>
  What an event shows of a job are the whitelisted fields and extras whose names look harmless; but
  the payload the caller passes is sent as it is, so a credential in it reaches the event log.
\<close>

theorem event_shows:
  assumes "event_to_emit s event_type j extras job_id payload source uuid now = Some ev"
    and "distinct (map fst payload)"
  shows "(dget payload k = Some v \<longrightarrow> dget (ev_payload ev) k = Some v) \<and>
     (dget (ev_payload ev) k = Some v \<longrightarrow> dget payload k = Some v \<or> public_key k)"
proof -
  have ev: "ev_payload ev = dmerge (job_summary j extras) payload"
    using assms(1) by (auto simp: event_to_emit_def new_event_def split: if_splits)
  have "public_key k" if "dget (job_summary j extras) k = Some v"
    using that by (intro summary_public) (force dest: map_of_SomeD)
  then show ?thesis by (auto simp: ev dget_dmerge [OF assms(2)] split: option.splits)
qed

theorem event_shows_witness:
  "\<exists>ev. event_to_emit (stock_settings\<lparr>bs_events_backend := ''kafka'', bs_kafka_servers := ''log:9092''\<rparr>) ''job.failed''
      (Some [(''s3_key'', PStr ''k'')]) [] [] [(''signed_url'', PStr ''https'')] [] [] 0 = Some ev \<and>
    dget (ev_payload ev) ''signed_url'' = Some (PStr ''https'') \<and> dget (ev_payload ev) ''s3_key'' \<noteq> Some (PStr ''k'')"
proof -
  obtain ev where ev: "event_to_emit (stock_settings\<lparr>bs_events_backend := ''kafka'', bs_kafka_servers := ''log:9092''\<rparr>)
      ''job.failed'' (Some [(''s3_key'', PStr ''k'')]) [] [] [(''signed_url'', PStr ''https'')] [] [] 0 = Some ev"
    by (simp add: event_to_emit_def events_enabled_def)
  have "\<not> public_key ''s3_key''" by (simp add: public_key_def safe_job_fields_def)
  then show ?thesis
    using ev event_shows [OF ev, of "''signed_url''" "PStr ''https''"] event_shows [OF ev, of "''s3_key''" "PStr ''k''"]
    by simp
qed


section \<open>Progress is throttled\<close>

text \<open>One call of \<open>emit_event\<close> by id: its outcome, type, job id and time.\<close>

record emission =
  em_outcome :: send_outcome
  em_type :: string
  em_job :: string
  em_time :: real

definition emission_step :: "bus_settings \<Rightarrow> emission \<Rightarrow> kafka_bus \<Rightarrow> kafka_bus" where
  "emission_step s e b =
     snd (emit_event s (em_outcome e) (em_type e) (Some [(''job_id'', PStr (em_job e))]) [] (em_job e) [] [] [] (em_time e) b)"

lemma emit_seen [simp]: "kb_progress_seen (snd (emit s out b)) = kb_progress_seen b"
  by (simp add: emit_def split: send_outcome.split)

lemma event_job_id:
  "event_to_emit s t j extras job_id payload source uuid now = Some ev \<Longrightarrow> job_id \<noteq> [] \<Longrightarrow> ev_job_id ev = job_id"
  by (auto simp: event_to_emit_def new_event_def split: if_splits)

lemma progress_sent:
  assumes "emit_progress s out job_id now b = (True, b1)"
  shows "dget (kb_progress_seen b1) job_id = Some now \<and> events_enabled s \<and> bs_emit_progress s"
proof -
  have on: "events_enabled s" "bs_emit_progress s"
    and b1: "b1 = snd (emit_progress s out job_id now b)"
    using assms by (auto simp: emit_progress_def split: if_splits)
  have "dget (kb_progress_seen b1) job_id = Some now"
    using assms by (auto simp: b1 emit_progress_def Let_def dget_filter_keep split: if_splits)
  then show ?thesis using on by blast
qed

text \<open>While the window of a job is open no emission but its own acknowledged end changes its stamp.\<close>

lemma step_keeps_stamp:
  assumes "dget (kb_progress_seen b) job_id = Some t1"
    and "bs_progress_interval_ms s \<le> 60000" "0 < bs_progress_interval_ms s"
    and "(em_time e - t1) * 1000 < of_int (bs_progress_interval_ms s)" and "em_job e \<noteq> []"
    and "em_job e = job_id \<longrightarrow> \<not> is_terminal (em_type e)"
  shows "dget (kb_progress_seen (emission_step s e b)) job_id = Some t1"
proof -
  have "real_of_int (bs_progress_interval_ms s) \<le> 60000" using assms(2) by simp
  then have recent: "em_time e - 3600 \<le> t1" using assms(4) by (simp add: left_diff_distrib)
  have progress: "dget (kb_progress_seen (snd (emit_progress s out (em_job e) (em_time e) b))) job_id = Some t1" for out
    using assms(1,3,4) recent
    by (auto simp: emit_progress_def Let_def progress_allowed_def dget_filter_keep split: if_splits)
  show ?thesis
  proof (cases "event_to_emit s (em_type e) (Some [(''job_id'', PStr (em_job e))]) [] (em_job e) [] [] [] (em_time e)")
    case None
    then show ?thesis using assms(1) by (simp add: emission_step_def emit_event_def)
  next
    case (Some ev)
    then have id: "ev_job_id ev = em_job e" using assms(5) event_job_id by blast
    obtain sent b1 where sent: "emit s (em_outcome e) b = (sent, b1)" by fastforce
    then have "dget (kb_progress_seen b1) job_id = Some t1"
      using assms(1) emit_seen [of s "em_outcome e" b] by simp
    then show ?thesis
      using assms(6) progress sent by (auto simp: emission_step_def emit_event_def Some id forget_progress_def)
  qed
qed

text \<open>
  Progress events are throttled per job: once one was sent, no further progress event of that job is
  sent within the configured interval, whatever events of this and other jobs go out in between, unless
  the end of the job was announced.
\<close>

theorem progress_throttled:
  assumes "emit_progress s o1 job_id t1 b = (True, b1)" and "bs_progress_interval_ms s \<le> 60000"
    and "\<forall>e \<in> set es. (em_time e - t1) * 1000 < of_int (bs_progress_interval_ms s) \<and> em_job e \<noteq> [] \<and>
           (em_job e = job_id \<longrightarrow> \<not> is_terminal (em_type e))"
    and "(t2 - t1) * 1000 < of_int (bs_progress_interval_ms s)" and "0 < bs_progress_interval_ms s"
  shows "\<not> fst (emit_progress s o2 job_id t2 (fold (emission_step s) es b1))"
proof -
  have start: "dget (kb_progress_seen b1) job_id = Some t1" "events_enabled s" "bs_emit_progress s"
    using progress_sent [OF assms(1)] by simp_all
  have "dget (kb_progress_seen (fold (emission_step s) es b)) job_id = Some t1"
    if "dget (kb_progress_seen b) job_id = Some t1" for b
    using that assms(3) by (induction es arbitrary: b) (simp_all add: step_keeps_stamp [OF _ assms(2,5)])
  then have "\<not> progress_allowed (dget (kb_progress_seen (fold (emission_step s) es b1)) job_id) t2 (bs_progress_interval_ms s)"
    using start assms(4,5) by (simp add: progress_allowed_def)
  then show ?thesis by (simp add: emit_progress_def)
qed

definition busy_settings :: bus_settings where
  "busy_settings = stock_settings\<lparr>bs_events_backend := ''kafka'', bs_kafka_servers := ''log:9092'',
     bs_emit_progress := True, bs_progress_interval_ms := 2000\<rparr>"

definition quiet_bus :: kafka_bus where
  "quiet_bus = \<lparr>kb_progress_seen = [], kb_published = 0, kb_failed = 0, kb_suppressed = 0\<rparr>"

theorem progress_throttled_witness:
  "\<not> fst (emit_progress busy_settings Sent ''j1'' 101
     (fold (emission_step busy_settings)
        [\<lparr>em_outcome = Sent, em_type = ''job.completed'', em_job = ''j2'', em_time = 100\<rparr>]
        (snd (emit_progress busy_settings Sent ''j1'' 100 quiet_bus))))"
proof (rule progress_throttled)
  show "emit_progress busy_settings Sent ''j1'' 100 quiet_bus =
      (True, snd (emit_progress busy_settings Sent ''j1'' 100 quiet_bus))"
    by (simp add: emit_progress_def busy_settings_def events_enabled_def quiet_bus_def progress_allowed_def emit_def)
qed (simp_all add: busy_settings_def)


end
