(* ===== verification/DataLayer.thy ===== *)
theory DataLayer
  imports Effects Prelude
begin

text \<open>
  \<open>utils/data_layer\<close>: the mass-assignment guard of \<open>fillable.py\<close> and the query builder of
  \<open>query_builder.py\<close>.  A document is an association list, a value a document, a list or a scalar
  (kept as its text); a set of field names is a list.  \<open>db\<close> stands for the MongoDB driver: every
  call that reaches it is a \<open>db_call\<close>.  A raised \<open>ValidationError\<close>, \<open>GuardedFieldError\<close> or
  \<open>QueryError\<close> is a \<open>qerror\<close>.
\<close>

datatype bson = BVal string | BList "bson list" | BDoc "(string \<times> bson) list"

type_synonym doc = "(string \<times> bson) list"

datatype qerror =
    DangerousOp string | OpNotAllowed string | DollarField string | NotFillable string | GuardedField string
  | LimitNegative | LimitTooLarge | SkipNegative | NothingFillable | QueryFailed

definition dollar :: "string \<Rightarrow> bool" where
  "dollar s = starts_with ''$'' s"

text \<open>A loop that raises at the first element it objects to.\<close>

fun first_error :: "('a \<Rightarrow> 'e option) \<Rightarrow> 'a list \<Rightarrow> 'e option" where
  "first_error f [] = None"
| "first_error f (x # xs) = (case f x of Some e \<Rightarrow> Some e | None \<Rightarrow> first_error f xs)"

lemma first_error_None: "first_error f xs = None \<longleftrightarrow> (\<forall>x \<in> set xs. f x = None)"
  by (induction xs) (auto split: option.splits)

section \<open>FillableModel\<close>

record model =
  fillable :: "string list"
  guarded :: "string list"

definition keep_fields :: "(string \<Rightarrow> bool) \<Rightarrow> doc \<Rightarrow> doc" where
  "keep_fields P data = filter (\<lambda>(k, v). P k) data"

definition filter_fillable :: "model \<Rightarrow> doc \<Rightarrow> doc" where
  "filter_fillable M data =
     (if fillable M = [] \<and> set (guarded M) = {''_id''} then keep_fields (\<lambda>k. k \<notin> set (guarded M)) data
      else if fillable M \<noteq> [] then keep_fields (\<lambda>k. k \<in> set (fillable M) - set (guarded M)) data
      else keep_fields (\<lambda>k. k \<notin> set (guarded M)) data)"

definition strip_guarded :: "model \<Rightarrow> bool \<Rightarrow> doc \<Rightarrow> qerror + doc" where
  "strip_guarded M strict data =
     (case (if strict then first_error (\<lambda>(k, v). if k \<in> set (guarded M) then Some (GuardedField k) else None) data else None) of
        Some e \<Rightarrow> Inl e
      | None \<Rightarrow> Inr (keep_fields (\<lambda>k. k \<notin> set (guarded M)) data))"

text \<open>The order of the fields is that of the set, which is not specified.\<close>

definition safe_projection :: "model \<Rightarrow> string list option \<Rightarrow> (string, nat) dict" where
  "safe_projection M names =
     (let allowed =
        (case names of
           Some fs \<Rightarrow> if fillable M \<noteq> [] then filter (\<lambda>f. f \<in> set fs) (fillable M) else fs
         | None \<Rightarrow> fillable M);
          projection = map (\<lambda>f. (f, 1)) allowed in
      if fillable M \<noteq> [] \<and> ''_id'' \<notin> set allowed then dput ''_id'' 0 projection else projection)"

text \<open>\<open>re.escape\<close>.\<close>

definition regex_special :: "char \<Rightarrow> bool" where
  "regex_special c \<longleftrightarrow> c \<in> set ''()[]{}?*+-|^$.&~# '' \<or>
     c \<in> {CHR 0x5C, CHR 0x09, CHR 0x0A, CHR 0x0B, CHR 0x0C, CHR 0x0D}"

definition sanitize_regex :: "string \<Rightarrow> string" where
  "sanitize_regex s = concat (map (\<lambda>c. if regex_special c then [CHR 0x5C, c] else [c]) s)"

definition validate_sort_field :: "model \<Rightarrow> string \<Rightarrow> qerror + string" where
  "validate_sort_field M field =
     (if fillable M \<noteq> [] \<and> field \<notin> set (fillable M) then Inl (NotFillable field)
      else if dollar field then Inl (DollarField field)
      else Inr field)"

definition model_update_ops :: "string list" where
  "model_update_ops =
     [''$set'', ''$inc'', ''$push'', ''$pull'', ''$unset'', ''$addToSet'', ''$each'', ''$position'', ''$setOnInsert'']"

definition sanitize_update_operators :: "doc \<Rightarrow> qerror + doc" where
  "sanitize_update_operators update =
     (case first_error (\<lambda>(op, v). if dollar op \<and> op \<notin> set model_update_ops then Some (OpNotAllowed op) else None) update of
        Some e \<Rightarrow> Inl e
      | None \<Rightarrow> Inr update)"

definition dangerous_ops :: "string list" where
  "dangerous_ops = [''$where'', ''$expr'', ''$accumulator'', ''$function'', ''$near'', ''$geoNear'']"

text \<open>\<open>sanitize_filter\<close>: an element of a list that is itself a list is passed as it is.\<close>

function sanitize_filter :: "doc \<Rightarrow> qerror + doc" and sanitize_elems :: "bson list \<Rightarrow> qerror + bson list" where
  "sanitize_filter [] = Inr []"
| "sanitize_filter ((k, v) # d) =
     (if dollar k \<and> k \<in> set dangerous_ops then Inl (DangerousOp k)
      else case (case v of
                   BDoc sub \<Rightarrow> map_sum id BDoc (sanitize_filter sub)
                 | BList xs \<Rightarrow> map_sum id BList (sanitize_elems xs)
                 | BVal s \<Rightarrow> Inr v) of
             Inl e \<Rightarrow> Inl e
           | Inr v' \<Rightarrow> (case sanitize_filter d of Inl e \<Rightarrow> Inl e | Inr d' \<Rightarrow> Inr ((k, v') # d')))"
| "sanitize_elems [] = Inr []"
| "sanitize_elems (x # xs) =
     (case (case x of BDoc sub \<Rightarrow> map_sum id BDoc (sanitize_filter sub) | _ \<Rightarrow> Inr x) of
        Inl e \<Rightarrow> Inl e
      | Inr x' \<Rightarrow> (case sanitize_elems xs of Inl e \<Rightarrow> Inl e | Inr xs' \<Rightarrow> Inr (x' # xs')))"
  by pat_completeness auto
termination
  by (relation "measure (\<lambda>a. case a of Inl d \<Rightarrow> size_list (size_prod (\<lambda>_. 0) size) d | Inr xs \<Rightarrow> size_list size xs)") auto

section \<open>QueryBuilder: what a filter and an update may say\<close>

text \<open>A builder, like a query, knows its fillable and guarded fields.\<close>

definition filter_ops :: "string list" where
  "filter_ops =
     [''$eq'', ''$ne'', ''$gt'', ''$gte'', ''$lt'', ''$lte'', ''$in'', ''$nin'', ''$all'', ''$elemMatch'', ''$regex'',
      ''$options'', ''$exists'', ''$type'', ''$not'', ''$size'', ''$and'', ''$or'', ''$nor'']"

definition op_error :: "string \<Rightarrow> qerror option" where
  "op_error k =
     (if dollar k \<and> k \<in> set dangerous_ops then Some (DangerousOp k)
      else if dollar k \<and> k \<notin> set filter_ops then Some (OpNotAllowed k)
      else None)"

lemma size_snd: "size_list (size \<circ> snd) d < Suc (size_list (size_prod (\<lambda>_. 0) (size :: bson \<Rightarrow> nat)) d)"
  by (induction d) auto

text \<open>\<open>_validate_value\<close>: the keys of a document are all looked at before its values.\<close>

function validate_value :: "bson \<Rightarrow> qerror + bson" and validate_values :: "bson list \<Rightarrow> qerror + bson list" where
  "validate_value (BVal s) = Inr (BVal s)"
| "validate_value (BList xs) = map_sum id BList (validate_values xs)"
| "validate_value (BDoc d) =
     (case first_error op_error (map fst d) of
        Some e \<Rightarrow> Inl e
      | None \<Rightarrow> map_sum id (\<lambda>vs. BDoc (zip (map fst d) vs)) (validate_values (map snd d)))"
| "validate_values [] = Inr []"
| "validate_values (x # xs) =
     (case validate_value x of
        Inl e \<Rightarrow> Inl e
      | Inr x' \<Rightarrow> (case validate_values xs of Inl e \<Rightarrow> Inl e | Inr xs' \<Rightarrow> Inr (x' # xs')))"
  by pat_completeness auto

termination
  by (relation "measure (\<lambda>a. case a of Inl v \<Rightarrow> size v | Inr xs \<Rightarrow> size_list size xs)")
    (auto simp: size_snd)

definition base_field :: "string \<Rightarrow> string" where
  "base_field field = hd (split_on (CHR ''.'') field)"

definition field_name_error :: "model \<Rightarrow> string \<Rightarrow> qerror option" where
  "field_name_error M field =
     (let base = base_field field in
      if dollar base then Some (DollarField field)
      else if fillable M \<noteq> [] \<and> base \<notin> set (fillable M) \<and> base \<noteq> ''_id'' then Some (NotFillable base)
      else if base \<in> set (guarded M) \<and> base \<noteq> ''_id'' then Some (GuardedField base)
      else None)"

fun validate_filters :: "model \<Rightarrow> doc \<Rightarrow> qerror + doc" where
  "validate_filters M [] = Inr []"
| "validate_filters M ((k, v) # d) =
     (case (if dollar k then None else field_name_error M k) of
        Some e \<Rightarrow> Inl e
      | None \<Rightarrow>
          (case validate_value v of
             Inl e \<Rightarrow> Inl e
           | Inr v' \<Rightarrow> (case validate_filters M d of Inl e \<Rightarrow> Inl e | Inr d' \<Rightarrow> Inr ((k, v') # d'))))"

definition update_ops :: "string list" where
  "update_ops =
     [''$set'', ''$inc'', ''$push'', ''$pull'', ''$unset'', ''$addToSet'', ''$min'', ''$max'', ''$mul'', ''$rename'',
      ''$each'', ''$position'', ''$slice'', ''$sort'', ''$setOnInsert'']"

text \<open>The operand of \<open>$set\<close> is a document; anything else raises an \<open>AttributeError\<close> (\<open>QueryFailed\<close> here).\<close>

definition update_error :: "model \<Rightarrow> string \<times> bson \<Rightarrow> qerror option" where
  "update_error M u =
     (case u of (op, names) \<Rightarrow>
        if dollar op \<and> op \<notin> set update_ops then Some (OpNotAllowed op)
        else if op \<in> {''$set'', ''$setOnInsert''} then
          (case names of BDoc d \<Rightarrow> first_error (\<lambda>(f, v). field_name_error M f) d | _ \<Rightarrow> Some QueryFailed)
        else None)"

definition validate_updates :: "model \<Rightarrow> doc \<Rightarrow> qerror + doc" where
  "validate_updates M updates =
     (case first_error (update_error M) updates of Some e \<Rightarrow> Inl e | None \<Rightarrow> Inr updates)"

definition strip_non_fillable :: "model \<Rightarrow> doc \<Rightarrow> doc" where
  "strip_non_fillable M data =
     (if fillable M = [] then keep_fields (\<lambda>k. k \<notin> set (guarded M)) data
      else keep_fields (\<lambda>k. k \<in> set (fillable M) - set (guarded M)) data)"

definition new_builder :: "string list option \<Rightarrow> string list option \<Rightarrow> model" where
  "new_builder names guards =
     \<lparr>fillable = (case names of None \<Rightarrow> [] | Some fs \<Rightarrow> fs),
      guarded = (case guards of None \<Rightarrow> [''_id''] | Some gs \<Rightarrow> if gs = [] then [''_id''] else gs)\<rparr>"

section \<open>PreparedQuery\<close>

record query =
  q_model :: model
  q_filter :: doc
  q_projection :: "(string, int) dict option"
  q_sort :: "(string \<times> int) list option"
  q_limit :: "int option"
  q_skip :: "int option"
  q_disk :: bool

definition new_query :: "model \<Rightarrow> doc \<Rightarrow> query" where
  "new_query M f =
     \<lparr>q_model = M, q_filter = f, q_projection = None, q_sort = None, q_limit = None, q_skip = None, q_disk = False\<rparr>"

definition query_field_error :: "model \<Rightarrow> string \<Rightarrow> qerror option" where
  "query_field_error M field =
     (if dollar field then Some (DollarField field)
      else if fillable M \<noteq> [] \<and> field \<notin> set (fillable M) \<and> field \<noteq> ''_id'' then Some (NotFillable field)
      else if field \<in> set (guarded M) \<and> field \<noteq> ''_id'' then Some (GuardedField field)
      else None)"

definition project :: "(string, int) dict \<Rightarrow> query \<Rightarrow> qerror + query" where
  "project names q =
     (case first_error (query_field_error (q_model q)) (map fst names) of
        Some e \<Rightarrow> Inl e
      | None \<Rightarrow> Inr (q\<lparr>q_projection := Some names\<rparr>))"

definition sort_by :: "(string \<times> int) list \<Rightarrow> query \<Rightarrow> qerror + query" where
  "sort_by names q =
     (case first_error (\<lambda>(f, _). query_field_error (q_model q) f) names of
        Some e \<Rightarrow> Inl e
      | None \<Rightarrow> Inr (q\<lparr>q_sort := Some names\<rparr>))"

definition limit_to :: "int \<Rightarrow> query \<Rightarrow> qerror + query" where
  "limit_to n q = (if n < 0 then Inl LimitNegative else if 10000 < n then Inl LimitTooLarge else Inr (q\<lparr>q_limit := Some n\<rparr>))"

definition skip_to :: "int \<Rightarrow> query \<Rightarrow> qerror + query" where
  "skip_to n q = (if n < 0 then Inl SkipNegative else Inr (q\<lparr>q_skip := Some n\<rparr>))"

definition allow_disk_use :: "query \<Rightarrow> query" where
  "allow_disk_use q = q\<lparr>q_disk := True\<rparr>"

text \<open>What the driver is asked: an absent or zero setting is not passed on.\<close>

record cursor =
  c_filter :: doc
  c_projection :: "(string, int) dict option"
  c_sort :: "(string \<times> int) list"
  c_skip :: int
  c_limit :: int
  c_disk :: bool

definition build_cursor :: "query \<Rightarrow> cursor" where
  "build_cursor q =
     \<lparr>c_filter = q_filter q, c_projection = q_projection q,
      c_sort = (case q_sort q of None \<Rightarrow> [] | Some fs \<Rightarrow> fs),
      c_skip = (case q_skip q of None \<Rightarrow> 0 | Some n \<Rightarrow> n),
      c_limit = (case q_limit q of None \<Rightarrow> 0 | Some n \<Rightarrow> n), c_disk = q_disk q\<rparr>"

datatype db_call =
    Find cursor int | CountDocuments doc | InsertOne doc | InsertMany "doc list"
  | UpdateOne doc doc bool | UpdateMany doc doc bool | DeleteOne doc | DeleteMany doc | Aggregate "doc list"

datatype db_reply = Docs "doc list" | Number int | Ids "string list"

type_synonym 'w db = "db_call \<Rightarrow> ('w, db_reply) io"

text \<open>A driver call; any exception of it becomes a \<open>QueryError\<close>.\<close>

definition ask :: "'w db \<Rightarrow> db_call \<Rightarrow> (db_reply \<Rightarrow> 'a) \<Rightarrow> ('w, qerror + 'a) io" where
  "ask db c f = tryc (fmapio (\<lambda>r. Inr (f r)) (db c)) (\<lambda>_. ret (Inl QueryFailed))"

definition docs_of :: "db_reply \<Rightarrow> doc list" where
  "docs_of r = (case r of Docs ds \<Rightarrow> ds | _ \<Rightarrow> [])"

definition number_of_reply :: "db_reply \<Rightarrow> int" where
  "number_of_reply r = (case r of Number n \<Rightarrow> n | _ \<Rightarrow> 0)"

definition ids_of :: "db_reply \<Rightarrow> string list" where
  "ids_of r = (case r of Ids xs \<Rightarrow> xs | _ \<Rightarrow> [])"

definition or_int :: "int option \<Rightarrow> int \<Rightarrow> int" where
  "or_int a b = (case a of None \<Rightarrow> b | Some n \<Rightarrow> if n = 0 then b else n)"

definition q_to_list :: "'w db \<Rightarrow> int option \<Rightarrow> query \<Rightarrow> ('w, qerror + doc list) io" where
  "q_to_list db len q = ask db (Find (build_cursor q) (or_int len (or_int (q_limit q) 1000))) docs_of"

definition q_first :: "'w db \<Rightarrow> query \<Rightarrow> ('w, qerror + doc option) io" where
  "q_first db q =
     ask db (Find (build_cursor (q\<lparr>q_limit := Some 1\<rparr>)) 1)
       (\<lambda>r. case docs_of r of [] \<Rightarrow> None | d # _ \<Rightarrow> Some d)"

definition q_count :: "'w db \<Rightarrow> query \<Rightarrow> ('w, qerror + int) io" where
  "q_count db q = ask db (CountDocuments (q_filter q)) number_of_reply"

definition q_exists :: "'w db \<Rightarrow> query \<Rightarrow> ('w, qerror + bool) io" where
  "q_exists db q = fmapio (map_sum id (\<lambda>r. r \<noteq> None)) (q_first db q)"

section \<open>QueryBuilder\<close>

definition qb_select :: "model \<Rightarrow> doc \<Rightarrow> (string, int) dict option \<Rightarrow> qerror + query" where
  "qb_select M filters projection =
     (case validate_filters M filters of
        Inl e \<Rightarrow> Inl e
      | Inr f \<Rightarrow>
          (case projection of
             None \<Rightarrow> Inr (new_query M f)
           | Some p \<Rightarrow> if p = [] then Inr (new_query M f) else project p (new_query M f)))"

definition qb_insert :: "'w db \<Rightarrow> model \<Rightarrow> doc \<Rightarrow> ('w, qerror + string list) io" where
  "qb_insert db M data =
     (let safe = strip_non_fillable M data in
      if safe = [] then ret (Inl NothingFillable) else ask db (InsertOne safe) ids_of)"

definition qb_insert_many :: "'w db \<Rightarrow> model \<Rightarrow> doc list \<Rightarrow> ('w, qerror + string list) io" where
  "qb_insert_many db M datas =
     (let safe = filter (\<lambda>d. d \<noteq> []) (map (strip_non_fillable M) datas) in
      if safe = [] then ret (Inl NothingFillable) else ask db (InsertMany safe) ids_of)"

definition qb_update :: "'w db \<Rightarrow> model \<Rightarrow> doc \<Rightarrow> doc \<Rightarrow> bool \<Rightarrow> bool \<Rightarrow> ('w, qerror + int) io" where
  "qb_update db M filters updates upsert multi =
     (case validate_filters M filters of
        Inl e \<Rightarrow> ret (Inl e)
      | Inr f \<Rightarrow>
          (case validate_updates M updates of
             Inl e \<Rightarrow> ret (Inl e)
           | Inr u \<Rightarrow> ask db (if multi then UpdateMany f u upsert else UpdateOne f u upsert) number_of_reply))"

definition qb_delete :: "'w db \<Rightarrow> model \<Rightarrow> doc \<Rightarrow> bool \<Rightarrow> ('w, qerror + int) io" where
  "qb_delete db M filters multi =
     (case validate_filters M filters of
        Inl e \<Rightarrow> ret (Inl e)
      | Inr f \<Rightarrow> ask db (if multi then DeleteMany f else DeleteOne f) number_of_reply)"

definition dangerous_stages :: "string list" where
  "dangerous_stages = [''$accumulator'', ''$function'']"

definition qb_aggregate :: "'w db \<Rightarrow> doc list \<Rightarrow> ('w, qerror + doc list) io" where
  "qb_aggregate db pipeline =
     (case first_error (\<lambda>k. if k \<in> set dangerous_stages then Some (DangerousOp k) else None)
             (concat (map (map fst) pipeline)) of
        Some e \<Rightarrow> ret (Inl e)
      | None \<Rightarrow> ask db (Aggregate pipeline) docs_of)"

end
