(* ===== verification/DataLayerResults.thy ===== *)
theory DataLayerResults
  imports DataLayer
begin

text \<open>
  What the data layer lets through: no guarded field reaches an insert, an accepted filter holds no
  dangerous operator below its top level and only fillable fields at it, and what is missing: a
  dangerous operator at the top level of a filter.
\<close>

section \<open>Writes\<close>

text \<open>The documents a driver call writes.\<close>

fun written :: "db_call \<Rightarrow> doc list" where
  "written (InsertOne d) = [d]"
| "written (InsertMany ds) = ds"
| "written _ = []"

definition clean_doc :: "model \<Rightarrow> doc \<Rightarrow> bool" where
  "clean_doc M d \<longleftrightarrow> d \<noteq> [] \<and> (\<forall>k \<in> set (map fst d). k \<notin> set (guarded M) \<and> (fillable M \<noteq> [] \<longrightarrow> k \<in> set (fillable M)))"

lemma strip_clean: "strip_non_fillable M data \<noteq> [] \<Longrightarrow> clean_doc M (strip_non_fillable M data)"
  by (auto simp: strip_non_fillable_def clean_doc_def keep_fields_def)

lemma strip_keeps: "(k, v) \<in> set (strip_non_fillable M data) \<longleftrightarrow>
    (k, v) \<in> set data \<and> k \<notin> set (guarded M) \<and> (fillable M \<noteq> [] \<longrightarrow> k \<in> set (fillable M))"
  by (auto simp: strip_non_fillable_def keep_fields_def)

text \<open>A driver that only accepts documents of which \<open>P\<close> holds: the guard as a monitor.\<close>

definition monitored :: "(doc \<Rightarrow> bool) \<Rightarrow> 'w db \<Rightarrow> 'w db" where
  "monitored P db c = (if \<forall>d \<in> set (written c). P d then db c else raise RuntimeError)"

text \<open>
  No document with a guarded field, or with a field that is not fillable, is ever written by an
  insert: guarding the driver against such documents changes no insert, single or many, whatever
  data it is given.
\<close>

lemma inserts_guarded:
  "qb_insert (monitored (clean_doc M) db) M data = qb_insert db M data \<and>
   qb_insert_many (monitored (clean_doc M) db) M datas = qb_insert_many db M datas"
proof
  show "qb_insert (monitored (clean_doc M) db) M data = qb_insert db M data"
    using strip_clean [of M data] by (simp add: qb_insert_def Let_def ask_def monitored_def)
  let ?safe = "filter (\<lambda>d. d \<noteq> []) (map (strip_non_fillable M) datas)"
  have "\<forall>d \<in> set ?safe. clean_doc M d" using strip_clean by auto
  then show "qb_insert_many (monitored (clean_doc M) db) M datas = qb_insert_many db M datas"
    by (simp add: qb_insert_many_def Let_def ask_def monitored_def)
qed

section \<open>Filters\<close>

text \<open>Every key of every document inside a value.\<close>

fun keys_in :: "bson \<Rightarrow> string set" where
  "keys_in (BVal s) = {}"
| "keys_in (BList xs) = (\<Union>x \<in> set xs. keys_in x)"
| "keys_in (BDoc d) = set (map fst d) \<union> (\<Union>p \<in> set d. keys_in (snd p))"

lemma zip_fst_snd: "zip (map fst d) (map snd d) = d"
  by (induction d) auto

lemma op_error_None: "op_error k = None \<longleftrightarrow> (dollar k \<longrightarrow> k \<in> set filter_ops \<and> k \<notin> set dangerous_ops)"
  by (auto simp: op_error_def)

text \<open>The value handed to the driver is the one given, and only has operators of the allowed list.\<close>

lemma validate_value_ok:
  "validate_value v = Inr v' \<Longrightarrow> v' = v \<and> (\<forall>k \<in> keys_in v. dollar k \<longrightarrow> k \<in> set filter_ops)"
  "validate_values vs = Inr vs' \<Longrightarrow> vs' = vs \<and> (\<forall>v \<in> set vs. \<forall>k \<in> keys_in v. dollar k \<longrightarrow> k \<in> set filter_ops)"
proof (induction v and vs arbitrary: v' and vs' rule: validate_value_validate_values.induct)
  case (2 xs)
  then show ?case by (cases "validate_values xs") auto
next
  case (3 d)
  then have e: "first_error op_error (map fst d) = None" by (simp split: option.splits)
  obtain vs where vs: "validate_values (map snd d) = Inr vs" "v' = BDoc (zip (map fst d) vs)"
    using 3(2) e by (cases "validate_values (map snd d)") auto
  then have "vs = map snd d" "\<forall>v \<in> set (map snd d). \<forall>k \<in> keys_in v. dollar k \<longrightarrow> k \<in> set filter_ops"
    using 3(1) [OF e] by auto
  moreover have "\<forall>k \<in> set (map fst d). dollar k \<longrightarrow> k \<in> set filter_ops"
    using e by (auto simp: first_error_None op_error_None)
  ultimately show ?case using vs(2) by (auto simp: zip_fst_snd)
next
  case (5 x xs)
  then show ?case by (fastforce split: sum.splits)
qed simp_all

lemma filter_ops_safe: "set filter_ops \<inter> set dangerous_ops = {}"
  by (simp add: filter_ops_def dangerous_ops_def)

text \<open>
  A filter the builder accepts reaches the driver unchanged; each field it names is fillable and
  not guarded, by the part before the first dot, and no value in it, however deep, holds a dangerous
  operator or one outside the allowed list.
\<close>

lemma filter_accepted:
  assumes "validate_filters M f = Inr f'"
  shows "f' = f \<and> (\<forall>(k, v) \<in> set f. (dollar k \<or> field_name_error M k = None) \<and>
    (\<forall>op \<in> keys_in v. op \<notin> set dangerous_ops \<and> (dollar op \<longrightarrow> op \<in> set filter_ops)))"
  using assms
proof (induction f arbitrary: f')
  case Nil
  then show ?case by simp
next
  case (Cons p f)
  obtain k v where p: "p = (k, v)" by (cases p)
  have name: "dollar k \<or> field_name_error M k = None"
    using Cons.prems by (auto simp: p split: if_splits option.splits)
  obtain v' f'' where v: "validate_value v = Inr v'" "validate_filters M f = Inr f''" "f' = (k, v') # f''"
    using Cons.prems by (auto simp: p split: if_splits option.splits sum.splits)
  note ok = validate_value_ok(1) [OF v(1)]
  have "\<forall>op \<in> keys_in v. op \<notin> set dangerous_ops"
  proof
    fix op assume "op \<in> keys_in v"
    then have "dollar op \<longrightarrow> op \<notin> set dangerous_ops" using ok filter_ops_safe by auto
    moreover have "\<not> dollar op \<longrightarrow> op \<notin> set dangerous_ops"
      by (auto simp: dangerous_ops_def dollar_def starts_with_def)
    ultimately show "op \<notin> set dangerous_ops" by blast
  qed
  then show ?case using Cons.IH [OF v(2)] ok name v(3) by (auto simp: p)
qed

lemma filter_accepted_witness:
  "validate_filters (new_builder (Some [''user_id'']) None) [(''user_id'', BDoc [(''$in'', BList [BVal ''7''])])]
     = Inr [(''user_id'', BDoc [(''$in'', BList [BVal ''7''])])] \<and>
   ''$where'' \<notin> keys_in (BDoc [(''$in'', BList [BVal ''7''])])"
proof -
  have "validate_filters (new_builder (Some [''user_id'']) None) [(''user_id'', BDoc [(''$in'', BList [BVal ''7''])])]
     = Inr [(''user_id'', BDoc [(''$in'', BList [BVal ''7''])])]" by code_simp
  from filter_accepted [OF this] this show ?thesis by (simp add: dangerous_ops_def)
qed

text \<open>
  A dangerous operator at the top level of a filter is let through: the check of a key is
  skipped for every name that starts with a dollar, so \<open>$where\<close> and its text reach the driver as
  they are, in a select and in a delete, for every builder.
\<close>

lemma top_level_operator_passes:
  "qb_select M [(''$where'', BVal code)] None = Inr (new_query M [(''$where'', BVal code)]) \<and>
   qb_delete db M [(''$where'', BVal code)] True = ask db (DeleteMany [(''$where'', BVal code)]) number_of_reply \<and>
   sanitize_filter [(''$where'', BVal code)] = Inl (DangerousOp ''$where'')"
  by (simp add: qb_select_def qb_delete_def dollar_def starts_with_def dangerous_ops_def)

end
