(* ===== verification/Worker.thy ===== *)
theory Worker
  imports BatchDown JobCancelResults FloodGate Broker
begin

text \<open>
  \<open>workers/ffmpeg_worker.py\<close>, the queue side of the worker: the gate every job passes before it may
  convert, the path of one job from a queue to its release, the batch's progress report and one turn of
  the worker loop.  The conversion itself (\<open>handle_job\<close>) is a parameter, a program that returns or
  raises.  What lives in the process is passed along: the edit coalescer and the flood gate as a
  \<open>desk\<close>, the clocks and the memory test as parameters.  The texts shown in the chat are rendered by
  the parameter \<open>render\<close>.
\<close>

section \<open>The gate in front of a conversion\<close>

definition ceiling_defer_field :: string where
  "ceiling_defer_field = ''_ceiling_defers''"

definition job_key_of :: "job \<Rightarrow> string" where
  "job_key_of j = job_hash_key (py_str (jget j ''job_id''))"

definition waiting_mark :: "string \<Rightarrow> (string, string) dict" where
  "waiting_mark why = [(''status'', ''waiting''), (''progress'', ''0''), (''message'', why)]"

text \<open>Deferred, marked as waiting, and left to a later turn.\<close>

definition put_back :: "'w exec \<Rightarrow> real \<Rightarrow> job \<Rightarrow> string \<Rightarrow> ('w, int option) io" where
  "put_back exec delay j why =
     bnd (defer_batch_job exec j delay) (\<lambda>_.
     bnd (suppress (r_hset exec (job_key_of j) (waiting_mark why))) (\<lambda>_. ret None))"

text \<open>\<open>int(job.get(CEILING_DEFER_FIELD) or 0)\<close>.\<close>

definition ceiling_defers :: "job \<Rightarrow> int option" where
  "ceiling_defers j = int_of (py_or (jget j ceiling_defer_field) (PInt 0))"

record worker_cfg =
  wk_batch :: batch_cfg
  wk_max_defers :: int
  wk_delay :: real
  wk_name :: string
  wk_rss_ttl :: int

definition claim_resources :: "'w exec \<Rightarrow> worker_cfg \<Rightarrow> string option \<Rightarrow> job \<Rightarrow> ('w, int option) io" where
  "claim_resources exec W batch j =
     bnd (acquire_ffmpeg_slot exec (wk_batch W) (jget j ''job_id'') None None) (\<lambda>slot.
       case slot of
         None \<Rightarrow> put_back exec (wk_delay W) j ''waiting for another conversion''
       | Some i \<Rightarrow>
           bnd (case batch of None \<Rightarrow> ret True
                | Some b \<Rightarrow> try_acquire_batch_lock exec (wk_batch W) b (jget j ''job_id'')) (\<lambda>locked.
             if \<not> locked
             then bnd (release_ffmpeg_slot exec (Some i) (jget j ''job_id'')) (\<lambda>_.
                    put_back exec (wk_delay W) j ''waiting for batch lock'')
             else bnd (suppress (r_hset exec (job_key_of j) [(''worker'', wk_name W)])) (\<lambda>_. ret (Some i))))"

text \<open>\<open>over\<close>: the process is above its memory ceiling when it is asked.\<close>

definition claim_execution_slot :: "'w exec \<Rightarrow> worker_cfg \<Rightarrow> bool \<Rightarrow> job \<Rightarrow> ('w, int option) io" where
  "claim_execution_slot exec W over j =
     bnd (attempt (r_connect exec)) (\<lambda>client.
     if client = None then ret (Some (- 1))
     else fin
       (bnd (case job_batch_id j of None \<Rightarrow> ret False | Some b \<Rightarrow> is_batch_cancelled exec False b) (\<lambda>stopped.
        if stopped then bnd (suppress (r_hset exec (job_key_of j) cancel_mark)) (\<lambda>_. ret None)
        else if over then
          (case ceiling_defers j of
             None \<Rightarrow> raise ValueError
           | Some n \<Rightarrow>
               if n < wk_max_defers W
               then put_back exec (wk_delay W) (dput ceiling_defer_field (PInt (n + 1)) j) ''waiting for memory cleanup''
               else claim_resources exec W (job_batch_id j) j)
        else claim_resources exec W (job_batch_id j) j))
       (suppress (r_close exec)))"

section \<open>A delivery that already happened\<close>

definition job_already_delivered :: "'w exec \<Rightarrow> job \<Rightarrow> ('w, bool) io" where
  "job_already_delivered exec j =
     (if \<not> truthy (jget j ''job_id'') then ret False
      else bnd (attempt (r_connect exec)) (\<lambda>client.
        if client = None then ret False
        else bnd (attempt (r_hget exec (job_key_of j) ''delivered'')) (\<lambda>raw.
          ret (case raw of Some (Some v) \<Rightarrow> v \<in> {''1'', ''true''} | _ \<Rightarrow> False))))"

section \<open>The batch's one message\<close>

text \<open>What the process remembers of its edits, and of Telegram's refusals.\<close>

record desk =
  dk_edits :: coalescer
  dk_gate :: flood_gate

record 'w telegram =
  tg_mono :: "'w \<Rightarrow> real"
  tg_digest :: "string \<Rightarrow> int"
  tg_flood :: flood_cfg

definition forget_at :: "int \<times> int \<Rightarrow> desk \<Rightarrow> desk" where
  "forget_at ref D = D\<lparr>dk_edits := forget_edit (Some (fst ref)) (Some (snd ref)) (dk_edits D)\<rparr>"

text \<open>A failed deletion keeps the reference, unless Telegram answers that there is no such message.\<close>

definition take_down_bar :: "'w exec \<Rightarrow> string \<Rightarrow> string option \<Rightarrow> desk \<Rightarrow> ('w, desk) io" where
  "take_down_bar exec key stored D =
     (case message_of (Some stored) of
        None \<Rightarrow> bnd (suppress (r_del exec [key])) (\<lambda>_. ret D)
      | Some ref \<Rightarrow>
          bnd (tryc (fmapio (\<lambda>_. True) (exec (DeleteMessage (fst ref) (snd ref)))) (\<lambda>e. ret (e = BadRequest))) (\<lambda>gone.
          bnd (if gone then suppress (r_del exec [key]) else ret ()) (\<lambda>_. ret (forget_at ref D))))"

text \<open>A fresh message, unless the batch is over; its reference is recorded where that works.\<close>

definition post_bar :: "'w exec \<Rightarrow> batch_cfg \<Rightarrow> string \<Rightarrow> string \<Rightarrow> string \<Rightarrow> ('w, unit) io" where
  "post_bar exec cfg b chat content =
     bnd (is_batch_cancelled exec False b) (\<lambda>over.
       if over then ret ()
       else bnd (exec (SendMessage chat content)) (\<lambda>sent.
         suppress (r_set exec (batch_message_key b)
           (chat @ '':'' @ (case sent of RInt n \<Rightarrow> int_str n | _ \<Rightarrow> [])) (Some (state_ttl cfg)))))"

text \<open>The desk afterwards, and the exception the function ends in.\<close>

definition repost :: "'w exec \<Rightarrow> batch_cfg \<Rightarrow> string \<Rightarrow> string \<Rightarrow> string \<Rightarrow> desk \<Rightarrow> ('w, desk \<times> exn option) io" where
  "repost exec cfg b chat content D =
     tryc (bnd (post_bar exec cfg b chat content) (\<lambda>_. ret (D, None))) (\<lambda>e. ret (D, Some e))"

text \<open>A refusal with a wait opens the flood gate for it: \<open>retry_after or 5\<close>.\<close>

definition set_batch_message ::
    "'w exec \<Rightarrow> batch_cfg \<Rightarrow> 'w telegram \<Rightarrow> string \<Rightarrow> string \<Rightarrow> string option \<Rightarrow> string \<Rightarrow> desk \<Rightarrow>
     ('w, desk \<times> exn option) io" where
  "set_batch_message exec cfg T b chat stored content D =
     (case message_of (Some stored) of
        None \<Rightarrow> repost exec cfg b chat content D
      | Some ref \<Rightarrow>
          bnd (r_mono (tg_mono T)) (\<lambda>now.
          if should_skip (tg_digest T) now (Some (fst ref)) (Some (snd ref)) content (Some 0) False (dk_edits D)
          then ret (D, None)
          else bnd (should_drop_inline exec (tg_mono T) (tg_flood T) (scope_for_chat (Some (fst ref))) (dk_gate D)) (\<lambda>(drp, G).
          let D1 = D\<lparr>dk_gate := G\<rparr> in
          if drp then ret (D1, None)
          else bnd (tryc (fmapio (\<lambda>_. None) (exec (EditMessage (fst ref) (snd ref) content))) (\<lambda>e. ret (Some e))) (\<lambda>failure.
            case failure of
              None \<Rightarrow> bnd (r_mono (tg_mono T)) (\<lambda>now.
                ret (D1\<lparr>dk_edits := record_edit (tg_digest T) now (Some (fst ref)) (Some (snd ref)) content (dk_edits D1)\<rparr>, None))
            | Some (RetryAfter n) \<Rightarrow>
                bnd (note_flood exec (tg_mono T) (tg_flood T) (Some (of_int (if n = 0 then 5 else n)))
                       (scope_for_chat (Some (fst ref))) (dk_gate D1)) (\<lambda>(_, G). ret (D1\<lparr>dk_gate := G\<rparr>, None))
            | Some BadRequest \<Rightarrow> repost exec cfg b chat content (forget_at ref D1)
            | Some _ \<Rightarrow> ret (D1, None)))))"

section \<open>Reporting a finished file\<close>

record bar_state =
  bar_total :: int
  bar_done :: int
  bar_stored :: "string option"
  bar_batches :: "counters list"

text \<open>\<open>int(job.get("batch_total") or 0)\<close>, overruled by the recorded count where that can be read.\<close>

definition batch_state :: "'w exec \<Rightarrow> string \<Rightarrow> job \<Rightarrow> ('w, bar_state) io" where
  "batch_state exec b j =
     bnd (attempt (r_get exec (batch_total_key b))) (\<lambda>tot.
     bnd (attempt (r_get exec (batch_progress_key b))) (\<lambda>dn.
     bnd (attempt (r_get exec (batch_message_key b))) (\<lambda>msg.
     bnd (read_active_batches exec) (\<lambda>rows.
       ret \<lparr>bar_total = (case Option.bind (Option.bind tot id) py_int of Some n \<Rightarrow> n
                         | None \<Rightarrow> (case int_of (py_or (jget j ''batch_total'') (PInt 0)) of Some n \<Rightarrow> n | None \<Rightarrow> 0)),
            bar_done = int_or_0 dn, bar_stored = Option.bind msg id, bar_batches = rows\<rparr>))))"

definition report_name :: "job \<Rightarrow> string" where
  "report_name j = strip (id_text (jget j ''original_filename''))"

text \<open>Counting the file: each job once, and the counter's lifetime renewed.\<close>

definition count_file :: "'w exec \<Rightarrow> batch_cfg \<Rightarrow> string \<Rightarrow> job \<Rightarrow> ('w, int) io" where
  "count_file exec cfg b j =
     bnd (claim_batch_progress_slot exec cfg b (jget j ''job_id'')) (\<lambda>first.
       if first
       then bnd (r_incr exec (batch_progress_key b)) (\<lambda>n.
            bnd (suppress (r_expire exec (batch_progress_key b) (state_ttl cfg))) (\<lambda>_. ret n))
       else bnd (r_get exec (batch_progress_key b)) (\<lambda>got.
         case got of
           None \<Rightarrow> ret 0
         | Some s \<Rightarrow> if s = [] then ret 0 else (case py_int s of None \<Rightarrow> raise ValueError | Some n \<Rightarrow> ret n)))"

text \<open>The worker's surroundings: its configuration, its process, and the conversion itself.\<close>

record 'w station =
  st_cfg :: worker_cfg
  st_tg :: "'w telegram"
  st_render :: "int \<Rightarrow> int \<Rightarrow> string \<Rightarrow> counters list \<Rightarrow> string"
  st_token :: bool
  st_desk :: desk
  st_rss :: int
  st_over :: bool
  st_handle :: "job \<Rightarrow> ('w, unit) io"

definition report_file :: "'w exec \<Rightarrow> 'w station \<Rightarrow> string \<Rightarrow> job \<Rightarrow> ('w, desk) io" where
  "report_file exec S b j =
     (let cfg = wk_batch (st_cfg S); D = st_desk S in
      bnd (is_batch_cancelled exec False b) (\<lambda>stopped.
      if stopped then ret D
      else bnd (batch_owns_state exec b) (\<lambda>owns.
      if \<not> owns then ret D
      else bnd (count_file exec cfg b j) (\<lambda>n.
        bnd (batch_state exec b j) (\<lambda>s.
        if \<not> st_token S \<or> bar_total s \<le> 0 then ret D
        else bnd (exec OpenBot) (\<lambda>_.
          if bar_total s \<le> n
          then bnd (take_down_bar exec (batch_message_key b) (bar_stored s) D) (\<lambda>D1.
               bnd (suppress (unregister_active_batch exec False b)) (\<lambda>_. ret D1))
          else fmapio fst (set_batch_message exec cfg (st_tg S) b (py_str (jget j ''chat_id'')) (bar_stored s)
                 (st_render S n (bar_total s) (report_name j) (bar_batches s)) D)))))))"

definition report_batch_progress :: "'w exec \<Rightarrow> 'w station \<Rightarrow> job \<Rightarrow> ('w, desk) io" where
  "report_batch_progress exec S j =
     (case job_batch_id j of
        None \<Rightarrow> ret (st_desk S)
      | Some b \<Rightarrow>
          if \<not> truthy (jget j ''chat_id'') then ret (st_desk S)
          else bnd (attempt (r_connect exec)) (\<lambda>client.
            if client = None then ret (st_desk S)
            else fin (tryc (report_file exec S b j) (\<lambda>_. ret (st_desk S))) (suppress (r_close exec))))"

section \<open>Keeping the claims of a running job\<close>

text \<open>One turn of the heartbeat: \<open>claims_due\<close> tells whether the claims' turn has come.\<close>

definition keep_claims_turn :: "'w exec \<Rightarrow> worker_cfg \<Rightarrow> job \<Rightarrow> int \<Rightarrow> int \<Rightarrow> bool \<Rightarrow> ('w, unit) io" where
  "keep_claims_turn exec W j slot rss claims_due =
     bnd (suppress (publish_worker_rss exec True (wk_rss_ttl W) (wk_name W) rss)) (\<lambda>_.
     if \<not> claims_due then ret ()
     else bnd (suppress (refresh_ffmpeg_slot exec (wk_batch W) (Some slot) (jget j ''job_id'') None)) (\<lambda>_.
       case job_batch_id j of
         None \<Rightarrow> ret ()
       | Some b \<Rightarrow> suppress (refresh_batch_lock exec (wk_batch W) b (jget j ''job_id'') None)))"

section \<open>One job from a queue\<close>

text \<open>
  After the conversion, however it ended: the report, the release of the claims, the heartbeat.  The
  heartbeat and the live ticker that run beside the conversion are stopped before this point.
\<close>

definition wind_up :: "'w exec \<Rightarrow> 'w station \<Rightarrow> job \<Rightarrow> int \<Rightarrow> ('w, unit) io" where
  "wind_up exec S j slot =
     bnd (suppress (report_batch_progress exec S j)) (\<lambda>_.
       suppress (bnd (finalize_job exec False j (Some slot)) (\<lambda>_.
         publish_worker_rss exec True (wk_rss_ttl (st_cfg S)) (wk_name (st_cfg S)) (st_rss S))))"

definition run_queued_job :: "'w exec \<Rightarrow> 'w station \<Rightarrow> job \<Rightarrow> ('w, unit) io" where
  "run_queued_job exec S j =
     bnd (job_already_delivered exec j) (\<lambda>delivered.
     if delivered then suppress (report_batch_progress exec S j)
     else bnd (claim_execution_slot exec (st_cfg S) (st_over S) j) (\<lambda>slot.
       case slot of
         None \<Rightarrow> ret ()
       | Some i \<Rightarrow> fin (st_handle S j) (wind_up exec S j i)))"

section \<open>The worker loop\<close>

text \<open>
  A restart is only acted on with no job in flight; the request is consumed, and remembered in the
  process (\<open>flagged\<close>).  The answer is whether to stop, and the flag.
\<close>

definition consume_forced_restart :: "'w exec \<Rightarrow> bool \<Rightarrow> ('w, bool) io" where
  "consume_forced_restart exec probe =
     (if \<not> probe then ret False
      else bnd (attempt (r_connect exec)) (\<lambda>client.
        if client = None then ret False
        else fin (fmapio (\<lambda>tok. tok \<noteq> None) (consume_worker_restart exec True)) (suppress (r_close exec))))"

definition maybe_stop_for_restart :: "'w exec \<Rightarrow> bool \<Rightarrow> nat \<Rightarrow> bool \<Rightarrow> bool \<Rightarrow> ('w, bool \<times> bool) io" where
  "maybe_stop_for_restart exec allow in_flight probe flagged =
     (if \<not> allow \<or> 0 < in_flight then ret (False, flagged)
      else bnd (consume_forced_restart exec probe) (\<lambda>asked. ret (flagged \<or> asked, flagged \<or> asked)))"

text \<open>JSON that is false in Python and not an object.\<close>

definition falsy_json :: "string \<Rightarrow> bool" where
  "falsy_json s \<longleftrightarrow> s \<in> {''null'', ''false'', ''0'', ''0.0'', ''-0.0'', ''[]'', [CHR 0x22, CHR 0x22]}"

text \<open>
  One turn of \<open>worker_loop\<close>: whether the loop ends, and the restart flag.  An exception is logged and
  the loop goes on; what is not an object has no \<open>get\<close>.  \<open>probe\<close>: the restart probe's interval has
  passed, \<open>beat\<close>: the heartbeat's.
\<close>

definition worker_turn :: "'w exec \<Rightarrow> 'w station \<Rightarrow> bool \<Rightarrow> bool \<Rightarrow> bool \<Rightarrow> bool \<Rightarrow> ('w, bool \<times> bool) io" where
  "worker_turn exec S allow probe beat flagged =
     (let idle = bnd (whenb beat (suppress (publish_worker_rss exec True (wk_rss_ttl (st_cfg S)) (wk_name (st_cfg S)) (st_rss S))))
                   (\<lambda>_. maybe_stop_for_restart exec allow 0 probe flagged) in
      tryc
        (bnd (pop_job exec) (\<lambda>got.
           case got of
             None \<Rightarrow> idle
           | Some (QJob j) \<Rightarrow>
               if j = [] then idle
               else bnd (run_queued_job exec S j) (\<lambda>_. maybe_stop_for_restart exec allow 0 True flagged)
           | Some (QJson s) \<Rightarrow> if falsy_json s then idle else raise TypeError
           | Some (QText s) \<Rightarrow> raise ValueError))
        (\<lambda>_. ret (False, flagged)))"

text \<open>What the broker's consumer does with the outcome of a job.\<close>

definition handled_as :: "exn + unit \<Rightarrow> handled" where
  "handled_as r = (case r of Inl _ \<Rightarrow> Raises | Inr _ \<Rightarrow> Returns)"

end
