(* ===== verification/Disk.thy ===== *)
theory Disk
  imports Prelude Effects
begin

text \<open>
  Local files.  Paths are POSIX paths (\<open>os.path\<close>), a file is a sequence of bytes (an Isabelle \<open>char\<close>
  has eight bits) and a disk maps paths to files and counts the operations done.  Any operation may
  raise \<open>OSError\<close>: \<open>fault n = Some k\<close> makes the \<open>n\<close>-th operation fail, a write after \<open>k\<close> bytes.
  Directories and permissions are not modelled, and \<open>os.path.exists\<close> is taken to be truthful.
\<close>

section \<open>Paths\<close>

definition basename :: "string \<Rightarrow> string" where
  "basename p = (case rpartition_at (CHR ''/'') p of (_, _, b) \<Rightarrow> b)"

definition rstrip_of :: "char \<Rightarrow> string \<Rightarrow> string" where
  "rstrip_of c s = rev (dropWhile (\<lambda>x. x = c) (rev s))"

definition dirname :: "string \<Rightarrow> string" where
  "dirname p =
     (case rpartition_at (CHR ''/'') p of (h, found, _) \<Rightarrow>
        if \<not> found then []
        else if \<forall>c \<in> set h. c = CHR ''/'' then h @ ''/''
        else rstrip_of (CHR ''/'') h)"

text \<open>Leading dots of the last component do not start an extension.\<close>

definition splitext :: "string \<Rightarrow> string \<times> string" where
  "splitext p =
     (case rpartition_at (CHR ''.'') (basename p) of (stem, found, ext) \<Rightarrow>
        if found \<and> (\<exists>c \<in> set stem. c \<noteq> CHR ''.'')
        then (take (length p - length (basename p)) p @ stem, CHR ''.'' # ext)
        else (p, []))"

definition path_join :: "string \<Rightarrow> string \<Rightarrow> string" where
  "path_join d n =
     (if starts_with ''/'' n then n
      else if d = [] \<or> ends_with ''/'' d then d @ n
      else d @ CHR ''/'' # n)"

lemma basename_plain [simp]: "CHR ''/'' \<notin> set n \<Longrightarrow> basename n = n"
  by (simp add: basename_def rpartition_at_def)

lemma basename_append [simp]: "CHR ''/'' \<notin> set n \<Longrightarrow> basename (d @ CHR ''/'' # n) = n"
  by (simp add: basename_def)

lemma partition_at_front: "partition_at c s = (a, b, t) \<Longrightarrow> c \<notin> set a"
  by (induction s arbitrary: a) (auto split: if_splits prod.splits)

lemma partition_at_none: "partition_at c s = (a, False, t) \<Longrightarrow> a = s"
  by (induction s arbitrary: a) (auto split: if_splits prod.splits)

lemma rpartition_at_tail: "rpartition_at c s = (a, b, t) \<Longrightarrow> c \<notin> set t"
proof -
  assume r: "rpartition_at c s = (a, b, t)"
  obtain x f y where p: "partition_at c (rev s) = (x, f, y)" by (cases "partition_at c (rev s)")
  then have "c \<notin> set x" by (rule partition_at_front)
  moreover have "\<not> f \<Longrightarrow> x = rev s" using p partition_at_none by (cases f) auto
  ultimately show "c \<notin> set t" using r p by (cases f) (auto simp: rpartition_at_def)
qed

lemma partition_at_join: "partition_at c s = (a, True, b) \<Longrightarrow> s = a @ c # b"
  by (induction s arbitrary: a) (auto split: if_splits prod.splits)

lemma rpartition_at_join: "rpartition_at c s = (a, True, b) \<Longrightarrow> s = a @ c # b"
proof -
  assume r: "rpartition_at c s = (a, True, b)"
  obtain x f y where p: "partition_at c (rev s) = (x, f, y)" by (cases "partition_at c (rev s)")
  then have "f" "a = rev y" "b = rev x" using r by (auto simp: rpartition_at_def split: if_splits)
  then have "rev s = x @ c # y" using p partition_at_join by simp
  then have "s = rev (x @ c # y)" by (metis rev_rev_ident)
  then show "s = a @ c # b" using \<open>a = rev y\<close> \<open>b = rev x\<close> by simp
qed

lemma basename_no_slash [simp]: "CHR ''/'' \<notin> set (basename p)"
  unfolding basename_def by (cases "rpartition_at (CHR ''/'') p") (auto dest: rpartition_at_tail)

lemma path_join_plain:
  "CHR ''/'' \<notin> set n \<Longrightarrow> path_join d n = (if d = [] \<or> ends_with ''/'' d then d else d @ ''/'') @ n"
  by (cases n) (auto simp: path_join_def starts_with_def)

lemma basename_join [simp]: "CHR ''/'' \<notin> set n \<Longrightarrow> basename (path_join d n) = n"
  by (auto simp: path_join_plain ends_with_iff)

lemma path_join_inject [simp]:
  "CHR ''/'' \<notin> set m \<Longrightarrow> CHR ''/'' \<notin> set n \<Longrightarrow> path_join d m = path_join d n \<longleftrightarrow> m = n"
  by (auto simp: path_join_plain)

lemma splitext_dot:
  assumes "CHR ''/'' \<notin> set (s @ CHR ''.'' # f)" and "CHR ''.'' \<notin> set f" and "\<exists>c \<in> set s. c \<noteq> CHR ''.''"
  shows "splitext (s @ CHR ''.'' # f) = (s, CHR ''.'' # f)"
  using assms by (simp add: splitext_def)

lemma splitext_join: "fst (splitext p) @ snd (splitext p) = p"
proof -
  have tail: "take (length p - length (basename p)) p @ basename p = p"
  proof -
    obtain h f b where r: "rpartition_at (CHR ''/'') p = (h, f, b)" by (cases "rpartition_at (CHR ''/'') p")
    then have "\<exists>q. p = q @ b"
    proof (cases f)
      case True
      then have "p = (h @ [CHR ''/'']) @ b" using rpartition_at_join [of "CHR ''/''" p h b] r by simp
      then show ?thesis by blast
    next
      case False
      then show ?thesis using r by (auto simp: rpartition_at_def split: prod.splits if_splits)
    qed
    then show ?thesis using r by (auto simp: basename_def)
  qed
  obtain h f b where r: "rpartition_at (CHR ''.'') (basename p) = (h, f, b)"
    by (cases "rpartition_at (CHR ''.'') (basename p)")
  show ?thesis
  proof (cases "f \<and> (\<exists>c \<in> set h. c \<noteq> CHR ''.'')")
    case True
    then have "h @ CHR ''.'' # b = basename p" using r rpartition_at_join [of "CHR ''.''" "basename p" h b] by simp
    then show ?thesis using True tail by (simp add: splitext_def r)
  next
    case False
    then show ?thesis by (auto simp: splitext_def r)
  qed
qed

section \<open>Free names\<close>

lemma slash_not_digits: "CHR ''/'' \<notin> set (nat_str n)"
  using nat_str_digits [of n] by (auto simp: is_digit_set)

text \<open>
  A search for a name that is not taken: the one that is wanted, then numbered ones.  It ends as soon as
  some numbered name is free, with a name that is.
\<close>

locale probing =
  fixes taken :: "'a \<Rightarrow> bool" and name :: "nat \<Rightarrow> 'a" and search :: "'a \<Rightarrow> nat \<Rightarrow> 'a option"
  assumes step: "search c n = (if taken c then search (name n) (Suc n) else Some c)"
begin

lemma probe_ends:
  assumes "\<exists>k \<ge> n. \<not> taken (name k)"
  shows "\<exists>c. search wanted n = Some c \<and> \<not> taken c \<and> (c = wanted \<or> (\<exists>i. c = name i))"
proof -
  obtain k where "n \<le> k" "\<not> taken (name k)" using assms by blast
  then show ?thesis
  proof (induction "Suc k - n" arbitrary: n wanted)
    case 0
    then show ?case by simp
  next
    case (Suc x)
    show ?case
    proof (cases "taken wanted")
      case False
      then show ?thesis using step by simp
    next
      case True
      then have next': "search wanted n = search (name n) (Suc n)" using step by simp
      show ?thesis
      proof (cases "n = k")
        case True
        then show ?thesis using next' Suc.prems step [of "name n" "Suc n"] by auto
      next
        case False
        then have "x = Suc k - Suc n" "Suc n \<le> k" using Suc.hyps(2) Suc.prems(1) by simp_all
        from Suc.hyps(1) [OF this Suc.prems(2), of "name n"] show ?thesis unfolding next' by blast
      qed
    qed
  qed
qed

end

lemma free_beyond:
  assumes "inj (f :: nat \<Rightarrow> 'a)" and "finite used"
  shows "\<exists>k \<ge> n. f k \<notin> used"
proof -
  have "infinite (f ` {n..})"
    using infinite_Ici [of n] finite_imageD [of f "{n..}"] assms(1) inj_on_subset by blast
  then show ?thesis using assms(2) by (metis atLeast_iff finite_subset image_subset_iff)
qed

section \<open>Operations\<close>

type_synonym bytes = string
type_synonym files = "string \<rightharpoonup> bytes"

record disk =
  disk_files :: files
  disk_steps :: nat

type_synonym faults = "nat \<Rightarrow> nat option"

text \<open>\<open>run\<close>: what the operation answers and changes, \<open>None\<close> where it raises; \<open>broken k\<close>: what a failed one changed.\<close>

definition disk_op :: "faults \<Rightarrow> (files \<Rightarrow> ('a \<times> files) option) \<Rightarrow> (nat \<Rightarrow> files \<Rightarrow> files) \<Rightarrow> (disk, 'a) io" where
  "disk_op fault run broken d =
     (case fault (disk_steps d) of
        Some k \<Rightarrow> (Inl OSError, \<lparr>disk_files = broken k (disk_files d), disk_steps = Suc (disk_steps d)\<rparr>)
      | None \<Rightarrow>
          (case run (disk_files d) of
             None \<Rightarrow> (Inl OSError, \<lparr>disk_files = disk_files d, disk_steps = Suc (disk_steps d)\<rparr>)
           | Some (x, m) \<Rightarrow> (Inr x, \<lparr>disk_files = m, disk_steps = Suc (disk_steps d)\<rparr>)))"

definition f_exists :: "string \<Rightarrow> (disk, bool) io" where
  "f_exists p d = (Inr (disk_files d p \<noteq> None), d)"

definition f_size :: "faults \<Rightarrow> string \<Rightarrow> (disk, nat) io" where
  "f_size fault p = disk_op fault (\<lambda>m. map_option (\<lambda>b. (length b, m)) (m p)) (\<lambda>_ m. m)"

text \<open>Opening for reading gives the bytes that will be read.\<close>

definition f_open :: "faults \<Rightarrow> string \<Rightarrow> (disk, bytes) io" where
  "f_open fault p = disk_op fault (\<lambda>m. map_option (\<lambda>b. (b, m)) (m p)) (\<lambda>_ m. m)"

text \<open>One \<open>read(n)\<close> of a stream with the bytes \<open>b\<close> left.\<close>

definition f_read :: "faults \<Rightarrow> nat \<Rightarrow> bytes \<Rightarrow> (disk, bytes) io" where
  "f_read fault n b = disk_op fault (\<lambda>m. Some (take n b, m)) (\<lambda>_ m. m)"

definition f_create :: "faults \<Rightarrow> string \<Rightarrow> (disk, unit) io" where
  "f_create fault p = disk_op fault (\<lambda>m. Some ((), m(p \<mapsto> []))) (\<lambda>_ m. m)"

definition content :: "files \<Rightarrow> string \<Rightarrow> bytes" where
  "content m p = (case m p of None \<Rightarrow> [] | Some b \<Rightarrow> b)"

definition f_write :: "faults \<Rightarrow> string \<Rightarrow> bytes \<Rightarrow> (disk, unit) io" where
  "f_write fault p c =
     disk_op fault (\<lambda>m. Some ((), m(p \<mapsto> content m p @ c))) (\<lambda>k m. m(p \<mapsto> content m p @ take k c))"

definition f_remove :: "faults \<Rightarrow> string \<Rightarrow> (disk, unit) io" where
  "f_remove fault p = disk_op fault (\<lambda>m. if m p = None then None else Some ((), m(p := None))) (\<lambda>_ m. m)"

section \<open>Changes\<close>

text \<open>Nothing but the files in \<open>P\<close> differs.\<close>

definition only_at :: "string set \<Rightarrow> files \<Rightarrow> files \<Rightarrow> bool" where
  "only_at P m m' \<longleftrightarrow> (\<forall>p. p \<notin> P \<longrightarrow> m' p = m p)"

lemma only_atD: "only_at P m m' \<Longrightarrow> p \<notin> P \<Longrightarrow> m' p = m p"
  by (simp add: only_at_def)

lemma only_at_mono: "only_at P m m' \<Longrightarrow> P \<subseteq> R \<Longrightarrow> only_at R m m'"
  unfolding only_at_def by (metis subsetD)

lemma only_at_refl [simp]: "only_at P m m"
  by (simp add: only_at_def)

lemma only_at_trans: "only_at P m0 m1 \<Longrightarrow> only_at Q m1 m2 \<Longrightarrow> P \<subseteq> R \<Longrightarrow> Q \<subseteq> R \<Longrightarrow> only_at R m0 m2"
  unfolding only_at_def by (metis subsetD)

section \<open>Rules\<close>

definition flawless :: "faults \<Rightarrow> bool" where
  "flawless fault \<longleftrightarrow> (\<forall>n. fault n = None)"

lemma flawless_None [simp]: "flawless (\<lambda>_. None)"
  by (simp add: flawless_def)

lemma wp_disk_op:
  assumes "\<And>x m d'. run (disk_files d) = Some (x, m) \<Longrightarrow> disk_files d' = m \<Longrightarrow> Q x d'"
    and "\<And>d'. run (disk_files d) = None \<Longrightarrow> disk_files d' = disk_files d \<Longrightarrow> E OSError d'"
    and "\<And>k d'. \<not> flawless fault \<Longrightarrow> disk_files d' = broken k (disk_files d) \<Longrightarrow> E OSError d'"
  shows "wp (disk_op fault run broken) Q E d"
proof (cases "fault (disk_steps d)")
  case None
  then show ?thesis
    using assms(1,2) by (cases "run (disk_files d)") (auto simp: wp_def disk_op_def)
next
  case (Some k)
  then have "\<not> flawless fault" by (auto simp: flawless_def)
  then show ?thesis using Some assms(3) by (simp add: wp_def disk_op_def)
qed

lemma wp_f_exists [simp]: "wp (f_exists p) Q E d = Q (disk_files d p \<noteq> None) d"
  by (simp add: wp_def f_exists_def)

lemma wp_f_size:
  assumes "\<And>b d'. disk_files d p = Some b \<Longrightarrow> disk_files d' = disk_files d \<Longrightarrow> Q (length b) d'"
    and "\<And>d'. disk_files d' = disk_files d \<Longrightarrow> disk_files d p = None \<or> \<not> flawless fault \<Longrightarrow> E OSError d'"
  shows "wp (f_size fault p) Q E d"
  unfolding f_size_def by (rule wp_disk_op) (use assms in auto)

lemma wp_f_open:
  assumes "\<And>b d'. disk_files d p = Some b \<Longrightarrow> disk_files d' = disk_files d \<Longrightarrow> Q b d'"
    and "\<And>d'. disk_files d' = disk_files d \<Longrightarrow> disk_files d p = None \<or> \<not> flawless fault \<Longrightarrow> E OSError d'"
  shows "wp (f_open fault p) Q E d"
  unfolding f_open_def by (rule wp_disk_op) (use assms in auto)

lemma wp_f_read:
  assumes "\<And>d'. disk_files d' = disk_files d \<Longrightarrow> Q (take n b) d'"
    and "\<And>d'. disk_files d' = disk_files d \<Longrightarrow> \<not> flawless fault \<Longrightarrow> E OSError d'"
  shows "wp (f_read fault n b) Q E d"
  unfolding f_read_def by (rule wp_disk_op) (use assms in auto)

lemma wp_f_create:
  assumes "\<And>d'. disk_files d' = (disk_files d)(p \<mapsto> []) \<Longrightarrow> Q () d'"
    and "\<And>d'. disk_files d' = disk_files d \<Longrightarrow> \<not> flawless fault \<Longrightarrow> E OSError d'"
  shows "wp (f_create fault p) Q E d"
  unfolding f_create_def by (rule wp_disk_op) (use assms in auto)

lemma wp_f_write:
  assumes "\<And>d'. disk_files d' = (disk_files d)(p \<mapsto> content (disk_files d) p @ c) \<Longrightarrow> Q () d'"
    and "\<And>k d'. disk_files d' = (disk_files d)(p \<mapsto> content (disk_files d) p @ take k c) \<Longrightarrow>
      \<not> flawless fault \<Longrightarrow> E OSError d'"
  shows "wp (f_write fault p c) Q E d"
  unfolding f_write_def by (rule wp_disk_op) (use assms in auto)

lemma wp_f_remove:
  assumes "\<And>d'. disk_files d p \<noteq> None \<Longrightarrow> disk_files d' = (disk_files d)(p := None) \<Longrightarrow> Q () d'"
    and "\<And>d'. disk_files d' = disk_files d \<Longrightarrow> disk_files d p = None \<or> \<not> flawless fault \<Longrightarrow> E OSError d'"
  shows "wp (f_remove fault p) Q E d"
  unfolding f_remove_def by (rule wp_disk_op) (use assms in \<open>auto split: if_splits\<close>)

end
