(* ===== verification/Deferred.thy ===== *)
theory Deferred
  imports Worker Disk
begin

text \<open>
  Deliveries put off by a flood window: the queue (\<open>utils/deferred_delivery.py\<close>) and the worker's
  attempts (\<open>_defer_delivery\<close> to \<open>_sweep_deferred_deliveries\<close> of \<open>workers/ffmpeg_worker.py\<close>).  The queue
  is a sorted set of job ids by due time and one document per job, whose times are texts.  Files, the
  storage backend and the sending itself are a \<open>courier\<close>.  Progress updates and events are left out.
\<close>

section \<open>The queue\<close>

definition due_key :: string where
  "due_key = ''ffmpeg:delivery_deferred''"

definition record_prefix :: string where
  "record_prefix = ''ffmpeg:delivery_deferred:''"

record deferral_cfg =
  df_horizon :: real
  df_max_attempts :: int
  df_lease :: real
  df_ttl :: int
  df_backoff :: real
  df_limit :: int

text \<open>The module's settings; \<open>None\<close> is a setting that is not a number, which stops the import.\<close>

definition env_or :: "(string \<rightharpoonup> string) \<Rightarrow> string \<Rightarrow> string \<Rightarrow> string" where
  "env_or env name dflt = (case env name of None \<Rightarrow> dflt | Some s \<Rightarrow> s)"

definition deferral_settings :: "(string \<rightharpoonup> string) \<Rightarrow> deferral_cfg option" where
  "deferral_settings env =
     Option.bind (number_of (env_or env ''DEFERRED_DELIVERY_HORIZON_SECONDS'' ''43200'')) (\<lambda>horizon.
     Option.bind (py_int (env_or env ''DEFERRED_DELIVERY_MAX_ATTEMPTS'' ''5'')) (\<lambda>attempts.
     Option.bind (number_of (env_or env ''DEFERRED_DELIVERY_LEASE_SECONDS'' ''600'')) (\<lambda>lease.
     Option.bind (number_of (env_or env ''DEFERRED_DELIVERY_TTL_SECONDS'' (int_str (py_trunc (horizon + 3600))))) (\<lambda>ttl.
     Option.bind (number_of (env_or env ''DEFERRED_DELIVERY_RETRY_BACKOFF_SECONDS'' ''120'')) (\<lambda>backoff.
     Option.bind (py_int (env_or env ''DEFERRED_DELIVERY_SWEEP_LIMIT'' ''5'')) (\<lambda>limit.
       Some \<lparr>df_horizon = horizon, df_max_attempts = attempts, df_lease = lease, df_ttl = py_trunc ttl,
             df_backoff = backoff, df_limit = limit\<rparr>))))))"

definition min_due_delay :: real where
  "min_due_delay = 5"

definition record_key :: "string \<Rightarrow> string" where
  "record_key job_id = record_prefix @ job_id"

definition set_default :: "string \<Rightarrow> pyval \<Rightarrow> job \<Rightarrow> job" where
  "set_default f v d = (if dget d f = None then dput f v d else d)"

definition time_val :: "real \<Rightarrow> pyval" where
  "time_val t = PFloat (time_text t)"

text \<open>The document that is stored, at the time \<open>now\<close>.\<close>

definition deferral :: "real \<Rightarrow> real \<Rightarrow> real \<Rightarrow> job \<Rightarrow> job" where
  "deferral now delay horizon d =
     dput ''due_at'' (time_val (now + delay))
      (dput ''horizon'' (time_val horizon)
       (dput ''deferred_at'' (time_val now)
        (set_default ''created_at'' (time_val now)
         (set_default ''attempts'' (PInt 0) d))))"

definition defer_record :: "'w exec \<Rightarrow> deferral_cfg \<Rightarrow> job \<Rightarrow> real \<Rightarrow> real option \<Rightarrow> ('w, bool) io" where
  "defer_record exec F d due_in horizon =
     (if \<not> truthy (jget d ''job_id'') then ret False
      else
        let jid = py_str (jget d ''job_id''); delay = max min_due_delay due_in in
        bnd (r_time exec) (\<lambda>now.
        bnd (attempt (r_connect exec)) (\<lambda>client.
        if client = None then ret False
        else fin
          (tryc
            (bnd (r_setdoc exec (record_key jid)
                   (QJob (deferral now delay (case horizon of None \<Rightarrow> df_horizon F | Some h \<Rightarrow> h) d)) (Some (df_ttl F))) (\<lambda>_.
             bnd (r_zadd exec due_key (QText jid) (now + delay)) (\<lambda>_. ret True)))
            (\<lambda>_. ret False))
          (suppress (r_close exec)))))"

text \<open>The text of a member; the members are ids.\<close>

fun member_id :: "qitem \<Rightarrow> string" where
  "member_id (QText s) = s"
| "member_id (QJson s) = s"
| "member_id (QJob _) = []"

definition forget_record :: "'w exec \<Rightarrow> string \<Rightarrow> ('w, unit) io" where
  "forget_record exec jid =
     bnd (suppress (r_del exec [record_key jid])) (\<lambda>_. suppress (r_zrem exec due_key (QText jid)))"

text \<open>The ids that are due, and then one by one: the document is read and the due time moved.\<close>

definition read_due_ids :: "'w exec \<Rightarrow> real \<Rightarrow> int \<Rightarrow> ('w, qitem list) io" where
  "read_due_ids exec now limit = r_zdue exec due_key now (nat (max 1 limit))"

definition claim_each :: "'w exec \<Rightarrow> real \<Rightarrow> qitem list \<Rightarrow> ('w, job list) io" where
  "claim_each exec lease_until raw_ids =
     for_each raw_ids [] (\<lambda>raw records.
       let jid = member_id raw in
       bnd (r_getdoc exec (record_key jid)) (\<lambda>got.
         case got of
           None \<Rightarrow> bnd (r_zrem exec due_key (QText jid)) (\<lambda>_. ret records)
         | Some (QText t) \<Rightarrow>
             if t = [] then bnd (r_zrem exec due_key (QText jid)) (\<lambda>_. ret records)
             else bnd (forget_record exec jid) (\<lambda>_. ret records)
         | Some (QJson s) \<Rightarrow> raise TypeError
         | Some (QJob p) \<Rightarrow>
             bnd (r_zadd exec due_key (QText jid) lease_until) (\<lambda>_.
             ret (records @ [dput ''job_id'' (py_or (jget p ''job_id'') (PStr jid)) p]))))"

definition claim_due :: "'w exec \<Rightarrow> deferral_cfg \<Rightarrow> int \<Rightarrow> real option \<Rightarrow> ('w, job list) io" where
  "claim_due exec F limit lease =
     bnd (attempt (r_connect exec)) (\<lambda>client.
     if client = None then ret []
     else fin
       (tryc
         (bnd (r_time exec) (\<lambda>now.
          bnd (read_due_ids exec now limit) (\<lambda>raw_ids.
          claim_each exec (now + (case lease of None \<Rightarrow> df_lease F | Some l \<Rightarrow> l)) raw_ids)))
         (\<lambda>_. ret []))
       (suppress (r_close exec)))"

definition update_record :: "'w exec \<Rightarrow> deferral_cfg \<Rightarrow> pyval \<Rightarrow> real option \<Rightarrow> job \<Rightarrow> ('w, bool) io" where
  "update_record exec F job_id due_in changes =
     bnd (attempt (r_connect exec)) (\<lambda>client.
     if client = None \<or> \<not> truthy job_id then ret False
     else
       let jid = py_str job_id in
       fin
         (tryc
           (bnd (r_getdoc exec (record_key jid)) (\<lambda>got.
              case got of
                None \<Rightarrow> ret False
              | Some (QJson s) \<Rightarrow> raise TypeError
              | Some it \<Rightarrow>
                  if it = QText [] then ret False
                  else
                    let p = dput ''job_id'' job_id
                              (dmerge (case it of QJob p \<Rightarrow> p | _ \<Rightarrow> [(''job_id'', job_id)]) changes) in
                    (case due_in of
                       None \<Rightarrow> bnd (r_setdoc exec (record_key jid) (QJob p) (Some (df_ttl F))) (\<lambda>_. ret True)
                     | Some x \<Rightarrow>
                         bnd (r_time exec) (\<lambda>now.
                         let due_at = now + max min_due_delay x in
                         bnd (r_setdoc exec (record_key jid) (QJob (dput ''due_at'' (time_val due_at) p)) (Some (df_ttl F))) (\<lambda>_.
                         bnd (r_zadd exec due_key (QText jid) due_at) (\<lambda>_. ret True))))))
           (\<lambda>_. ret False))
         (suppress (r_close exec)))"

definition clear_record :: "'w exec \<Rightarrow> pyval \<Rightarrow> ('w, unit) io" where
  "clear_record exec job_id =
     bnd (attempt (r_connect exec)) (\<lambda>client.
     if client = None \<or> \<not> truthy job_id then ret ()
     else fin (forget_record exec (py_str job_id)) (suppress (r_close exec)))"

definition pending_deliveries :: "'w exec \<Rightarrow> ('w, int) io" where
  "pending_deliveries exec =
     bnd (attempt (r_connect exec)) (\<lambda>client.
     if client = None then ret 0
     else fin (tryc (r_zcard exec due_key) (\<lambda>_. ret 0)) (suppress (r_close exec)))"

section \<open>How a result is sent\<close>

datatype media = Audio | Video | Document

definition audio_output_exts :: "string list" where
  "audio_output_exts = [''.mp3'', ''.m4a'', ''.aac'', ''.flac'', ''.ogg'', ''.oga'', ''.opus'', ''.wav'', ''.wma'']"

definition is_audio_delivery_output :: "string \<Rightarrow> pyval \<Rightarrow> bool" where
  "is_audio_delivery_output path media_kind =
     (if truthy media_kind then lower (py_str media_kind) = ''audio''
      else lower (snd (splitext path)) \<in> set audio_output_exts)"

definition deliver_as_document :: "job \<Rightarrow> bool" where
  "deliver_as_document j \<longleftrightarrow> lower (strip (id_text (jget j ''upload_mode''))) = ''file''"

definition deferred_media_kind :: "job \<Rightarrow> media" where
  "deferred_media_kind d =
     (let name = id_text (py_or (jget d ''delivery_name'') (jget d ''output'')) in
      if is_audio_delivery_output name (jget d ''media_kind'') then Audio
      else if deliver_as_document d then Document
      else if lower (snd (splitext name)) \<in> {''.mp4'', ''.mkv'', ''.mov'', ''.webm'', ''.avi''} then Video
      else Document)"

text \<open>
  What the attempts use of the outside: the size of a file that exists, fetching an object to a path
  (whether that worked), sending (it raises when Telegram does not accept), removing a file; the
  temporary directory, the size limit (0 for none) and whether there are a bot token and a storage.
\<close>

record 'w courier =
  co_size :: "string \<Rightarrow> ('w, nat option) io"
  co_fetch :: "string \<Rightarrow> string \<Rightarrow> ('w, bool) io"
  co_send :: "media \<Rightarrow> pyval \<Rightarrow> string \<Rightarrow> pyval \<Rightarrow> string \<Rightarrow> ('w, unit) io"
  co_remove :: "string \<Rightarrow> ('w, unit) io"
  co_temp :: string
  co_limit :: int
  co_token :: bool
  co_storage :: bool

definition holds_bytes :: "'w courier \<Rightarrow> string \<Rightarrow> ('w, bool) io" where
  "holds_bytes C path = fmapio (\<lambda>n. n \<noteq> None \<and> n \<noteq> Some 0) (co_size C path)"

text \<open>The path, and the file that was downloaded for it.\<close>

definition resolve_deferred_output :: "'w courier \<Rightarrow> job \<Rightarrow> ('w, string option \<times> string option) io" where
  "resolve_deferred_output C d =
     bnd (if truthy (jget d ''output'') then holds_bytes C (py_str (jget d ''output'')) else ret False) (\<lambda>here.
     if here then ret (Some (py_str (jget d ''output'')), None)
     else if \<not> truthy (jget d ''output_key'') \<or> \<not> co_storage C then ret (None, None)
     else
       let key = py_str (jget d ''output_key'');
           dest = path_join (co_temp C) (''deferred_'' @ py_str (jget d ''job_id'') @ ''_'' @ basename key) in
       tryc
         (bnd (co_fetch C key dest) (\<lambda>fetched.
          if \<not> fetched then ret (None, None)
          else bnd (holds_bytes C dest) (\<lambda>there. if there then ret (Some dest, Some dest) else ret (None, None))))
         (\<lambda>_. ret (None, None)))"

definition send_deferred_output :: "'w courier \<Rightarrow> job \<Rightarrow> string \<Rightarrow> ('w, bool) io" where
  "send_deferred_output C d path =
     (if \<not> co_token C \<or> \<not> truthy (jget d ''chat_id'') \<or> path = [] then ret False
      else bnd (tryc (fmapio (\<lambda>n. case n of None \<Rightarrow> 0 | Some n \<Rightarrow> n) (co_size C path)) (\<lambda>_. ret 0)) (\<lambda>size.
        if co_limit C \<noteq> 0 \<and> co_limit C < int size then ret False
        else bnd (co_send C (deferred_media_kind d) (jget d ''chat_id'')
                    (py_str (py_or (jget d ''delivery_name'') (PStr (basename path))))
                    (py_or (jget d ''caption'') PNone) path) (\<lambda>_. ret True)))"

section \<open>One attempt\<close>

definition outcome_mark :: "bool \<Rightarrow> string \<Rightarrow> (string, string) dict" where
  "outcome_mark ok message =
     [(''status'', if ok then ''done'' else ''error''), (''progress'', ''100''), (''message'', message),
      (''delivered'', if ok then ''1'' else ''0''), (''delivery_deferred'', ''0'')]"

definition finish_deferred :: "'w exec \<Rightarrow> 'w courier \<Rightarrow> job \<Rightarrow> string option \<Rightarrow> bool \<Rightarrow> string \<Rightarrow> ('w, unit) io" where
  "finish_deferred exec C d downloaded ok message =
     (if \<not> truthy (jget d ''job_id'') then ret ()
      else
        bnd (suppress (bnd (r_connect exec) (\<lambda>_.
               fin (r_hset exec (job_key_of d) (outcome_mark ok message)) (suppress (r_close exec))))) (\<lambda>_.
        bnd (case downloaded of None \<Rightarrow> ret () | Some p \<Rightarrow> suppress (co_remove C p)) (\<lambda>_.
        bnd (whenb (ok \<and> truthy (jget d ''cleanup_output'') \<and> truthy (jget d ''output''))
               (suppress (co_remove C (py_str (jget d ''output''))))) (\<lambda>_.
        clear_record exec (jget d ''job_id'')))))"

datatype outcome = Delivered | Put_off | Abandoned

text \<open>\<open>float(x or 0)\<close> and \<open>int(x or 0)\<close>; a value that is no number raises.\<close>

definition float_val :: "pyval \<Rightarrow> real option" where
  "float_val v =
     (case v of
        PInt i \<Rightarrow> Some (of_int i)
      | PBool b \<Rightarrow> Some (if b then 1 else 0)
      | PFloat s \<Rightarrow> number_of s
      | PStr s \<Rightarrow> number_of s
      | _ \<Rightarrow> None)"

definition must :: "'a option \<Rightarrow> ('w, 'a) io" where
  "must x = (case x of None \<Rightarrow> raise ValueError | Some y \<Rightarrow> ret y)"

definition chat_scope :: "pyval \<Rightarrow> string" where
  "chat_scope v = (if v = PNone then ''global'' else ''chat:'' @ py_str v)"

text \<open>The result of the send: accepted, not accepted, or a wait Telegram asks for.\<close>

datatype sent = Accepted | Refused | Wait int

definition try_send :: "'w courier \<Rightarrow> job \<Rightarrow> string option \<Rightarrow> ('w, sent) io" where
  "try_send C d path =
     (case path of
        None \<Rightarrow> ret Refused
      | Some p \<Rightarrow>
          tryc (fmapio (\<lambda>ok. if ok then Accepted else Refused) (send_deferred_output C d p))
            (\<lambda>e. ret (case e of RetryAfter n \<Rightarrow> Wait n | _ \<Rightarrow> Refused)))"

definition settle_attempt ::
    "'w exec \<Rightarrow> deferral_cfg \<Rightarrow> 'w telegram \<Rightarrow> 'w courier \<Rightarrow> job \<Rightarrow> int \<Rightarrow> string option \<Rightarrow> flood_gate \<Rightarrow> sent \<Rightarrow>
     ('w, outcome \<times> flood_gate) io" where
  "settle_attempt exec F T C d attempts downloaded G s =
     (case s of
        Wait n \<Rightarrow>
          bnd (note_flood exec (tg_mono T) (tg_flood T) (Some (of_int (if n = 0 then 5 else n)))
                 (chat_scope (jget d ''chat_id'')) G) (\<lambda>(left, G).
          bnd (update_record exec F (jget d ''job_id'') (Some (left + 1)) [(''reason'', PStr ''re-gated'')]) (\<lambda>_.
          ret (Put_off, G)))
      | Accepted \<Rightarrow>
          bnd (finish_deferred exec C d downloaded True ''delivered to Telegram (retried after rate limiting)'') (\<lambda>_.
          ret (Delivered, G))
      | Refused \<Rightarrow>
          if df_max_attempts F \<le> attempts
          then bnd (finish_deferred exec C d downloaded False ''delivery failed after retrying past the rate limit'') (\<lambda>_.
               ret (Abandoned, G))
          else bnd (update_record exec F (jget d ''job_id'') (Some (df_backoff F))
                 [(''attempts'', PInt attempts), (''reason'', PStr ''retry after a failed attempt'')]) (\<lambda>_.
               ret (Put_off, G)))"

definition attempt_delivery ::
    "'w exec \<Rightarrow> deferral_cfg \<Rightarrow> 'w telegram \<Rightarrow> 'w courier \<Rightarrow> job \<Rightarrow> flood_gate \<Rightarrow> ('w, outcome \<times> flood_gate) io" where
  "attempt_delivery exec F T C d G =
     bnd (must (float_val (py_or (jget d ''created_at'') (PInt 0)))) (\<lambda>created.
     bnd (must (float_val (py_or (jget d ''horizon'') (time_val (df_horizon F))))) (\<lambda>horizon.
     bnd (r_time exec) (\<lambda>now.
     if created \<noteq> 0 \<and> horizon < now - created
     then bnd (finish_deferred exec C d None False
                 ''delivery failed: the Telegram rate limit outlasted the retry window'') (\<lambda>_. ret (Abandoned, G))
     else
       bnd (must (int_of (py_or (jget d ''attempts'') (PInt 0)))) (\<lambda>n.
       bnd (resolve_deferred_output C d) (\<lambda>(path, downloaded).
       bnd (try_send C d path) (settle_attempt exec F T C d (n + 1) downloaded G))))))"

text \<open>The outcome or the exception, and the flood gate afterwards.\<close>

definition deliver_deferred_record ::
    "'w exec \<Rightarrow> deferral_cfg \<Rightarrow> 'w telegram \<Rightarrow> 'w courier \<Rightarrow> job \<Rightarrow> flood_gate \<Rightarrow> ('w, (exn + outcome) \<times> flood_gate) io" where
  "deliver_deferred_record exec F T C d G =
     bnd (remaining exec (tg_mono T) (tg_flood T) (chat_scope (jget d ''chat_id'')) G) (\<lambda>(left, G).
     if 0 < left
     then bnd (update_record exec F (jget d ''job_id'') (Some (left + 1)) [(''reason'', PStr ''still rate limited'')]) (\<lambda>_.
          ret (Inr Put_off, G))
     else bnd (job_already_delivered exec [(''job_id'', jget d ''job_id'')]) (\<lambda>already.
          if already
          then bnd (finish_deferred exec C d None True ''delivered to Telegram'') (\<lambda>_. ret (Inr Delivered, G))
          else tryc (fmapio (\<lambda>(out, G). (Inr out, G)) (attempt_delivery exec F T C d G)) (\<lambda>e. ret (Inl e, G))))"

section \<open>The sweep\<close>

record sweep_counts =
  n_delivered :: nat
  n_put_off :: nat
  n_abandoned :: nat
  n_skipped :: nat

definition count_outcome :: "outcome \<Rightarrow> sweep_counts \<Rightarrow> sweep_counts" where
  "count_outcome out c =
     (case out of
        Delivered \<Rightarrow> c\<lparr>n_delivered := Suc (n_delivered c)\<rparr>
      | Put_off \<Rightarrow> c\<lparr>n_put_off := Suc (n_put_off c)\<rparr>
      | Abandoned \<Rightarrow> c\<lparr>n_abandoned := Suc (n_abandoned c)\<rparr>)"

definition sweep_deferred_deliveries ::
    "'w exec \<Rightarrow> deferral_cfg \<Rightarrow> 'w telegram \<Rightarrow> 'w courier \<Rightarrow> nat \<Rightarrow> int option \<Rightarrow> flood_gate \<Rightarrow>
     ('w, sweep_counts \<times> flood_gate) io" where
  "sweep_deferred_deliveries exec F T C in_flight limit G =
     (let none = \<lparr>n_delivered = 0, n_put_off = 0, n_abandoned = 0, n_skipped = 0\<rparr> in
      if 0 < in_flight then ret (none\<lparr>n_skipped := 1\<rparr>, G)
      else bnd (claim_due exec F (case limit of None \<Rightarrow> df_limit F | Some n \<Rightarrow> if n = 0 then df_limit F else n) None) (\<lambda>ds.
        for_each ds (none, G) (\<lambda>d (c, G).
          bnd (deliver_deferred_record exec F T C d G) (\<lambda>(r, G).
            ret (count_outcome (case r of Inl _ \<Rightarrow> Put_off | Inr out \<Rightarrow> out) c, G)))))"

section \<open>Putting a delivery off\<close>

text \<open>
  The worker's side when a send is refused: queued only while a window is open for the chat.
  \<open>absolute\<close> is \<open>os.path.abspath\<close>; the answer is the wait, 0 for a delivery that is not queued.
\<close>

definition deferral_record ::
    "(string \<Rightarrow> string) \<Rightarrow> job \<Rightarrow> pyval \<Rightarrow> string \<Rightarrow> pyval \<Rightarrow> pyval \<Rightarrow> pyval \<Rightarrow> pyval \<Rightarrow> pyval \<Rightarrow> pyval \<Rightarrow> job" where
  "deferral_record absolute j chat_id out delivery_name media_kind caption reason get_url output_key =
     [(''job_id'', jget j ''job_id''), (''chat_id'', chat_id),
      (''output'', if out = [] then PNone else PStr (absolute out)), (''output_key'', output_key),
      (''delivery_name'', delivery_name), (''media_kind'', media_kind), (''upload_mode'', jget j ''upload_mode''),
      (''caption'', caption), (''link_url'', get_url),
      (''cleanup_output'', PBool (truthy (jget j ''cleanup_output''))), (''reason'', reason)]"

definition defer_delivery ::
    "'w exec \<Rightarrow> deferral_cfg \<Rightarrow> 'w telegram \<Rightarrow> pyval \<Rightarrow> job \<Rightarrow> flood_gate \<Rightarrow> ('w, real \<times> flood_gate) io" where
  "defer_delivery exec F T chat_id d G =
     bnd (remaining exec (tg_mono T) (tg_flood T) (chat_scope chat_id) G) (\<lambda>(left, G).
     if left \<le> 0 then ret (0, G)
     else bnd (defer_record exec F d (min (left + 1) (df_horizon F)) (Some (df_horizon F))) (\<lambda>queued.
       ret (if queued then left else 0, G)))"

end
