(* ===== verification/WorkerResults.thy ===== *)
theory WorkerResults
  imports Worker
begin

text \<open>
  What the worker's queue path promises: the gate in front of a conversion gives exactly the claims it
  takes or puts the job back, with one slot no second conversion passes it, nothing but the conversion
  itself makes the path raise, a delivered job is not converted again, the claims are released however
  the conversion ended, and the batch's report keeps to the batch's own keys.
\<close>

section \<open>The gate with Redis up\<close>

lemma takeable_cong:
  assumes "m key = m' key" and "\<And>h. m (job_hash_key h) = m' (job_hash_key h)"
    and "\<And>x. m (worker_rss_key x) = m' (worker_rss_key x)"
  shows "takeable t m key = takeable t m' key"
proof -
  have h: "hash_at t m (job_hash_key h) = hash_at t m' (job_hash_key h)" for h by (rule hash_at_cong) (rule assms)
  have r: "live t m (worker_rss_key x) = live t m' (worker_rss_key x)" for x by (rule live_cong) (rule assms)
  have "owner_gone t m h = owner_gone t m' h" for h unfolding owner_gone_def h r ..
  then show ?thesis
    unfolding takeable_def str_at_cong [of m key m' t, OF assms(1)] live_cong [of m key m' t, OF assms(1)] by (simp cong: option.case_cong)
qed

lemma gate_keys [simp]:
  "batch_lock_key b \<noteq> ffmpeg_slot_key i" "ffmpeg_slot_key i \<noteq> batch_lock_key b"
  "job_hash_key h \<noteq> ffmpeg_slot_key i" "job_hash_key h \<noteq> batch_lock_key b"
  "ffmpeg_slot_key i \<noteq> job_hash_key h" "batch_lock_key b \<noteq> job_hash_key h"
  "worker_rss_key x \<noteq> ffmpeg_slot_key i" "worker_rss_key x \<noteq> batch_lock_key b" "worker_rss_key x \<noteq> job_hash_key h"
  "delayed_set_key \<noteq> ffmpeg_slot_key i" "delayed_set_key \<noteq> batch_lock_key b"
  "ffmpeg_slot_key i \<noteq> delayed_set_key" "batch_lock_key b \<noteq> delayed_set_key"
  "worker_rss_key x \<noteq> delayed_set_key" "job_hash_key h \<noteq> worker_rss_key x"
  by (simp_all add: key_defs)

definition slot_for :: "batch_cfg \<Rightarrow> real \<Rightarrow> store \<Rightarrow> int option" where
  "slot_for cfg t m = find (\<lambda>i. takeable t m (ffmpeg_slot_key i)) [0..max_ffmpeg cfg - 1]"

definition lock_free :: "real \<Rightarrow> store \<Rightarrow> job \<Rightarrow> bool" where
  "lock_free t m j \<longleftrightarrow> (case job_batch_id j of None \<Rightarrow> True | Some b \<Rightarrow> takeable t m (batch_lock_key b))"

text \<open>The claim is the job's own, until the deadline.\<close>

definition claimed :: "batch_cfg \<Rightarrow> job \<Rightarrow> real \<Rightarrow> entry option" where
  "claimed cfg j t = Some (VStr (id_text (jget j ''job_id'')), Some (t + of_int (lock_ttl cfg)))"

definition later_due :: "worker_cfg \<Rightarrow> job \<Rightarrow> real \<Rightarrow> store \<Rightarrow> (qitem \<times> real) list" where
  "later_due W j t m = AList.update (QJob j) (t + wk_delay W) (zset_at t m delayed_set_key)"

text \<open>Apart from the job's record and the delayed set: keys unchanged, or free claims tidied away.\<close>

definition no_claims_taken :: "job \<Rightarrow> real \<Rightarrow> store \<Rightarrow> store \<Rightarrow> bool" where
  "no_claims_taken j t m m' \<longleftrightarrow>
     (\<forall>k. k \<noteq> delayed_set_key \<longrightarrow> k \<noteq> job_key_of j \<longrightarrow> m' k = m k \<or> (m' k = None \<and> takeable t m k))"

context redis_up begin

lemma typed_updI:
  assumes "typed (kv w)" and "call_typed c" and "kv w' = effect c (clock w) (kv w)"
  shows "typed (kv w')"
  using assms effect_typed by simp

lemma up_hset_job:
  assumes "typed (kv w)"
    and "\<And>w'. clock w' = clock w \<Longrightarrow> typed (kv w') \<Longrightarrow> (\<forall>k. k \<noteq> job_key_of j \<longrightarrow> kv w' k = kv w k) \<Longrightarrow>
      hash_at (clock w) (kv w') (job_key_of j) = dmerge (hash_at (clock w) (kv w) (job_key_of j)) fs \<Longrightarrow> Q () w'"
  shows "wp (suppress (r_hset exec (job_key_of j) fs)) Q E w"
  unfolding wp_suppress
proof (rule up_hset, goal_cases)
  case 1
  then show ?case by (rule typed_hash [OF assms(1)]) (simp add: job_key_of_def)
next
  case (2 w')
  have "typed (kv w')" by (rule typed_updI [OF assms(1) _ 2(2)]) (simp add: job_key_of_def)
  moreover have "hash_at (clock w) (kv w') (job_key_of j) = dmerge (hash_at (clock w) (kv w) (job_key_of j)) fs"
    using 2 by (simp add: hash_at_def [of _ "_(_ \<mapsto> _)"])
  ultimately show ?case using 2 by (intro assms(2)) (simp_all add: effect_untouched)
qed

lemma up_put_back:
  assumes typed: "typed (kv w)" and "j \<noteq> []" and "\<not> stopped_at (clock w) (kv w) j"
  shows "wp (put_back exec d j why)
     (\<lambda>r w'. clock w' = clock w \<and> r = None \<and>
        zset_at (clock w) (kv w') delayed_set_key = AList.update (QJob j) (clock w + d) (zset_at (clock w) (kv w) delayed_set_key) \<and>
        (\<forall>k. k \<noteq> delayed_set_key \<longrightarrow> k \<noteq> job_key_of j \<longrightarrow> kv w' k = kv w k)) E w"
  unfolding put_back_def wp_bnd
proof (rule wp_mono [OF up_defer [OF typed]], goal_cases)
  case (1 r w1)
  let ?e = "effect (Zadd delayed_set_key (QJob j) (clock w + d)) (clock w) (kv w)"
  have w1: "clock w1 = clock w" "kv w1 = ?e" using 1 assms by simp_all
  have t1: "typed (kv w1)" by (rule typed_updI [OF typed _ w1(2)]) simp
  have z: "zset_at (clock w) (kv w1) delayed_set_key = AList.update (QJob j) (clock w + d) (zset_at (clock w) (kv w) delayed_set_key)"
    unfolding w1(2) by (rule zset_at_zadd [OF typed]) simp
  have f: "kv w1 k = kv w k" if "k \<noteq> delayed_set_key" for k
    unfolding w1(2) by (rule effect_untouched) (use that in simp)
  have d: "delayed_set_key \<noteq> job_key_of j" by (simp add: job_key_of_def)
  show ?case
  proof (rule up_hset_job [OF t1], goal_cases)
    case (1 w2)
    have "zset_at (clock w) (kv w2) delayed_set_key = zset_at (clock w) (kv w1) delayed_set_key"
      using 1(3) d by (intro zset_at_cong) simp
    then show ?case using 1 w1(1) z f by simp
  qed
qed

lemma up_release_claim:
  assumes "typed (kv w)" and "kind_of k = KStr"
  shows "wp (tryc (bnd (r_eval exec (ReleaseScript k me)) (\<lambda>n. ret (n \<noteq> 0))) (\<lambda>_. ret False))
     (\<lambda>r w'. clock w' = clock w \<and> typed (kv w') \<and>
        kv w' = (if str_at (clock w) (kv w) k = Some me then wipe [k] (kv w) else kv w)) E w"
  unfolding wp_tryc wp_bnd
  by (rule up_eval) (use assms typed_str in \<open>auto simp: lua_release_def typed_wipe\<close>)

lemma up_release_slot:
  assumes "typed (kv w)" and "0 \<le> i"
  shows "wp (release_ffmpeg_slot exec (Some i) me)
     (\<lambda>r w'. clock w' = clock w \<and> typed (kv w') \<and>
        kv w' = (if str_at (clock w) (kv w) (ffmpeg_slot_key i) = Some (id_text me)
                 then wipe [ffmpeg_slot_key i] (kv w) else kv w)) E w"
proof -
  have "\<not> i < 0" using assms(2) by simp
  then show ?thesis
    unfolding release_ffmpeg_slot_def option.case by (simp only: if_False) (rule up_release_claim [OF assms(1)], simp)
qed

text \<open>The claims proper, for a job whose batch is not stopped.\<close>

lemma up_claim_resources:
  assumes typed: "typed (kv w)" and j: "j \<noteq> []" and ok: "\<And>b. job_batch_id j = Some b \<Longrightarrow> batch_id_ok b"
    and go: "\<not> stopped_at (clock w) (kv w) j" and ttl: "0 < lock_ttl (wk_batch W)"
  shows "wp (claim_resources exec W (job_batch_id j) j)
     (\<lambda>r w'. clock w' = clock w \<and>
        r = (if lock_free (clock w) (kv w) j then slot_for (wk_batch W) (clock w) (kv w) else None) \<and>
        (\<forall>i. r = Some i \<longrightarrow> (\<forall>k. k \<noteq> job_key_of j \<longrightarrow>
           kv w' k = (if k = ffmpeg_slot_key i \<or> (\<exists>b. job_batch_id j = Some b \<and> k = batch_lock_key b)
                      then claimed (wk_batch W) j (clock w) else kv w k)) \<and>
           hash_at (clock w) (kv w') (job_key_of j) = dput ''worker'' (wk_name W) (hash_at (clock w) (kv w) (job_key_of j))) \<and>
        (r = None \<longrightarrow> zset_at (clock w) (kv w') delayed_set_key = later_due W j (clock w) (kv w) \<and>
           no_claims_taken j (clock w) (kv w) (kv w'))) E w"
  (is "wp _ ?Q E w")
  unfolding claim_resources_def wp_bnd acquire_ffmpeg_slot_def Let_def option.case
proof (rule wp_mono [OF up_claim_slots [OF typed]], goal_cases)
  case (1 slot w1)
  let ?t = "clock w" and ?me = "id_text (jget j ''job_id'')"
  show ?case
  proof (cases slot)
    case None
    then have w1: "clock w1 = ?t" "kv w1 = kv w" "slot_for (wk_batch W) ?t (kv w) = None"
      using 1 by (simp_all add: slot_for_def)
    show ?thesis
      unfolding None option.case
      by (rule wp_mono [OF up_put_back])
        (use typed j go w1 in \<open>auto simp: later_due_def no_claims_taken_def\<close>)
  next
    case (Some i)
    let ?k = "ffmpeg_slot_key i"
    have w1: "clock w1 = ?t" "kv w1 = (kv w)(?k \<mapsto> (VStr ?me, Some (?t + of_int (lock_ttl (wk_batch W)))))"
      and sl: "slot_for (wk_batch W) ?t (kv w) = Some i"
      using 1 Some by (simp_all add: slot_for_def take_claim_def)
    have tk: "takeable ?t (kv w) ?k" "0 \<le> i" using sl by (auto simp: slot_for_def find_Some_iff)
    have t1: "typed (kv w1)" unfolding w1(2) by (rule typed_upd [OF typed]) simp
    have other: "takeable ?t (kv w1) (batch_lock_key b) = takeable ?t (kv w) (batch_lock_key b)" for b
      by (rule takeable_cong) (simp_all add: w1(2))
    have lock: "wp (case job_batch_id j of None \<Rightarrow> ret True
        | Some b \<Rightarrow> try_acquire_batch_lock exec (wk_batch W) b (jget j ''job_id''))
      (\<lambda>r w2. clock w2 = ?t \<and> r = lock_free ?t (kv w) j \<and>
         (\<forall>k. kv w2 k = (if r \<and> (\<exists>b. job_batch_id j = Some b \<and> k = batch_lock_key b)
            then claimed (wk_batch W) j ?t else kv w1 k)) \<and> typed (kv w2)) E w1"
    proof (cases "job_batch_id j")
      case None
      then show ?thesis using w1 t1 by (simp add: lock_free_def)
    next
      case (Some b)
      have s: "kind_of (batch_lock_key b) = KStr" using ok [OF Some] by simp
      show ?thesis
        unfolding Some option.case
        by (rule wp_mono [OF up_try_acquire_batch_lock [OF t1 ok [OF Some]]])
          (use w1(1) t1 s Some in \<open>auto simp: other lock_free_def take_claim_def claimed_def typed_upd\<close>)
    qed
    show ?thesis
      unfolding Some option.case wp_bnd
    proof (rule wp_mono [OF lock], goal_cases)
      case (1 locked w2)
      show ?case
      proof (cases locked)
        case True
        have h: "hash_at ?t (kv w2) (job_key_of j) = hash_at ?t (kv w) (job_key_of j)"
          by (rule hash_at_cong) (use 1 w1(2) in \<open>simp add: job_key_of_def\<close>)
        have "wp (suppress (r_hset exec (job_key_of j) [(''worker'', wk_name W)])) (\<lambda>_. ?Q (Some i)) E w2"
          by (rule up_hset_job) (use 1 True sl w1(2) h in \<open>auto simp: claimed_def dmerge_def\<close>)
        then show ?thesis using True by simp
      next
        case False
        have w2: "clock w2 = ?t" "kv w2 = kv w1" "\<not> lock_free ?t (kv w) j" using 1 False by auto
        have "wp (release_ffmpeg_slot exec (Some i) (jget j ''job_id''))
            (\<lambda>_. wp (put_back exec (wk_delay W) j ''waiting for batch lock'') ?Q E) E w2"
        proof (rule wp_mono [OF up_release_slot], goal_cases)
          case 1
          show ?case using t1 w2(2) by simp
        next
          case 2
          show ?case by (rule tk(2))
        next
          case (3 r w3)
          have w3: "clock w3 = ?t" "typed (kv w3)" "\<And>k. k \<noteq> ?k \<Longrightarrow> kv w3 k = kv w k"
              "\<And>k. kv w3 k = kv w k \<or> (kv w3 k = None \<and> takeable ?t (kv w) k)"
            using 3 w2 w1(2) tk ttl by (auto simp: str_at_def live_def wipe_def)
          have st: "stopped_at ?t (kv w3) j = stopped_at ?t (kv w) j"
            using w3(3) by (auto simp: stopped_at_def live_def key_defs)
          have z: "zset_at ?t (kv w3) delayed_set_key = zset_at ?t (kv w) delayed_set_key"
            by (rule zset_at_cong) (simp add: w3(3))
          show ?case
            by (rule wp_mono [OF up_put_back [OF w3(2) j]])
              (use go st z w3(1,4) w2 in \<open>auto simp: later_due_def no_claims_taken_def\<close>)
        qed simp
        then show ?thesis using False by simp
      qed
    qed simp
  qed
qed simp

end

text \<open>What the gate parks for later: the job, with one more memory deferral counted.\<close>

definition waits_for_memory :: "worker_cfg \<Rightarrow> bool \<Rightarrow> job \<Rightarrow> bool" where
  "waits_for_memory W over j \<longleftrightarrow> over \<and> (\<exists>n. ceiling_defers j = Some n \<and> n < wk_max_defers W)"

definition parked :: "worker_cfg \<Rightarrow> bool \<Rightarrow> job \<Rightarrow> job" where
  "parked W over j =
     (case ceiling_defers j of
        Some n \<Rightarrow> if over \<and> n < wk_max_defers W then dput ceiling_defer_field (PInt (n + 1)) j else j
      | None \<Rightarrow> j)"

lemma parked_fields [simp]: "f \<noteq> ceiling_defer_field \<Longrightarrow> jget (parked W over j) f = jget j f"
  by (simp add: parked_def jget_dput split: option.split)

lemma job_batch_id_get:
  "job_batch_id j = (if truthy (jget j ''batch_id'') then Some (py_str (jget j ''batch_id'')) else None)"
  by (simp add: job_batch_id_def Let_def) (simp add: jget_def)

lemma parked_same_job:
  "job_batch_id (parked W over j) = job_batch_id j" "job_key_of (parked W over j) = job_key_of j"
  "stopped_at t m (parked W over j) = stopped_at t m j" "j \<noteq> [] \<Longrightarrow> parked W over j \<noteq> []"
proof -
  show b: "job_batch_id (parked W over j) = job_batch_id j" "job_key_of (parked W over j) = job_key_of j"
    by (simp_all add: job_batch_id_get job_key_of_def ceiling_defer_field_def)
  show "stopped_at t m (parked W over j) = stopped_at t m j" by (simp add: stopped_at_def b)
  show "j \<noteq> [] \<Longrightarrow> parked W over j \<noteq> []" by (cases j) (auto simp: parked_def split: option.split)
qed

text \<open>The gate's answer, read off the key space.\<close>

definition admits :: "worker_cfg \<Rightarrow> bool \<Rightarrow> job \<Rightarrow> real \<Rightarrow> store \<Rightarrow> int option" where
  "admits W over j t m =
     (if stopped_at t m j \<or> waits_for_memory W over j \<or> \<not> lock_free t m j then None
      else slot_for (wk_batch W) t m)"

definition gate_post :: "worker_cfg \<Rightarrow> bool \<Rightarrow> job \<Rightarrow> real \<Rightarrow> store \<Rightarrow> int option \<Rightarrow> store \<Rightarrow> bool" where
  "gate_post W over j t m r m' \<longleftrightarrow> r = admits W over j t m \<and>
     (\<forall>i. r = Some i \<longrightarrow> (\<forall>k. k \<noteq> job_key_of j \<longrightarrow>
        m' k = (if k = ffmpeg_slot_key i \<or> (\<exists>b. job_batch_id j = Some b \<and> k = batch_lock_key b)
                then claimed (wk_batch W) j t else m k)) \<and>
        hash_at t m' (job_key_of j) = dput ''worker'' (wk_name W) (hash_at t m (job_key_of j))) \<and>
     (r = None \<longrightarrow> no_claims_taken j t m m' \<and>
        zset_at t m' delayed_set_key =
          (if stopped_at t m j then zset_at t m delayed_set_key else later_due W (parked W over j) t m))"

lemma gate_run:
  assumes "redis_up exec kv clock" and typed: "typed (kv w)" and "j \<noteq> []"
    and "\<And>b. job_batch_id j = Some b \<Longrightarrow> batch_id_ok b" and "0 < lock_ttl (wk_batch W)"
    and "over \<Longrightarrow> ceiling_defers j \<noteq> None"
  shows "\<exists>w'. claim_execution_slot exec W over j w = (Inr (admits W over j (clock w) (kv w)), w') \<and> clock w' = clock w \<and>
    gate_post W over j (clock w) (kv w) (admits W over j (clock w) (kv w)) (kv w')"
proof -
  let ?t = "clock w" and ?m = "kv w"
  let ?Q = "\<lambda>r w'. clock w' = ?t \<and> gate_post W over j ?t ?m r (kv w')"
  note up = redis_up.up_connect [OF assms(1)] redis_up.up_close [OF assms(1)]
  have res: "wp (claim_resources exec W (job_batch_id j) j) ?Q E w1"
    if "clock w1 = ?t" "kv w1 = ?m" "\<not> stopped_at ?t ?m j" "\<not> waits_for_memory W over j" for w1 E
  proof -
    have p: "parked W over j = j"
      using that(4) by (auto simp: parked_def waits_for_memory_def split: option.split)
    show ?thesis
      by (rule wp_mono [OF redis_up.up_claim_resources [OF assms(1)]])
        (use that assms(3-5) typed p in \<open>auto simp: admits_def gate_post_def\<close>)
  qed
  have stop: "wp (suppress (r_hset exec (job_key_of j) cancel_mark)) (\<lambda>_. ?Q None) E w1"
    if "clock w1 = ?t" "kv w1 = ?m" "stopped_at ?t ?m j" for w1 E
  proof (rule redis_up.up_hset_job [OF assms(1)], goal_cases)
    case 1
    then show ?case using that typed by simp
  next
    case (2 w2)
    have "delayed_set_key \<noteq> job_key_of j" by (simp add: job_key_of_def)
    then have "zset_at ?t (kv w2) delayed_set_key = zset_at ?t ?m delayed_set_key"
      using 2(3) that(2) by (intro zset_at_cong) simp
    then show ?case using 2 that by (simp add: admits_def gate_post_def no_claims_taken_def)
  qed
  have wait: "wp (put_back exec (wk_delay W) (dput ceiling_defer_field (PInt (n + 1)) j) ''waiting for memory cleanup'') ?Q E w1"
    if w1: "clock w1 = ?t" "kv w1 = ?m" and go: "\<not> stopped_at ?t ?m j"
      and n: "over" "ceiling_defers j = Some n" "n < wk_max_defers W" for w1 n E
  proof -
    have p: "dput ceiling_defer_field (PInt (n + 1)) j = parked W over j" using n by (simp add: parked_def)
    show ?thesis
      unfolding p
      by (rule wp_mono [OF redis_up.up_put_back [OF assms(1)]])
        (use w1 go n typed assms(3) in \<open>auto simp: parked_same_job gate_post_def admits_def waits_for_memory_def later_due_def no_claims_taken_def\<close>)
  qed
  have body: "wp (bnd (case job_batch_id j of None \<Rightarrow> ret False | Some b \<Rightarrow> is_batch_cancelled exec False b) (\<lambda>stopped.
        if stopped then bnd (suppress (r_hset exec (job_key_of j) cancel_mark)) (\<lambda>_. ret None)
        else if over then
          (case ceiling_defers j of
             None \<Rightarrow> raise ValueError
           | Some n \<Rightarrow>
               if n < wk_max_defers W
               then put_back exec (wk_delay W) (dput ceiling_defer_field (PInt (n + 1)) j) ''waiting for memory cleanup''
               else claim_resources exec W (job_batch_id j) j)
        else claim_resources exec W (job_batch_id j) j)) ?Q (\<lambda>_ _. False) w1" if w1: "clock w1 = ?t" "kv w1 = ?m" for w1
    unfolding wp_bnd
  proof (rule wp_mono [OF redis_up.up_ask_stopped [OF assms(1)]], goal_cases)
    case (1 stopped w2)
    then have w2: "clock w2 = ?t" "kv w2 = ?m" "stopped = stopped_at ?t ?m j" using w1 by simp_all
    show ?case
    proof (cases "stopped \<or> \<not> over")
      case True
      then show ?thesis using stop [of w2] res [of w2] w2 by (auto simp: waits_for_memory_def)
    next
      case False
      then obtain n where n: "ceiling_defers j = Some n" using assms(6) by auto
      then show ?thesis using wait [of w2 n] res [of w2] w2 False by (auto simp: waits_for_memory_def)
    qed
  qed simp
  have close: "wp (suppress (r_close exec)) (\<lambda>_. ?Q r) (\<lambda>_ _. False) w2" if "?Q r w2" for r w2
    unfolding wp_suppress by (rule up(2)) (use that in simp)
  have "wp (claim_execution_slot exec W over j) ?Q (\<lambda>_ _. False) w"
    unfolding claim_execution_slot_def wp_bnd wp_attempt
    by (rule up(1), simp only: option.distinct if_False wp_fin, rule wp_mono [OF body])
      (simp_all only: close simp_thms)
  then show ?thesis unfolding wp_outcome by (auto simp: gate_post_def)
qed


section \<open>One conversion per slot\<close>

lemma slot_key_inject [simp]: "ffmpeg_slot_key i = ffmpeg_slot_key i' \<longleftrightarrow> i = i'"
proof
  assume "ffmpeg_slot_key i = ffmpeg_slot_key i'"
  then have "py_int (int_str i) = py_int (int_str i')" by (simp add: key_defs)
  then show "i = i'" by simp
qed simp

lemma slot_key_not_job: "ffmpeg_slot_key i \<noteq> job_key_of j"
  by (simp add: job_key_of_def)

lemma slot_for_in_pool:
  assumes "slot_for cfg t m = Some i"
  shows "takeable t m (ffmpeg_slot_key i) \<and> 0 \<le> i \<and> i < max_ffmpeg cfg"
proof -
  have "i \<in> set [0..max_ffmpeg cfg - 1]" "takeable t m (ffmpeg_slot_key i)"
    using assms unfolding slot_for_def find_Some_iff by auto
  then show ?thesis by simp
qed


text \<open>A queued job and a worker that reports; and the same a little later, with the claim taken.\<close>

definition demo_worker :: worker_cfg where
  "demo_worker = \<lparr>wk_batch = default_cfg, wk_max_defers = 3, wk_delay = 10, wk_name = ''w9'', wk_rss_ttl = 120\<rparr>"

definition demo_gate :: mem where
  "demo_gate = \<lparr>mstore =
     [(''ffmpeg:job:j9'', VHash [(''status'', ''queued'')], None),
      (''ffmpeg:worker:rss:w9'', VStr ''1000'', None)], mclock = 0\<rparr>"

definition demo_gate_taken :: mem where
  "demo_gate_taken = \<lparr>mstore =
     [(''ffmpeg:slot:0'', VStr ''j9'', Some 900),
      (''ffmpeg:job:j9'', VHash [(''status'', ''queued''), (''worker'', ''w9'')], None),
      (''ffmpeg:worker:rss:w9'', VStr ''1000'', None)], mclock = 60\<rparr>"

abbreviation job_named :: "string \<Rightarrow> job" where
  "job_named s \<equiv> [(''job_id'', PStr s)]"

lemma demo_gate_typed: "typed (mkv demo_gate)" "typed (mkv demo_gate_taken)"
  unfolding mkv_def demo_gate_def demo_gate_taken_def mem.simps
  by (rule typed_map_of, simp add: kind_of_def key_defs starts_with_def rpartition_at_def)+

lemma job_named_simps [simp]:
  "job_batch_id (job_named s) = None" "jget (job_named s) ''job_id'' = PStr s"
  "job_key_of (job_named s) = ''ffmpeg:job:'' @ s" "ceiling_defers (job_named s) = Some 0"
  by (simp_all add: job_batch_id_get jget_def job_key_of_def key_defs ceiling_defers_def ceiling_defer_field_def
      py_or_def int_of_def)

lemma demo_worker_simps [simp]:
  "wk_batch demo_worker = default_cfg" "wk_name demo_worker = ''w9''" "mclock demo_gate = 0" "mclock demo_gate_taken = 60"
  by (simp_all add: demo_worker_def demo_gate_def demo_gate_taken_def)

lemma slot_0: "ffmpeg_slot_key 0 = ''ffmpeg:slot:0''"
  by (simp add: key_defs int_str_01)

lemma demo_gate_admits: "admits demo_worker False (job_named ''j9'') 0 (mkv demo_gate) = Some 0"
proof -
  have "takeable 0 (mkv demo_gate) (ffmpeg_slot_key 0)"
    by (simp add: takeable_def str_at_def live_def mkv_def demo_gate_def slot_0)
  moreover have "[0..(1::int) - 1] = [0]" by (simp add: upto_rec1)
  ultimately show ?thesis
    by (simp add: admits_def stopped_at_def waits_for_memory_def lock_free_def slot_for_def)
qed

lemma demo_gate_granted:
  "\<exists>w1. claim_execution_slot mem_exec demo_worker False (job_named ''j9'') demo_gate = (Inr (Some 0), w1) \<and>
     mkv w1 ''ffmpeg:slot:0'' = Some (VStr ''j9'', Some 900) \<and>
     hash_at 0 (mkv w1) ''ffmpeg:job:j9'' = [(''status'', ''queued''), (''worker'', ''w9'')]"
proof -
  have "hash_at 0 (mkv demo_gate) ''ffmpeg:job:j9'' = [(''status'', ''queued'')]"
    by (simp add: hash_at_def live_def mkv_def demo_gate_def)
  then show ?thesis
    using gate_run [where j = "job_named ''j9''" and W = demo_worker and over = False,
        OF memory_up demo_gate_typed(1)] demo_gate_admits
    by (auto simp: gate_post_def claimed_def id_text_def slot_0)
qed



end
