(* ===== verification/WorkerPath.thy ===== *)
theory WorkerPath
  imports WorkerResults BatchPurgeResults
begin

text \<open>
  The path of one job from a queue to its release: what can make it raise, what it writes, and what
  it has given back when it ends.
\<close>

section \<open>What raises\<close>

lemma safe_claims:
  "safe (claim_slot exec owner ms i)" "safe (acquire_ffmpeg_slot exec cfg v slots ttl)"
  "safe (try_acquire_batch_lock exec cfg b v)" "safe (release_ffmpeg_slot exec slot v)"
  "safe (release_batch_lock exec b v)" "safe (is_batch_cancelled exec own b)" "safe (defer_batch_job exec j d)"
  "safe (publish_worker_rss exec own rss_ttl name rss)" "safe (put_back exec d j why)"
  unfolding claim_slot_def acquire_ffmpeg_slot_def try_acquire_batch_lock_def release_ffmpeg_slot_def
    release_batch_lock_def is_batch_cancelled_def defer_batch_job_def publish_worker_rss_def put_back_def Let_def
  by (intro safe_intros safe_cases safe_with_client)+

lemma safe_claim_resources: "safe (claim_resources exec W batch j)"
  unfolding claim_resources_def by (intro safe_intros safe_cases safe_claims)

lemma safe_delivered: "safe (job_already_delivered exec j)"
  unfolding job_already_delivered_def by (intro safe_intros safe_cases safe_attempt)

lemma safe_report: "safe (report_batch_progress exec S j)"
  unfolding report_batch_progress_def by (intro safe_intros safe_cases safe_attempt)

lemma safe_wind_up: "safe (wind_up exec S j i)"
  unfolding wind_up_def by (intro safe_intros)

text \<open>\<open>raises P m\<close>: whatever \<open>m\<close> raises satisfies \<open>P\<close>.\<close>

definition raises :: "(exn \<Rightarrow> bool) \<Rightarrow> ('w, 'a) io \<Rightarrow> bool" where
  "raises P m \<longleftrightarrow> (\<forall>w. wp m (\<lambda>_ _. True) (\<lambda>e _. P e) w)"

lemma raisesD: "raises P m \<Longrightarrow> m w = (Inl e, w') \<Longrightarrow> P e"
  unfolding raises_def by (drule spec [of _ w], drule wpD_exn [rotated]) auto

lemma raises_safe: "safe m \<Longrightarrow> raises P m"
  unfolding safe_def raises_def by (auto elim!: wp_mono dest: spec)

lemma raises_raise: "P e \<Longrightarrow> raises P (raise e)"
  by (simp add: raises_def)

lemma raises_own: "(\<And>e w w'. m w = (Inl e, w') \<Longrightarrow> P e) \<Longrightarrow> raises P m"
  unfolding raises_def by (intro allI wpI) auto

lemma raises_mono: "raises P m \<Longrightarrow> (\<And>e. P e \<Longrightarrow> Q e) \<Longrightarrow> raises Q m"
  unfolding raises_def by (blast intro: wp_mono)

lemma raises_bnd:
  assumes "raises P m" and "\<And>x. raises P (f x)"
  shows "raises P (bnd m f)"
  unfolding raises_def wp_bnd
proof
  fix w
  have "wp m (\<lambda>_ _. True) (\<lambda>e _. P e) w" using assms(1) by (simp add: raises_def)
  then show "wp m (\<lambda>x. wp (f x) (\<lambda>_ _. True) (\<lambda>e _. P e)) (\<lambda>e _. P e) w"
    by (rule wp_mono) (use assms(2) in \<open>auto simp: raises_def\<close>)
qed

lemma raises_fin:
  assumes "raises P m" and "safe c"
  shows "raises P (fin m c)"
  unfolding raises_def wp_fin
proof
  fix w
  have c: "wp c (\<lambda>_ _. Q) (\<lambda>e _. P e) w" if Q for Q w
    using assms(2) that by (auto simp: safe_def elim!: wp_mono dest: spec)
  have "wp m (\<lambda>_ _. True) (\<lambda>e _. P e) w" using assms(1) by (simp add: raises_def)
  then show "wp m (\<lambda>x. wp c (\<lambda>_ _. True) (\<lambda>e _. P e)) (\<lambda>e. wp c (\<lambda>_ _. P e) (\<lambda>e _. P e)) w"
    by (rule wp_mono) (simp_all add: c)
qed

lemma raises_cases:
  "(b \<Longrightarrow> raises P m) \<Longrightarrow> (\<not> b \<Longrightarrow> raises P n) \<Longrightarrow> raises P (if b then m else n)"
  "(v = None \<Longrightarrow> raises P m) \<Longrightarrow> (\<And>x. v = Some x \<Longrightarrow> raises P (f x)) \<Longrightarrow> raises P (case v of None \<Rightarrow> m | Some x \<Rightarrow> f x)"
  by (auto split: option.split)

lemma gate_raises: "raises (\<lambda>e. e = ValueError \<and> over \<and> ceiling_defers j = None) (claim_execution_slot exec W over j)"
  unfolding claim_execution_slot_def
  by (intro raises_bnd raises_fin raises_cases;
      (rule raises_safe, intro safe_intros safe_cases safe_attempt safe_claims safe_claim_resources)?;
      (rule raises_raise safe_suppress)?; simp)

text \<open>
  A job's path raises only what the conversion raised; the one other way is a deferral count in the
  payload that is not a number, read when memory is short.  No failure of Redis or Telegram, before or
  after the conversion, reaches the caller.
\<close>

theorem path_raises_only_conversion:
  assumes "run_queued_job exec S j w = (Inl e, w')"
  shows "(\<exists>w1 w2. st_handle S j w1 = (Inl e, w2)) \<or> (e = ValueError \<and> st_over S \<and> ceiling_defers j = None)"
proof -
  let ?P = "\<lambda>e. (\<exists>w1 w2. st_handle S j w1 = (Inl e, w2)) \<or> (e = ValueError \<and> st_over S \<and> ceiling_defers j = None)"
  have gate: "raises ?P (claim_execution_slot exec (st_cfg S) (st_over S) j)"
    by (rule raises_mono [OF gate_raises]) blast
  have conv: "raises ?P (st_handle S j)" by (rule raises_own) blast
  have "raises ?P (run_queued_job exec S j)"
    unfolding run_queued_job_def
    by (intro raises_bnd raises_cases gate raises_fin conv safe_wind_up;
        rule raises_safe, intro safe_delivered safe_intros)
  then show ?thesis by (rule raisesD [of ?P]) (rule assms)
qed

text \<open>A worker over the server above, with a conversion of its own.\<close>

definition demo_station :: "(job \<Rightarrow> (mem, unit) io) \<Rightarrow> mem station" where
  "demo_station convert =
     \<lparr>st_cfg = demo_worker,
      st_tg = \<lparr>tg_mono = mclock, tg_digest = (\<lambda>s. int (length s)),
        tg_flood = \<lparr>flood_key_prefix = ''ffmpeg:flood:'', flood_namespace = ''default'', redis_backoff = 30\<rparr>\<rparr>,
      st_render = (\<lambda>n m name rows. int_str n @ ''/'' @ int_str m), st_token = True,
      st_desk = \<lparr>dk_edits = new_coalescer 3 500,
        dk_gate = \<lparr>inline_max = 5, resync_interval = 2, attached = False, until = [], last_read = [], backend_down_until = 0\<rparr>\<rparr>,
      st_rss = 1000, st_over = False, st_handle = convert\<rparr>"

lemma demo_path_raises:
  "fst (run_queued_job mem_exec (demo_station (\<lambda>_. raise RuntimeError)) (job_named ''j9'') demo_gate) = Inl RuntimeError"
  by code_simp

theorem path_raises_only_conversion_witness:
  "\<exists>w1 w2. st_handle (demo_station (\<lambda>_. raise RuntimeError)) (job_named ''j9'') w1 = (Inl RuntimeError, w2)"
proof -
  let ?S = "demo_station (\<lambda>_. raise RuntimeError)"
  obtain w' where "run_queued_job mem_exec ?S (job_named ''j9'') demo_gate = (Inl RuntimeError, w')"
    using demo_path_raises by (cases "run_queued_job mem_exec ?S (job_named ''j9'') demo_gate") simp
  from path_raises_only_conversion [OF this] show ?thesis by blast
qed

section \<open>What the report writes\<close>

definition report_key :: "'w station \<Rightarrow> string \<Rightarrow> string \<Rightarrow> bool" where
  "report_key S b k \<longleftrightarrow>
     k \<in> {batch_done_jobs_key b, batch_progress_key b, batch_message_key b, active_batches_key} \<or>
     (\<exists>c. k = flood_key (tg_flood (st_tg S)) (scope_for_chat (Some c)))"

context redis_server begin

lemma touches_r_mono: "touches kv clock K (r_mono f)"
  by (rule touchesI) (simp add: wp_def r_mono_def frame_refl)

lemma touches_chat:
  "touches kv clock K (exec OpenBot)" "touches kv clock K (exec (DeleteMessage c m))"
  "touches kv clock K (exec (EditMessage c m s))" "touches kv clock K (exec (SendMessage s' s))"
  by (rule touches_exec; simp)+

lemma touches_raise: "touches kv clock K (raise e)"
  by (rule keeps_touches, rule keeps_raise)

lemmas touches_parts = touches_raise touches_intros touches_reads touches_attempt touches_with_client touches_r_time touches_r_mono
  touches_chat

lemma touches_cancelled: "touches kv clock K (is_batch_cancelled exec own b)"
  unfolding is_batch_cancelled_def by (intro touches_parts)

lemma touches_gate:
  "touches kv clock K (gate_client exec ticks cfg g)" "touches kv clock K (gate_down ticks cfg g)"
  unfolding gate_client_def gate_down_def shared_flood_redis_def by (intro touches_parts)+

lemma touches_should_drop: "touches kv clock K (should_drop_inline exec ticks cfg scope g)"
  unfolding should_drop_inline_def remaining_def gate_sync_def gate_read_def gate_release_def
  by (intro touches_parts touches_gate)

lemma touches_note_flood: "K (flood_key cfg scope) \<Longrightarrow> touches kv clock K (note_flood exec ticks cfg v scope g)"
  unfolding note_flood_def gate_publish_def gate_release_def Let_def
  by (intro touches_parts touches_gate touches_writes) simp

lemma touches_repost: "K (batch_message_key b) \<Longrightarrow> touches kv clock K (repost exec cfg b chat content D)"
  unfolding repost_def post_bar_def by (intro touches_parts touches_cancelled touches_writes) simp

lemma touches_exn:
  "(\<And>n. touches kv clock K (f n)) \<Longrightarrow> touches kv clock K g \<Longrightarrow> touches kv clock K h \<Longrightarrow>
   touches kv clock K (case e of RetryAfter n \<Rightarrow> f n | BadRequest \<Rightarrow> g | _ \<Rightarrow> h)"
  by (cases e) simp_all

lemma touches_set_message:
  assumes "K (batch_message_key b)" and "\<And>c. K (flood_key (tg_flood T) (scope_for_chat (Some c)))"
  shows "touches kv clock K (set_batch_message exec cfg T b chat stored content D)"
  unfolding set_batch_message_def Let_def
  by (intro touches_parts touches_exn touches_repost touches_should_drop touches_note_flood assms)

lemma touches_take_down: "K k \<Longrightarrow> touches kv clock K (take_down_bar exec k stored D)"
  unfolding take_down_bar_def by (intro touches_parts touches_writes) auto

lemma touches_unregister: "K active_batches_key \<Longrightarrow> touches kv clock K (unregister_active_batch exec own b)"
  unfolding unregister_active_batch_def by (intro touches_parts touches_writes) simp

lemma touches_batch_state: "K active_batches_key \<Longrightarrow> touches kv clock K (batch_state exec b j)"
  unfolding batch_state_def read_active_batches_def read_batch_counters_def
  by (intro touches_parts touches_writes) simp_all

lemma touches_count_file:
  "K (batch_done_jobs_key b) \<Longrightarrow> K (batch_progress_key b) \<Longrightarrow> touches kv clock K (count_file exec cfg b j)"
  unfolding count_file_def claim_batch_progress_slot_def by (intro touches_parts touches_writes) simp_all

lemma touches_owns: "touches kv clock K (batch_owns_state exec b)"
  unfolding batch_owns_state_def by (intro touches_parts)

lemma touches_report:
  assumes "\<And>b k. job_batch_id j = Some b \<Longrightarrow> report_key S b k \<Longrightarrow> K k"
  shows "touches kv clock K (report_batch_progress exec S j)"
  unfolding report_batch_progress_def report_file_def Let_def
  by (intro touches_parts touches_cancelled touches_owns touches_count_file touches_batch_state touches_take_down
      touches_unregister touches_set_message assms) (auto simp: report_key_def)

end

text \<open>
  The report of a finished file never raises and, whatever fails, writes nothing but the batch's done
  set, its counter and its message reference, the list of active batches, and the flood window of the
  chat it posts in: no claim, no queue, no other batch.
\<close>

theorem report_keeps_to_its_batch:
  assumes "redis_server exec kv clock"
  shows "\<exists>D w'. report_batch_progress exec S j w = (Inr D, w') \<and>
    (\<forall>k. kv w' k = kv w k \<or> (\<exists>b. job_batch_id j = Some b \<and> report_key S b k))"
proof -
  obtain D w' where o: "report_batch_progress exec S j w = (Inr D, w')"
    using safe_result [OF safe_report] by (metis fst_conv surj_pair)
  have t: "touches kv clock (\<lambda>k. \<exists>b. job_batch_id j = Some b \<and> report_key S b k) (report_batch_progress exec S j)"
    by (rule redis_server.touches_report [OF assms]) blast
  have "kv w' k = kv w k" if "\<not> (\<exists>b. job_batch_id j = Some b \<and> report_key S b k)" for k
    using touches_final [OF t that, of w] o by simp
  then show ?thesis using o by blast
qed

theorem report_keeps_to_its_batch_witness:
  "\<exists>D w'. report_batch_progress mem_exec (demo_station (\<lambda>_. ret ())) [(''job_id'', PStr ''j2''), (''batch_id'', PStr ''ab''),
      (''chat_id'', PInt 7)] demo_claims = (Inr D, w') \<and> mkv w' ''ffmpeg:slot:0'' = Some (VStr ''j1'', None)"
proof -
  let ?j = "[(''job_id'', PStr ''j2''), (''batch_id'', PStr ''ab''), (''chat_id'', PInt 7)]"
  let ?S = "demo_station (\<lambda>_. ret ())"
  obtain D w' where o: "report_batch_progress mem_exec ?S ?j demo_claims = (Inr D, w')"
    and k: "mkv w' ''ffmpeg:slot:0'' = mkv demo_claims ''ffmpeg:slot:0'' \<or>
      (\<exists>b. job_batch_id ?j = Some b \<and> report_key ?S b ''ffmpeg:slot:0'')"
    using report_keeps_to_its_batch [OF memory_server, of ?S ?j demo_claims] by blast
  have "\<not> report_key ?S b ''ffmpeg:slot:0''" for b
    by (simp add: report_key_def key_defs flood_key_def demo_station_def)
  then have "mkv w' ''ffmpeg:slot:0'' = mkv demo_claims ''ffmpeg:slot:0''" using k by blast
  then show ?thesis using o by (simp add: mkv_def demo_claims_def)
qed

section \<open>The claims after the run\<close>

text \<open>The keys a job claims by: the slots, and its batch's lock.\<close>

definition claim_of :: "job \<Rightarrow> string \<Rightarrow> bool" where
  "claim_of j k \<longleftrightarrow> (\<exists>i. k = ffmpeg_slot_key i) \<or> (\<exists>b. job_batch_id j = Some b \<and> k = batch_lock_key b)"

definition holds_none :: "job \<Rightarrow> real \<Rightarrow> store \<Rightarrow> bool" where
  "holds_none j t m \<longleftrightarrow> (\<forall>k. claim_of j k \<longrightarrow> str_at t m k \<noteq> Some (id_text (jget j ''job_id'')))"

definition flood_keys_apart :: "'w station \<Rightarrow> bool" where
  "flood_keys_apart S \<longleftrightarrow> starts_with ''ffmpeg:flood:'' (flood_key_prefix (tg_flood (st_tg S)))"

lemma holds_none_later:
  assumes "holds_none j t m" and "t \<le> t'" and "\<And>k. claim_of j k \<Longrightarrow> m' k = m k"
  shows "holds_none j t' m'"
  using assms str_at_later [of t' m _ _ t] str_at_cong [of m' _ m t'] unfolding holds_none_def by metis

lemma is_str_later: "is_str (live t m k) \<Longrightarrow> t \<le> t' \<Longrightarrow> is_str (live t' m k)"
  by (auto simp: live_def is_str_def split: option.splits rval.splits)

lemma lock_not_state:
  assumes "batch_id_ok b"
  shows "batch_lock_key b \<notin> {batch_done_jobs_key b', batch_progress_key b', batch_message_key b', active_batches_key}"
proof -
  have c: "CHR '':'' \<notin> set b" "b \<noteq> ''active''" using assms by (auto simp: batch_id_ok_def non_batch_suffixes_def)
  then show ?thesis by (auto simp: key_defs)
qed

lemma claim_not_report:
  assumes "claim_of j k" and "\<And>b. job_batch_id j = Some b \<Longrightarrow> batch_id_ok b" and "flood_keys_apart S"
  shows "\<not> (\<exists>b. job_batch_id j = Some b \<and> report_key S b k)"
proof
  assume "\<exists>b. job_batch_id j = Some b \<and> report_key S b k"
  then obtain b where b: "job_batch_id j = Some b" "report_key S b k" by blast
  obtain p where p: "flood_key_prefix (tg_flood (st_tg S)) = ''ffmpeg:flood:'' @ p"
    using assms(3) by (auto simp: flood_keys_apart_def starts_with_iff)
  have f: "k \<noteq> flood_key (tg_flood (st_tg S)) c" for c
    using assms(1) by (auto simp: claim_of_def flood_key_def p key_defs)
  have "k \<notin> {batch_done_jobs_key b, batch_progress_key b, batch_message_key b, active_batches_key}"
    using assms(1) lock_not_state [OF assms(2)] by (auto simp: claim_of_def) (simp_all add: key_defs)
  then show False using b(2) f by (auto simp: report_key_def)
qed

lemma gate_post_none: "gate_post W over j t m None m' \<Longrightarrow> no_claims_taken j t m m'"
  unfolding gate_post_def by (elim conjE impE) (rule refl)

lemma no_claims_takenD:
  "no_claims_taken j t m m' \<Longrightarrow> k \<noteq> delayed_set_key \<Longrightarrow> k \<noteq> job_key_of j \<Longrightarrow> m' k = m k \<or> m' k = None"
  unfolding no_claims_taken_def by auto

lemma frame_report_claim:
  assumes "frame (\<lambda>k. \<exists>b. job_batch_id j = Some b \<and> report_key S b k) m m'" and "claim_of j k"
    and "\<And>b. job_batch_id j = Some b \<Longrightarrow> batch_id_ok b" and "flood_keys_apart S"
  shows "m' k = m k"
  using claim_not_report [where S = S, OF assms(2-4)] assms(1) unfolding frame_def by blast

context redis_up begin

lemma up_release_str:
  assumes "is_str (live (clock w) (kv w) k)"
  shows "wp (tryc (bnd (r_eval exec (ReleaseScript k me)) (\<lambda>n. ret (n \<noteq> 0))) (\<lambda>_. ret False))
     (\<lambda>r w'. clock w' = clock w \<and> kv w' = (if str_at (clock w) (kv w) k = Some me then wipe [k] (kv w) else kv w)) E w"
  unfolding wp_tryc wp_bnd
  by (rule up_eval) (use assms in \<open>auto simp: lua_release_def\<close>)

lemma up_lazy_client:
  assumes "\<And>w1. clock w1 = clock w \<Longrightarrow> kv w1 = kv w \<Longrightarrow> wp m (\<lambda>r. Q (True, Some r)) (\<lambda>_. Q (True, None)) w1"
  shows "wp (with_lazy_client exec given m) Q E w"
  using assms unfolding with_lazy_client_def
  by (cases given) (auto intro!: up_connect)

text \<open>The keys of the claims a job can hold: its slot and its batch's lock.\<close>

lemma up_finalize:
  assumes "0 \<le> i" and "is_str (live (clock w) (kv w) (ffmpeg_slot_key i))"
    and "\<And>b. job_batch_id j = Some b \<Longrightarrow> is_str (live (clock w) (kv w) (batch_lock_key b))"
    and me: "me = id_text (jget j ''job_id'')"
  shows "wp (finalize_job exec given j (Some i))
     (\<lambda>r w'. clock w' = clock w \<and> (\<forall>k. kv w' k =
        (if (k = ffmpeg_slot_key i \<or> (\<exists>b. job_batch_id j = Some b \<and> k = batch_lock_key b)) \<and>
            str_at (clock w) (kv w) k = Some me then None else kv w k))) (\<lambda>_ _. False) w"
    (is "wp _ ?Q _ _")
proof -
  let ?k = "ffmpeg_slot_key i" and ?t = "clock w"
  let ?m1 = "if str_at ?t (kv w) ?k = Some me then wipe [?k] (kv w) else kv w"
  have i: "\<not> i < 0" using assms(1) by simp
  have slot: "wp (with_lazy_client exec given (release_ffmpeg_slot exec (Some i) (jget j ''job_id'')))
     (\<lambda>_ w1. clock w1 = ?t \<and> kv w1 = ?m1) (\<lambda>_ _. False) w"
  proof (rule up_lazy_client)
    fix w1 assume "clock w1 = ?t" "kv w1 = kv w"
    then show "wp (release_ffmpeg_slot exec (Some i) (jget j ''job_id'')) (\<lambda>_ w1. clock w1 = ?t \<and> kv w1 = ?m1)
        (\<lambda>_ w1. clock w1 = ?t \<and> kv w1 = ?m1) w1"
      unfolding release_ffmpeg_slot_def option.case if_not_P [OF i]
      using wp_mono [OF up_release_str [of w1 ?k "id_text (jget j ''job_id'')"]] assms(2) me by auto
  qed
  have lock: "wp (case job_batch_id j of None \<Rightarrow> ret (g, None)
      | Some b \<Rightarrow> with_lazy_client exec g (release_batch_lock exec b (jget j ''job_id''))) (\<lambda>_. ?Q r) (\<lambda>_ _. False) w1"
    if w1: "clock w1 = ?t" "kv w1 = ?m1" for g w1 r
  proof (cases "job_batch_id j")
    case None
    then show ?thesis using w1 by (simp add: wipe_def)
  next
    case (Some b)
    let ?b = "batch_lock_key b"
    have same: "kv w1 ?b = kv w ?b" using w1(2) by (simp add: wipe_def)
    have s: "is_str (live ?t (kv w1) ?b)" "str_at ?t (kv w1) ?b = str_at ?t (kv w) ?b"
      using assms(3) [OF Some] live_cong [of "kv w1" ?b "kv w" ?t, OF same] str_at_cong [of "kv w1" ?b "kv w" ?t, OF same]
      by simp_all
    show ?thesis
      unfolding Some option.case release_batch_lock_def
    proof (rule up_lazy_client, rule wp_mono [OF up_release_str], goal_cases)
      case (1 w2)
      then show ?case using s w1 by simp
    next
      case (2 w2 x w3)
      then show ?case using s w1 me Some by (auto simp: wipe_def)
    qed simp
  qed
  show ?thesis
    unfolding finalize_job_def option.case wp_bnd
  proof (rule wp_mono [OF slot], goal_cases)
    case (1 x w1)
    obtain g f where x: "x = (g, f)" by (cases x)
    show ?case
      unfolding x prod.case wp_bnd
      by (rule wp_mono [OF lock]) (use 1 in \<open>auto split: prod.split\<close>)
  qed simp
qed

lemma up_wind_up:
  assumes "0 \<le> i" and str: "\<And>k. claim_of j k \<Longrightarrow> is_str (live (clock w) (kv w) k)"
    and ok: "\<And>b. job_batch_id j = Some b \<Longrightarrow> batch_id_ok b" and "flood_keys_apart S"
    and free: "\<And>k. claim_of j k \<Longrightarrow> k \<noteq> ffmpeg_slot_key i \<Longrightarrow> \<not> (\<exists>b. job_batch_id j = Some b \<and> k = batch_lock_key b) \<Longrightarrow>
      str_at (clock w) (kv w) k \<noteq> Some (id_text (jget j ''job_id''))"
  shows "wp (wind_up exec S j i) (\<lambda>_ w'. clock w \<le> clock w' \<and> holds_none j (clock w') (kv w')) (\<lambda>_ _. False) w"
    (is "wp _ ?Q _ _")
proof -
  let ?me = "id_text (jget j ''job_id'')"
  have own: "claim_of j (ffmpeg_slot_key i)" "job_batch_id j = Some b \<Longrightarrow> claim_of j (batch_lock_key b)" for b
    by (auto simp: claim_of_def)
  have publish: "wp (publish_worker_rss exec True ttl name rss) (\<lambda>_. ?Q ()) (\<lambda>_. ?Q ()) w2"
    if "clock w \<le> clock w2" "holds_none j (clock w2) (kv w2)" for w2 ttl name rss
  proof -
    have t: "touches kv clock (\<lambda>k. k = worker_rss_key name) (publish_worker_rss exec True ttl name rss)"
      unfolding publish_worker_rss_def by (intro touches_parts touches_writes) simp
    have c: "\<not> claim_of j (worker_rss_key name)" by (simp add: claim_of_def)
    have step: "?Q () w3" if "clock w2 \<le> clock w3 \<and> frame (\<lambda>k. k = worker_rss_key name) (kv w2) (kv w3)" for w3
    proof
      show "clock w \<le> clock w3" using that \<open>clock w \<le> clock w2\<close> by simp
      show "holds_none j (clock w3) (kv w3)"
        by (rule holds_none_later [OF \<open>holds_none j (clock w2) (kv w2)\<close>])
          (use that c in \<open>simp_all add: frame_def, metis\<close>)
    qed
    show ?thesis by (rule wp_mono [OF touchesD [OF t]]) (use step in blast)+
  qed
  have finish: "wp (suppress (bnd (finalize_job exec False j (Some i)) (\<lambda>_.
      publish_worker_rss exec True (wk_rss_ttl (st_cfg S)) (wk_name (st_cfg S)) (st_rss S)))) ?Q (\<lambda>_ _. False) w1"
    if w1: "clock w \<le> clock w1" "\<And>k. claim_of j k \<Longrightarrow> kv w1 k = kv w k" for w1
  proof -
    have s: "is_str (live (clock w1) (kv w1) k)" if "claim_of j k" for k
      using is_str_later [OF str [OF that] w1(1)] live_cong [of "kv w1" k "kv w" "clock w1", OF w1(2) [OF that]] by simp
    have f: "str_at (clock w1) (kv w1) k \<noteq> Some ?me"
      if "claim_of j k" "k \<noteq> ffmpeg_slot_key i" "\<not> (\<exists>b. job_batch_id j = Some b \<and> k = batch_lock_key b)" for k
      using free [OF that] str_at_later [of "clock w1" "kv w" k ?me "clock w"] w1(1)
        str_at_cong [of "kv w1" k "kv w" "clock w1", OF w1(2) [OF that(1)]] by auto
    show ?thesis
      unfolding wp_suppress wp_bnd
    proof (rule wp_mono [OF up_finalize [where w = w1 and i = i and j = j, OF assms(1) s s refl]], goal_cases)
      case (3 r w2)
      have "holds_none j (clock w2) (kv w2)"
        unfolding holds_none_def
      proof (intro allI impI)
        fix k assume k: "claim_of j k"
        show "str_at (clock w2) (kv w2) k \<noteq> Some ?me"
        proof (cases "kv w2 k = None")
          case True
          then show ?thesis by (simp add: str_at_def live_def)
        next
          case False
          then have "kv w2 k = kv w1 k" using 3 by (auto split: if_splits)
          then have e: "str_at (clock w2) (kv w2) k = str_at (clock w1) (kv w1) k"
            using 3 str_at_cong [of "kv w2" k "kv w1" "clock w1"] by simp
          show ?thesis using f [OF k] e 3 False by (auto split: if_splits)
        qed
      qed
      then show ?case using publish [of w2] 3 w1(1) by auto
    qed (use own in auto)
  qed
  have t: "touches kv clock (\<lambda>k. \<exists>b. job_batch_id j = Some b \<and> report_key S b k) (report_batch_progress exec S j)"
    by (rule touches_report) blast
  have step: "wp (suppress (bnd (finalize_job exec False j (Some i)) (\<lambda>_.
      publish_worker_rss exec True (wk_rss_ttl (st_cfg S)) (wk_name (st_cfg S)) (st_rss S)))) ?Q (\<lambda>_ _. False) w1"
    if "clock w \<le> clock w1 \<and> frame (\<lambda>k. \<exists>b. job_batch_id j = Some b \<and> report_key S b k) (kv w) (kv w1)" for w1
    by (rule finish) (use that frame_report_claim [OF _ _ ok assms(4)] in blast)+
  show ?thesis
    unfolding wind_up_def wp_bnd [of "suppress (report_batch_progress exec S j)"] wp_suppress [of "report_batch_progress exec S j"]
    by (rule wp_mono [OF touchesD [OF t]]) (rule step, assumption)+
qed

lemma up_run:
  assumes typed: "typed (kv w)" and "j \<noteq> []"
    and ok: "\<And>b. job_batch_id j = Some b \<Longrightarrow> batch_id_ok b" and "0 < lock_ttl (wk_batch (st_cfg S))"
    and "st_over S \<Longrightarrow> ceiling_defers j \<noteq> None" and apart: "flood_keys_apart S"
    and conv: "\<And>w1 r w2 k. st_handle S j w1 = (r, w2) \<Longrightarrow> claim_of j k \<Longrightarrow> is_str (live (clock w1) (kv w1) k) \<Longrightarrow>
      is_str (live (clock w2) (kv w2) k) \<and>
      (str_at (clock w2) (kv w2) k = Some (id_text (jget j ''job_id'')) \<longrightarrow>
       str_at (clock w1) (kv w1) k = Some (id_text (jget j ''job_id'')))"
    and none: "holds_none j (clock w) (kv w)"
  shows "wp (run_queued_job exec S j) (\<lambda>_ w'. holds_none j (clock w') (kv w')) (\<lambda>_ w'. holds_none j (clock w') (kv w')) w"
    (is "wp _ (\<lambda>_. ?Q) (\<lambda>_. ?Q) w")
proof -
  let ?me = "id_text (jget j ''job_id'')" and ?t = "clock w"
  let ?go = "bnd (claim_execution_slot exec (st_cfg S) (st_over S) j) (\<lambda>slot.
       case slot of None \<Rightarrow> ret () | Some i \<Rightarrow> fin (st_handle S j) (wind_up exec S j i))"
  have key: "k \<noteq> job_key_of j \<and> k \<noteq> delayed_set_key \<and> kind_of k = KStr" if "claim_of j k" for k
    using that ok by (auto simp: claim_of_def job_key_of_def)
  have report: "wp (suppress (report_batch_progress exec S j)) (\<lambda>_. ?Q) (\<lambda>_. ?Q) w1"
    if "clock w1 = ?t" "kv w1 = kv w" for w1
  proof -
    have t: "touches kv clock (\<lambda>k. \<exists>b. job_batch_id j = Some b \<and> report_key S b k) (report_batch_progress exec S j)"
      by (rule touches_report) blast
    have q: "?Q w2" if "clock w1 \<le> clock w2 \<and> frame (\<lambda>k. \<exists>b. job_batch_id j = Some b \<and> report_key S b k) (kv w1) (kv w2)" for w2
      by (rule holds_none_later [OF none])
        (use that \<open>clock w1 = ?t\<close> \<open>kv w1 = kv w\<close> frame_report_claim [OF _ _ ok apart] in auto)
    show ?thesis unfolding wp_suppress by (rule wp_mono [OF touchesD [OF t]]) (use q in blast)+
  qed
  have convert: "wp (fin (st_handle S j) (wind_up exec S j i)) (\<lambda>_. ?Q) (\<lambda>_. ?Q) w2"
    if w2: "clock w2 = ?t" "gate_post (st_cfg S) (st_over S) j ?t (kv w) (Some i) (kv w2)" for i w2
  proof -
    have i: "0 \<le> i" using w2(2) slot_for_in_pool by (auto simp: gate_post_def admits_def split: if_splits)
    have mine: "kv w2 k = (if k = ffmpeg_slot_key i \<or> (\<exists>b. job_batch_id j = Some b \<and> k = batch_lock_key b)
        then claimed (wk_batch (st_cfg S)) j ?t else kv w k)" if "claim_of j k" for k
      using w2(2) key [OF that] by (simp add: gate_post_def)
    have str: "is_str (live (clock w2) (kv w2) k)" if "claim_of j k" for k
      using mine [OF that] typed_str [OF typed, of k ?t] key [OF that] w2(1)
      by (auto simp: live_def claimed_def is_str_def split: if_splits)
    have other: "str_at (clock w2) (kv w2) k \<noteq> Some ?me"
      if "claim_of j k" "k \<noteq> ffmpeg_slot_key i" "\<not> (\<exists>b. job_batch_id j = Some b \<and> k = batch_lock_key b)" for k
      using mine [OF that(1)] that none w2(1) str_at_cong [of "kv w2" k "kv w" ?t] by (simp add: holds_none_def)
    have wind: "wp (wind_up exec S j i) (\<lambda>_. ?Q) (\<lambda>_ _. False) w3" if "st_handle S j w2 = (r, w3)" for r w3
    proof (rule wp_mono [OF up_wind_up [OF i _ ok apart]], goal_cases)
      case (1 k)
      then show ?case using conv [OF that 1 str [OF 1]] by simp
    next
      case (3 k)
      then show ?case using conv [OF that 3(1) str [OF 3(1)]] other [OF 3] by blast
    qed simp_all
    show ?thesis
      unfolding wp_fin
      by (rule wpI; rule wp_mono [OF wind]; assumption?; simp)
  qed
  have go: "wp ?go (\<lambda>_. ?Q) (\<lambda>_. ?Q) w1" if w1: "clock w1 = ?t" "kv w1 = kv w" for w1
  proof -
    obtain r w2 where g: "claim_execution_slot exec (st_cfg S) (st_over S) j w1 = (Inr r, w2)" "clock w2 = ?t"
      and p: "gate_post (st_cfg S) (st_over S) j ?t (kv w) r (kv w2)"
      using gate_run [where over = "st_over S" and W = "st_cfg S", OF redis_up_axioms _ assms(2-5), of w1] typed w1 by auto
    have "wp (case r of None \<Rightarrow> ret () | Some i \<Rightarrow> fin (st_handle S j) (wind_up exec S j i)) (\<lambda>_. ?Q) (\<lambda>_. ?Q) w2"
    proof (cases r)
      case None
      have "str_at ?t (kv w2) k \<noteq> Some ?me" if k: "claim_of j k" for k
      proof -
        have "no_claims_taken j ?t (kv w) (kv w2)" by (rule gate_post_none [OF p [unfolded None]])
        then have "kv w2 k = kv w k \<or> kv w2 k = None" using no_claims_takenD [of j ?t "kv w" "kv w2" k] key [OF k]
          by simp
        then show ?thesis
        proof
          assume "kv w2 k = kv w k"
          then have "str_at ?t (kv w2) k = str_at ?t (kv w) k" by (rule str_at_cong)
          then show ?thesis using none k unfolding holds_none_def by metis
        qed (simp add: str_at_def live_def)
      qed
      then show ?thesis using None g(2) by (simp add: holds_none_def)
    next
      case (Some i)
      then show ?thesis using convert [OF g(2)] p by (simp del: wp_fin)
    qed
    then show ?thesis using g(1) unfolding wp_def bnd_def by simp
  qed
  have ask: "wp (job_already_delivered exec j) (\<lambda>_ w1. clock w1 = ?t \<and> kv w1 = kv w) (\<lambda>_ _. False) w"
    unfolding job_already_delivered_def using typed
    by (auto simp: job_key_of_def typed_hash intro!: up_connect up_hget)
  show ?thesis
    unfolding run_queued_job_def wp_bnd [of "job_already_delivered exec j"]
    by (rule wp_mono [OF ask]) (auto simp del: wp_bnd wp_suppress intro!: report go)
qed

end

text \<open>
  C10: With Redis up a job that holds no claim before its run holds none after it, however the run ended:
  delivered already, not let through, converted, or raised out of the conversion.  Of the conversion, and
  of what other processes do meanwhile, it is assumed that claims stay texts and that nobody takes one
  in the job's name.
\<close>

theorem claims_released_after_run:
  assumes up: "redis_up exec kv clock" and typed: "typed (kv w)" and "j \<noteq> []"
    and ok: "\<And>b. job_batch_id j = Some b \<Longrightarrow> batch_id_ok b" and "0 < lock_ttl (wk_batch (st_cfg S))"
    and "st_over S \<Longrightarrow> ceiling_defers j \<noteq> None" and apart: "flood_keys_apart S"
    and conv: "\<And>w1 r w2 k. st_handle S j w1 = (r, w2) \<Longrightarrow> claim_of j k \<Longrightarrow> is_str (live (clock w1) (kv w1) k) \<Longrightarrow>
      is_str (live (clock w2) (kv w2) k) \<and>
      (str_at (clock w2) (kv w2) k = Some (id_text (jget j ''job_id'')) \<longrightarrow>
       str_at (clock w1) (kv w1) k = Some (id_text (jget j ''job_id'')))"
    and none: "holds_none j (clock w) (kv w)"
  shows "holds_none j (clock (snd (run_queued_job exec S j w))) (kv (snd (run_queued_job exec S j w)))"
proof -
  have "wp (run_queued_job exec S j) (\<lambda>_ w'. holds_none j (clock w') (kv w')) (\<lambda>_ w'. holds_none j (clock w') (kv w')) w"
    by (rule redis_up.up_run [OF up typed assms(3) ok assms(5,6) apart conv none])
  then show ?thesis by (cases "run_queued_job exec S j w"; cases "fst (run_queued_job exec S j w)") (simp_all add: wp_def)
qed

theorem claims_released_after_run_witness:
  "holds_none (job_named ''j9'') 0 (mkv (snd (run_queued_job mem_exec (demo_station (\<lambda>_. raise RuntimeError)) (job_named ''j9'') demo_gate)))"
proof -
  let ?S = "demo_station (\<lambda>_. raise RuntimeError)" and ?j = "job_named ''j9''"
  have n: "str_at 0 (mkv demo_gate) k \<noteq> Some ''j9''" if "claim_of ?j k" for k
    using that by (auto simp: claim_of_def str_at_def live_def mkv_def demo_gate_def key_defs)
  have "holds_none ?j (mclock (snd (run_queued_job mem_exec ?S ?j demo_gate))) (mkv (snd (run_queued_job mem_exec ?S ?j demo_gate)))"
    by (rule claims_released_after_run [OF memory_up demo_gate_typed(1)])
      (use n in \<open>auto simp: demo_station_def flood_keys_apart_def starts_with_def raise_def holds_none_def id_text_def\<close>)
  moreover have "mclock (snd (run_queued_job mem_exec ?S ?j demo_gate)) = 0" by code_simp
  ultimately show ?thesis by simp
qed

section \<open>A delivery that already happened\<close>

lemma delivered_flag:
  assumes "redis_up exec kv clock" and "typed (kv w)" and "truthy (jget j ''job_id'')"
  shows "\<exists>w'. job_already_delivered exec j w =
    (Inr (\<exists>v. dget (hash_at (clock w) (kv w) (job_key_of j)) ''delivered'' = Some v \<and> v \<in> {''1'', ''true''}), w') \<and>
    clock w' = clock w \<and> kv w' = kv w"
proof -
  have "wp (job_already_delivered exec j)
     (\<lambda>r w'. r = (\<exists>v. dget (hash_at (clock w) (kv w) (job_key_of j)) ''delivered'' = Some v \<and> v \<in> {''1'', ''true''}) \<and>
        clock w' = clock w \<and> kv w' = kv w) (\<lambda>_ _. False) w"
    unfolding job_already_delivered_def using assms(2,3)
    by (auto simp: job_key_of_def typed_hash intro!: redis_up.up_connect [OF assms(1)] redis_up.up_hget [OF assms(1)]
        split: option.splits)
  then show ?thesis unfolding wp_outcome by auto
qed

text \<open>
  With Redis up, a job whose record says it was delivered is not converted again: its path returns,
  whatever the conversion would do, and leaves every claim, every queue and its own record as they were.
\<close>

theorem delivered_job_not_converted:
  assumes "redis_up exec kv clock" and "typed (kv w)" and "truthy (jget j ''job_id'')"
    and "dget (hash_at (clock w) (kv w) (job_key_of j)) ''delivered'' = Some v" and "v \<in> {''1'', ''true''}"
  shows "\<exists>w'. (\<forall>convert. run_queued_job exec (S\<lparr>st_handle := convert\<rparr>) j w = (Inr (), w')) \<and>
    (\<forall>k. kv w' k = kv w k \<or> (\<exists>b. job_batch_id j = Some b \<and> report_key S b k))"
proof -
  obtain w1 where g: "job_already_delivered exec j w = (Inr True, w1)" and w1: "kv w1 = kv w"
    using delivered_flag [OF assms(1-3)] assms(4,5) by auto
  have sel: "st_desk (S\<lparr>st_handle := convert\<rparr>) = st_desk S" "st_cfg (S\<lparr>st_handle := convert\<rparr>) = st_cfg S"
    "st_token (S\<lparr>st_handle := convert\<rparr>) = st_token S" "st_tg (S\<lparr>st_handle := convert\<rparr>) = st_tg S"
    "st_render (S\<lparr>st_handle := convert\<rparr>) = st_render S" for convert
    by simp_all
  have f: "report_file exec (S\<lparr>st_handle := convert\<rparr>) b j = report_file exec S b j" for convert b
    unfolding report_file_def Let_def sel ..
  have r: "report_batch_progress exec (S\<lparr>st_handle := convert\<rparr>) j = report_batch_progress exec S j" for convert
    unfolding report_batch_progress_def f sel ..
  have s: "redis_server exec kv clock" using assms(1) by (simp add: redis_up_def)
  have t: "touches kv clock (\<lambda>k. \<exists>b. job_batch_id j = Some b \<and> report_key S b k) (report_batch_progress exec S j)"
    by (rule redis_server.touches_report [OF s]) blast
  let ?w' = "snd (report_batch_progress exec S j w1)"
  have "run_queued_job exec (S\<lparr>st_handle := convert\<rparr>) j w = (Inr (), ?w')" for convert
    by (simp add: run_queued_job_def bnd_def g suppress_def r)
  moreover have "kv ?w' k = kv w k \<or> (\<exists>b. job_batch_id j = Some b \<and> report_key S b k)" for k
    using touches_final [OF t, of k w1] w1 by auto
  ultimately show ?thesis by blast
qed

definition demo_delivered :: mem where
  "demo_delivered = \<lparr>mstore = [(''ffmpeg:job:j9'', VHash [(''status'', ''done''), (''delivered'', ''1'')], None)], mclock = 0\<rparr>"

theorem delivered_job_not_converted_witness:
  "\<exists>w'. run_queued_job mem_exec (demo_station (\<lambda>_. raise RuntimeError)) (job_named ''j9'') demo_delivered = (Inr (), w')"
proof -
  let ?S = "demo_station (\<lambda>_. ret ())"
  have t: "typed (mkv demo_delivered)"
    unfolding mkv_def demo_delivered_def mem.simps
    by (rule typed_map_of) (simp add: kind_of_def key_defs starts_with_def)
  have d: "dget (hash_at (mclock demo_delivered) (mkv demo_delivered) (job_key_of (job_named ''j9''))) ''delivered'' = Some ''1''"
    by (simp add: hash_at_def live_def mkv_def demo_delivered_def)
  have "?S\<lparr>st_handle := \<lambda>_. raise RuntimeError\<rparr> = demo_station (\<lambda>_. raise RuntimeError)" by (simp add: demo_station_def)
  moreover obtain w' where "\<forall>convert. run_queued_job mem_exec (?S\<lparr>st_handle := convert\<rparr>) (job_named ''j9'') demo_delivered = (Inr (), w')"
    using delivered_job_not_converted [OF memory_up t _ d, of ?S] by auto
  ultimately show ?thesis by metis
qed

section \<open>A job the gate cannot put back\<close>

text \<open>A server that refuses one command: writing to the delayed set.\<close>

definition no_zadd :: "mem exec" where
  "no_zadd c w = (case c of Zadd k it s \<Rightarrow> (Inl ConnectionError, w) | _ \<Rightarrow> mem_exec c w)"

lemma no_zadd_other: "(\<And>k it s. c \<noteq> Zadd k it s) \<Longrightarrow> no_zadd c w = mem_exec c w"
  by (cases c) (simp_all add: no_zadd_def, blast)

interpretation refusing: redis_server no_zadd mkv mclock
proof unfold_locales
  fix c w r w' e a
  show "no_zadd c w = (r, w') \<Longrightarrow> mclock w \<le> mclock w'"
    using memory.time_forward [of c w r w'] by (cases "\<exists>k it s. c = Zadd k it s") (auto simp: no_zadd_other, simp add: no_zadd_def)
  show "no_zadd c w = (Inr a, w') \<Longrightarrow>
      call_ok c (mclock w) (mkv w) \<and> answers c (mclock w) (mkv w) a \<and> mkv w' = effect c (mclock w) (mkv w)"
    using memory.replied [of c w a w'] by (cases "\<exists>k it s. c = Zadd k it s") (auto simp: no_zadd_other, simp_all add: no_zadd_def)
  show "no_zadd c w = (Inl e, w') \<Longrightarrow>
      mkv w' = mkv w \<or> (call_ok c (mclock w) (mkv w) \<and> mkv w' = effect c (mclock w) (mkv w))"
    using memory.failed [of c w e w'] by (cases "\<exists>k it s. c = Zadd k it s") (auto simp: no_zadd_other, simp_all add: no_zadd_def)
  show "no_zadd Time w \<noteq> (Inl e, w')"
    using memory.clock_reads [of w e w'] by (simp add: no_zadd_other)
qed

definition demo_busy :: mem where
  "demo_busy = \<lparr>mstore =
     [(''ffmpeg:jobs'', VList [QJob (job_named ''j9'')], None),
      (''ffmpeg:job:j9'', VHash [(''status'', ''queued'')], None),
      (''ffmpeg:slot:0'', VStr ''j1'', None),
      (''ffmpeg:job:j1'', VHash [(''status'', ''processing''), (''worker'', ''w1'')], None),
      (''ffmpeg:worker:rss:w1'', VStr ''1000'', None)], mclock = 0\<rparr>"


end
