(* ===== verification/DeferredResults.thy ===== *)
theory DeferredResults
  imports Deferred WorkerPath
begin

text \<open>
  What the queue of deferred deliveries guarantees: a delivery stays in it until an attempt has
  resolved it, whatever fails; a delivered job is not sent again; the outcome of an attempt on every
  branch; a put-off delivery comes back when it is due, and to one sweep a lease; and what two sweeps
  that read at once do.
\<close>

section \<open>What stays in the queue\<close>

text \<open>The id is a member of the sorted set, which never expires.\<close>

definition listed :: "string \<Rightarrow> store \<Rightarrow> bool" where
  "listed jid m \<longleftrightarrow> (\<exists>z. m due_key = Some (VZset z, None) \<and> QText jid \<in> fst ` set z)"

text \<open>A courier that does nothing in Redis.\<close>

definition leaves_redis :: "('w \<Rightarrow> store) \<Rightarrow> 'w courier \<Rightarrow> bool" where
  "leaves_redis kv C \<longleftrightarrow>
     (\<forall>p w. kv (snd (co_size C p w)) = kv w) \<and> (\<forall>k p w. kv (snd (co_fetch C k p w)) = kv w) \<and>
     (\<forall>m c n t p w. kv (snd (co_send C m c n t p w)) = kv w) \<and> (\<forall>p w. kv (snd (co_remove C p w)) = kv w)"

lemma keeps_kv: "(\<And>w. kv (snd (m w)) = kv w) \<Longrightarrow> keeps (\<lambda>w. P (kv w)) m"
  by (rule keepsI, rule wpI) (metis snd_conv)+

lemma keeps_case_prod: "(\<And>a b. keeps I (f a b)) \<Longrightarrow> keeps I (case p of (a, b) \<Rightarrow> f a b)"
  by (cases p) simp

lemma keeps_attempt_connect: "keeps I (r_connect exec) \<Longrightarrow> keeps I (attempt (r_connect exec))"
  by (rule keeps_attempt)

lemma dkey_apart [simp]: "record_key jid \<noteq> due_key" "due_key \<noteq> record_key jid"
  by (simp_all add: record_key_def record_prefix_def due_key_def)

lemma zset_at_put [simp]: "zset_at t (m(k \<mapsto> (VZset z, keep_ttl t m k))) k = z"
  by (simp add: zset_at_def [of _ "_(_ \<mapsto> _)"])

lemma due_kinds [simp]: "kind_of due_key = KZset" "kind_of (record_key jid) = KDoc"
  by (simp_all add: kind_of_def due_key_def record_key_def record_prefix_def key_defs starts_with_def)

lemma flood_key_apart: "flood_key cfg (chat_scope v) \<noteq> due_key"
proof
  assume eq: "flood_key cfg (chat_scope v) = due_key"
  obtain p where p: "flood_key cfg (chat_scope v) = p @ CHR '':'' # chat_scope v" by (simp add: flood_key_def)
  then have e: "p @ CHR '':'' # chat_scope v = ''ffmpeg:delivery_deferred''" using eq by (simp add: due_key_def)
  have "rev (chat_scope v) @ CHR '':'' # rev p = rev ''ffmpeg:delivery_deferred''"
    using e by (metis append.assoc append_Cons append_Nil rev.simps(2) rev_append)
  moreover have "\<exists>s. chat_scope v = ''global'' \<or> chat_scope v = ''chat'' @ CHR '':'' # s"
    by (auto simp: chat_scope_def)
  ultimately show False
  proof (elim exE disjE)
    fix s assume "chat_scope v = ''chat'' @ CHR '':'' # s"
    then have "p @ CHR '':'' # ''chat'' @ CHR '':'' # s = ''ffmpeg:delivery_deferred''" using e by simp
    then have "length (filter (\<lambda>c. c = CHR '':'') (p @ CHR '':'' # ''chat'' @ CHR '':'' # s)) = 1" by simp
    then show False by simp
  qed simp
qed

lemma safeD: "safe m \<Longrightarrow> wp m (\<lambda>_ _. True) (\<lambda>_ _. False) w"
  by (simp add: safe_def)

lemma safe_runs: "safe m \<Longrightarrow> \<exists>x w'. m w = (Inr x, w')"
  using safeD [of m w] unfolding wp_outcome by blast

lemma safe_r_mono: "safe (r_mono ticks)"
  by (simp add: safe_def wp_def r_mono_def)

lemma safe_remaining: "safe (remaining exec ticks cfg scope G)"
  unfolding remaining_def gate_sync_def gate_read_def gate_client_def shared_flood_redis_def gate_down_def
    gate_release_def Let_def
  by (intro safe_intros safe_cases safe_r_mono safe_r_time)

lemma safe_note_flood: "safe (note_flood exec ticks cfg x scope G)"
  unfolding note_flood_def gate_publish_def gate_client_def shared_flood_redis_def gate_down_def gate_release_def Let_def
  by (intro safe_intros safe_cases safe_r_mono safe_r_time)

lemma safe_update: "safe (update_record exec F v x ch)"
  unfolding update_record_def Let_def by (intro safe_intros safe_cases safe_attempt)

lemma safe_finish: "safe (finish_deferred exec C d got ok msg)"
  unfolding finish_deferred_def clear_record_def forget_record_def
  by (intro safe_intros safe_cases safe_attempt)

context redis_server begin

lemma keeps_listed_exec:
  assumes "due_key \<notin> set (touched c) \<or> (\<exists>it s. c = Zadd due_key it s)"
  shows "keeps (\<lambda>w. listed jid (kv w)) (exec c)"
proof (rule keepsI)
  fix w assume l: "listed jid (kv w)"
  have "listed jid (effect c (clock w) (kv w))"
    using assms
  proof
    assume "due_key \<notin> set (touched c)"
    then show ?thesis using l effect_untouched [of due_key c] by (simp add: listed_def)
  next
    assume "\<exists>it s. c = Zadd due_key it s"
    then obtain it s where c: "c = Zadd due_key it s" by blast
    obtain z where z: "kv w due_key = Some (VZset z, None)" "QText jid \<in> fst ` set z" using l by (auto simp: listed_def)
    then have "zset_at (clock w) (kv w) due_key = z" "keep_ttl (clock w) (kv w) due_key = None"
      by (simp_all add: zset_at_def keep_ttl_def live_def)
    moreover have "QText jid \<in> fst ` set (zput it s z)"
      using z(2) by (simp add: zput_def dom_update)
    ultimately show ?thesis by (simp add: c listed_def)
  qed
  then show "wp (exec c) (\<lambda>_ w. listed jid (kv w)) (\<lambda>_ w. listed jid (kv w)) w"
    using l by (intro wp_exec) auto
qed

lemma keeps_listed_call:
  "due_key \<notin> set (touched c) \<or> (\<exists>it s. c = Zadd due_key it s) \<Longrightarrow> keeps (\<lambda>w. listed jid (kv w)) (fmapio f (exec c))"
  by (rule keeps_fmapio) (rule keeps_listed_exec)

lemma keeps_listed_calls:
  "keeps (\<lambda>w. listed jid (kv w)) (r_connect exec)" "keeps (\<lambda>w. listed jid (kv w)) (r_close exec)"
  "keeps (\<lambda>w. listed jid (kv w)) (r_time exec)" "keeps (\<lambda>w. listed jid (kv w)) (r_getdoc exec k)"
  "keeps (\<lambda>w. listed jid (kv w)) (r_setdoc exec (record_key k) it ex)"
  "keeps (\<lambda>w. listed jid (kv w)) (r_zadd exec due_key it s)"
  "keeps (\<lambda>w. listed jid (kv w)) (r_hget exec k f)" "keeps (\<lambda>w. listed jid (kv w)) (r_get exec k)"
  unfolding r_connect_def r_close_def r_time_def r_getdoc_def r_setdoc_def r_zadd_def r_hget_def r_get_def
  by (intro keeps_tryc keeps_ret keeps_listed_call; simp)+

lemmas keeps_listed = keeps_intros keeps_attempt keeps_case_prod keeps_listed_calls

lemma keeps_update: "keeps (\<lambda>w. listed jid (kv w)) (update_record exec F v due_in changes)"
proof -
  have doc: "keeps (\<lambda>w. listed jid (kv w)) (case it of QJob p \<Rightarrow> f p | QJson s \<Rightarrow> g s | QText s \<Rightarrow> h s)"
    if "\<And>p. keeps (\<lambda>w. listed jid (kv w)) (f p)" "\<And>s. keeps (\<lambda>w. listed jid (kv w)) (g s)"
      "\<And>s. keeps (\<lambda>w. listed jid (kv w)) (h s)" for it :: qitem and f g and h :: "string \<Rightarrow> ('w, bool) io"
    using that by (cases it) auto
  show ?thesis
    unfolding update_record_def Let_def by (intro keeps_listed doc)
qed

lemma keeps_must: "keeps I (must x)"
  by (cases x) (simp_all add: must_def keeps_ret keeps_raise)

lemma keeps_remaining:
  "keeps (\<lambda>w. listed jid (kv w)) (remaining exec ticks cfg scope G)"
proof -
  have tk: "keeps (\<lambda>w. listed jid (kv w)) (r_mono ticks)" by (rule keepsI) (simp add: wp_def r_mono_def)
  show ?thesis
    unfolding remaining_def gate_sync_def gate_read_def gate_client_def shared_flood_redis_def gate_down_def
      gate_release_def Let_def
    by (intro keeps_listed tk)
qed

lemma keeps_note_flood:
  assumes "flood_key cfg scope \<noteq> due_key"
  shows "keeps (\<lambda>w. listed jid (kv w)) (note_flood exec ticks cfg v scope G)"
proof -
  have tk: "keeps (\<lambda>w. listed jid (kv w)) (r_mono ticks)" by (rule keepsI) (simp add: wp_def r_mono_def)
  have ev: "keeps (\<lambda>w. listed jid (kv w)) (r_eval exec (FloodExtendScript (flood_key cfg scope) a b))" for a b
    unfolding r_eval_def by (rule keeps_listed_call) (use assms in simp)
  show ?thesis
    unfolding note_flood_def gate_publish_def gate_client_def shared_flood_redis_def gate_down_def
      gate_release_def Let_def
    by (intro keeps_listed tk ev)
qed

lemma listed_then:
  assumes "keeps (\<lambda>w. listed jid (kv w)) m" and "listed jid (kv w)"
    and "\<And>x w'. listed jid (kv w') \<Longrightarrow> wp (f x) Q E w'" and "\<And>e w'. listed jid (kv w') \<Longrightarrow> E e w'"
  shows "wp (bnd m f) Q E w"
  unfolding wp_bnd by (rule keeps_wp [OF assms])

lemma keeps_courier:
  assumes "leaves_redis kv C"
  shows "keeps (\<lambda>w. P (kv w)) (co_size C p)" "keeps (\<lambda>w. P (kv w)) (co_fetch C key p)"
    "keeps (\<lambda>w. P (kv w)) (co_send C m chat name cap p)" "keeps (\<lambda>w. P (kv w)) (co_remove C p)"
  using assms by (auto simp: leaves_redis_def intro: keeps_kv)

lemma keeps_resolve:
  assumes "leaves_redis kv C"
  shows "keeps (\<lambda>w. P (kv w)) (resolve_deferred_output C d)"
  unfolding resolve_deferred_output_def holds_bytes_def Let_def
  by (intro keeps_intros keeps_courier [OF assms])

lemma keeps_try_send:
  assumes "leaves_redis kv C"
  shows "keeps (\<lambda>w. P (kv w)) (try_send C d path)"
  unfolding try_send_def send_deferred_output_def
  by (intro keeps_intros keeps_courier [OF assms])

lemma settle_listed:
  assumes "listed jid (kv w)"
  shows "wp (settle_attempt exec F T C d n got G s) (\<lambda>(out, _) w'. out = Delivered \<or> out = Abandoned \<or> listed jid (kv w'))
    (\<lambda>_ w'. listed jid (kv w')) w"
proof -
  have fin: "wp (finish_deferred exec C d got ok msg) (\<lambda>_ _. True) (\<lambda>_ _. False) w" for ok msg
    by (rule safeD [OF safe_finish])
  show ?thesis
  proof (cases s)
    case (Wait x)
    have "keeps (\<lambda>w. listed jid (kv w)) (settle_attempt exec F T C d n got G s)"
      unfolding settle_attempt_def Wait sent.case
      by (intro keeps_listed keeps_note_flood keeps_update flood_key_apart)
    then show ?thesis using assms by (rule keeps_wp) auto
  next
    case Accepted
    then show ?thesis by (auto simp: settle_attempt_def intro!: wp_mono [OF fin])
  next
    case Refused
    have "wp (update_record exec F v x ch) (\<lambda>_ w'. listed jid (kv w')) (\<lambda>_ w'. listed jid (kv w')) w" for v x ch
      by (rule keepsD [OF keeps_update assms])
    then show ?thesis using Refused by (auto simp: settle_attempt_def intro!: wp_mono [OF fin])
  qed
qed

lemma attempt_listed:
  assumes "leaves_redis kv C" and "listed jid (kv w)"
  shows "wp (attempt_delivery exec F T C d G) (\<lambda>(out, _) w'. out = Delivered \<or> out = Abandoned \<or> listed jid (kv w'))
    (\<lambda>_ w'. listed jid (kv w')) w"
proof -
  have fin: "wp (finish_deferred exec C d got ok msg) (\<lambda>_ _. True) (\<lambda>_ _. False) w" for got ok msg w
    by (rule safeD [OF safe_finish])
  have send: "wp (try_send C d path) (\<lambda>s. wp (settle_attempt exec F T C d n got G s)
        (\<lambda>(out, _) w'. out = Delivered \<or> out = Abandoned \<or> listed jid (kv w')) (\<lambda>_ w'. listed jid (kv w')))
      (\<lambda>_ w'. listed jid (kv w')) w"
    if "listed jid (kv w)" for path n got w
    by (rule keeps_wp [OF keeps_try_send [OF assms(1), of "listed jid"] that]) (auto intro: settle_listed)
  show ?thesis
    unfolding attempt_delivery_def
  proof (rule listed_then [where jid = jid], goal_cases)
    case (3 created w1)
    then show ?case
    proof (intro listed_then [where jid = jid], goal_cases)
      case (5 horizon w2 now w3)
      then have "wp (bnd (must (int_of (py_or (jget d ''attempts'') (PInt 0)))) (\<lambda>n.
          bnd (resolve_deferred_output C d) (\<lambda>(path, got).
          bnd (try_send C d path) (settle_attempt exec F T C d (n + 1) got G))))
        (\<lambda>(out, _) w'. out = Delivered \<or> out = Abandoned \<or> listed jid (kv w')) (\<lambda>_ w'. listed jid (kv w')) w3"
        by (intro listed_then [where jid = jid] keeps_must keeps_resolve [OF assms(1)])
          (auto simp: send split: prod.splits)
      then show ?case by (auto intro!: wp_mono [OF fin])
    qed (auto intro: keeps_must keeps_listed_calls)
  qed (auto intro: keeps_must assms(2))
qed

lemma keeps_delivered: "keeps (\<lambda>w. listed jid (kv w)) (job_already_delivered exec j)"
  unfolding job_already_delivered_def by (intro keeps_listed)

lemma deliver_listed:
  assumes "leaves_redis kv C" and "listed jid (kv w)"
  shows "wp (deliver_deferred_record exec F T C d G) (\<lambda>(r, _) w'. r = Inr Delivered \<or> r = Inr Abandoned \<or> listed jid (kv w'))
    (\<lambda>_ _. False) w"
proof -
  have fin: "wp (finish_deferred exec C d got ok msg) (\<lambda>_ _. True) (\<lambda>_ _. False) w" for got ok msg w
    by (rule safeD [OF safe_finish])
  have R: "wp (remaining exec ticks cfg scope G) (\<lambda>_ w'. listed jid (kv w')) (\<lambda>_ _. False) w" for ticks cfg scope
    using wp_conj [OF keepsD [OF keeps_remaining assms(2)] safeD [OF safe_remaining]] by (rule wp_mono) auto
  have U: "wp (update_record exec F v x ch) (\<lambda>_ w'. listed jid (kv w')) (\<lambda>_ _. False) w1" if "listed jid (kv w1)" for v x ch w1
    using wp_conj [OF keepsD [OF keeps_update that] safeD [OF safe_update]] by (rule wp_mono) auto
  have D: "wp (job_already_delivered exec j) (\<lambda>_ w'. listed jid (kv w')) (\<lambda>_ _. False) w1" if "listed jid (kv w1)" for j w1
    using wp_conj [OF keepsD [OF keeps_delivered that] safeD [OF safe_delivered]] by (rule wp_mono) auto
  show ?thesis
    unfolding deliver_deferred_record_def wp_bnd
  proof (rule wp_mono [OF R], goal_cases)
    case (1 x w1)
    then show ?case
      by (auto split: prod.split intro!: wp_mono [OF U] wp_mono [OF D] wp_mono [OF fin] wp_mono [OF attempt_listed [OF assms(1)]])
  qed simp
qed

end

section \<open>What an attempt leaves\<close>

text \<open>A resolved delivery: no record, not in the queue, and the job's hash says how it ended.\<close>

definition resolved :: "bool \<Rightarrow> string \<Rightarrow> real \<Rightarrow> store \<Rightarrow> bool" where
  "resolved ok jid t m \<longleftrightarrow>
     m (record_key jid) = None \<and> QText jid \<notin> fst ` set (zset_at t m due_key) \<and>
     (\<exists>h x. m (job_hash_key jid) = Some (VHash h, x) \<and> dget h ''status'' = Some (if ok then ''done'' else ''error'') \<and>
       dget h ''delivered'' = Some (if ok then ''1'' else ''0''))"

text \<open>A delivery put off until \<open>at_time\<close>, its record now \<open>q\<close>.\<close>

definition waiting_for :: "real \<Rightarrow> job \<Rightarrow> string \<Rightarrow> real \<Rightarrow> store \<Rightarrow> bool" where
  "waiting_for at_time q jid t m \<longleftrightarrow>
     (\<exists>x. m (record_key jid) = Some (VDoc (QJob q), x)) \<and> dget (zset_at t m due_key) (QText jid) = Some at_time"

text \<open>What the outcome of a send says about the queue, for the \<open>n\<close>th attempt, at the time \<open>t\<close>, on the record \<open>p\<close>.\<close>

definition settled :: "deferral_cfg \<Rightarrow> real \<Rightarrow> int \<Rightarrow> job \<Rightarrow> string \<Rightarrow> sent \<Rightarrow> outcome \<Rightarrow> real \<Rightarrow> store \<Rightarrow> bool" where
  "settled F t n p jid s out t' m \<longleftrightarrow>
     (case s of
        Accepted \<Rightarrow> out = Delivered \<and> resolved True jid t' m
      | Refused \<Rightarrow>
          if df_max_attempts F \<le> n then out = Abandoned \<and> resolved False jid t' m
          else out = Put_off \<and> (\<exists>q. waiting_for (t + max min_due_delay (df_backoff F)) q jid t m \<and> jget q ''attempts'' = PInt n \<and>
            (\<forall>f. f \<notin> {''attempts'', ''reason'', ''job_id'', ''due_at''} \<longrightarrow> jget q f = jget p f))
      | Wait _ \<Rightarrow>
          out = Put_off \<and> (\<exists>q delay. min_due_delay \<le> delay \<and> waiting_for (t + delay) q jid t m \<and>
            (\<forall>f. f \<notin> {''reason'', ''job_id'', ''due_at''} \<longrightarrow> jget q f = jget p f)))"

lemma job_hash_apart [simp]: "job_hash_key j \<noteq> due_key" "job_hash_key j \<noteq> record_key jid" "due_key \<noteq> job_hash_key j"
    "record_key jid \<noteq> job_hash_key j"
  by (simp_all add: due_key_def record_key_def record_prefix_def key_defs)

lemma job_key_text: "job_key_of d = job_hash_key (py_str (jget d ''job_id''))"
  by (simp add: job_key_of_def)

context redis_up begin

lemma up_update:
  assumes "typed (kv w)" and "doc_at (clock w) (kv w) (record_key (py_str v)) = Some (QJob p)" and "truthy v"
  shows "wp (update_record exec F v (Some x) ch)
    (\<lambda>ok w'. ok \<and> clock w' = clock w \<and> waiting_for (clock w + max min_due_delay x)
       (dput ''due_at'' (time_val (clock w + max min_due_delay x)) (dput ''job_id'' v (dmerge p ch))) (py_str v) (clock w) (kv w'))
    (\<lambda>_ _. False) w"
proof -
  let ?k = "record_key (py_str v)" and ?at = "clock w + max min_due_delay x"
  let ?q = "dput ''due_at'' (time_val ?at) (dput ''job_id'' v (dmerge p ch))"
  have closing: "wp (r_close exec) (\<lambda>_ w'. clock w' = clock w \<and> waiting_for ?at ?q (py_str v) (clock w) (kv w')) E w3"
    if "clock w3 = clock w" "kv w3 = effect (Zadd due_key (QText (py_str v)) ?at) (clock w) ((kv w)(?k \<mapsto> (VDoc (QJob ?q), secs (Some (df_ttl F)) (clock w))))"
    for w3 E
  proof -
    let ?m = "(kv w)(?k \<mapsto> (VDoc (QJob ?q), secs (Some (df_ttl F)) (clock w)))"
    have "typed ?m" using assms(1) by (intro typed_upd) simp_all
    then have "zset_at (clock w) (kv w3) due_key = AList.update (QText (py_str v)) ?at (zset_at (clock w) ?m due_key)"
      unfolding that(2) by (rule zset_at_zadd) simp
    moreover have "kv w3 ?k = Some (VDoc (QJob ?q), secs (Some (df_ttl F)) (clock w))"
      unfolding that(2) by simp
    ultimately have "waiting_for ?at ?q (py_str v) (clock w) (kv w3)"
      by (simp add: waiting_for_def update_conv')
    then show ?thesis by (intro up_close) (simp add: that(1))
  qed
  show ?thesis
    unfolding update_record_def Let_def wp_bnd wp_attempt
  proof (rule up_connect, goal_cases)
    case (1 w1)
    have if_thn: "(if Some () = None \<or> \<not> truthy v then A else B) = B" for A B :: "('w, bool) io"
      using assms(3) by simp
    show ?case
      unfolding if_thn wp_fin wp_tryc wp_bnd
    proof (rule up_getdoc, goal_cases)
      case 1
      then show ?case using \<open>clock w1 = clock w\<close> \<open>kv w1 = kv w\<close> assms(1) by (simp add: typed_doc)
    next
      case (2 w2)
      then have w2: "clock w2 = clock w" "kv w2 = kv w" "doc_at (clock w1) (kv w1) ?k = Some (QJob p)"
        using 1 assms(2) by simp_all
      have z0: "is_zset (live (clock w) (kv w) due_key)" by (rule typed_zset [OF assms(1)]) simp
      then have z: "is_zset (live (clock w) ((kv w)(?k \<mapsto> e)) due_key)" for e by (simp add: live_def)
      show ?case
        unfolding w2(3)
        by (auto intro!: up_time up_setdoc up_zadd closing simp: w2 z0 z simp del: effect.simps)
    qed
  qed
qed

lemma up_forget:
  assumes "typed (kv w)"
    and "\<And>w'. clock w' = clock w \<Longrightarrow> kv w' (record_key jid) = None \<Longrightarrow>
      QText jid \<notin> fst ` set (zset_at (clock w) (kv w') due_key) \<Longrightarrow>
      (\<And>k. k \<noteq> record_key jid \<Longrightarrow> k \<noteq> due_key \<Longrightarrow> kv w' k = kv w k) \<Longrightarrow> Q () w'"
  shows "wp (forget_record exec jid) Q E w"
  unfolding forget_record_def wp_bnd wp_suppress
proof (rule up_del, rule up_zrem, goal_cases)
  case (1 w1)
  then have "typed (kv w1)" using assms(1) by (simp add: typed_wipe)
  then show ?case by (rule typed_zset) simp
next
  case (2 w1 w2)
  have same: "kv w2 k = kv w1 k" if "k \<noteq> due_key" for k
    unfolding 2(4) by (rule effect_untouched) (use that in simp)
  have "zset_at (clock w) (kv w2) due_key = zdel (QText jid) (zset_at (clock w1) (kv w1) due_key)"
    unfolding 2(4) 2(1) [symmetric] by (rule zset_at_zrem)
  then have "QText jid \<notin> fst ` set (zset_at (clock w) (kv w2) due_key)"
    by (simp add: zdel_def delete_notin_dom)
  then show ?case
    using 2(1,3) by (intro assms(2)) (simp_all add: same 2(2) wipe_def)
qed

lemma up_clear:
  assumes "typed (kv w)" and "truthy v"
    and "\<And>w'. clock w' = clock w \<Longrightarrow> kv w' (record_key (py_str v)) = None \<Longrightarrow>
      QText (py_str v) \<notin> fst ` set (zset_at (clock w) (kv w') due_key) \<Longrightarrow>
      (\<And>k. k \<noteq> record_key (py_str v) \<Longrightarrow> k \<noteq> due_key \<Longrightarrow> kv w' k = kv w k) \<Longrightarrow> Q () w'"
  shows "wp (clear_record exec v) Q E w"
  unfolding clear_record_def wp_bnd wp_attempt
proof (rule up_connect, goal_cases)
  case (1 w1)
  have "wp (fin (forget_record exec (py_str v)) (suppress (r_close exec))) Q E w1"
    unfolding wp_fin wp_suppress
    by (rule up_forget, use 1 assms(1) in simp, rule up_close, rule assms(3)) (use 1 in simp_all)
  then show ?case using assms(2) by simp
qed

lemma up_finish:
  assumes "typed (kv w)" and "truthy (jget d ''job_id'')" and "leaves_redis kv C"
  shows "wp (finish_deferred exec C d got ok msg)
    (\<lambda>_ w'. resolved ok (py_str (jget d ''job_id'')) (clock w') (kv w')) (\<lambda>_ _. False) w"
proof -
  let ?jid = "py_str (jget d ''job_id'')" and ?v = "jget d ''job_id''"
  define told where "told m \<longleftrightarrow> typed m \<and> (\<exists>h x. m (job_hash_key ?jid) = Some (VHash h, x) \<and>
    dget h ''status'' = Some (if ok then ''done'' else ''error'') \<and> dget h ''delivered'' = Some (if ok then ''1'' else ''0''))" for m
  have dropped: "wp (clear_record exec ?v) (\<lambda>_ w'. resolved ok ?jid (clock w') (kv w')) (\<lambda>_ _. False) w1" if "told (kv w1)" for w1
    by (rule up_clear) (use that assms(2) in \<open>auto simp: told_def resolved_def\<close>)
  have gone: "keeps (\<lambda>w. told (kv w)) (whenb b (suppress (co_remove C p)))" "keeps (\<lambda>w. told (kv w)) (case x of None \<Rightarrow> ret () | Some p \<Rightarrow> suppress (co_remove C p))" for b p x
    by (intro keeps_intros keeps_courier [OF assms(3)])+
  have tell: "wp (suppress (bnd (r_connect exec) (\<lambda>_. fin (r_hset exec (job_key_of d) (outcome_mark ok msg)) (suppress (r_close exec)))))
      (\<lambda>_ w1. told (kv w1)) (\<lambda>_ _. False) w"
    unfolding wp_suppress wp_bnd wp_fin job_key_text
  proof (rule up_connect, rule up_hset, goal_cases)
    case (1 w1)
    show ?case unfolding 1 by (rule typed_hash [OF assms(1)]) simp
  next
    case (2 w1 w2)
    have "typed (kv w2)" by (rule typed_updI [OF _ _ 2(4)]) (use 2(2) assms(1) in simp_all)
    moreover have "distinct (map fst (outcome_mark ok msg))" by (simp add: outcome_mark_def)
    ultimately have "told (kv w2)" using 2(4) by (auto simp: told_def dget_dmerge outcome_mark_def)
    then show ?case by (auto intro!: up_close)
  qed
  have rest: "wp (bnd (case got of None \<Rightarrow> ret () | Some p \<Rightarrow> suppress (co_remove C p)) (\<lambda>_.
      bnd (whenb b (suppress (co_remove C p))) (\<lambda>_. clear_record exec ?v)))
    (\<lambda>_ w'. resolved ok ?jid (clock w') (kv w')) (\<lambda>_ _. False) w1" if "told (kv w1)" for w1 b p
  proof -
    have s: "safe (case got of None \<Rightarrow> ret () | Some p \<Rightarrow> suppress (co_remove C p))" "safe (whenb b (suppress (co_remove C p)))"
      by (intro safe_intros safe_cases)+
    have step: "wp m (\<lambda>_ w2. told (kv w2)) (\<lambda>_ _. False) w1" if "keeps (\<lambda>w. told (kv w)) m" "safe m" "told (kv w1)" for m w1
      using wp_conj [OF keepsD [OF that(1,3)] safeD [OF that(2)]] by (rule wp_mono) auto
    show ?thesis
      unfolding wp_bnd
      by (rule wp_mono [OF step [OF gone(2) s(1) that]], rule wp_mono [OF step [OF gone(1) s(2)]]) (auto intro: dropped)
  qed
  show ?thesis
    unfolding finish_deferred_def eqTrueI [OF assms(2)] not_True_eq_False if_False
    by (subst wp_bnd) (rule wp_mono [OF tell], rule rest, simp_all)
qed

lemma keeps_record_exec:
  assumes "record_key jid \<notin> set (touched c)" and "call_typed c"
  shows "keeps (\<lambda>w. clock w = t0 \<and> typed (kv w) \<and> kv w (record_key jid) = e) (exec c)"
proof (rule keepsI)
  fix w assume I: "clock w = t0 \<and> typed (kv w) \<and> kv w (record_key jid) = e"
  have "typed (effect c (clock w) (kv w))" using I assms(2) by (intro effect_typed) simp_all
  moreover have "effect c (clock w) (kv w) (record_key jid) = e" using I assms(1) by (simp add: effect_untouched)
  ultimately show "wp (exec c) (\<lambda>_ w. clock w = t0 \<and> typed (kv w) \<and> kv w (record_key jid) = e)
      (\<lambda>_ w. clock w = t0 \<and> typed (kv w) \<and> kv w (record_key jid) = e) w"
    using I replied [of c w] failed [of c w] instant [of c w] by (intro wpI) auto
qed

lemma note_flood_record:
  assumes "typed (kv w)" and "starts_with ''ffmpeg:flood:'' (flood_key_prefix cfg)"
  shows "wp (note_flood exec ticks cfg x scope G)
    (\<lambda>_ w'. clock w' = clock w \<and> typed (kv w') \<and> kv w' (record_key jid) = kv w (record_key jid)) (\<lambda>_ _. False) w"
proof -
  let ?I = "\<lambda>w'. clock w' = clock w \<and> typed (kv w') \<and> kv w' (record_key jid) = kv w (record_key jid)"
  have k: "flood_key cfg scope \<noteq> record_key jid" "kind_of (flood_key cfg scope) = KStr"
    using assms(2) by (auto simp: flood_key_def record_key_def record_prefix_def kind_of_def starts_with_iff key_defs)
  have tk: "keeps ?I (r_mono ticks)" by (rule keepsI) (simp add: wp_def r_mono_def)
  have ev: "keeps ?I (r_eval exec (FloodExtendScript (flood_key cfg scope) a b))" for a b
    unfolding r_eval_def by (intro keeps_fmapio keeps_record_exec) (simp_all add: k k(1) [symmetric])
  have calls: "keeps ?I (r_connect exec)" "keeps ?I (r_close exec)" "keeps ?I (r_time exec)"
    unfolding r_connect_def r_close_def r_time_def
    by (intro keeps_tryc keeps_ret keeps_fmapio keeps_record_exec; simp)+
  have "keeps ?I (note_flood exec ticks cfg x scope G)"
    unfolding note_flood_def gate_publish_def gate_client_def shared_flood_redis_def gate_down_def gate_release_def Let_def
    by (intro keeps_intros keeps_case_prod tk ev calls)
  then have "wp (note_flood exec ticks cfg x scope G) (\<lambda>_. ?I) (\<lambda>_. ?I) w" by (rule keepsD) (use assms(1) in simp)
  from wp_conj [OF this safeD [OF safe_note_flood]] show ?thesis by (rule wp_mono) auto
qed

lemma settle_exact:
  assumes "typed (kv w)" and "leaves_redis kv C" and "truthy (jget d ''job_id'')"
    and doc: "doc_at (clock w) (kv w) (record_key (py_str (jget d ''job_id''))) = Some (QJob p)"
    and "starts_with ''ffmpeg:flood:'' (flood_key_prefix (tg_flood T))"
  shows "wp (settle_attempt exec F T C d n got G s) (\<lambda>(out, _) w'. settled F (clock w) n p (py_str (jget d ''job_id'')) s out (clock w') (kv w')) (\<lambda>_ _. False) w"
proof -
  let ?v = "jget d ''job_id''"
  let ?Q = "\<lambda>(out, _ :: flood_gate) w'. settled F (clock w) n p (py_str ?v) s out (clock w') (kv w')"
  have put_off: "wp (update_record exec F ?v (Some x) ch)
      (\<lambda>_ w'. \<exists>q. waiting_for (clock w + max min_due_delay x) q (py_str ?v) (clock w) (kv w') \<and>
        (\<forall>f. f \<notin> {''job_id'', ''due_at''} \<longrightarrow> jget q f = jget (dmerge p ch) f)) (\<lambda>_ _. False) w1"
    if "clock w1 = clock w" "typed (kv w1)" "doc_at (clock w1) (kv w1) (record_key (py_str ?v)) = Some (QJob p)" for w1 x ch
    by (rule wp_mono [OF up_update [OF that(2,3) assms(3)]]) (auto simp: that(1) jget_dput)
  have changes: "jget (dmerge p [(''attempts'', a), (''reason'', b)]) f =
      (if f = ''attempts'' then a else if f = ''reason'' then b else jget p f)"
    "jget (dmerge p [(''reason'', b)]) f = (if f = ''reason'' then b else jget p f)" for a b f
    by (simp_all add: jget_def dget_dmerge)
  show ?thesis
  proof (cases s)
    case Accepted
    then show ?thesis
      by (auto simp: settle_attempt_def settled_def intro!: wp_mono [OF up_finish [OF assms(1,3,2)]])
  next
    case Refused
    show ?thesis
    proof (cases "df_max_attempts F \<le> n")
      case True
      then show ?thesis
        using Refused by (auto simp: settle_attempt_def settled_def intro!: wp_mono [OF up_finish [OF assms(1,3,2)]])
    next
      case False
      have later: "?Q (Put_off, G) w'" if "waiting_for (clock w + max min_due_delay (df_backoff F)) q (py_str ?v) (clock w) (kv w')"
          "\<forall>f. f \<notin> {''job_id'', ''due_at''} \<longrightarrow> jget q f =
            jget (dmerge p [(''attempts'', PInt n), (''reason'', PStr ''retry after a failed attempt'')]) f" for q w'
      proof -
        have "jget q ''attempts'' = PInt n" "\<forall>f. f \<notin> {''attempts'', ''reason'', ''job_id'', ''due_at''} \<longrightarrow> jget q f = jget p f"
          using that(2) by (simp_all add: changes)
        then show ?thesis unfolding settled_def prod.case Refused sent.case if_not_P [OF False] using that(1) by blast
      qed
      show ?thesis
        unfolding settle_attempt_def Refused sent.case if_not_P [OF False] wp_bnd
        by (rule wp_mono [OF put_off [OF refl assms(1) doc]]) (use later [unfolded Refused] in auto)
    qed
  next
    case (Wait k)
    have later: "?Q (Put_off, G) w'" if "waiting_for (clock w + max min_due_delay x) q (py_str ?v) (clock w) (kv w')"
        "\<forall>f. f \<notin> {''job_id'', ''due_at''} \<longrightarrow> jget q f = jget (dmerge p [(''reason'', PStr ''re-gated'')]) f" for q w' x G
    proof -
      have "min_due_delay \<le> max min_due_delay x" by simp
      moreover have "\<forall>f. f \<notin> {''reason'', ''job_id'', ''due_at''} \<longrightarrow> jget q f = jget p f" using that(2) by (simp add: changes)
      ultimately show ?thesis unfolding Wait settled_def prod.case sent.case using that(1) by blast
    qed
    show ?thesis
      unfolding settle_attempt_def Wait sent.case wp_bnd
    proof (rule wp_mono [OF note_flood_record [OF assms(1,5), where jid = "py_str ?v"]], goal_cases)
      case (1 r w1)
      obtain left G1 where r: "r = (left, G1)" by (cases r)
      have "live (clock w) (kv w1) (record_key (py_str ?v)) = live (clock w) (kv w) (record_key (py_str ?v))"
        by (rule live_cong) (use 1 in blast)
      then have d1: "doc_at (clock w1) (kv w1) (record_key (py_str ?v)) = Some (QJob p)" using 1 doc by (simp add: doc_at_def)
      have c1: "clock w1 = clock w" and t1: "typed (kv w1)" using 1 by simp_all
      have "wp (update_record exec F ?v (Some (left + 1)) [(''reason'', PStr ''re-gated'')])
          (\<lambda>_ w'. ?Q (Put_off, G1) w') (\<lambda>_ _. False) w1"
        by (rule wp_mono [OF put_off [OF c1 t1 d1]]) (use later in auto)
      then show ?case unfolding r prod.case wp_bnd wp_ret Wait [symmetric] .
    qed simp
  qed
qed

end

section \<open>The demonstration queue\<close>

text \<open>One delivery, of job \<open>j9\<close>, in memory, at the time 10; and a courier that has the file and cannot send it.\<close>

definition demo_deferral :: job where
  "demo_deferral =
     [(''job_id'', PStr ''j9''), (''chat_id'', PInt 7), (''output'', PStr ''/o/a.mp4''), (''caption'', PNone),
      (''attempts'', PInt 0), (''created_at'', PInt 1), (''horizon'', PInt 100)]"

definition demo_due :: mem where
  "demo_due =
     \<lparr>mstore = [(due_key, VZset [(QText ''j9'', 5)], None), (record_key ''j9'', VDoc (QJob demo_deferral), None),
        (''ffmpeg:job:j9'', VHash [(''delivered'', ''1'')], None)], mclock = 10\<rparr>"

definition demo_empty :: mem where
  "demo_empty = \<lparr>mstore = [], mclock = 10\<rparr>"

definition demo_deferral_cfg :: deferral_cfg where
  "demo_deferral_cfg =
     \<lparr>df_horizon = 43200, df_max_attempts = 5, df_lease = 600, df_ttl = 46800, df_backoff = 120, df_limit = 5\<rparr>"

definition demo_telegram :: "mem telegram" where
  "demo_telegram = \<lparr>tg_mono = mclock, tg_digest = (\<lambda>s. int (length s)),
     tg_flood = \<lparr>flood_key_prefix = ''ffmpeg:flood:'', flood_namespace = ''default'', redis_backoff = 30\<rparr>\<rparr>"

definition demo_courier :: "mem courier" where
  "demo_courier = \<lparr>co_size = (\<lambda>p. ret (Some 5)), co_fetch = (\<lambda>k p. ret False), co_send = (\<lambda>m c n t p. raise TimeoutError),
     co_remove = (\<lambda>p. ret ()), co_temp = ''/t'', co_limit = 0, co_token = True, co_storage = False\<rparr>"

definition demo_flood :: flood_gate where
  "demo_flood = \<lparr>inline_max = 5, resync_interval = 2, attached = False, until = [], last_read = [], backend_down_until = 0\<rparr>"

lemma demo_due_typed: "typed (mkv demo_due)"
  unfolding mkv_def demo_due_def mem.simps
  by (rule typed_map_of) (auto simp: kind_of_def due_key_def record_key_def record_prefix_def key_defs starts_with_def)

lemma demo_courier_leaves: "leaves_redis mkv demo_courier"
  by (simp add: leaves_redis_def demo_courier_def ret_def raise_def)

lemma demo_job_id: "dget demo_deferral ''job_id'' = Some (PStr ''j9'')"
  by (simp add: demo_deferral_def)

lemma demo_queue [simp]:
  "mkv demo_due due_key = Some (VZset [(QText ''j9'', 5)], None)"
  "mkv demo_due (record_key ''j9'') = Some (VDoc (QJob demo_deferral), None)"
  "mkv demo_due ''ffmpeg:job:j9'' = Some (VHash [(''delivered'', ''1'')], None)" "mclock demo_due = 10"
  by (simp_all add: mkv_def demo_due_def record_key_def record_prefix_def due_key_def)

section \<open>Every outcome of an attempt\<close>

text \<open>
  C12: With Redis up, the outcome of the send decides: an accepted delivery is recorded as delivered and leaves the
  queue; one not accepted leaves it as failed with the last attempt, and before that is counted and comes
  back after the backoff; a wait that Telegram asks for costs no attempt.
\<close>

theorem attempt_settled:
  assumes "redis_up exec kv clock" and "typed (kv w)" and "leaves_redis kv C" and "truthy (jget d ''job_id'')"
    and "doc_at (clock w) (kv w) (record_key (py_str (jget d ''job_id''))) = Some (QJob p)"
    and "starts_with ''ffmpeg:flood:'' (flood_key_prefix (tg_flood T))"
  shows "\<exists>out G' w'. settle_attempt exec F T C d n got G s w = (Inr (out, G'), w') \<and>
    settled F (clock w) n p (py_str (jget d ''job_id'')) s out (clock w') (kv w')"
  using redis_up.settle_exact [OF assms, of F n got G s] unfolding wp_outcome by auto

theorem attempt_settled_witness:
  "\<exists>out G' w'. settle_attempt mem_exec demo_deferral_cfg demo_telegram demo_courier demo_deferral 3 None demo_flood Refused demo_due =
      (Inr (out, G'), w') \<and> out = Put_off \<and>
    (\<exists>q. waiting_for 130 q ''j9'' 10 (mkv w') \<and> jget q ''attempts'' = PInt 3 \<and> jget q ''chat_id'' = PInt 7)"
proof -
  have d: "doc_at (mclock demo_due) (mkv demo_due) (record_key (py_str (jget demo_deferral ''job_id''))) = Some (QJob demo_deferral)"
    by (simp add: jget_def demo_job_id doc_at_def live_def)
  have j: "truthy (jget demo_deferral ''job_id'')" "starts_with ''ffmpeg:flood:'' (flood_key_prefix (tg_flood demo_telegram))"
    by (simp_all add: jget_def demo_job_id demo_telegram_def starts_with_def)
  have c: "jget demo_deferral ''chat_id'' = PInt 7" "py_str (jget demo_deferral ''job_id'') = ''j9''"
    by (simp_all add: jget_def demo_deferral_def)
  have t: "mclock demo_due = 10" by simp
  from attempt_settled [OF memory_up demo_due_typed demo_courier_leaves j(1) d j(2), of demo_deferral_cfg 3 None demo_flood Refused]
  obtain out G' w' where r: "settle_attempt mem_exec demo_deferral_cfg demo_telegram demo_courier demo_deferral 3 None demo_flood Refused demo_due =
      (Inr (out, G'), w')" and q: "settled demo_deferral_cfg 10 3 demo_deferral ''j9'' Refused out (mclock w') (mkv w')"
    unfolding c t by blast
  have "out = Put_off \<and> (\<exists>q. waiting_for 130 q ''j9'' 10 (mkv w') \<and> jget q ''attempts'' = PInt 3 \<and>
      (\<forall>f. f \<notin> {''attempts'', ''reason'', ''job_id'', ''due_at''} \<longrightarrow> jget q f = jget demo_deferral f))"
    using q unfolding settled_def sent.case by (simp add: demo_deferral_cfg_def min_due_delay_def)
  moreover have "''chat_id'' \<notin> {''attempts'', ''reason'', ''job_id'', ''due_at''}" by simp
  ultimately show ?thesis using r c(1) by metis
qed

section \<open>Unresolved deliveries\<close>



section \<open>A delivery that already happened\<close>

context redis_up begin

lemma keeps_read_only:
  assumes "\<And>t m. effect c t m = m"
  shows "keeps (\<lambda>w. clock w = t0 \<and> kv w = m0) (exec c)"
proof (rule keepsI)
  fix w assume "clock w = t0 \<and> kv w = m0"
  then show "wp (exec c) (\<lambda>_ w. clock w = t0 \<and> kv w = m0) (\<lambda>_ w. clock w = t0 \<and> kv w = m0) w"
    using replied [of c w] failed [of c w] instant [of c w] assms by (intro wpI) auto
qed

lemma keeps_still:
  "keeps (\<lambda>w. clock w = t0 \<and> kv w = m0) (r_connect exec)" "keeps (\<lambda>w. clock w = t0 \<and> kv w = m0) (r_close exec)"
  "keeps (\<lambda>w. clock w = t0 \<and> kv w = m0) (r_time exec)" "keeps (\<lambda>w. clock w = t0 \<and> kv w = m0) (r_get exec k)"
  unfolding r_connect_def r_close_def r_time_def r_get_def
  by (intro keeps_tryc keeps_ret keeps_fmapio keeps_read_only; simp)+

lemma remaining_still: "\<exists>left G' w'. remaining exec ticks cfg scope G w = (Inr (left, G'), w') \<and> clock w' = clock w \<and> kv w' = kv w"
proof -
  let ?I = "\<lambda>w'. clock w' = clock w \<and> kv w' = kv w"
  have tk: "keeps ?I (r_mono ticks)" by (rule keepsI) (simp add: wp_def r_mono_def)
  have "keeps ?I (remaining exec ticks cfg scope G)"
    unfolding remaining_def gate_sync_def gate_read_def gate_client_def shared_flood_redis_def gate_down_def
      gate_release_def Let_def
    by (intro keeps_intros keeps_still keeps_case_prod tk)
  then have "wp (remaining exec ticks cfg scope G) (\<lambda>_. ?I) (\<lambda>_. ?I) w" by (rule keepsD) simp
  from wp_conj [OF this safeD [OF safe_remaining]]
  have "wp (remaining exec ticks cfg scope G) (\<lambda>_. ?I) (\<lambda>_ _. False) w" by (rule wp_mono) auto
  then show ?thesis unfolding wp_outcome by auto
qed

end

text \<open>
  With Redis up, a job whose record says it was delivered is never sent again, however often its
  deferred delivery comes up: the attempt ends the same whatever sending would do.
\<close>

theorem delivered_not_sent_again:
  assumes "redis_up exec kv clock" and "typed (kv w)" and "truthy (jget d ''job_id'')"
    and "dget (hash_at (clock w) (kv w) (job_key_of d)) ''delivered'' = Some v" and "v \<in> {''1'', ''true''}"
  shows "\<exists>r G' w'. (\<forall>send. deliver_deferred_record exec F T (C\<lparr>co_send := send\<rparr>) d G w = (Inr (r, G'), w')) \<and>
    (r = Inr Delivered \<or> r = Inr Put_off)"
proof -
  obtain left G1 w1 where rem: "remaining exec (tg_mono T) (tg_flood T) (chat_scope (jget d ''chat_id'')) G w = (Inr (left, G1), w1)"
    and w1: "clock w1 = clock w" "kv w1 = kv w"
    using redis_up.remaining_still [OF assms(1)] by blast
  have j: "truthy (jget [(''job_id'', jget d ''job_id'')] ''job_id'')" "job_key_of [(''job_id'', jget d ''job_id'')] = job_key_of d"
    using assms(3) by (simp_all add: jget_def job_key_of_def)
  have "typed (kv w1)" using assms(2) w1 by simp
  then obtain w2 where del: "job_already_delivered exec [(''job_id'', jget d ''job_id'')] w1 = (Inr True, w2)"
    using delivered_flag [OF assms(1) _ j(1), of w1] assms(4,5) w1 j(2) by auto
  have fin: "finish_deferred exec (C\<lparr>co_send := send\<rparr>) d got ok msg = finish_deferred exec C d got ok msg" for send got ok msg
    by (cases got) (simp_all add: finish_deferred_def)
  let ?f = "finish_deferred exec C d None True ''delivered to Telegram'' w2"
  let ?u = "update_record exec F (jget d ''job_id'') (Some (left + 1)) [(''reason'', PStr ''still rate limited'')] w1"
  obtain w3 where f: "?f = (Inr (), w3)" using safe_runs [OF safe_finish, of exec C d None True "''delivered to Telegram''" w2] by auto
  obtain b w4 where u: "?u = (Inr b, w4)" using safe_runs [OF safe_update, of exec F "jget d ''job_id''" "Some (left + 1)" "[(''reason'', PStr ''still rate limited'')]" w1] by auto
  have "deliver_deferred_record exec F T (C\<lparr>co_send := send\<rparr>) d G w =
      (if 0 < left then (Inr (Inr Put_off, G1), w4) else (Inr (Inr Delivered, G1), w3))" for send
    using del f u by (simp add: deliver_deferred_record_def bnd_def rem fin ret_def)
  then show ?thesis by (cases "0 < left") auto
qed

theorem delivered_not_sent_again_witness:
  "\<exists>r G' w'. deliver_deferred_record mem_exec demo_deferral_cfg demo_telegram demo_courier demo_deferral demo_flood demo_due =
      (Inr (r, G'), w') \<and> (r = Inr Delivered \<or> r = Inr Put_off)"
proof -
  have "dget (hash_at (mclock demo_due) (mkv demo_due) (job_key_of demo_deferral)) ''delivered'' = Some ''1''"
    by (simp add: hash_at_def live_def job_key_of_def demo_deferral_def jget_def key_defs)
  then obtain r G' w' where "\<forall>send. deliver_deferred_record mem_exec demo_deferral_cfg demo_telegram (demo_courier\<lparr>co_send := send\<rparr>)
      demo_deferral demo_flood demo_due = (Inr (r, G'), w')" "r = Inr Delivered \<or> r = Inr Put_off"
    using delivered_not_sent_again [OF memory_up demo_due_typed, of demo_deferral "''1''" demo_deferral_cfg demo_telegram demo_courier demo_flood]
    by (auto simp: jget_def demo_job_id)
  moreover have "demo_courier\<lparr>co_send := co_send demo_courier\<rparr> = demo_courier" by simp
  ultimately show ?thesis by metis
qed

section \<open>Coming back\<close>

context redis_up begin

lemma up_claim_one:
  assumes "typed (kv w)" and "doc_at (clock w) (kv w) (record_key jid) = Some (QJob p)"
  shows "wp (claim_each exec lease [QText jid])
    (\<lambda>ds w'. ds = [dput ''job_id'' (py_or (jget p ''job_id'') (PStr jid)) p] \<and> clock w' = clock w \<and>
       kv w' = effect (Zadd due_key (QText jid) lease) (clock w) (kv w)) (\<lambda>_ _. False) w"
  unfolding claim_each_def
  using assms by (auto simp: Let_def typed_doc typed_zset intro!: up_getdoc up_zadd)

end

lemma due_single: "due now [(it, s)] = (if s \<le> now then [it] else [])"
  by (simp add: due_def)

lemma only_due:
  assumes "mset xs \<subseteq># mset [it]" and "length xs = min (nat (max 1 limit)) 1"
  shows "xs = [it]"
proof -
  have "length xs = 1" using assms(2) by auto
  then obtain x where "xs = [x]" by (cases xs) auto
  then show ?thesis using assms(1) by simp
qed

context redis_up begin

lemma up_claim_due:
  assumes "typed (kv w)" and z: "zset_at (clock w) (kv w) due_key = [(QText jid, s)]"
    and doc: "doc_at (clock w) (kv w) (record_key jid) = Some (QJob p)"
  shows "wp (claim_due exec F limit None)
    (\<lambda>ds w'. clock w' = clock w \<and>
       (if s \<le> clock w
        then ds = [dput ''job_id'' (py_or (jget p ''job_id'') (PStr jid)) p] \<and>
          kv w' = effect (Zadd due_key (QText jid) (clock w + df_lease F)) (clock w) (kv w)
        else ds = [] \<and> kv w' = kv w)) (\<lambda>_ _. False) w"
proof -
  let ?Q = "\<lambda>ds w'. clock w' = clock w \<and>
       (if s \<le> clock w
        then ds = [dput ''job_id'' (py_or (jget p ''job_id'') (PStr jid)) p] \<and>
          kv w' = effect (Zadd due_key (QText jid) (clock w + df_lease F)) (clock w) (kv w)
        else ds = [] \<and> kv w' = kv w)"
  have each: "wp (claim_each exec (clock w + df_lease F) xs) ?Q (\<lambda>_ _. False) w1"
    if w1: "clock w1 = clock w" "kv w1 = kv w" and xs: "mset xs \<subseteq># mset (due (clock w) [(QText jid, s)])"
      "length xs = min (nat (max 1 limit)) (length (due (clock w) [(QText jid, s)]))" for xs w1
  proof (cases "s \<le> clock w")
    case True
    then have "xs = [QText jid]" using xs by (intro only_due [of _ _ limit]) (simp_all add: due_single)
    then show ?thesis using True assms w1 by (auto intro: wp_mono [OF up_claim_one [of w1 jid p]])
  next
    case False
    then have "xs = []" using xs(2) by (simp add: due_single)
    then show ?thesis using False w1 by (simp add: claim_each_def)
  qed
  have body: "wp (bnd (r_time exec) (\<lambda>now.
      bnd (r_zdue exec due_key now (nat (max 1 limit))) (\<lambda>raw_ids. claim_each exec (now + df_lease F) raw_ids))) ?Q (\<lambda>_ _. False) w1"
    if w1: "clock w1 = clock w" "kv w1 = kv w" for w1
    unfolding wp_bnd
  proof (rule up_time, rule up_zdue, goal_cases)
    case (1 w2)
    then show ?case using w1 assms(1) by (simp add: typed_zset)
  next
    case (2 w2 xs w3)
    then show ?case using w1 each [of w3 xs] by (simp add: z)
  qed
  have close: "wp (suppress (r_close exec)) (\<lambda>_. ?Q ds) (\<lambda>_ _. False) w1" if "?Q ds w1" for ds w1
    unfolding wp_suppress by (rule up_close) (use that in auto)
  show ?thesis
    unfolding claim_due_def read_due_ids_def wp_bnd wp_attempt
  proof (rule up_connect, goal_cases)
    case (1 w1)
    have "wp (fin (tryc (bnd (r_time exec) (\<lambda>now.
      bnd (r_zdue exec due_key now (nat (max 1 limit))) (\<lambda>raw_ids. claim_each exec (now + df_lease F) raw_ids))) (\<lambda>_. ret []))
      (suppress (r_close exec))) ?Q (\<lambda>_ _. False) w1"
      unfolding wp_fin wp_tryc by (rule wp_mono [OF body [OF 1]]) (rule close, simp_all)
    then show ?case by simp
  qed
qed

end



text \<open>
  C38: Two sweeps, in two workers, that look for due deliveries at the same moment both claim the same one:
  the lease that is to keep the second away is only written after the look, and nobody checks it.
\<close>

theorem two_sweeps_claim_one:
  assumes up: "redis_up exec kv clock" and typed: "typed (kv w)"
    and one: "due now (zset_at (clock w) (kv w) due_key) = [QText jid]"
    and doc: "doc_at (clock w) (kv w) (record_key jid) = Some (QJob p)"
  shows "\<exists>d w'. bnd (read_due_ids exec now limit) (\<lambda>ids. bnd (read_due_ids exec now limit) (\<lambda>ids'.
      bnd (claim_each exec lease ids) (\<lambda>ds. bnd (claim_each exec lease' ids') (\<lambda>ds'. ret (ds, ds'))))) w =
    (Inr ([d], [d]), w')"
proof -
  let ?d = "dput ''job_id'' (py_or (jget p ''job_id'') (PStr jid)) p"
  have "wp (bnd (read_due_ids exec now limit) (\<lambda>ids. bnd (read_due_ids exec now limit) (\<lambda>ids'.
      bnd (claim_each exec lease ids) (\<lambda>ds. bnd (claim_each exec lease' ids') (\<lambda>ds'. ret (ds, ds'))))))
    (\<lambda>r _. r = ([?d], [?d])) (\<lambda>_ _. False) w"
    unfolding wp_bnd read_due_ids_def
  proof (rule redis_up.up_zdue [OF up], goal_cases)
    case 1
    show ?case by (rule typed_zset [OF typed]) simp
  next
    case (2 xs w1)
    then have xs: "xs = [QText jid]" by (intro only_due [of _ _ limit]) (simp_all add: one)
    show ?case
    proof (rule redis_up.up_zdue [OF up], goal_cases)
      case 1
      show ?case unfolding 2 by (rule typed_zset [OF typed]) simp
    next
      case (2 ys w2)
      have w2: "clock w2 = clock w" "kv w2 = kv w" using 2(1,2) \<open>clock w1 = clock w\<close> \<open>kv w1 = kv w\<close> by simp_all
      have ys: "ys = [QText jid]" using 2(3,4) \<open>clock w1 = clock w\<close> \<open>kv w1 = kv w\<close> by (intro only_due [of _ _ limit]) (simp_all add: one)
      have t2: "typed (kv w2)" and d2: "doc_at (clock w2) (kv w2) (record_key jid) = Some (QJob p)"
        using typed doc w2 by simp_all
      show ?case
        unfolding xs ys
      proof (rule wp_mono [OF redis_up.up_claim_one [OF up t2 d2]], goal_cases)
        case (1 ds w3)
        have t3: "typed (kv w3)" using 1 effect_typed [OF t2, of "Zadd due_key (QText jid) lease"] by simp
        have "kv w3 (record_key jid) = kv w2 (record_key jid)" using 1 by simp
        then have "live (clock w2) (kv w3) (record_key jid) = live (clock w2) (kv w2) (record_key jid)" by (rule live_cong)
        then have d3: "doc_at (clock w3) (kv w3) (record_key jid) = Some (QJob p)" using 1 d2 by (simp add: doc_at_def)
        show ?case using 1 by (auto intro: wp_mono [OF redis_up.up_claim_one [OF up t3 d3]])
      qed simp
    qed
  qed
  then show ?thesis unfolding wp_outcome by blast
qed

theorem two_sweeps_claim_one_witness:
  "\<exists>d w'. bnd (read_due_ids mem_exec 10 5) (\<lambda>ids. bnd (read_due_ids mem_exec 10 5) (\<lambda>ids'.
      bnd (claim_each mem_exec 610 ids) (\<lambda>ds. bnd (claim_each mem_exec 610 ids') (\<lambda>ds'. ret (ds, ds'))))) demo_due =
    (Inr ([d], [d]), w')"
  by (rule two_sweeps_claim_one [OF memory_up demo_due_typed, of _ "''j9''" demo_deferral])
    (simp_all add: zset_at_def doc_at_def live_def due_single)

end
