(* ===== verification/Credentials.thy ===== *)
theory Credentials
  imports Claims
begin

text \<open>
  The credentials of the web surface: \<open>utils/secure_compare.py\<close>, \<open>utils/web_auth.py\<close> (the shared
  secrets), \<open>utils/job_access.py\<close> (a capability per job), \<open>utils/web_users.py\<close> (a token per user) and
  the checks \<open>web/webapp.py\<close> builds from them.  SHA-256 is the parameter \<open>sha\<close>, a fresh random token the
  parameter \<open>tok\<close>.  Each process keeps a mirror of the digests it has seen; the mirrors are passed
  along.  Texts hold no surrogates here, so encoding one does not fail.
\<close>

section \<open>Comparing and the shared secrets\<close>

definition constant_time_eq :: "pyval \<Rightarrow> pyval \<Rightarrow> bool" where
  "constant_time_eq candidate expected =
     (if \<not> truthy candidate \<or> \<not> truthy expected then False else py_str candidate = py_str expected)"

definition web_truthy :: "string set" where
  "web_truthy = {''1'', ''true'', ''yes'', ''on''}"

definition web_env :: "env \<Rightarrow> string \<Rightarrow> string" where
  "web_env env name = strip (case env name of None \<Rightarrow> [] | Some s \<Rightarrow> s)"

definition allow_unauthenticated_web :: "env \<Rightarrow> bool" where
  "allow_unauthenticated_web env \<longleftrightarrow> lower (web_env env ''ALLOW_UNAUTHENTICATED_WEB'') \<in> web_truthy"

definition missing_web_tokens :: "env \<Rightarrow> string list" where
  "missing_web_tokens env =
     filter (\<lambda>name. web_env env name = []) [''UPLOAD_SECRET'', ''DIAG_TOKEN'', ''DEBUG_SECRET'']"

definition secret_ok :: "env \<Rightarrow> string \<Rightarrow> pyval \<Rightarrow> bool \<Rightarrow> bool" where
  "secret_ok env name incoming opt_out =
     (let expected = web_env env name in
      if expected = [] then opt_out \<and> allow_unauthenticated_web env
      else constant_time_eq incoming (PStr expected))"

definition upload_token_ok :: "env \<Rightarrow> pyval \<Rightarrow> bool" where
  "upload_token_ok env incoming = secret_ok env ''UPLOAD_SECRET'' incoming True"

definition diag_token_ok :: "env \<Rightarrow> pyval \<Rightarrow> bool" where
  "diag_token_ok env incoming = secret_ok env ''DIAG_TOKEN'' incoming False"

definition debug_token_ok :: "env \<Rightarrow> pyval \<Rightarrow> bool" where
  "debug_token_ok env incoming \<longleftrightarrow> secret_ok env ''DEBUG_SECRET'' incoming False \<or> diag_token_ok env incoming"

section \<open>The mirror of a process\<close>

definition max_local :: nat where
  "max_local = 5000"

definition local_ttl :: real where
  "local_ttl = 86400"

text \<open>\<open>min(d.items(), key=...)\<close>: the first entry with the smallest time.\<close>

definition oldest_key :: "('v \<Rightarrow> real) \<Rightarrow> (string, 'v) dict \<Rightarrow> string" where
  "oldest_key minted d = fst (hd (sort_key (\<lambda>(k, v). minted v) d))"

lemma oldest_key_in: "d \<noteq> [] \<Longrightarrow> oldest_key minted d \<in> fst ` set d"
proof -
  assume "d \<noteq> []"
  then have "sort_key (\<lambda>(k, v). minted v) d \<noteq> []" by (metis set_empty set_sort)
  then have "hd (sort_key (\<lambda>(k, v). minted v) d) \<in> set d" by (metis hd_in_set set_sort)
  then show ?thesis by (simp add: oldest_key_def)
qed

lemma length_dpop: "k \<in> fst ` set d \<Longrightarrow> length (dpop k d) < length d"
proof (induction d)
  case (Cons p d)
  show ?case
  proof (cases "fst p = k")
    case True
    then show ?thesis using length_delete_le [of k d] by (cases p) (simp add: less_Suc_eq_le)
  next
    case False
    then show ?thesis using Cons by (cases p) auto
  qed
qed simp

function cap_mirror :: "('v \<Rightarrow> real) \<Rightarrow> nat \<Rightarrow> (string, 'v) dict \<Rightarrow> (string, 'v) dict" where
  "cap_mirror minted n d = (if n < length d then cap_mirror minted n (dpop (oldest_key minted d) d) else d)"
  by pat_completeness auto
termination
  by (relation "measure (\<lambda>(minted, n, d). length d)") (auto intro!: length_dpop oldest_key_in)

declare cap_mirror.simps [simp del]

definition prune_mirror :: "('v \<Rightarrow> real) \<Rightarrow> real \<Rightarrow> (string, 'v) dict \<Rightarrow> (string, 'v) dict" where
  "prune_mirror minted now d = cap_mirror minted max_local (filter (\<lambda>(k, v). \<not> minted v < now - local_ttl) d)"

section \<open>A capability per job\<close>

definition job_access_field :: string where
  "job_access_field = ''access_token_hash''"

type_synonym job_mirror = "(string, string \<times> string \<times> real) dict"

definition job_token_digest :: "(string \<Rightarrow> string) \<Rightarrow> pyval \<Rightarrow> string" where
  "job_token_digest sha token = (if \<not> truthy token then [] else sha (py_str token))"

definition remember_job_token ::
    "'w exec \<Rightarrow> (string \<Rightarrow> string) \<Rightarrow> string \<Rightarrow> pyval \<Rightarrow> job_mirror \<Rightarrow> ('w, string \<times> job_mirror) io" where
  "remember_job_token exec sha job_id token M =
     (let digest = job_token_digest sha token in
      if job_id = [] \<or> digest = [] then ret ([], M)
      else bnd (r_time exec) (\<lambda>now.
        ret (digest, prune_mirror (\<lambda>(p, d, t). t) now (dput job_id (py_str token, digest, now) M))))"

definition known_digest :: "job_mirror \<Rightarrow> string \<Rightarrow> string" where
  "known_digest M job_id = (case dget M job_id of None \<Rightarrow> [] | Some (p, d, t) \<Rightarrow> d)"

definition known_token :: "job_mirror \<Rightarrow> string \<Rightarrow> string" where
  "known_token M job_id = (case dget M job_id of None \<Rightarrow> [] | Some (p, d, t) \<Rightarrow> p)"

text \<open>\<open>tok\<close> is the token \<open>secrets.token_urlsafe(32)\<close> gives, should one be minted.\<close>

definition issue_job_token ::
    "'w exec \<Rightarrow> (string \<Rightarrow> string) \<Rightarrow> string \<Rightarrow> string \<Rightarrow> job_mirror \<Rightarrow> ('w, string \<times> job_mirror) io" where
  "issue_job_token exec sha tok job_id M =
     (if job_id = [] then ret ([], M)
      else if known_token M job_id \<noteq> [] then ret (known_token M job_id, M)
      else bnd (remember_job_token exec sha job_id (PStr tok) M) (\<lambda>(digest, M).
        bnd (attempt (r_connect exec)) (\<lambda>client.
        if client = None then ret (tok, M)
        else bnd (fin (suppress (r_hset exec (job_hash_key job_id) [(job_access_field, digest)]))
                    (suppress (r_close exec))) (\<lambda>_. ret (tok, M)))))"

text \<open>What a hash of Redis says, or nothing.\<close>

definition read_field :: "'w exec \<Rightarrow> string \<Rightarrow> string \<Rightarrow> ('w, string) io" where
  "read_field exec key field =
     bnd (attempt (r_connect exec)) (\<lambda>client.
     if client = None then ret []
     else fin (bnd (attempt (r_hget exec key field)) (\<lambda>raw.
            ret (case raw of Some (Some s) \<Rightarrow> s | _ \<Rightarrow> [])))
       (suppress (r_close exec)))"

definition job_token_ok ::
    "'w exec \<Rightarrow> (string \<Rightarrow> string) \<Rightarrow> job_mirror \<Rightarrow> string \<Rightarrow> pyval \<Rightarrow> ('w, bool) io" where
  "job_token_ok exec sha M job_id incoming =
     (let digest = job_token_digest sha incoming in
      if job_id = [] \<or> digest = [] then ret False
      else bnd (read_field exec (job_hash_key job_id) job_access_field) (\<lambda>found.
        let stored = (if found = [] then known_digest M job_id else found) in
        ret (stored \<noteq> [] \<and> constant_time_eq (PStr digest) (PStr stored))))"

section \<open>A token per user\<close>

definition user_key :: "int \<Rightarrow> string" where
  "user_key uid = ''ffmpeg:web_user:'' @ int_str uid"

definition user_index :: string where
  "user_index = ''ffmpeg:web_user_tokens''"

definition user_hash_field :: string where
  "user_hash_field = ''token_hash''"

definition user_minted_field :: string where
  "user_minted_field = ''minted_at''"

record web_known =
  kt_user :: int
  kt_digest :: string
  kt_minted :: real

type_synonym user_mirror = "(string, web_known) dict"

definition user_token_digest :: "(string \<Rightarrow> string) \<Rightarrow> pyval \<Rightarrow> string" where
  "user_token_digest sha token = (if \<not> truthy token then [] else sha (py_str token))"

definition remember_user :: "'w exec \<Rightarrow> int \<Rightarrow> string \<Rightarrow> user_mirror \<Rightarrow> ('w, user_mirror) io" where
  "remember_user exec uid digest M =
     (if digest = [] then ret M
      else bnd (r_time exec) (\<lambda>now.
        ret (prune_mirror kt_minted now (dput digest \<lparr>kt_user = uid, kt_digest = digest, kt_minted = now\<rparr> M))))"

definition local_user_for :: "user_mirror \<Rightarrow> string \<Rightarrow> int option" where
  "local_user_for M digest = map_option kt_user (dget M digest)"

definition local_digest_for :: "user_mirror \<Rightarrow> int \<Rightarrow> string" where
  "local_digest_for M uid =
     (case find (\<lambda>(d, known). kt_user known = uid) M of None \<Rightarrow> [] | Some (d, known) \<Rightarrow> kt_digest known)"

definition forget_user :: "int \<Rightarrow> user_mirror \<Rightarrow> bool \<times> user_mirror" where
  "forget_user uid M = (\<exists>(d, known) \<in> set M. kt_user known = uid, filter (\<lambda>(d, known). kt_user known \<noteq> uid) M)"

definition issue_user_token ::
    "'w exec \<Rightarrow> (string \<Rightarrow> string) \<Rightarrow> string \<Rightarrow> pyval \<Rightarrow> user_mirror \<Rightarrow> ('w, string \<times> user_mirror) io" where
  "issue_user_token exec sha tok user_id M =
     (case int_of user_id of
        None \<Rightarrow> ret ([], M)
      | Some uid \<Rightarrow>
          let digest = user_token_digest sha (PStr tok) in
          bnd (remember_user exec uid digest (snd (forget_user uid M))) (\<lambda>M.
          bnd (attempt (r_connect exec)) (\<lambda>client.
          if client = None then ret (tok, M)
          else bnd
            (fin (suppress
               (bnd (r_hget exec (user_key uid) user_hash_field) (\<lambda>previous.
                bnd (r_time exec) (\<lambda>now.
                bnd (r_hset exec (user_key uid)
                       [(user_hash_field, digest), (user_minted_field, int_str (py_trunc now))]) (\<lambda>_.
                bnd (case previous of
                       None \<Rightarrow> ret ()
                     | Some p \<Rightarrow> if p \<noteq> [] \<and> p \<noteq> digest then r_hdel exec user_index p else ret ()) (\<lambda>_.
                r_hset exec user_index [(digest, int_str uid)]))))))
              (suppress (r_close exec))) (\<lambda>_. ret (tok, M)))))"

definition revoke_user_token ::
    "'w exec \<Rightarrow> pyval \<Rightarrow> user_mirror \<Rightarrow> ('w, bool \<times> user_mirror) io" where
  "revoke_user_token exec user_id M =
     (case int_of user_id of
        None \<Rightarrow> ret (False, M)
      | Some uid \<Rightarrow>
          let (removed, M) = forget_user uid M; key = user_key uid in
          bnd (attempt (r_connect exec)) (\<lambda>client.
          if client = None then ret (removed, M)
          else fin
            (bnd (attempt (r_hget exec key user_hash_field)) (\<lambda>got.
               case got of
                 None \<Rightarrow> ret (removed, M)
               | Some previous \<Rightarrow>
                   (case previous of
                      None \<Rightarrow> bnd (suppress (r_del exec [key])) (\<lambda>_. ret (removed, M))
                    | Some p \<Rightarrow>
                        if p = [] then bnd (suppress (r_del exec [key])) (\<lambda>_. ret (removed, M))
                        else bnd (suppress (bnd (r_hdel exec user_index p) (\<lambda>_. r_del exec [key])))
                               (\<lambda>_. ret (True, M)))))
            (suppress (r_close exec))))"

definition resolve_user_token ::
    "'w exec \<Rightarrow> (string \<Rightarrow> string) \<Rightarrow> pyval \<Rightarrow> user_mirror \<Rightarrow> ('w, int option \<times> user_mirror) io" where
  "resolve_user_token exec sha incoming M =
     (let digest = user_token_digest sha incoming in
      if digest = [] then ret (None, M)
      else bnd (attempt (r_connect exec)) (\<lambda>client.
        if client = None then ret (local_user_for M digest, M)
        else bnd
          (fin (bnd (attempt (r_hget exec user_index digest)) (\<lambda>raw.
                  case Option.bind (Option.bind raw id) py_int of
                    None \<Rightarrow> ret None
                  | Some uid \<Rightarrow> bnd (remember_user exec uid digest M) (\<lambda>M. ret (Some (uid, M)))))
             (suppress (r_close exec))) (\<lambda>known.
          ret (case known of None \<Rightarrow> (local_user_for M digest, M) | Some (uid, M) \<Rightarrow> (Some uid, M)))))"

definition user_token_ok ::
    "'w exec \<Rightarrow> (string \<Rightarrow> string) \<Rightarrow> user_mirror \<Rightarrow> int \<Rightarrow> pyval \<Rightarrow> ('w, bool) io" where
  "user_token_ok exec sha M user_id incoming =
     (let digest = user_token_digest sha incoming in
      if digest = [] then ret False
      else bnd (read_field exec (user_key user_id) user_hash_field) (\<lambda>found.
        let stored = (if found = [] then local_digest_for M user_id else found) in
        ret (stored \<noteq> [] \<and> constant_time_eq (PStr digest) (PStr stored))))"

section \<open>The checks of the web routes\<close>

text \<open>What a request carries: its job capability, its user token and its upload secret.\<close>

record request =
  rq_capability :: pyval
  rq_user :: pyval
  rq_secret :: pyval

record web_process =
  wp_jobs :: job_mirror
  wp_users :: user_mirror

definition job_access_ok :: "'w exec \<Rightarrow> (string \<Rightarrow> string) \<Rightarrow> web_process \<Rightarrow> request \<Rightarrow> string \<Rightarrow> ('w, bool) io" where
  "job_access_ok exec sha P rq job_id =
     tryc (job_token_ok exec sha (wp_jobs P) job_id (rq_capability rq)) (\<lambda>_. ret False)"

definition request_user_id ::
    "'w exec \<Rightarrow> (string \<Rightarrow> string) \<Rightarrow> request \<Rightarrow> web_process \<Rightarrow> ('w, int option \<times> web_process) io" where
  "request_user_id exec sha rq P =
     (if \<not> truthy (rq_user rq) then ret (None, P)
      else tryc (fmapio (\<lambda>(uid, M). (uid, P\<lparr>wp_users := M\<rparr>)) (resolve_user_token exec sha (rq_user rq) (wp_users P)))
             (\<lambda>_. ret (None, P)))"

definition user_or_service_ok ::
    "'w exec \<Rightarrow> (string \<Rightarrow> string) \<Rightarrow> env \<Rightarrow> request \<Rightarrow> web_process \<Rightarrow> ('w, (bool \<times> int option) \<times> web_process) io" where
  "user_or_service_ok exec sha env rq P =
     bnd (request_user_id exec sha rq P) (\<lambda>(user, P).
       ret (case user of
              Some uid \<Rightarrow> ((True, Some uid), P)
            | None \<Rightarrow> ((upload_token_ok env (rq_secret rq), None), P)))"

definition get_job_hash :: "'w exec \<Rightarrow> string \<Rightarrow> ('w, (string, string) dict option) io" where
  "get_job_hash exec job_id =
     tryc (bnd (r_connect exec) (\<lambda>_.
           bnd (fin (r_hgetall exec (job_hash_key job_id)) (r_close exec)) (\<lambda>data.
             ret (if data = [] then None else Some data))))
       (\<lambda>_. ret None)"

definition job_owner_ok ::
    "'w exec \<Rightarrow> (string \<Rightarrow> string) \<Rightarrow> request \<Rightarrow> string \<Rightarrow> web_process \<Rightarrow> ('w, bool \<times> web_process) io" where
  "job_owner_ok exec sha rq job_id P =
     bnd (request_user_id exec sha rq P) (\<lambda>(user, P).
       case user of
         None \<Rightarrow> ret (False, P)
       | Some uid \<Rightarrow> bnd (get_job_hash exec job_id) (\<lambda>job_hash.
           ret (case Option.bind (Option.bind job_hash (\<lambda>h. dget h ''user_id'')) py_int of
                  None \<Rightarrow> False | Some owner \<Rightarrow> owner = uid, P)))"

text \<open>The gate of a job-scoped route: \<open>_job_access_ok(job_id) or _job_owner_ok(job_id)\<close>.\<close>

definition job_read_ok ::
    "'w exec \<Rightarrow> (string \<Rightarrow> string) \<Rightarrow> request \<Rightarrow> string \<Rightarrow> web_process \<Rightarrow> ('w, bool \<times> web_process) io" where
  "job_read_ok exec sha rq job_id P =
     bnd (job_access_ok exec sha P rq job_id) (\<lambda>ok.
       if ok then ret (True, P) else job_owner_ok exec sha rq job_id P)"

end
