(* ===== verification/CredentialResults.thy ===== *)
theory CredentialResults
  imports Credentials JobQueueResults
begin

text \<open>
  What the web credentials promise: a job is only read by a caller who holds a recorded credential, a
  capability is accepted by every process from the moment it is issued, rotating a user's token retires
  the old one in Redis and in the rotating process - and, contrary to its documentation, nowhere else -
  and the mirrors stay bounded.
\<close>

section \<open>The mirror\<close>

lemma cap_mirror_props:
  "length (cap_mirror minted n d) \<le> n \<or> length (cap_mirror minted n d) = 0"
  "set (cap_mirror minted n d) \<subseteq> set d" "dget (cap_mirror minted n d) k \<in> {None, dget d k}"
proof (induction minted n d rule: cap_mirror.induct)
  case (1 minted n d)
  {
    case 1
    then show ?case using "1.IH"(1) by (cases "n < length d") (simp_all add: cap_mirror.simps [of minted n d])
  next
    case 2
    show ?case
      using "1.IH"(2) by (cases "n < length d") (auto simp: cap_mirror.simps [of minted n d] AList.delete_eq)
  next
    case 3
    show ?case
      using "1.IH"(3) by (cases "n < length d") (auto simp: cap_mirror.simps [of minted n d] split: if_splits)
  }
qed

text \<open>
  However many digests a process meets, after each one its mirror holds at most 5000 entries, none of
  them older than a day, and every one of them was there before or is the one just met.
\<close>

theorem mirror_bounded:
  "length (prune_mirror minted now d) \<le> 5000 \<and> (\<forall>(k, v) \<in> set (prune_mirror minted now d). (k, v) \<in> set d \<and> now - 86400 \<le> minted v)"
  using cap_mirror_props(1,2) [of minted max_local "filter (\<lambda>(k, v). \<not> minted v < now - local_ttl) d"]
  by (auto simp: prune_mirror_def max_local_def local_ttl_def)

theorem mirror_bounded_witness:
  "length (prune_mirror id 100000 [(''a'', 1), (''b'', 99999)]) \<le> 5000"
  using mirror_bounded [of id 100000 "[(''a'', 1), (''b'', 99999)]"] by blast


lemma prune_mirror_get: "dget (prune_mirror minted now d) k = Some v \<Longrightarrow> (k, v) \<in> set d"
  using cap_mirror_props(2) [of minted max_local "filter (\<lambda>(k, v). \<not> minted v < now - local_ttl) d"]
  by (auto simp: prune_mirror_def dest: map_of_SomeD)

lemma prune_mirror_single: "\<not> minted v < now - local_ttl \<Longrightarrow> prune_mirror minted now [(k, v)] = [(k, v)]"
  by (simp add: prune_mirror_def cap_mirror.simps max_local_def)

section \<open>Reading a job\<close>

text \<open>Whose token it is: what the index of Redis says, or what this process remembers.\<close>

definition identifies :: "(string \<Rightarrow> string) \<Rightarrow> real \<Rightarrow> store \<Rightarrow> user_mirror \<Rightarrow> pyval \<Rightarrow> int \<Rightarrow> bool" where
  "identifies sha t m M token uid \<longleftrightarrow>
     (let d = user_token_digest sha token in
      d \<noteq> [] \<and> ((\<exists>s. dget (hash_at t m user_index) d = Some s \<and> py_int s = Some uid) \<or> local_user_for M d = Some uid))"

text \<open>The capability of the job is the one recorded for it.\<close>

definition capable :: "(string \<Rightarrow> string) \<Rightarrow> real \<Rightarrow> store \<Rightarrow> job_mirror \<Rightarrow> string \<Rightarrow> pyval \<Rightarrow> bool" where
  "capable sha t m M job_id token \<longleftrightarrow>
     (let d = job_token_digest sha token in
      d \<noteq> [] \<and> (dget (hash_at t m (job_hash_key job_id)) job_access_field = Some d \<or> known_digest M job_id = d))"

context redis_server begin

abbreviation unchanged :: "'w \<Rightarrow> 'w \<Rightarrow> bool" where
  "unchanged w w' \<equiv> clock w \<le> clock w' \<and> kv w' = kv w"

lemma wp_close_quiet:
  "(\<And>w'. unchanged w w' \<Longrightarrow> Q () w') \<Longrightarrow> wp (suppress (r_close exec)) Q E w"
  unfolding wp_suppress by (rule wp_r_close) auto

lemma wp_read_field:
  "wp (read_field exec key f) (\<lambda>r w'. unchanged w w' \<and> (r = [] \<or> dget (hash_at (clock w) (kv w) key) f = Some r)) (\<lambda>_ _. False) w"
proof -
  have get: "wp (attempt (r_hget exec key f)) (\<lambda>raw w2. unchanged w w2 \<and>
      (\<forall>s. raw = Some (Some s) \<longrightarrow> dget (hash_at (clock w) (kv w) key) f = Some s)) E w1" if "unchanged w w1" for w1 E
    unfolding wp_attempt
    by (rule wp_r_hget) (use that hash_at_later [of "clock w1" "kv w" key f _ "clock w"] in auto)
  have body: "wp (fin (bnd (attempt (r_hget exec key f)) (\<lambda>raw. ret (case raw of Some (Some s) \<Rightarrow> s | _ \<Rightarrow> [])))
      (suppress (r_close exec))) (\<lambda>r w'. unchanged w w' \<and> (r = [] \<or> dget (hash_at (clock w) (kv w) key) f = Some r))
      (\<lambda>_ _. False) w1" if "unchanged w w1" for w1
    unfolding wp_fin wp_bnd wp_ret
    by (rule wp_mono [OF get [OF that]]; rule wp_close_quiet) (auto split: option.split)
  show ?thesis
    unfolding read_field_def wp_bnd wp_attempt
    by (rule wp_r_connect) (use body in \<open>auto simp del: wp_fin\<close>)
qed

lemma wp_job_token_ok:
  "wp (job_token_ok exec sha M job_id token)
     (\<lambda>ok w'. unchanged w w' \<and> (ok \<longrightarrow> capable sha (clock w) (kv w) M job_id token)) (\<lambda>_ _. False) w"
proof (cases "job_id = [] \<or> job_token_digest sha token = []")
  case True
  then show ?thesis by (auto simp: job_token_ok_def Let_def)
next
  case False
  then show ?thesis
    unfolding job_token_ok_def Let_def if_not_P [OF False] wp_bnd wp_ret
    by (intro wp_mono [OF wp_read_field]) (auto simp: capable_def constant_time_eq_def Let_def split: if_splits)
qed

lemma wp_resolve:
  "wp (resolve_user_token exec sha token M)
     (\<lambda>(user, M') w'. unchanged w w' \<and> (\<forall>uid. user = Some uid \<longrightarrow> identifies sha (clock w) (kv w) M token uid)) (\<lambda>_ _. False) w"
    (is "wp _ ?Q _ w")
proof (cases "user_token_digest sha token = []")
  case True
  then show ?thesis by (simp add: resolve_user_token_def)
next
  case False
  let ?d = "user_token_digest sha token"
  have mirror: "identifies sha (clock w) (kv w) M token uid" if "local_user_for M ?d = Some uid" for uid
    using False that by (simp add: identifies_def Let_def)
  have keep: "wp (bnd (remember_user exec uid ?d M) (\<lambda>M. ret (Some (uid, M))))
      (\<lambda>r w'. unchanged w w' \<and> (\<exists>M'. r = Some (uid, M'))) E w2" if "unchanged w w2" for w2 uid E
    unfolding remember_user_def using False that by (auto intro!: wp_r_time)
  let ?read = "bnd (attempt (r_hget exec user_index ?d)) (\<lambda>raw.
                  case Option.bind (Option.bind raw id) py_int of
                    None \<Rightarrow> ret None
                  | Some uid \<Rightarrow> bnd (remember_user exec uid ?d M) (\<lambda>M. ret (Some (uid, M))))"
  have read: "wp ?read (\<lambda>r w'. unchanged w w' \<and> (\<forall>uid M'. r = Some (uid, M') \<longrightarrow> identifies sha (clock w) (kv w) M token uid))
      E w1" if w1: "unchanged w w1" for w1 E
    unfolding wp_bnd [of "attempt (r_hget exec user_index ?d)"] wp_attempt
  proof (rule wp_r_hget, goal_cases)
    case (1 w2)
    show ?case
    proof (cases "Option.bind (dget (hash_at (clock w1) (kv w1) user_index) ?d) py_int")
      case None
      then show ?thesis using 1 w1 by simp
    next
      case (Some uid)
      then obtain s where s: "dget (hash_at (clock w1) (kv w1) user_index) ?d = Some s" "py_int s = Some uid"
        by (auto simp: bind_eq_Some_conv)
      then have "identifies sha (clock w) (kv w) M token uid"
        using hash_at_later [of "clock w1" "kv w" user_index ?d s "clock w"] w1 False by (auto simp: identifies_def Let_def)
      then show ?thesis
        using Some by (simp del: wp_bnd) (rule wp_mono [OF keep], use 1 w1 in auto)
    qed
  qed (use w1 in auto)
  show ?thesis
    unfolding resolve_user_token_def Let_def if_not_P [OF False] wp_bnd [of "attempt (r_connect exec)"] wp_attempt
  proof (rule wp_r_connect, goal_cases)
    case (1 w1)
    have "wp (bnd (fin ?read (suppress (r_close exec))) (\<lambda>known.
          ret (case known of None \<Rightarrow> (local_user_for M ?d, M) | Some (uid, M) \<Rightarrow> (Some uid, M)))) ?Q (\<lambda>_ _. False) w1"
      unfolding wp_bnd [of "fin ?read (suppress (r_close exec))"] wp_fin [of ?read]
      by (rule wp_mono [OF read]; (rule wp_close_quiet)?) (use 1 in \<open>auto intro!: mirror split: option.split\<close>)
    then show ?case by (simp only: option.distinct if_False)
  qed (auto intro!: mirror)
qed

end

text \<open>The caller is the owner recorded for the job.\<close>

definition owns :: "(string \<Rightarrow> string) \<Rightarrow> real \<Rightarrow> store \<Rightarrow> user_mirror \<Rightarrow> string \<Rightarrow> pyval \<Rightarrow> bool" where
  "owns sha t m M job_id token \<longleftrightarrow>
     (\<exists>uid s. identifies sha t m M token uid \<and>
        dget (hash_at t m (job_hash_key job_id)) ''user_id'' = Some s \<and> py_int s = Some uid)"

lemma identifies_earlier:
  "identifies sha t' m M token uid \<Longrightarrow> t \<le> t' \<Longrightarrow> identifies sha t m M token uid"
  unfolding identifies_def Let_def using hash_at_later by blast

lemma owns_earlier: "owns sha t' m M job_id token \<Longrightarrow> t \<le> t' \<Longrightarrow> owns sha t m M job_id token"
  unfolding owns_def using hash_at_later identifies_earlier by blast

context redis_server begin

lemma wp_get_job_hash:
  "wp (get_job_hash exec job_id)
     (\<lambda>r w'. unchanged w w' \<and> (\<forall>h f s. r = Some h \<longrightarrow> dget h f = Some s \<longrightarrow>
        dget (hash_at (clock w) (kv w) (job_hash_key job_id)) f = Some s)) (\<lambda>_ _. False) w"
  unfolding get_job_hash_def wp_tryc wp_bnd wp_fin wp_ret
  by (rule wp_r_connect, rule wp_r_hgetall; (rule wp_r_close)?)
    (use hash_at_later [of _ "kv w" "job_hash_key job_id" _ _ "clock w"] in \<open>auto split: if_splits\<close>)

lemma wp_request_user:
  "wp (request_user_id exec sha rq P)
     (\<lambda>(user, P') w'. unchanged w w' \<and>
        (\<forall>uid. user = Some uid \<longrightarrow> identifies sha (clock w) (kv w) (wp_users P) (rq_user rq) uid)) (\<lambda>_ _. False) w"
  unfolding request_user_id_def
  by (cases "truthy (rq_user rq)") (auto intro!: wp_mono [OF wp_resolve])

lemma wp_job_owner_ok:
  "wp (job_owner_ok exec sha rq job_id P)
     (\<lambda>(ok, P') w'. unchanged w w' \<and> (ok \<longrightarrow> owns sha (clock w) (kv w) (wp_users P) job_id (rq_user rq))) (\<lambda>_ _. False) w"
  unfolding job_owner_ok_def wp_bnd [of "request_user_id exec sha rq P"]
proof (rule wp_mono [OF wp_request_user], goal_cases)
  case (1 x w1)
  obtain user P' where x: "x = (user, P')" by (cases x)
  show ?case
  proof (cases user)
    case None
    then show ?thesis using 1 x by simp
  next
    case (Some uid)
    have i: "identifies sha (clock w) (kv w) (wp_users P) (rq_user rq) uid" and u: "unchanged w w1" using 1 x Some by simp_all
    show ?thesis
      unfolding x prod.case Some option.case wp_bnd wp_ret
    proof (rule wp_mono [OF wp_get_job_hash], goal_cases)
      case (1 r w2)
      have "owns sha (clock w) (kv w) (wp_users P) job_id (rq_user rq)"
        if "Option.bind (Option.bind r (\<lambda>h. dget h ''user_id'')) py_int = Some uid"
      proof -
        obtain h s where h: "r = Some h" "dget h ''user_id'' = Some s" "py_int s = Some uid"
          using \<open>Option.bind (Option.bind r (\<lambda>h. dget h ''user_id'')) py_int = Some uid\<close> by (auto simp: bind_eq_Some_conv)
        then have "dget (hash_at (clock w1) (kv w) (job_hash_key job_id)) ''user_id'' = Some s" using 1 u by simp
        then have "dget (hash_at (clock w) (kv w) (job_hash_key job_id)) ''user_id'' = Some s"
          by (rule hash_at_later) (use u in simp)
        then show ?thesis using i h(3) by (auto simp: owns_def)
      qed
      then show ?case using 1 u by (auto split: option.splits)
    qed
  qed
qed

lemma wp_job_read_ok:
  "wp (job_read_ok exec sha rq job_id P)
     (\<lambda>(ok, P') w'. unchanged w w' \<and> (ok \<longrightarrow>
        capable sha (clock w) (kv w) (wp_jobs P) job_id (rq_capability rq) \<or>
        owns sha (clock w) (kv w) (wp_users P) job_id (rq_user rq))) (\<lambda>_ _. False) w"
  unfolding job_read_ok_def job_access_ok_def wp_bnd wp_tryc
proof (rule wp_mono [OF wp_job_token_ok], goal_cases)
  case (1 ok w1)
  then show ?case
    by (cases ok) (auto intro!: wp_mono [OF wp_job_owner_ok] dest: owns_earlier)
qed simp

end

text \<open>
  C31: A job-scoped route never raises in its check and lets a caller in only on a recorded credential: the
  digest of the presented capability is the one stored for that job (or minted here), or the presented
  user token is known for the user the job's record names as its owner.  The id of a job alone, a token of
  another job or of another user opens nothing, whatever fails.
\<close>

theorem job_read_needs_credential:
  assumes "redis_server exec kv clock"
  shows "\<exists>ok P' w'. job_read_ok exec sha rq job_id P w = (Inr (ok, P'), w') \<and> kv w' = kv w \<and>
    (ok \<longrightarrow> capable sha (clock w) (kv w) (wp_jobs P) job_id (rq_capability rq) \<or>
       owns sha (clock w) (kv w) (wp_users P) job_id (rq_user rq))"
  using redis_server.wp_job_read_ok [OF assms, of sha rq job_id P w] unfolding wp_outcome by auto

text \<open>A digest for the examples, and a job with a capability and an owner.\<close>

definition demo_sha :: "string \<Rightarrow> string" where
  "demo_sha s = ''h:'' @ s"

definition demo_web :: mem where
  "demo_web = \<lparr>mstore =
     [(''ffmpeg:job:j1'', VHash [(''access_token_hash'', ''h:cap''), (''user_id'', ''7'')], None),
      (''ffmpeg:web_user:7'', VHash [(''token_hash'', ''h:old'')], None),
      (''ffmpeg:web_user_tokens'', VHash [(''h:old'', ''7''), (''h:other'', ''8'')], None)], mclock = 0\<rparr>"

definition fresh_process :: web_process where
  "fresh_process = \<lparr>wp_jobs = [], wp_users = []\<rparr>"

theorem job_read_needs_credential_witness:
  "\<exists>P' w'. job_read_ok mem_exec demo_sha \<lparr>rq_capability = PStr ''guess'', rq_user = PStr ''other'', rq_secret = PNone\<rparr>
      ''j1'' fresh_process demo_web = (Inr (False, P'), w')"
proof -
  let ?rq = "\<lparr>rq_capability = PStr ''guess'', rq_user = PStr ''other'', rq_secret = PNone\<rparr>"
  have i: "py_int ''8'' = Some 8" "py_int ''7'' = Some 7" by code_simp+
  have h: "hash_at 0 (mkv demo_web) ''ffmpeg:job:j1'' = [(''access_token_hash'', ''h:cap''), (''user_id'', ''7'')]"
    "hash_at 0 (mkv demo_web) user_index = [(''h:old'', ''7''), (''h:other'', ''8'')]"
    by (simp_all add: hash_at_def live_def mkv_def demo_web_def user_index_def)
  have "\<not> capable demo_sha 0 (mkv demo_web) [] ''j1'' (PStr ''guess'')"
    by (simp add: capable_def h job_token_digest_def demo_sha_def known_digest_def job_access_field_def key_defs Let_def)
  moreover have "\<not> owns demo_sha 0 (mkv demo_web) [] ''j1'' (PStr ''other'')"
    by (auto simp: owns_def identifies_def h i user_token_digest_def demo_sha_def local_user_for_def key_defs Let_def)
  moreover have "mclock demo_web = 0" by (simp add: demo_web_def)
  ultimately show ?thesis
    using job_read_needs_credential [OF memory_server, of demo_sha ?rq "''j1''" fresh_process demo_web]
    by (auto simp: fresh_process_def)
qed

section \<open>Issuing\<close>

lemma hash_at_hdel:
  assumes "is_hash (live t m k)"
  shows "dget (hash_at t (effect (Hdel k f) t m) k) g = (if g = f then None else dget (hash_at t m k) g)"
    and "is_hash (live t (effect (Hdel k f) t m) k)"
proof -
  have "hash_at t (effect (Hdel k f) t m) k = dpop f (hash_at t m k)"
  proof (cases "live t m k")
    case None
    then show ?thesis by (simp add: hash_at_def)
  next
    case (Some v)
    then obtain h where "live t m k = Some (VHash h)" using assms by (auto simp: is_hash_def split: rval.splits)
    then have h: "live t m k \<noteq> None" "hash_at t m k = h" by (simp_all add: hash_at_def)
    have gone: "live t (wipe [k] m) k = None" by (simp add: live_def wipe_def)
    show ?thesis
    proof (cases "dpop f h = []")
      case True
      then show ?thesis using h gone by (auto simp: put_hash_def hash_at_def [of _ "wipe _ _"])
    next
      case False
      then show ?thesis using h by (auto simp: put_hash_def hash_at_put)
    qed
  qed
  then show "dget (hash_at t (effect (Hdel k f) t m) k) g = (if g = f then None else dget (hash_at t m k) g)" by auto
  show "is_hash (live t (effect (Hdel k f) t m) k)"
    using assms by (cases "live t m k") (auto simp: put_hash_def is_hash_def live_def [of _ "wipe _ _"] wipe_def)
qed

lemma web_keys [simp]:
  "user_key uid \<noteq> user_index" "user_index \<noteq> user_key uid" "user_index \<noteq> job_hash_key j"
  by (simp_all add: user_key_def user_index_def key_defs)

context redis_up begin

lemma up_close_quiet: "(\<And>w'. clock w' = clock w \<Longrightarrow> kv w' = kv w \<Longrightarrow> Q () w') \<Longrightarrow> wp (suppress (r_close exec)) Q E w"
  unfolding wp_suppress by (rule up_close)

lemma up_read_field:
  assumes "is_hash (live (clock w) (kv w) key)"
  shows "wp (read_field exec key f) (\<lambda>r w'. clock w' = clock w \<and> kv w' = kv w \<and>
    r = (case dget (hash_at (clock w) (kv w) key) f of None \<Rightarrow> [] | Some s \<Rightarrow> s)) (\<lambda>_ _. False) w"
  unfolding read_field_def wp_bnd wp_attempt
  by (rule up_connect) (use assms in \<open>auto intro!: up_hget up_close split: option.splits\<close>)

text \<open>The digest of a job's capability, stored by a process that had none for the job.\<close>

lemma up_issue_job:
  assumes "typed (kv w)" and "job_id \<noteq> []" and "known_token M job_id = []" and "tok \<noteq> []" and "sha tok \<noteq> []"
  shows "wp (issue_job_token exec sha tok job_id M) (\<lambda>(t, M') w'. t = tok \<and> clock w' = clock w \<and> typed (kv w') \<and>
     hash_at (clock w) (kv w') (job_hash_key job_id) = dput job_access_field (sha tok) (hash_at (clock w) (kv w) (job_hash_key job_id)) \<and>
     (\<forall>k. k \<noteq> job_hash_key job_id \<longrightarrow> kv w' k = kv w k)) (\<lambda>_ _. False) w"
    (is "wp _ ?Q _ w")
proof -
  have d: "job_token_digest sha (PStr tok) = sha tok" using assms(4) by (simp add: job_token_digest_def)
  let ?e = "\<lambda>w. effect (Hset (job_hash_key job_id) [(job_access_field, sha tok)]) (clock w) (kv w)"
  have store: "wp (fin (suppress (r_hset exec (job_hash_key job_id) [(job_access_field, sha tok)])) (suppress (r_close exec)))
      (\<lambda>_. ?Q (tok, M')) (\<lambda>_ _. False) w1" if w1: "clock w1 = clock w" "kv w1 = kv w" for w1 M'
    unfolding wp_fin wp_suppress [of "r_hset exec _ _"]
  proof (rule up_hset, goal_cases)
    case 1
    then show ?case using w1 typed_hash [OF assms(1)] by simp
  next
    case (2 w2)
    have t: "typed (kv w2)" unfolding 2(2) by (rule effect_typed) (use assms(1) w1 in simp_all)
    have "kv w2 = ?e w" using 2 w1 by simp
    then have "?Q (tok, M') w3" if "clock w3 = clock w2" "kv w3 = kv w2" for w3
      using that 2 w1 t by (simp add: hash_at_put dmerge_def)
    then show ?case by (intro up_close_quiet) blast
  qed
  have conn: "wp (attempt (r_connect exec)) (\<lambda>client. wp (if client = None then ret (tok, M') else
      bnd (fin (suppress (r_hset exec (job_hash_key job_id) [(job_access_field, sha tok)])) (suppress (r_close exec)))
        (\<lambda>_. ret (tok, M'))) ?Q (\<lambda>_ _. False)) E w1" if w1: "clock w1 = clock w" "kv w1 = kv w" for w1 M' E
    unfolding wp_attempt
    by (rule up_connect, simp only: option.distinct if_False wp_bnd wp_ret, rule store) (use w1 in simp_all)
  show ?thesis
    unfolding issue_job_token_def remember_job_token_def d Let_def
    using assms(2,3,5) by (auto simp del: wp_fin wp_attempt intro!: up_time conn)
qed

end


definition demo_job :: mem where
  "demo_job = \<lparr>mstore = [(''ffmpeg:job:j1'', VHash [(''access_token_hash'', ''h:cap'')], None)], mclock = 0\<rparr>"


section \<open>Rotating\<close>

context redis_up begin

lemma up_resolve:
  assumes "is_hash (live (clock w) (kv w) user_index)" and "token \<noteq> []" and "sha token \<noteq> []"
  shows "wp (resolve_user_token exec sha (PStr token) M) (\<lambda>(user, M') w'. clock w' = clock w \<and> kv w' = kv w \<and>
     (case Option.bind (dget (hash_at (clock w) (kv w) user_index) (sha token)) py_int of
        Some uid \<Rightarrow> user = Some uid \<and> M' = prune_mirror kt_minted (clock w)
           (dput (sha token) \<lparr>kt_user = uid, kt_digest = sha token, kt_minted = clock w\<rparr> M)
      | None \<Rightarrow> user = local_user_for M (sha token) \<and> M' = M)) (\<lambda>_ _. False) w"
    (is "wp _ ?Q _ w")
proof -
  have d: "user_token_digest sha (PStr token) = sha token" using assms(2) by (simp add: user_token_digest_def)
  show ?thesis
    unfolding resolve_user_token_def Let_def d if_not_P [OF assms(3)] wp_bnd [of "attempt (r_connect exec)"] wp_attempt
  proof (rule up_connect, goal_cases)
    case (1 w1)
    have "wp (attempt (r_hget exec user_index (sha token)))
        (\<lambda>raw w2. raw = Some (dget (hash_at (clock w) (kv w) user_index) (sha token)) \<and> clock w2 = clock w \<and> kv w2 = kv w) E w1" for E
      unfolding wp_attempt by (rule up_hget) (use 1 assms(1) in auto)
    note get = this
    let ?u = "Option.bind (dget (hash_at (clock w) (kv w) user_index) (sha token)) py_int"
    show ?case
      unfolding wp_bnd wp_fin if_not_P [OF option.distinct(2)]
    proof (rule wp_mono [OF get], goal_cases)
      case (1 raw w2)
      then show ?case
        by (cases ?u) (auto simp: remember_user_def assms(3) intro!: up_time up_close_quiet simp del: wp_suppress)
    qed (auto intro: wp_mono [OF wp_True])
  qed
qed

lemma up_issue_user:
  assumes "is_hash (live (clock w) (kv w) (user_key uid))" and "is_hash (live (clock w) (kv w) user_index)"
    and "int_of user_id = Some uid" and "tok \<noteq> []" and "sha tok \<noteq> []"
    and prev: "prev = dget (hash_at (clock w) (kv w) (user_key uid)) user_hash_field"
  shows "wp (issue_user_token exec sha tok user_id M) (\<lambda>(t, M') w'. t = tok \<and> clock w' = clock w \<and>
     M' = prune_mirror kt_minted (clock w)
       (dput (sha tok) \<lparr>kt_user = uid, kt_digest = sha tok, kt_minted = clock w\<rparr> (snd (forget_user uid M))) \<and>
     dget (hash_at (clock w) (kv w') (user_key uid)) user_hash_field = Some (sha tok) \<and>
     is_hash (live (clock w) (kv w') user_index) \<and>
     (\<forall>d. dget (hash_at (clock w) (kv w') user_index) d =
        (if d = sha tok then Some (int_str uid)
         else if d \<noteq> [] \<and> prev = Some d then None else dget (hash_at (clock w) (kv w) user_index) d)) \<and>
     (\<forall>k. k \<noteq> user_key uid \<longrightarrow> k \<noteq> user_index \<longrightarrow> kv w' k = kv w k)) (\<lambda>_ _. False) w"
    (is "wp _ ?Q _ w")
proof -
  let ?t = "clock w" and ?d = "sha tok"
  have dig: "user_token_digest sha (PStr tok) = ?d" using assms(4) by (simp add: user_token_digest_def)
  have index: "wp (bnd (case prev of None \<Rightarrow> ret () | Some p \<Rightarrow> if p \<noteq> [] \<and> p \<noteq> ?d then r_hdel exec user_index p else ret ())
      (\<lambda>_. r_hset exec user_index [(?d, int_str uid)])) (\<lambda>_ w3. clock w3 = ?t \<and>
        (\<forall>k. k \<noteq> user_index \<longrightarrow> kv w3 k = kv w2 k) \<and> is_hash (live ?t (kv w3) user_index) \<and>
        (\<forall>d. dget (hash_at ?t (kv w3) user_index) d = (if d = ?d then Some (int_str uid)
           else if d \<noteq> [] \<and> prev = Some d then None else dget (hash_at ?t (kv w2) user_index) d))) E w2"
    if w2: "clock w2 = ?t" "is_hash (live ?t (kv w2) user_index)" for w2 E
  proof -
    have retire: "wp (case prev of None \<Rightarrow> ret () | Some p \<Rightarrow> if p \<noteq> [] \<and> p \<noteq> ?d then r_hdel exec user_index p else ret ())
      (\<lambda>_ w3. clock w3 = ?t \<and> (\<forall>k. k \<noteq> user_index \<longrightarrow> kv w3 k = kv w2 k) \<and> is_hash (live ?t (kv w3) user_index) \<and>
        (\<forall>d. d \<noteq> ?d \<longrightarrow> dget (hash_at ?t (kv w3) user_index) d =
           (if d \<noteq> [] \<and> prev = Some d then None else dget (hash_at ?t (kv w2) user_index) d))) E w2"
    proof (cases "\<exists>p. prev = Some p \<and> p \<noteq> [] \<and> p \<noteq> ?d")
      case False
      then show ?thesis using w2 by (auto split: option.split)
    next
      case True
      then obtain p where p: "prev = Some p" "p \<noteq> [] \<and> p \<noteq> ?d" by blast
      have "wp (r_hdel exec user_index p) (\<lambda>_ w3. clock w3 = ?t \<and> (\<forall>k. k \<noteq> user_index \<longrightarrow> kv w3 k = kv w2 k) \<and>
        is_hash (live ?t (kv w3) user_index) \<and> (\<forall>d. d \<noteq> ?d \<longrightarrow> dget (hash_at ?t (kv w3) user_index) d =
           (if d \<noteq> [] \<and> prev = Some d then None else dget (hash_at ?t (kv w2) user_index) d))) E w2"
        by (rule up_hdel)
          (use w2 p hash_at_hdel [OF w2(2), of p] effect_untouched [of _ "Hdel user_index p"] in \<open>auto simp del: effect.simps\<close>)
      then show ?thesis using p by simp
    qed
    show ?thesis
      unfolding wp_bnd
    proof (rule wp_mono [OF retire], goal_cases)
      case (1 x w3)
      show ?case
      proof (rule up_hset, goal_cases)
        case 1
        then show ?case using \<open>clock w3 = ?t \<and> _\<close> by simp
      next
        case (2 w4)
        then show ?case using 1 by (auto simp: hash_at_put dmerge_def is_hash_def)
      qed
    qed
  qed
  let ?stored = "\<lambda>w'. clock w' = ?t \<and> dget (hash_at ?t (kv w') (user_key uid)) user_hash_field = Some ?d \<and>
     is_hash (live ?t (kv w') user_index) \<and>
     (\<forall>d. dget (hash_at ?t (kv w') user_index) d = (if d = ?d then Some (int_str uid)
         else if d \<noteq> [] \<and> prev = Some d then None else dget (hash_at ?t (kv w) user_index) d)) \<and>
     (\<forall>k. k \<noteq> user_key uid \<longrightarrow> k \<noteq> user_index \<longrightarrow> kv w' k = kv w k)"
  have put: "wp (bnd (r_hset exec (user_key uid) [(user_hash_field, ?d), (user_minted_field, int_str (py_trunc now))]) (\<lambda>_.
      bnd (case prev of None \<Rightarrow> ret () | Some p \<Rightarrow> if p \<noteq> [] \<and> p \<noteq> ?d then r_hdel exec user_index p else ret ())
      (\<lambda>_. r_hset exec user_index [(?d, int_str uid)]))) (\<lambda>_. ?stored) E w1" if w1: "clock w1 = ?t" "kv w1 = kv w" for w1 E now
    unfolding wp_bnd [of "r_hset exec _ _"]
  proof (rule up_hset, goal_cases)
    case 1
    then show ?case using w1 assms(1) by simp
  next
    case (2 w2)
    have idx: "kv w2 user_index = kv w user_index" using 2 w1 by simp
    have h: "hash_at ?t (kv w2) user_index = hash_at ?t (kv w) user_index" "is_hash (live ?t (kv w2) user_index)"
      using hash_at_cong [of "kv w2" user_index "kv w" ?t, OF idx] live_cong [of "kv w2" user_index "kv w" ?t, OF idx] assms(2)
      by simp_all
    have u: "dget (hash_at ?t (kv w2) (user_key uid)) user_hash_field = Some ?d"
      using 2 w1 by (simp add: hash_at_put dget_dmerge user_hash_field_def user_minted_field_def)
    have frame: "kv w2 k = kv w k" if "k \<noteq> user_key uid" for k using 2 w1 that by simp
    show ?case
    proof (rule wp_mono [OF index], goal_cases)
      case (3 x w3)
      have "hash_at ?t (kv w3) (user_key uid) = hash_at ?t (kv w2) (user_key uid)"
        by (rule hash_at_cong) (use 3 in simp)
      then show ?case using 3 h u frame by simp
    qed (use 2 w1 h in simp_all)
  qed
  have body: "wp (bnd (r_hget exec (user_key uid) user_hash_field) (\<lambda>previous.
      bnd (r_time exec) (\<lambda>now.
      bnd (r_hset exec (user_key uid) [(user_hash_field, ?d), (user_minted_field, int_str (py_trunc now))]) (\<lambda>_.
      bnd (case previous of None \<Rightarrow> ret () | Some p \<Rightarrow> if p \<noteq> [] \<and> p \<noteq> ?d then r_hdel exec user_index p else ret ()) (\<lambda>_.
      r_hset exec user_index [(?d, int_str uid)]))))) (\<lambda>_. ?stored) E w1" if w1: "clock w1 = ?t" "kv w1 = kv w" for w1 E
  proof -
    have p: "dget (hash_at (clock w1) (kv w1) (user_key uid)) user_hash_field = prev" using w1 prev by simp
    show ?thesis
      unfolding wp_bnd [of "r_hget exec _ _"] wp_bnd [of "r_time exec"]
      by (rule up_hget, use assms(1) w1 in simp, unfold p, rule up_time, rule put) (use w1 in simp_all)
  qed
  have close: "wp (suppress (r_close exec)) (\<lambda>_ w'. ?Q (tok, M') w') E w1"
    if "?stored w1" "M' = prune_mirror kt_minted ?t (dput ?d \<lparr>kt_user = uid, kt_digest = ?d, kt_minted = ?t\<rparr> (snd (forget_user uid M)))"
    for w1 M' E
    by (rule up_close_quiet) (use that in simp)
  show ?thesis
    unfolding issue_user_token_def assms(3) option.case Let_def dig remember_user_def if_not_P [OF assms(5)]
      wp_bnd [of "bnd (r_time exec) _"] wp_bnd [of "r_time exec"] wp_bnd [of "attempt (r_connect exec)"] wp_attempt wp_ret
  proof (rule up_time, rule up_connect, goal_cases)
    case (1 w1 w2)
    then have w2: "clock w2 = ?t" "kv w2 = kv w" by simp_all
    show ?case
      unfolding if_not_P [OF option.distinct(2)] wp_bnd [of "fin _ _"] wp_fin wp_suppress [of "bnd (r_hget exec _ _) _"] wp_ret
      by (rule wp_mono [OF body [OF w2]]; rule close) (use 1 in simp_all)
  qed
qed

end

text \<open>
  With Redis up, a rotation retires the old token in Redis and in the process that rotates: there, and
  in any process that has not met the old token, it no longer resolves, while the new one resolves to the
  user everywhere at once.
\<close>

theorem rotation_retires_here:
  assumes "redis_up exec kv clock" and "is_hash (live (clock w) (kv w) (user_key uid))" and "is_hash (live (clock w) (kv w) user_index)"
    and "int_of user_id = Some uid" and "tok \<noteq> []" and "inj sha" and "\<And>s. sha s \<noteq> []"
    and "dget (hash_at (clock w) (kv w) (user_key uid)) user_hash_field = Some (sha old)" and "old \<noteq> []" and "old \<noteq> tok"
    and "\<And>known. (sha old, known) \<in> set M \<Longrightarrow> kt_user known = uid"
  shows "\<exists>M' w1. issue_user_token exec sha tok user_id M w = (Inr (tok, M'), w1) \<and>
    (\<exists>w2. resolve_user_token exec sha (PStr old) M' w1 = (Inr (None, M'), w2)) \<and>
    (\<exists>w2. resolve_user_token exec sha (PStr old) [] w1 = (Inr (None, []), w2)) \<and>
    (\<forall>M2. \<exists>M3 w2. resolve_user_token exec sha (PStr tok) M2 w1 = (Inr (Some uid, M3), w2))"
proof -
  have n: "sha old \<noteq> sha tok" using assms(10) inj_eq [OF assms(6)] by simp
  obtain M' w1 where o: "issue_user_token exec sha tok user_id M w = (Inr (tok, M'), w1)"
    and M': "M' = prune_mirror kt_minted (clock w)
       (dput (sha tok) \<lparr>kt_user = uid, kt_digest = sha tok, kt_minted = clock w\<rparr> (snd (forget_user uid M)))"
    and c: "clock w1 = clock w" and h: "is_hash (live (clock w) (kv w1) user_index)"
    and i: "\<And>d. dget (hash_at (clock w) (kv w1) user_index) d = (if d = sha tok then Some (int_str uid)
         else if d \<noteq> [] \<and> Some (sha old) = Some d then None else dget (hash_at (clock w) (kv w) user_index) d)"
    using redis_up.up_issue_user [where sha = sha and M = M, OF assms(1-5) assms(7) assms(8) [symmetric]] unfolding wp_outcome by auto
  have gone: "dget (hash_at (clock w1) (kv w1) user_index) (sha old) = None" using i n assms(7) c by simp
  have "dget M' (sha old) = None"
  proof (rule ccontr)
    assume "dget M' (sha old) \<noteq> None"
    then obtain v where "(sha old, v) \<in> set (dput (sha tok) \<lparr>kt_user = uid, kt_digest = sha tok, kt_minted = clock w\<rparr> (snd (forget_user uid M)))"
      unfolding M' by (auto dest: prune_mirror_get)
    then have "(sha old, v) \<in> set (snd (forget_user uid M))" using n by (auto dest: in_dput)
    then show False using assms(11) by (auto simp: forget_user_def)
  qed
  then have loc: "local_user_for M' (sha old) = None" by (simp add: local_user_for_def)
  note res = redis_up.up_resolve [where sha = sha, OF assms(1), of w1, unfolded wp_outcome]
  have h1: "is_hash (live (clock w1) (kv w1) user_index)" using h c by simp
  have "\<exists>w2. resolve_user_token exec sha (PStr old) M' w1 = (Inr (None, M'), w2)"
    using res [of old M'] h1 assms(7,9) gone loc by auto
  moreover have "\<exists>w2. resolve_user_token exec sha (PStr old) [] w1 = (Inr (None, []), w2)"
    using res [of old "[]"] h1 assms(7,9) gone by (auto simp: local_user_for_def)
  moreover have "\<exists>M3 w2. resolve_user_token exec sha (PStr tok) M2 w1 = (Inr (Some uid, M3), w2)" for M2
    using res [of tok M2] h1 assms(5,7) i c by auto
  ultimately show ?thesis using o by blast
qed

text \<open>User 7 holds the token \<open>old\<close>.\<close>

definition demo_user :: mem where
  "demo_user = \<lparr>mstore =
     [(''ffmpeg:web_user:7'', VHash [(''token_hash'', ''h:old'')], None),
      (''ffmpeg:web_user_tokens'', VHash [(''h:old'', ''7'')], None)], mclock = 0\<rparr>"

lemma demo_user_facts:
  "mclock demo_user = 0" "user_key 7 = ''ffmpeg:web_user:7''" "int_str 7 = ''7''" "int_of (PInt 7) = Some 7"
  "mkv demo_user ''ffmpeg:web_user:7'' = Some (VHash [(''token_hash'', ''h:old'')], None)"
  "mkv demo_user ''ffmpeg:web_user_tokens'' = Some (VHash [(''h:old'', ''7'')], None)"
proof -
  show i: "int_str 7 = ''7''" by code_simp
  show "user_key 7 = ''ffmpeg:web_user:7''" by (simp add: user_key_def i)
qed (simp_all add: demo_user_def mkv_def int_of_def)

theorem rotation_retires_here_witness:
  "\<exists>M' w1. issue_user_token mem_exec demo_sha ''new'' (PInt 7) [] demo_user = (Inr (''new'', M'), w1) \<and>
     (\<exists>w2. resolve_user_token mem_exec demo_sha (PStr ''old'') M' w1 = (Inr (None, M'), w2))"
proof -
  have "\<exists>M' w1. issue_user_token mem_exec demo_sha ''new'' (PInt 7) [] demo_user = (Inr (''new'', M'), w1) \<and>
    (\<exists>w2. resolve_user_token mem_exec demo_sha (PStr ''old'') M' w1 = (Inr (None, M'), w2)) \<and>
    (\<exists>w2. resolve_user_token mem_exec demo_sha (PStr ''old'') [] w1 = (Inr (None, []), w2)) \<and>
    (\<forall>M2. \<exists>M3 w2. resolve_user_token mem_exec demo_sha (PStr ''new'') M2 w1 = (Inr (Some 7, M3), w2))"
    by (rule rotation_retires_here [OF memory_up])
      (simp_all add: demo_user_facts demo_sha_def inj_def is_hash_def live_def hash_at_def user_index_def user_hash_field_def)
  then show ?thesis by blast
qed

text \<open>
  A process that has met the old token keeps answering to it: whoever rotates (or revokes) elsewhere, the
  old value still resolves to the user there, although the documentation says that it stops working
  immediately.
\<close>

theorem rotated_token_resolves_elsewhere:
  assumes "redis_up exec kv clock" and "is_hash (live (clock w) (kv w) (user_key uid))" and "is_hash (live (clock w) (kv w) user_index)"
    and "int_of user_id = Some uid" and "tok \<noteq> []" and "inj sha" and "\<And>s. sha s \<noteq> []"
    and "dget (hash_at (clock w) (kv w) (user_key uid)) user_hash_field = Some (sha old)" and "old \<noteq> []" and "old \<noteq> tok"
    and "dget (hash_at (clock w) (kv w) user_index) (sha old) = Some (int_str uid)"
  shows "\<exists>MB w1 MA w2 MC w3.
    resolve_user_token exec sha (PStr old) [] w = (Inr (Some uid, MB), w1) \<and>
    issue_user_token exec sha tok user_id [] w1 = (Inr (tok, MA), w2) \<and>
    resolve_user_token exec sha (PStr old) MB w2 = (Inr (Some uid, MC), w3)"
proof -
  let ?known = "\<lparr>kt_user = uid, kt_digest = sha old, kt_minted = clock w\<rparr>"
  note res = redis_up.up_resolve [where sha = sha, OF assms(1), unfolded wp_outcome]
  obtain w1 where r1: "resolve_user_token exec sha (PStr old) [] w = (Inr (Some uid, [(sha old, ?known)]), w1)"
    and w1: "clock w1 = clock w" "kv w1 = kv w"
    using res [of w old "[]"] assms(3,7,9,11) by (auto simp: prune_mirror_single local_ttl_def)
  obtain MA w2 where r2: "issue_user_token exec sha tok user_id [] w1 = (Inr (tok, MA), w2)"
    and w2: "clock w2 = clock w" "is_hash (live (clock w) (kv w2) user_index)"
    and i: "\<And>d. dget (hash_at (clock w) (kv w2) user_index) d = (if d = sha tok then Some (int_str uid)
         else if d \<noteq> [] \<and> Some (sha old) = Some d then None else dget (hash_at (clock w) (kv w) user_index) d)"
    using redis_up.up_issue_user [where sha = sha and M = "[]" and w = w1 and kv = kv and clock = clock, unfolded w1, OF assms(1-5) assms(7) assms(8) [symmetric]]
    unfolding wp_outcome by auto
  have "sha old \<noteq> sha tok" using assms(10) inj_eq [OF assms(6)] by simp
  then have "dget (hash_at (clock w2) (kv w2) user_index) (sha old) = None" using i w2 assms(7) by simp
  then obtain w3 where "resolve_user_token exec sha (PStr old) [(sha old, ?known)] w2 = (Inr (Some uid, [(sha old, ?known)]), w3)"
    using res [of w2 old "[(sha old, ?known)]"] w2 assms(7,9) by (auto simp: local_user_for_def)
  then show ?thesis using r1 r2 by blast
qed

theorem rotated_token_resolves_elsewhere_witness:
  "\<exists>MB w1 MA w2 MC w3.
    resolve_user_token mem_exec demo_sha (PStr ''old'') [] demo_user = (Inr (Some 7, MB), w1) \<and>
    issue_user_token mem_exec demo_sha ''new'' (PInt 7) [] w1 = (Inr (''new'', MA), w2) \<and>
    resolve_user_token mem_exec demo_sha (PStr ''old'') MB w2 = (Inr (Some 7, MC), w3)"
  by (rule rotated_token_resolves_elsewhere [OF memory_up])
    (simp_all add: demo_user_facts demo_sha_def inj_def is_hash_def live_def hash_at_def user_index_def user_hash_field_def)

end
