(* ===== verification/Archive.thy ===== *)
theory Archive
  imports Disk Payload
begin

text \<open>
  Creating archives: the part-size preference (\<open>utils/archive_split.py\<close>), the names of the members and
  the cutting of a packed archive into volumes (\<open>tasks/conversion_tasks.py\<close>), and the decision whether
  to cut and the sending of the volumes (\<open>_split_and_deliver_archive\<close> of \<open>workers/ffmpeg_worker.py\<close>).
  Packing the archive itself is \<open>zipfile\<close>'s.
\<close>

section \<open>The part-size preference\<close>

definition default_value :: string where
  "default_value = ''default''"

definition off_value :: string where
  "off_value = ''off''"

definition min_part_bytes :: int where
  "min_part_bytes = 1 * 1024 * 1024"

definition unit_factors :: "(string \<times> int) list" where
  "unit_factors =
     [(''b'', 1), (''k'', 1024), (''kb'', 1024), (''ki'', 1024), (''kib'', 1024),
      (''m'', 1024 ^ 2), (''mb'', 1024 ^ 2), (''mi'', 1024 ^ 2), (''mib'', 1024 ^ 2),
      (''g'', 1024 ^ 3), (''gb'', 1024 ^ 3), (''gi'', 1024 ^ 3), (''gib'', 1024 ^ 3),
      (''t'', 1024 ^ 4), (''tb'', 1024 ^ 4), (''ti'', 1024 ^ 4), (''tib'', 1024 ^ 4)]"

text \<open>\<open>([0-9]+(?:\.[0-9]+)?)\s*([kmgt]i?b?)\<close>, matching the whole text: the number and the unit.\<close>

definition size_units :: "string list" where
  "size_units = concat (map (\<lambda>c. [[c], [c, CHR ''b''], [c, CHR ''i''], [c, CHR ''i'', CHR ''b'']]) ''kmgt'')"

definition size_match :: "string \<Rightarrow> (string \<times> string) option" where
  "size_match s =
     (let ds = takeWhile is_digit s; r = dropWhile is_digit s;
          (num, r) =
            (case r of
               [] \<Rightarrow> (ds, r)
             | c # f \<Rightarrow>
                 if c = CHR ''.'' \<and> takeWhile is_digit f \<noteq> []
                 then (ds @ CHR ''.'' # takeWhile is_digit f, dropWhile is_digit f)
                 else (ds, r));
          u = dropWhile is_space r in
      if ds \<noteq> [] \<and> u \<in> set size_units then Some (num, u) else None)"

definition default_words :: "string set" where
  "default_words = {'''', ''default'', ''auto'', ''cap'', ''skip''}"

definition off_words :: "string set" where
  "off_words = {''off'', ''none'', ''no'', ''no split'', ''nosplit'', ''disable'', ''disabled''}"

definition size_value :: "int \<Rightarrow> string" where
  "size_value n = ''size:'' @ int_str n"

definition parts_value :: "int \<Rightarrow> string" where
  "parts_value n = ''parts:'' @ int_str n"

definition preset_value :: "int \<Rightarrow> string" where
  "preset_value n = size_value n"

text \<open>A zero or unknown size reads \<open>unknown\<close>.\<close>

definition format_size :: "int \<Rightarrow> string" where
  "format_size n =
     (if n \<le> 0 then ''unknown''
      else if 1024 ^ 3 \<le> n then fixed_str 1 (of_int n / 1024 ^ 3) @ '' GB''
      else if 1024 ^ 2 \<le> n then fixed_str 1 (of_int n / 1024 ^ 2) @ '' MB''
      else if 1024 \<le> n then fixed_str 1 (of_int n / 1024) @ '' KB''
      else int_str n @ '' B'')"

text \<open>The size a match stands for: \<open>int(float(number) * factor)\<close>.\<close>

definition matched_size :: "string \<Rightarrow> string \<Rightarrow> int" where
  "matched_size num u =
     (case (py_float num, map_of unit_factors u) of
        (Some (Fin x), Some f) \<Rightarrow> py_trunc (x * of_int f)
      | _ \<Rightarrow> 0)"

definition parse_part :: "pyval \<Rightarrow> exn + string" where
  "parse_part t =
     (let raw = lower (strip (id_text t)) in
      if raw \<in> default_words then Inr default_value
      else if raw \<in> off_words then Inr off_value
      else if all_digits raw then
        (let count = (case py_int raw of Some n \<Rightarrow> n | None \<Rightarrow> 0) in
         if count < 2 then Inl ValueError else Inr (parts_value count))
      else
        (case size_match raw of
           None \<Rightarrow> Inl ValueError
         | Some (num, u) \<Rightarrow>
             if matched_size num u < min_part_bytes then Inl ValueError
             else Inr (size_value (matched_size num u))))"

definition normalize_part :: "pyval \<Rightarrow> string" where
  "normalize_part v =
     (let raw = lower (strip (id_text v)) in
      if raw = off_value then off_value
      else if starts_with ''size:'' raw then
        (case py_int (drop 5 raw) of
           None \<Rightarrow> default_value
         | Some n \<Rightarrow> if min_part_bytes \<le> n then size_value n else default_value)
      else if starts_with ''parts:'' raw then
        (case py_int (drop 6 raw) of
           None \<Rightarrow> default_value
         | Some n \<Rightarrow> if 2 \<le> n then parts_value n else default_value)
      else default_value)"

text \<open>The number behind a canonical \<open>size:\<close> or \<open>parts:\<close> value.\<close>

definition value_number :: "string \<Rightarrow> int" where
  "value_number c = (case partition_at (CHR '':'') c of (_, _, n) \<Rightarrow> case py_int n of Some i \<Rightarrow> i | None \<Rightarrow> 0)"

definition plan_part :: "pyval \<Rightarrow> int \<Rightarrow> int \<times> int" where
  "plan_part v cap =
     (let c = normalize_part v in
      if c = off_value then (0, 0)
      else if starts_with ''size:'' c then (value_number c, 0)
      else if starts_with ''parts:'' c then (0, value_number c)
      else (max 0 cap, 0))"

definition estimate_parts :: "pyval \<Rightarrow> int \<Rightarrow> int \<Rightarrow> int option" where
  "estimate_parts v total_bytes cap_bytes =
     (let c = normalize_part v in
      if c = off_value then Some 1
      else if starts_with ''parts:'' c then Some (value_number c)
      else if total_bytes \<le> 0 then None
      else if starts_with ''size:'' c then
        (let cap = value_number c in if cap \<le> 0 then None else Some (max 1 (- (- total_bytes div cap))))
      else
        (let cap = max 0 cap_bytes in
         if cap \<le> 0 \<or> total_bytes \<le> cap then Some 1 else Some (max 1 (- (- total_bytes div cap)))))"

section \<open>Member names\<close>

text \<open>
  The search for a free name ends only if there is one, so it is a partial function: \<open>None\<close> is a
  search that goes on forever.
\<close>

partial_function (option) free_name :: "string \<Rightarrow> string \<Rightarrow> string set \<Rightarrow> string \<Rightarrow> nat \<Rightarrow> string option" where
  "free_name stem ext used candidate counter =
     (if lower candidate \<in> used
      then free_name stem ext used (stem @ ''_'' @ nat_str counter @ ext) (Suc counter)
      else Some candidate)"

declare free_name.simps [code]

definition unique_arcname :: "string \<Rightarrow> string set \<Rightarrow> (string \<times> string set) option" where
  "unique_arcname name used =
     (let base = (if basename name = [] then ''file'' else basename name);
          (stem, ext) = splitext base in
      map_option (\<lambda>c. (c, insert (lower c) used)) (free_name stem ext used base 1))"

text \<open>The level from the environment; unset is the default, what is no number too.\<close>

definition archive_compression_level :: "string option \<Rightarrow> int" where
  "archive_compression_level env =
     (case py_int (case env of None \<Rightarrow> ''6'' | Some s \<Rightarrow> if s = [] then ''6'' else s) of
        None \<Rightarrow> 6
      | Some n \<Rightarrow> max 0 (min 9 n))"

section \<open>Volumes\<close>

definition archive_split_chunk :: nat where
  "archive_split_chunk = 8 * 1024 * 1024"

definition volume_name :: "string \<Rightarrow> nat \<Rightarrow> string" where
  "volume_name archive i =
     (let base = (if basename archive = [] then ''archive.zip'' else basename archive) in
      base @ ''.'' @ pad_left 3 (nat_str i))"

text \<open>The inner loop: chunk by chunk until the volume is full or the archive is read to its end.\<close>

function copy_chunks :: "faults \<Rightarrow> string \<Rightarrow> nat \<Rightarrow> nat \<Rightarrow> bytes \<Rightarrow> (disk, nat \<times> bytes) io" where
  "copy_chunks fault target remaining written src =
     (if remaining = 0 then ret (written, src)
      else bnd (f_read fault (min archive_split_chunk remaining) src) (\<lambda>chunk.
        if chunk = [] then ret (written, src)
        else bnd (f_write fault target chunk) (\<lambda>_.
          copy_chunks fault target (remaining - length chunk) (written + length chunk) (drop (length chunk) src))))"
  by pat_completeness auto
termination
  by (relation "measure (\<lambda>(_, _, remaining, _, _). remaining)") auto

declare copy_chunks.simps [simp del]

text \<open>One volume: what was written and what is left to read; a volume with nothing in it is removed.\<close>

definition one_volume :: "faults \<Rightarrow> string \<Rightarrow> nat \<Rightarrow> bytes \<Rightarrow> (disk, nat \<times> bytes) io" where
  "one_volume fault target cap src =
     bnd (f_create fault target) (\<lambda>_.
     bnd (copy_chunks fault target cap 0 src) (\<lambda>(written, rest).
       if written = 0 then bnd (suppress (f_remove fault target)) (\<lambda>_. ret (0, rest))
       else ret (written, rest)))"

text \<open>
  The outer loop, with the volumes finished so far and the exception it ended in, if any.  Its fuel
  bounds the number of volumes; \<open>None\<close> is fuel run out.
\<close>

fun volumes_from :: "nat \<Rightarrow> faults \<Rightarrow> (nat \<Rightarrow> string) \<Rightarrow> nat \<Rightarrow> nat \<Rightarrow> bytes \<Rightarrow> string list \<Rightarrow>
    (disk, (string list \<times> exn option) option) io" where
  "volumes_from 0 fault target cap i src vols = ret None"
| "volumes_from (Suc n) fault target cap i src vols =
     bnd (tryc (fmapio Inr (one_volume fault (target i) cap src)) (\<lambda>e. ret (Inl e))) (\<lambda>r.
       case r of
         Inl e \<Rightarrow> ret (Some (vols, Some e))
       | Inr (written, rest) \<Rightarrow>
           if written = 0 then ret (Some (vols, None))
           else volumes_from n fault target cap (Suc i) rest (vols @ [target i]))"

definition remove_all :: "faults \<Rightarrow> string list \<Rightarrow> (disk, unit) io" where
  "remove_all fault ps = for_each ps () (\<lambda>p _. suppress (f_remove fault p))"

definition volume_path :: "string \<Rightarrow> string \<Rightarrow> nat \<Rightarrow> string" where
  "volume_path archive name i =
     path_join (if dirname archive = [] then ''.'' else dirname archive) (volume_name name i)"

text \<open>More volumes than bytes are never made, so the archive's length is fuel enough.\<close>

definition split_archive_sync :: "faults \<Rightarrow> string \<Rightarrow> string \<Rightarrow> int \<Rightarrow> bool \<Rightarrow> (disk, string list option) io" where
  "split_archive_sync fault archive name max_bytes remove_source =
     bnd (tryc (fmapio Some (f_size fault archive)) (\<lambda>_. ret None)) (\<lambda>size.
       case size of
         None \<Rightarrow> ret (Some [archive])
       | Some n \<Rightarrow>
           if max_bytes \<le> 0 \<or> int n \<le> max_bytes then ret (Some [archive])
           else bnd (f_open fault archive) (\<lambda>src.
             bnd (volumes_from (Suc (length src)) fault (volume_path archive name) (nat max_bytes) 1 src []) (\<lambda>out.
               case out of
                 None \<Rightarrow> ret None
               | Some (vols, Some e) \<Rightarrow> bnd (remove_all fault vols) (\<lambda>_. raise e)
               | Some (vols, None) \<Rightarrow>
                   bnd (whenb (remove_source \<and> vols \<noteq> []) (suppress (f_remove fault archive))) (\<lambda>_.
                     ret (Some vols)))))"

section \<open>Cutting and sending\<close>

text \<open>The size of a volume and whether there is anything to cut.\<close>

definition volume_cap :: "int \<Rightarrow> int \<Rightarrow> int \<Rightarrow> int" where
  "volume_cap cap want nbytes = (if 2 \<le> want then max 1 (- (- nbytes div want)) else cap)"

definition wants_split :: "int \<Rightarrow> int \<Rightarrow> int \<Rightarrow> bool" where
  "wants_split cap want nbytes \<longleftrightarrow> \<not> (volume_cap cap want nbytes \<le> 0 \<or> (want < 2 \<and> nbytes \<le> volume_cap cap want nbytes))"

text \<open>
  \<open>send\<close> is the userbot's upload of one volume; the progress messages are left out.  The answer is the
  volumes offered, \<open>None\<close> for no split delivery.
\<close>

definition split_and_deliver ::
    "faults \<Rightarrow> (string \<Rightarrow> nat \<Rightarrow> nat \<Rightarrow> (disk, bool) io) \<Rightarrow> bool \<Rightarrow> job \<Rightarrow> string \<Rightarrow> (disk, string list option) io" where
  "split_and_deliver fault send userbot j output =
     (let cap = (case int_of (py_or (jget j ''split_max_bytes'') (PInt 0)) of Some n \<Rightarrow> n | None \<Rightarrow> 0);
          want = (case int_of (py_or (jget j ''split_parts'') (PInt 0)) of Some n \<Rightarrow> n | None \<Rightarrow> 0) in
      if \<not> truthy (jget j ''chat_id'') \<or> \<not> userbot then ret None
      else bnd (tryc (fmapio Some (f_size fault output)) (\<lambda>_. ret None)) (\<lambda>size.
        case size of
          None \<Rightarrow> ret None
        | Some n \<Rightarrow>
            if \<not> wants_split cap want (int n) then ret None
            else
              (let name = basename (py_str (py_or (jget j ''original_filename'') (PStr (basename output)))) in
               bnd (split_archive_sync fault output name (volume_cap cap want (int n)) True) (\<lambda>vols.
                 case vols of
                   None \<Rightarrow> ret None
                 | Some vs \<Rightarrow>
                     if length vs \<le> 1 then ret None
                     else bnd (for_each (zip [1..<Suc (length vs)] vs) () (\<lambda>(i, v) _.
                            suppress (send v i (length vs)))) (\<lambda>_.
                          bnd (remove_all fault vs) (\<lambda>_. ret (Some vs)))))))"

end
