(* ===== verification/ArchiveResults.thy ===== *)
theory ArchiveResults
  imports Archive
begin

text \<open>
  What the archive functions guarantee: a typed part size reads back as it was meant, member names never
  collide, the volumes of a cut archive join to the archive, the bytes are never lost whatever
  operation fails, the announced number of volumes is the number made; and what a failed cut leaves.
\<close>

section \<open>The preference\<close>

definition canonical :: "string \<Rightarrow> bool" where
  "canonical s \<longleftrightarrow> s = default_value \<or> s = off_value \<or>
     (\<exists>n. min_part_bytes \<le> n \<and> s = size_value n) \<or> (\<exists>n. 2 \<le> n \<and> s = parts_value n)"

lemma digit_lower: "is_digit c \<Longrightarrow> lower_char c = c"
  unfolding is_digit_set lower_char_def by (simp, elim disjE; simp)

text \<open>Characters that survive \<open>strip().lower()\<close>.\<close>

definition plain :: "string \<Rightarrow> bool" where
  "plain s \<longleftrightarrow> (\<forall>c \<in> set s. \<not> is_space c \<and> lower_char c = c)"

lemma plain_append [simp]: "plain (s @ t) \<longleftrightarrow> plain s \<and> plain t"
  by (auto simp: plain_def)

lemma plain_int_str [simp]: "plain (int_str i)"
proof -
  have "plain (nat_str n)" for n
    using nat_str_digits digit_lower digit_not_space by (simp add: plain_def)
  moreover have "\<not> is_space (CHR ''-'')" "lower_char (CHR ''-'') = CHR ''-''"
    by (simp_all add: is_space_def lower_char_def)
  ultimately show ?thesis by (simp add: int_str_def plain_def)
qed

lemma lower_strip_plain: "plain s \<Longrightarrow> lower (strip s) = s"
  using strip_no_space [of s] map_idI [of s lower_char] by (simp add: plain_def lower_def)

lemma plain_words [simp]: "plain ''size:''" "plain ''parts:''" "plain ''default''" "plain ''off''"
  by code_simp+

lemma value_plain:
  "lower (strip (size_value n)) = size_value n" "lower (strip (parts_value n)) = parts_value n"
  "lower (strip default_value) = default_value" "lower (strip off_value) = off_value"
  unfolding size_value_def parts_value_def default_value_def off_value_def
  by (rule lower_strip_plain; simp only: plain_append plain_int_str plain_words)+

lemma value_parts:
  "starts_with ''size:'' (size_value n)" "\<not> starts_with ''size:'' (parts_value n)"
  "starts_with ''parts:'' (parts_value n)" "\<not> starts_with ''parts:'' (size_value n)"
  "drop 5 (size_value n) = int_str n" "drop 6 (parts_value n) = int_str n"
  "value_number (size_value n) = n" "value_number (parts_value n) = n"
  "size_value n \<noteq> off_value" "parts_value n \<noteq> off_value"
  "\<not> starts_with ''size:'' default_value" "\<not> starts_with ''parts:'' default_value"
  "default_value \<noteq> off_value"
  "id_text (PStr (size_value n)) = size_value n" "id_text (PStr (parts_value n)) = parts_value n"
  by (simp_all add: size_value_def parts_value_def starts_with_def off_value_def default_value_def value_number_def
      id_text_def)

lemma normalize_value:
  "min_part_bytes \<le> n \<Longrightarrow> normalize_part (PStr (size_value n)) = size_value n"
  "2 \<le> n \<Longrightarrow> normalize_part (PStr (parts_value n)) = parts_value n"
  "normalize_part (PStr default_value) = default_value" "normalize_part (PStr off_value) = off_value"
  by (simp_all add: normalize_part_def Let_def value_parts value_plain)
    (simp_all add: id_text_def normalize_part_def default_value_def off_value_def strip_def is_space_def lower_def
      lower_char_def starts_with_def)

lemma canonical_normal: "canonical s \<Longrightarrow> normalize_part (PStr s) = s"
  by (auto simp: canonical_def normalize_value)

lemma normalize_canonical: "canonical (normalize_part v)"
  unfolding normalize_part_def Let_def canonical_def by (auto split: option.splits)

lemma parse_canonical: "parse_part t = Inr s \<Longrightarrow> canonical s"
  unfolding parse_part_def Let_def canonical_def
  by (auto split: if_splits option.splits prod.splits simp: not_less)

text \<open>
  What the user types is either refused or stored as a canonical value (automatic, off, volumes of at
  least a megabyte, or at least two equal parts), and a stored canonical value is read back as itself,
  so every screen and the worker see the same preference; whatever else is stored reads as a canonical one.
\<close>

theorem part_size_roundtrip:
  assumes "parse_part t = Inr s"
  shows "canonical s \<and> normalize_part (PStr s) = s \<and> canonical (normalize_part v)"
  using parse_canonical [OF assms] canonical_normal normalize_canonical by blast

lemma part_size_roundtrip_witness:
  "canonical ''parts:3'' \<and> normalize_part (PStr ''parts:3'') = ''parts:3'' \<and>
   canonical (normalize_part (PStr ''SIZE:7''))"
proof -
  have "parse_part (PStr '' 3 '') = Inr ''parts:3''" by code_simp
  then show ?thesis by (rule part_size_roundtrip)
qed

section \<open>Cutting\<close>

text \<open>The reference: consecutive pieces of \<open>cap\<close> bytes, the last one whatever is left.\<close>

function pieces :: "nat \<Rightarrow> 'a list \<Rightarrow> 'a list list" where
  "pieces cap xs = (if cap = 0 \<or> xs = [] then [] else take cap xs # pieces cap (drop cap xs))"
  by pat_completeness auto
termination
  by (relation "measure (\<lambda>(_, xs). length xs)") auto

declare pieces.simps [simp del]

lemma pieces_Nil [simp]: "pieces cap [] = []"
  by (simp add: pieces.simps)

lemma pieces_step: "0 < cap \<Longrightarrow> xs \<noteq> [] \<Longrightarrow> pieces cap xs = take cap xs # pieces cap (drop cap xs)"
  by (simp add: pieces.simps)

lemma pieces_join: "0 < cap \<Longrightarrow> concat (pieces cap xs) = xs"
proof (induction cap xs rule: pieces.induct)
  case (1 cap xs)
  then show ?case by (cases "xs = []") (simp_all add: pieces_step)
qed

lemma piece_length: "0 < cap \<Longrightarrow> p \<in> set (pieces cap xs) \<Longrightarrow> p \<noteq> [] \<and> length p \<le> cap"
proof (induction cap xs rule: pieces.induct)
  case (1 cap xs)
  then show ?case by (cases "xs = []") (auto simp: pieces_step)
qed

lemma pieces_count: "0 < cap \<Longrightarrow> length (pieces cap xs) = (length xs + cap - 1) div cap"
proof (induction cap xs rule: pieces.induct)
  case (1 cap xs)
  show ?case
  proof (cases "xs = []")
    case True
    then show ?thesis using 1 by simp
  next
    case False
    then have "length (pieces cap xs) = Suc ((length xs - cap + cap - 1) div cap)"
      using 1 by (simp add: pieces_step)
    also have "\<dots> = (length xs + cap - 1) div cap"
    proof (cases "cap \<le> length xs")
      case True
      then have "length xs + cap - 1 = (length xs - cap + cap - 1) + cap" using 1(2) by simp
      then show ?thesis using 1(2) by (metis add.commute div_add_self1 less_numeral_extra(3) plus_1_eq_Suc)
    next
      case small: False
      have "0 < length xs" using False by simp
      then have "(length xs + cap - 1) div cap = 1"
        using small 1(2) by (intro div_nat_eqI; unfold One_nat_def mult_Suc_right mult_0_right; linarith)
      moreover have "length xs - cap + cap - 1 = cap - 1" using small by simp
      moreover have "(cap - 1) div cap = 0" using 1(2) by simp
      ultimately show ?thesis by simp
    qed
    finally show ?thesis .
  qed
qed

lemma pieces_le: "0 < cap \<Longrightarrow> length (pieces cap xs) \<le> length xs"
proof (induction cap xs rule: pieces.induct)
  case (1 cap xs)
  show ?case
  proof (cases "xs = []")
    case False
    then have "length (pieces cap (drop cap xs)) \<le> length xs - cap" using 1 by simp
    moreover have "0 < length xs" using False by simp
    ultimately have "Suc (length (pieces cap (drop cap xs))) \<le> length xs" using 1(2) by linarith
    then show ?thesis using 1(2) False by (simp add: pieces_step)
  qed simp
qed

text \<open>The count, as Python writes it.\<close>

lemma ceiling_div:
  assumes "0 < (k::int)"
  shows "int ((n + nat k - 1) div nat k) = - (- int n div k)"
proof -
  have "- int n = k * - ((int n + k - 1) div k) + (k - 1 - (int n + k - 1) mod k)"
    using mult_div_mod_eq [of k "int n + k - 1"] by linarith
  then have "- int n div k = - ((int n + k - 1) div k)"
    by (rule int_div_pos_eq) (use assms pos_mod_bound [of k "int n + k - 1"] pos_mod_sign [of k "int n + k - 1"] in linarith)+
  then show ?thesis using assms by (simp add: zdiv_int of_nat_diff)
qed

text \<open>What one volume's loop does, and how it can fail.\<close>

lemma copy_chunks_run:
  assumes "disk_files d t = Some x" and "0 < archive_split_chunk"
  shows "wp (copy_chunks fault t r w src)
    (\<lambda>(w', rest) d'. w' = w + min r (length src) \<and> rest = drop r src \<and>
       disk_files d' = (disk_files d)(t \<mapsto> x @ take r src))
    (\<lambda>e d'. \<not> flawless fault \<and> only_at {t} (disk_files d) (disk_files d')) d"
  using assms(1)
proof (induction fault t r w src arbitrary: d x rule: copy_chunks.induct)
  case (1 fault t r w src)
  show ?case
  proof (cases "r = 0")
    case True
    then show ?thesis using "1.prems" by (subst copy_chunks.simps) (auto simp: fun_upd_idem)
  next
    case False
    let ?n = "min archive_split_chunk r"
    have n: "0 < ?n" using False assms(2) by simp
    show ?thesis
    proof (cases "src = []")
      case True
      then show ?thesis
        using False "1.prems"
        by (subst copy_chunks.simps) (auto intro!: wp_f_read simp: fun_upd_idem only_at_def)
    next
      case src: False
      let ?c = "take ?n src"
      have c: "?c \<noteq> []" using n src by simp
      have rest: "wp (copy_chunks fault t (r - length ?c) (w + length ?c) (drop (length ?c) src))
          (\<lambda>(w', rest) d'. w' = w + min r (length src) \<and> rest = drop r src \<and>
             disk_files d' = (disk_files d)(t \<mapsto> x @ take r src))
          (\<lambda>e d'. \<not> flawless fault \<and> only_at {t} (disk_files d) (disk_files d')) d2"
        if d2: "disk_files d2 = (disk_files d)(t \<mapsto> x @ ?c)" for d2
      proof -
        have "take (length ?c) src = ?c" by (simp add: min_def)
        then have "?c @ take (r - length ?c) (drop (length ?c) src) = take r src"
          using take_add [of "length ?c" "r - length ?c" src] by simp
        then have "x @ ?c @ take (r - length ?c) (drop (length ?c) src) = x @ take r src" by simp
        moreover have "wp (copy_chunks fault t (r - length ?c) (w + length ?c) (drop (length ?c) src))
          (\<lambda>(w', rest) d'. w' = w + length ?c + min (r - length ?c) (length (drop (length ?c) src)) \<and>
             rest = drop (r - length ?c) (drop (length ?c) src) \<and>
             disk_files d' = (disk_files d2)(t \<mapsto> (x @ ?c) @ take (r - length ?c) (drop (length ?c) src)))
          (\<lambda>e d'. \<not> flawless fault \<and> only_at {t} (disk_files d2) (disk_files d')) d2"
          by (rule "1.IH" [OF False c]) (simp add: d2)
        ultimately show ?thesis
          by (elim wp_mono) (auto simp: d2 min_def only_at_def)
      qed
      show ?thesis
        using False c "1.prems" rest
        by (subst copy_chunks.simps) (auto intro!: wp_f_read wp_f_write simp: content_def only_at_def)
    qed
  qed
qed

text \<open>A volume that could not get a single byte is removed again, if that works.\<close>

lemma chunk_positive: "0 < archive_split_chunk"
  by (simp add: archive_split_chunk_def)

lemma one_volume_run:
  assumes "0 < cap"
  shows "wp (one_volume fault t cap src)
    (\<lambda>(w, rest) d'. w = min cap (length src) \<and> rest = drop cap src \<and> only_at {t} (disk_files d) (disk_files d') \<and>
       (src \<noteq> [] \<longrightarrow> disk_files d' t = Some (take cap src)) \<and>
       (src = [] \<longrightarrow> flawless fault \<longrightarrow> disk_files d' t = None))
    (\<lambda>e d'. \<not> flawless fault \<and> only_at {t} (disk_files d) (disk_files d')) d"
proof -
  have "wp (copy_chunks fault t cap 0 src)
      (\<lambda>(w, rest). wp (if w = 0 then bnd (suppress (f_remove fault t)) (\<lambda>_. ret (0, rest)) else ret (w, rest))
         (\<lambda>(w, rest) d'. w = min cap (length src) \<and> rest = drop cap src \<and> only_at {t} (disk_files d) (disk_files d') \<and>
            (src \<noteq> [] \<longrightarrow> disk_files d' t = Some (take cap src)) \<and>
            (src = [] \<longrightarrow> flawless fault \<longrightarrow> disk_files d' t = None))
         (\<lambda>e d'. \<not> flawless fault \<and> only_at {t} (disk_files d) (disk_files d')))
      (\<lambda>e d'. \<not> flawless fault \<and> only_at {t} (disk_files d) (disk_files d')) d1"
    if d1: "disk_files d1 = (disk_files d)(t \<mapsto> [])" for d1
  proof (rule wp_mono [OF copy_chunks_run [OF _ chunk_positive, of d1 t "[]"]], goal_cases)
    case 1
    show ?case using d1 by simp
  next
    case (2 z d')
    then show ?case
      using d1 assms
      by (cases "src = []") (auto simp: only_at_def min_def split: prod.split if_splits intro!: wp_f_remove)
  next
    case (3 e d')
    then show ?case using d1 by (auto simp: only_at_def)
  qed
  then show ?thesis
    unfolding one_volume_def wp_bnd
    by (intro wp_f_create) (auto simp: only_at_def case_prod_unfold)
qed

text \<open>
  The loop over the volumes: with enough fuel it never runs out, and it writes the pieces in order;
  where it stops with an exception, a file has failed and nothing but volumes has changed.
\<close>

lemma volumes_run:
  assumes "0 < cap" and "inj target" and "length (pieces cap src) < n"
  shows "wp (volumes_from n fault target cap i src vols)
    (\<lambda>out d'. only_at (target ` {i..}) (disk_files d) (disk_files d') \<and>
       (\<exists>vs e. out = Some (vols @ vs, e) \<and> (\<forall>v \<in> set vs. v \<in> target ` {i..}) \<and> (e \<noteq> None \<longrightarrow> \<not> flawless fault) \<and>
          (e = None \<longrightarrow> vs = map target [i..<i + length (pieces cap src)] \<and>
             map (disk_files d') vs = map Some (pieces cap src) \<and>
             (flawless fault \<longrightarrow> disk_files d' (target (i + length (pieces cap src))) = None) \<and>
             only_at (target ` {i..i + length (pieces cap src)}) (disk_files d) (disk_files d'))))
    (\<lambda>_ _. False) d"
  using assms(3)
proof (induction n arbitrary: i src vols d)
  case 0
  then show ?case by simp
next
  case (Suc n)
  let ?k = "length (pieces cap src)"
  have last: "wp (volumes_from n fault target cap (Suc i) (drop cap src) (vols @ [target i]))
    (\<lambda>out d'. only_at (target ` {i..}) (disk_files d) (disk_files d') \<and>
       (\<exists>vs e. out = Some (vols @ vs, e) \<and> (\<forall>v \<in> set vs. v \<in> target ` {i..}) \<and> (e \<noteq> None \<longrightarrow> \<not> flawless fault) \<and>
          (e = None \<longrightarrow> vs = map target [i..<i + ?k] \<and>
             map (disk_files d') vs = map Some (pieces cap src) \<and>
             (flawless fault \<longrightarrow> disk_files d' (target (i + ?k)) = None) \<and>
             only_at (target ` {i..i + ?k}) (disk_files d) (disk_files d'))))
    (\<lambda>_ _. False) d1"
    if d1: "only_at {target i} (disk_files d) (disk_files d1)" "disk_files d1 (target i) = Some (take cap src)"
      and src: "src \<noteq> []" for d1
  proof (rule wp_mono [OF Suc.IH], goal_cases)
    case 1
    show ?case using Suc.prems src assms(1) by (simp add: pieces_step)
  next
    case (2 out d')
    have k: "?k = Suc (length (pieces cap (drop cap src)))" using src assms(1) by (simp add: pieces_step)
    from 2 obtain vs e where out: "out = Some ((vols @ [target i]) @ vs, e)"
      and rest: "only_at (target ` {Suc i..}) (disk_files d1) (disk_files d')"
        "\<forall>v \<in> set vs. v \<in> target ` {Suc i..}" "e \<noteq> None \<longrightarrow> \<not> flawless fault"
        "e = None \<longrightarrow> vs = map target [Suc i..<Suc i + length (pieces cap (drop cap src))] \<and>
           map (disk_files d') vs = map Some (pieces cap (drop cap src)) \<and>
           (flawless fault \<longrightarrow> disk_files d' (target (Suc i + length (pieces cap (drop cap src)))) = None) \<and>
           only_at (target ` {Suc i..Suc i + length (pieces cap (drop cap src))}) (disk_files d1) (disk_files d')"
      by blast
    have "target i \<notin> target ` {Suc i..}" using assms(2) by (auto dest: injD)
    then have here: "disk_files d' (target i) = Some (take cap src)"
      using rest(1) d1(2) by (simp add: only_at_def)
    have "only_at (target ` {i..}) (disk_files d) (disk_files d')"
      by (rule only_at_trans [OF d1(1) rest(1)]) auto
    moreover have "\<forall>v \<in> set (target i # vs). v \<in> target ` {i..}" using rest(2) by auto
    moreover have "only_at (target ` {i..i + ?k}) (disk_files d) (disk_files d')" if "e = None"
    proof (rule only_at_trans [OF d1(1)])
      show "only_at (target ` {Suc i..Suc i + length (pieces cap (drop cap src))}) (disk_files d1) (disk_files d')"
        using rest(4) that by blast
    qed (auto simp: k)
    moreover have "target i # vs = map target [i..<i + ?k]" if "e = None"
    proof -
      have "[i..<i + ?k] = i # [Suc i..<Suc i + length (pieces cap (drop cap src))]"
        unfolding k by (simp add: upt_rec [of i] del: upt_Suc)
      then show ?thesis using rest(4) that by simp
    qed
    moreover have "map (disk_files d') (target i # vs) = map Some (pieces cap src)" if "e = None"
    proof -
      have "map (disk_files d') vs = map Some (pieces cap (drop cap src))" using rest(4) that by blast
      then show ?thesis by (simp only: list.map here pieces_step [OF assms(1) src])
    qed
    ultimately show ?case
      using out rest(3,4) k
      by (intro conjI exI [of _ "target i # vs"] exI [of _ e] impI) (simp_all del: map_map)
  next
    case (3 e d')
    then show ?case .
  qed
  show ?case
    unfolding volumes_from.simps wp_bnd wp_tryc wp_fmapio
  proof (rule wp_mono [OF one_volume_run [OF assms(1)]], goal_cases)
    case (1 z d1)
    then show ?case
    proof (cases "src = []")
      case True
      then have "only_at (target ` {i..}) (disk_files d) (disk_files d1)"
        "only_at (target ` {i..i}) (disk_files d) (disk_files d1)"
        using 1 by (auto elim!: only_at_mono)
      then show ?thesis using 1 True by auto
    next
      case False
      then have "fst z \<noteq> 0" using 1 assms(1) by auto
      then show ?thesis using 1 False last [of d1] by (auto split: prod.split)
    qed
  next
    case (2 e d1)
    then show ?case by (auto elim!: only_at_mono intro!: exI [of _ "[]"])
  qed
qed

section \<open>Names of volumes and members\<close>

lemma volume_name_plain: "CHR ''/'' \<notin> set (volume_name name i)"
  by (simp add: volume_name_def Let_def slash_not_digits pad_left_def)

lemma pad_left_inject: "pad_left d (nat_str m) = pad_left d (nat_str n) \<Longrightarrow> m = n"
  by (metis option.inject read_digits_nat_str read_digits_pad)

lemma volume_path_inj: "inj (volume_path archive name)"
proof (rule injI)
  fix i k
  assume "volume_path archive name i = volume_path archive name k"
  then have "volume_name name i = volume_name name k" by (simp add: volume_path_def volume_name_plain)
  then show "i = k" by (auto simp: volume_name_def Let_def dest: pad_left_inject)
qed

text \<open>The archive is not one of its own volumes.\<close>

definition own_name :: "string \<Rightarrow> string \<Rightarrow> bool" where
  "own_name archive name \<longleftrightarrow> archive \<notin> range (volume_path archive name)"

section \<open>A cut archive\<close>

text \<open>Where the loop ended well: the volumes, what they hold, and what else has changed.\<close>

definition wrote_volumes :: "faults \<Rightarrow> (nat \<Rightarrow> string) \<Rightarrow> bytes list \<Rightarrow> files \<Rightarrow> files \<Rightarrow> string list \<Rightarrow> bool" where
  "wrote_volumes fault target ps m m' vs \<longleftrightarrow>
     vs = map target [1..<Suc (length ps)] \<and> map m' vs = map Some ps \<and>
     (flawless fault \<longrightarrow> m' (target (Suc (length ps))) = None) \<and>
     only_at (target ` {1..Suc (length ps)}) m m'"

lemma wrote_volumes_removed:
  assumes "wrote_volumes fault target ps m m1 vs" and "only_at {archive} m1 m2" and "archive \<notin> range target"
  shows "vs = map target [1..<Suc (length ps)] \<and> map m2 vs = map Some ps \<and>
    only_at ({archive} \<union> target ` {1..Suc (length ps)}) m m2 \<and>
    (flawless fault \<longrightarrow> m2 (target (Suc (length ps))) = None)"
proof -
  have kept: "m2 (target i) = m1 (target i)" for i
    using assms(3) by (intro only_atD [OF assms(2)]) auto
  have "map m2 vs = map m1 vs"
    using assms(1) by (simp add: wrote_volumes_def kept del: upt_Suc)
  moreover have "only_at ({archive} \<union> target ` {1..Suc (length ps)}) m m2"
    using assms(1) by (intro only_at_trans [OF _ assms(2)]) (auto simp: wrote_volumes_def)
  ultimately show ?thesis using assms(1) unfolding wrote_volumes_def kept by metis
qed

lemma remove_all_run:
  assumes "only_at P m (disk_files d)" and "\<forall>v \<in> set vs. v \<in> P"
  shows "wp (remove_all fault vs) (\<lambda>_ d'. only_at P m (disk_files d')) (\<lambda>_ _. False) d"
  unfolding remove_all_def
  using assms by (intro wp_for_each) (auto simp: only_at_def intro!: wp_f_remove)

lemma volumes_run_first:
  assumes "0 < cap" and "inj target"
  shows "wp (volumes_from (Suc (length src)) fault target cap 1 src [])
    (\<lambda>out d'. only_at (target ` {1..}) (disk_files d) (disk_files d') \<and>
       (\<exists>vs e. out = Some (vs, e) \<and> (\<forall>v \<in> set vs. v \<in> target ` {1..}) \<and> (e \<noteq> None \<longrightarrow> \<not> flawless fault) \<and>
          (e = None \<longrightarrow> wrote_volumes fault target (pieces cap src) (disk_files d) (disk_files d') vs)))
    (\<lambda>_ _. False) d"
proof -
  have "length (pieces cap src) < Suc (length src)" using pieces_le [OF assms(1), of src] by simp
  from volumes_run [OF assms this, of fault 1 "[]" d] show ?thesis
    unfolding wrote_volumes_def by (auto simp: plus_1_eq_Suc simp del: upt_Suc elim!: wp_mono)
qed

text \<open>The archive goes when that is asked for, if it can be removed.\<close>

lemma split_end:
  assumes frame: "only_at (target ` {1..}) m (disk_files d)" and "\<forall>v \<in> set vs. v \<in> target ` {1..}"
    and "e \<noteq> None \<Longrightarrow> \<not> flawless fault" and wrote: "e = None \<Longrightarrow> wrote_volumes fault target ps m (disk_files d) vs"
    and b: "m archive = Some b" and own: "archive \<notin> range target" and "ps \<noteq> []"
  shows "wp (case Some (vs, e) of None \<Rightarrow> ret None
        | Some (vols, Some e) \<Rightarrow> bnd (remove_all fault vols) (\<lambda>_. raise e)
        | Some (vols, None) \<Rightarrow>
            bnd (whenb (rm \<and> vols \<noteq> []) (suppress (f_remove fault archive))) (\<lambda>_. ret (Some vols)))
    (\<lambda>r d'. r = Some (map target [1..<Suc (length ps)]) \<and> map (disk_files d') (the r) = map Some ps \<and>
       (disk_files d' archive = Some b \<and> (rm \<longrightarrow> \<not> flawless fault) \<or> rm \<and> disk_files d' archive = None) \<and>
       only_at ({archive} \<union> target ` {1..Suc (length ps)}) m (disk_files d') \<and>
       (flawless fault \<longrightarrow> disk_files d' (target (Suc (length ps))) = None))
    (\<lambda>e d'. \<not> flawless fault \<and> only_at (target ` {1..}) m (disk_files d')) d"
proof (cases e)
  case (Some x)
  then show ?thesis
    using assms(3) by (auto intro: wp_mono [OF remove_all_run [OF frame assms(2)]])
next
  case None
  have "archive \<notin> target ` {1..}" using own by auto
  then have src: "disk_files d archive = Some b" using only_atD [OF frame] b by simp
  have "map (disk_files d) vs = map Some ps" using wrote [OF None] unfolding wrote_volumes_def by blast
  then have "vs \<noteq> []" using assms(7) by auto
  have fin: "disk_files d' archive = Some b \<and> (rm \<longrightarrow> \<not> flawless fault) \<or> rm \<and> disk_files d' archive = None \<Longrightarrow>
      only_at {archive} (disk_files d) (disk_files d') \<Longrightarrow>
      Some vs = Some (map target [1..<Suc (length ps)]) \<and> map (disk_files d') (the (Some vs)) = map Some ps \<and>
       (disk_files d' archive = Some b \<and> (rm \<longrightarrow> \<not> flawless fault) \<or> rm \<and> disk_files d' archive = None) \<and>
       only_at ({archive} \<union> target ` {1..Suc (length ps)}) m (disk_files d') \<and>
       (flawless fault \<longrightarrow> disk_files d' (target (Suc (length ps))) = None)" for d'
    using wrote_volumes_removed [OF wrote [OF None] _ own, of "disk_files d'"] unfolding option.sel by metis
  note program = option.case prod.case wp_bnd wp_whenb wp_suppress wp_ret
  show ?thesis
  proof (cases rm)
    case True
    then have rm: "rm \<and> vs \<noteq> []" using \<open>vs \<noteq> []\<close> by simp
    show ?thesis
      unfolding None program if_P [OF rm] by (rule wp_f_remove; rule fin) (use src True in \<open>auto simp: only_at_def\<close>)
  next
    case False
    then have rm: "\<not> (rm \<and> vs \<noteq> [])" by simp
    show ?thesis
      unfolding None program if_not_P [OF rm] by (rule fin) (use src False in \<open>auto simp: only_at_def\<close>)
  qed
qed

lemma split_run:
  assumes b: "disk_files d archive = Some b" and own: "own_name archive name"
    and cap: "0 < cap" "cap < int (length b)"
  shows "wp (split_archive_sync fault archive name cap rm)
    (\<lambda>r d'. r = Some [archive] \<and> disk_files d' = disk_files d \<and> \<not> flawless fault \<or>
       (r = Some (map (volume_path archive name) [1..<Suc (length (pieces (nat cap) b))]) \<and>
        map (disk_files d') (the r) = map Some (pieces (nat cap) b) \<and>
        (disk_files d' archive = Some b \<and> (rm \<longrightarrow> \<not> flawless fault) \<or> rm \<and> disk_files d' archive = None) \<and>
        only_at ({archive} \<union> volume_path archive name ` {1..Suc (length (pieces (nat cap) b))}) (disk_files d) (disk_files d') \<and>
        (flawless fault \<longrightarrow> disk_files d' (volume_path archive name (Suc (length (pieces (nat cap) b)))) = None)))
    (\<lambda>e d'. \<not> flawless fault \<and> only_at (volume_path archive name ` {1..}) (disk_files d) (disk_files d')) d"
proof -
  let ?v = "volume_path archive name" and ?p = "pieces (nat cap) b"
  have cap0: "0 < nat cap" and "b \<noteq> []" using cap by auto
  then have p: "?p \<noteq> []" by (simp add: pieces_step)
  have not_own: "archive \<notin> range ?v" using own by (simp add: own_name_def)
  have small: "\<not> (cap \<le> 0 \<or> int (length b) \<le> cap)" using cap by simp
  show ?thesis
    unfolding split_archive_sync_def wp_bnd wp_tryc wp_fmapio
  proof (rule wp_f_size, goal_cases)
    case (1 b1 d1)
    then have b1: "b1 = b" using b by simp
    show ?case
      unfolding b1 option.case if_not_P [OF small] wp_bnd
    proof (rule wp_f_open, goal_cases)
      case (1 b2 d2)
      then have b2: "b2 = b" and d2: "disk_files d2 = disk_files d"
        using b \<open>disk_files d1 = disk_files d\<close> by simp_all
      show ?case
        unfolding b2
      proof (rule wp_mono [OF volumes_run_first [OF cap0 volume_path_inj]], goal_cases)
        case (1 out d3)
        then obtain vs e where out: "out = Some (vs, e)"
          and run: "only_at (?v ` {1..}) (disk_files d) (disk_files d3)" "\<forall>v \<in> set vs. v \<in> ?v ` {1..}"
            "e \<noteq> None \<Longrightarrow> \<not> flawless fault" "e = None \<Longrightarrow> wrote_volumes fault ?v ?p (disk_files d) (disk_files d3) vs"
          unfolding d2 by blast
        show ?case
          unfolding out by (rule wp_mono [OF split_end [OF run b not_own p]]) (assumption | rule disjI2)+
      qed simp
    next
      case (2 d2)
      then show ?case using b \<open>disk_files d1 = disk_files d\<close> by auto
    qed
  next
    case (2 d1)
    then show ?case using b by auto
  qed
qed

lemma contents_of: "map m vs = map Some ps \<Longrightarrow> map (content m) vs = ps"
proof -
  assume "map m vs = map Some ps"
  then have "map (case_option [] id) (map m vs) = map (case_option [] id) (map Some ps)" by simp
  then show ?thesis by (simp add: comp_def content_def [abs_def] id_def)
qed


lemma small_archive_kept:
  assumes "disk_files d archive = Some b" and "\<not> (0 < cap \<and> cap < int (length b))"
  shows "wp (split_archive_sync fault archive name cap rm)
    (\<lambda>r d'. r = Some [archive] \<and> disk_files d' = disk_files d) (\<lambda>_ _. False) d"
  unfolding split_archive_sync_def wp_bnd wp_tryc wp_fmapio
  using assms by (intro wp_f_size) auto

text \<open>
  C37: Whatever file operations fail, the bytes of the archive are never lost: the archive is returned
  untouched, or the volumes returned join to it, or an exception is raised and the archive is still
  there; and no file other than the archive and its volumes has changed.
\<close>

theorem split_never_loses:
  assumes "disk_files d archive = Some b" and "own_name archive name"
  shows "case split_archive_sync fault archive name cap rm d of
      (Inl e, d') \<Rightarrow> disk_files d' archive = Some b \<and> only_at (range (volume_path archive name)) (disk_files d) (disk_files d')
    | (Inr r, d') \<Rightarrow> (\<exists>vs. r = Some vs \<and> concat (map (content (disk_files d')) vs) = b) \<and>
        only_at (insert archive (range (volume_path archive name))) (disk_files d) (disk_files d')"
proof -
  let ?v = "volume_path archive name"
  have "wp (split_archive_sync fault archive name cap rm)
    (\<lambda>r d'. (\<exists>vs. r = Some vs \<and> concat (map (content (disk_files d')) vs) = b) \<and>
        only_at (insert archive (range ?v)) (disk_files d) (disk_files d'))
    (\<lambda>e d'. disk_files d' archive = Some b \<and> only_at (range ?v) (disk_files d) (disk_files d')) d"
  proof (cases "0 < cap \<and> cap < int (length b)")
    case True
    then have cap: "0 < nat cap" by simp
    have not_own: "archive \<notin> ?v ` S" for S using assms(2) unfolding own_name_def by blast
    have joined: "map (disk_files d') vs = map Some (pieces (nat cap) b) \<Longrightarrow> concat (map (content (disk_files d')) vs) = b" for d' vs
      by (simp add: contents_of pieces_join [OF cap] del: map_map)
    show ?thesis
    proof (rule wp_mono [OF split_run [OF assms]], goal_cases)
      case (3 r d')
      then show ?case
      proof (elim disjE conjE, goal_cases)
        case 1
        then show ?case using assms(1) by (simp add: content_def)
      next
        case 2
        with joined [OF 2(2)] show ?case by (auto simp del: upt_Suc map_map elim!: only_at_mono)
      next
        case 3
        with joined [OF 3(2)] show ?case by (auto simp del: upt_Suc map_map elim!: only_at_mono)
      qed
    next
      case (4 e d')
      then have "disk_files d' archive = disk_files d archive" by (intro only_atD [OF _ not_own]) blast
      with 4 show ?case using assms(1) by (auto elim!: only_at_mono)
    qed (use True in auto)
  next
    case False
    show ?thesis
      by (rule wp_mono [OF small_archive_kept [OF assms(1) False]]) (use assms(1) in \<open>auto simp: content_def\<close>)
  qed
  then show ?thesis unfolding wp_def by (auto split: prod.splits sum.splits)
qed

section \<open>The announced number of files\<close>

lemma split_count:
  assumes "disk_files d archive = Some b" "b \<noteq> []" and "own_name archive name" and "flawless fault" and "0 < cap"
  shows "\<exists>vs. fst (split_archive_sync fault archive name cap rm d) = Inr (Some vs) \<and>
    int (length vs) = - (- int (length b) div cap)"
proof (cases "cap < int (length b)")
  case True
  then show ?thesis
    using split_run [OF assms(1,3,5) True, of fault rm] assms(4,5) ceiling_div [OF assms(5), of "length b"]
      pieces_count [of "nat cap" b]
    unfolding wp_def by (auto split: prod.splits sum.splits simp del: upt_Suc)
next
  case False
  then have "- int (length b) div cap = - 1"
    using assms(2,5) by (intro int_div_pos_eq [where r = "cap - int (length b)"]) auto
  then show ?thesis
    using small_archive_kept [OF assms(1), of cap fault name rm] False
    unfolding wp_def by (auto split: prod.splits sum.splits)
qed

lemma ceil_le:
  assumes "0 < (c::int)"
  shows "- (- n div c) \<le> j \<longleftrightarrow> n \<le> j * c"
proof -
  let ?q = "- (- n div c)" and ?r = "- n mod c"
  have r: "0 \<le> ?r" "?r < c" using assms by simp_all
  have n: "?q * c = n + ?r" unfolding mult_minus_left using div_mult_mod_eq [of "- n" c] by linarith
  show ?thesis
  proof
    assume "?q \<le> j"
    then have "?q * c \<le> j * c" using assms by (intro mult_right_mono) auto
    then show "n \<le> j * c" using n r by linarith
  next
    assume "n \<le> j * c"
    then have "?q * c < (j + 1) * c" using n r by (simp add: distrib_right)
    then have "?q < j + 1" by (rule mult_right_less_imp_less) (use assms in simp)
    then show "?q \<le> j" by simp
  qed
qed

lemma equal_parts_count:
  assumes "0 < (n::int)" and "2 \<le> k"
  defines "c \<equiv> - (- n div k)"
  shows "0 < c" and "- (- n div c) \<le> k" and "(k - 1) * (k - 1) < n \<Longrightarrow> - (- n div c) = k"
proof -
  let ?r = "- n mod k"
  have r: "0 \<le> ?r" "?r < k" using assms(2) by simp_all
  have n: "k * c = n + ?r" unfolding c_def mult_minus_right using mult_div_mod_eq [of k "- n"] by linarith
  show pos: "0 < c"
  proof (rule ccontr)
    assume "\<not> 0 < c"
    then have "k * c \<le> 0" using assms(2) by (simp add: mult_le_0_iff)
    then show False using n r(1) assms(1) by linarith
  qed
  note up = ceil_le [OF pos, of n]
  show le: "- (- n div c) \<le> k" using n r up [of k] by (simp add: mult.commute)
  assume big: "(k - 1) * (k - 1) < n"
  have "k * ((k - 1) * c) = (k - 1) * (n + ?r)" using n by (metis mult.left_commute)
  also have "\<dots> \<le> (k - 1) * (n + (k - 1))" using r assms(2) by (intro mult_left_mono) auto
  also have "\<dots> < k * n" using big by (simp add: algebra_simps)
  finally have "(k - 1) * c < n" using assms(2) by (simp add: mult_less_cancel_left)
  then have "\<not> - (- n div c) \<le> k - 1" using up [of "k - 1"] by simp
  then show "- (- n div c) = k" using le by linarith
qed

lemma estimate_size:
  assumes "estimate_parts v n cap = Some k" and "0 < n" and "plan_part v cap = (m, parts)" and "parts = 0"
  shows "k = (if wants_split m parts n then - (- n div m) else 1)" and "wants_split m parts n \<Longrightarrow> 0 < m"
proof -
  have ceil: "0 < x \<Longrightarrow> 1 \<le> - (- n div x)" for x :: int
    using ceil_le [of x n 0] assms(2) by linarith
  have small: "0 < x \<Longrightarrow> n \<le> x \<Longrightarrow> - (- n div x) \<le> 1" for x :: int
    using ceil_le [of x n 1] by simp
  have "canonical (normalize_part v)" by (rule normalize_canonical)
  then consider (off) "normalize_part v = off_value" | (default) "normalize_part v = default_value"
    | (size) j where "min_part_bytes \<le> j" "normalize_part v = size_value j"
    | (parts) j where "2 \<le> j" "normalize_part v = parts_value j"
    unfolding canonical_def by blast
  then have "k = (if wants_split m parts n then - (- n div m) else 1) \<and> (wants_split m parts n \<longrightarrow> 0 < m)"
  proof cases
    case off
    then show ?thesis
      using assms by (simp add: estimate_parts_def plan_part_def Let_def wants_split_def volume_cap_def)
  next
    case default
    then show ?thesis
      using assms ceil [of m] small [of m]
      by (auto simp: estimate_parts_def plan_part_def Let_def wants_split_def volume_cap_def value_parts
          split: if_splits)
  next
    case (size j)
    then show ?thesis
      using assms ceil [of m] small [of m]
      by (auto simp: estimate_parts_def plan_part_def Let_def wants_split_def volume_cap_def value_parts
          min_part_bytes_def split: if_splits)
  next
    case (parts j)
    then show ?thesis using assms by (simp add: plan_part_def Let_def value_parts)
  qed
  then show "k = (if wants_split m parts n then - (- n div m) else 1)" and "wants_split m parts n \<Longrightarrow> 0 < m"
    by blast+
qed

lemma estimate_equal_parts:
  assumes "estimate_parts v n cap = Some k" and "plan_part v cap = (m, parts)" and "parts \<noteq> 0"
  shows "k = parts" and "2 \<le> parts"
  using assms normalize_canonical [of v]
  by (auto simp: canonical_def estimate_parts_def plan_part_def Let_def value_parts split: if_splits)

text \<open>
  The announced number of files is the number made.  An archive cut by size, or by the configured limit,
  is delivered in exactly the announced number of files; one cut into \<open>k\<close> equal parts in at most
  \<open>k\<close>, and in exactly \<open>k\<close> as soon as it has more than \<open>(k - 1)\<^sup>2\<close> bytes.
\<close>

theorem estimate_counts_files:
  assumes "estimate_parts v (int (length b)) cap = Some k" and "plan_part v cap = (m, parts)"
    and "disk_files d archive = Some b" "b \<noteq> []" and "own_name archive name" and "flawless fault"
  shows "if \<not> wants_split m parts (int (length b)) then k = 1
    else \<exists>vs. fst (split_archive_sync fault archive name (volume_cap m parts (int (length b))) rm d) = Inr (Some vs) \<and>
      (if parts = 0 then int (length vs) = k
       else int (length vs) \<le> k \<and> ((k - 1) * (k - 1) < int (length b) \<longrightarrow> int (length vs) = k))"
proof (cases "wants_split m parts (int (length b))")
  case False
  show ?thesis
  proof (cases "parts = 0")
    case True
    then show ?thesis using estimate_size [OF assms(1) _ assms(2)] False assms(4) by simp
  next
    case parts: False
    then show ?thesis
      using estimate_equal_parts [OF assms(1,2)] False by (simp add: wants_split_def volume_cap_def)
  qed
next
  case True
  show ?thesis
  proof (cases "parts = 0")
    case size: True
    have "0 < m" and k: "k = - (- int (length b) div m)"
      using estimate_size [OF assms(1) _ assms(2) size] True assms(4) by simp_all
    then show ?thesis
      using split_count [OF assms(3,4,5,6), of m rm] True size by (simp add: volume_cap_def)
  next
    case False
    let ?n = "int (length b)"
    have p: "k = parts" "2 \<le> parts" using estimate_equal_parts [OF assms(1,2) False] by simp_all
    have n: "0 < ?n" using assms(4) by simp
    have c: "volume_cap m parts ?n = - (- ?n div parts)"
      using equal_parts_count(1) [OF n p(2)] p(2) by (simp add: volume_cap_def)
    from split_count [OF assms(3,4,5,6) equal_parts_count(1) [OF n p(2)], of rm]
    obtain vs where "fst (split_archive_sync fault archive name (volume_cap m parts ?n) rm d) = Inr (Some vs)"
      and "int (length vs) = - (- ?n div - (- ?n div parts))"
      unfolding c by blast
    then show ?thesis
      using equal_parts_count(2,3) [OF n p(2)] True False p(1) by (intro if_not_P [THEN iffD2]) auto
  qed
qed

section \<open>Member names are free\<close>

lemma lower_nat_str: "lower (nat_str n) = nat_str n"
  unfolding lower_def using nat_str_digits digit_lower by (intro map_idI) blast

interpretation arcnames: probing "\<lambda>c. lower c \<in> used" "\<lambda>i. stem @ ''_'' @ nat_str i @ ext" "free_name stem ext used"
  for stem ext used
  by unfold_locales (subst free_name.simps, rule refl)

lemma free_name_found:
  assumes "finite used"
  shows "\<exists>c. free_name stem ext used candidate n = Some c \<and> lower c \<notin> used \<and>
    (c = candidate \<or> (\<exists>i. c = stem @ ''_'' @ nat_str i @ ext))"
proof (rule arcnames.probe_ends)
  have "inj (\<lambda>i. lower (stem @ ''_'' @ nat_str i @ ext))"
    by (rule injI) (simp add: lower_def map_append flip: map_append, simp add: lower_nat_str [unfolded lower_def])
  then show "\<exists>k \<ge> n. lower (stem @ ''_'' @ nat_str k @ ext) \<notin> used"
    using free_beyond [OF _ assms] by blast
qed

text \<open>
  The search for a member name always ends, with a name no earlier member has in any case, inside no
  directory, and equal to the file's own name where that is free.
\<close>

theorem arcname_found:
  assumes "finite used"
  shows "\<exists>c. unique_arcname name used = Some (c, insert (lower c) used) \<and> lower c \<notin> used \<and>
    CHR ''/'' \<notin> set c \<and> c \<noteq> [] \<and> (lower (basename name) \<notin> used \<longrightarrow> basename name \<noteq> [] \<longrightarrow> c = basename name)"
proof -
  define base where "base = (if basename name = [] then ''file'' else basename name)"
  have base: "CHR ''/'' \<notin> set base" "base \<noteq> []" by (simp_all add: base_def)
  obtain stem ext where s: "splitext base = (stem, ext)" by (cases "splitext base")
  then have "base = stem @ ext" using splitext_join [of base] by simp
  then have parts: "CHR ''/'' \<notin> set stem" "CHR ''/'' \<notin> set ext" using base(1) by auto
  obtain c where c: "free_name stem ext used base 1 = Some c" "lower c \<notin> used"
    "c = base \<or> (\<exists>i. c = stem @ ''_'' @ nat_str i @ ext)"
    using free_name_found [OF assms] by blast
  have "free_name stem ext used base 1 = Some base" if "lower base \<notin> used"
    by (subst free_name.simps) (simp only: that if_False)
  then have own: "c = basename name" if "lower (basename name) \<notin> used" "basename name \<noteq> []"
    using c(1) that by (simp add: base_def)
  have "CHR ''/'' \<notin> set c \<and> c \<noteq> []" using c(3) base parts by (auto simp: slash_not_digits)
  then show ?thesis
    using s c(1,2) own by (auto simp: unique_arcname_def Let_def simp flip: base_def)
qed

lemma arcname_found_witness:
  "unique_arcname ''b/clip.mp4'' {''clip.mp4''} = Some (''clip_1.mp4'', {''clip.mp4'', ''clip_1.mp4''})"
proof -
  obtain c where "unique_arcname ''b/clip.mp4'' {''clip.mp4''} = Some (c, insert (lower c) {''clip.mp4''})"
    using arcname_found [of "{''clip.mp4''}" "''b/clip.mp4''"] by auto
  moreover have "fst (the (unique_arcname ''b/clip.mp4'' {''clip.mp4''})) = ''clip_1.mp4''"
    by code_simp
  ultimately show ?thesis by (auto simp: lower_def lower_char_def)
qed

section \<open>Examples\<close>

definition demo_disk :: disk where
  "demo_disk = \<lparr>disk_files = [''clips.zip'' \<mapsto> ''abcde''], disk_steps = 0\<rparr>"

lemma demo_own: "own_name ''clips.zip'' name"
  by (auto simp: own_name_def volume_path_def dirname_def rpartition_at_def path_join_plain volume_name_plain ends_with_def
      starts_with_def)

lemma demo_file: "disk_files demo_disk ''clips.zip'' = Some ''abcde''"
  by (simp add: demo_disk_def)


lemma split_never_loses_witness:
  "case split_archive_sync (\<lambda>n. if n = 5 then Some 0 else None) ''clips.zip'' ''a.zip'' 2 True demo_disk of
     (Inl e, d) \<Rightarrow> disk_files d ''clips.zip'' = Some ''abcde'' | (Inr r, d) \<Rightarrow> r \<noteq> None"
  using split_never_loses [OF demo_file demo_own [of "''a.zip''"], of "\<lambda>n. if n = 5 then Some 0 else None" 2 True]
  by (auto split: prod.splits sum.splits)

text \<open>
  A cut that fails leaves the volume it was writing: the finished volumes are removed, the file whose
  write failed is not, although the code means to drop what was created.
\<close>

theorem half_volume_left:
  "case split_archive_sync (\<lambda>n. if n = 7 then Some 1 else None) ''clips.zip'' ''clips.zip'' 2 True demo_disk of (r, d) \<Rightarrow>
     r = Inl OSError \<and> disk_files d ''clips.zip'' = Some ''abcde'' \<and>
     disk_files d ''./clips.zip.001'' = None \<and> disk_files d ''./clips.zip.002'' = Some ''c''"
proof -
  have paths: "volume_path ''clips.zip'' ''clips.zip'' (Suc 0) = ''./clips.zip.001''"
    "volume_path ''clips.zip'' ''clips.zip'' (Suc (Suc 0)) = ''./clips.zip.002''"
    by code_simp+
  have chunks: "copy_chunks f t 2 0 b = bnd (f_read f 2 b) (\<lambda>c. if c = [] then ret (0, b) else
      bnd (f_write f t c) (\<lambda>_. copy_chunks f t (2 - length c) (0 + length c) (drop (length c) b)))"
    "copy_chunks f t 0 w b = ret (w, b)" for f t w b
    by (subst copy_chunks.simps, simp add: archive_split_chunk_def)+
  show ?thesis
    by (simp add: split_archive_sync_def demo_disk_def f_size_def f_open_def disk_op_def bnd_def tryc_def fmapio_def ret_def
        raise_def paths one_volume_def f_create_def chunks f_read_def f_write_def
        content_def remove_all_def suppress_def f_remove_def)
qed

lemma estimate_counts_files_witness:
  "\<exists>vs. fst (split_archive_sync (\<lambda>_. None) ''clips.zip'' ''clips.zip'' 3 False demo_disk) = Inr (Some vs) \<and> length vs = 2"
proof -
  have "estimate_parts (PStr ''parts:2'') (int (length ''abcde'')) 0 = Some 2" "plan_part (PStr ''parts:2'') 0 = (0, 2)"
    by code_simp+
  from estimate_counts_files [OF this demo_file _ demo_own [of "''clips.zip''"] flawless_None, of False]
  show ?thesis by (simp add: wants_split_def volume_cap_def) (metis of_nat_eq_iff of_nat_numeral)
qed

end
