(* ===== verification/FileNames.thy ===== *)
theory FileNames
  imports Disk Payload "HOL-Library.Product_Lexorder" "HOL-Library.List_Lexorder" "HOL-Library.Char_ord"
begin

text \<open>
  \<open>utils/file_utils.py\<close>: the names files get on disk (cleaning a name, an allowlisted extension, the
  name of an upload) and the pruning of partial downloads.
\<close>

section \<open>Cleaning a name\<close>

definition alphanumerics :: string where
  "alphanumerics = ''ABCDEFGHIJKLMNOPQRSTUVWXYZabcdefghijklmnopqrstuvwxyz0123456789''"

text \<open>\<open>re.sub(r"[...]+", "_", s)\<close>: every run of matching characters becomes one underscore.\<close>

function sub_runs :: "(char \<Rightarrow> bool) \<Rightarrow> string \<Rightarrow> string" where
  "sub_runs bad [] = []"
| "sub_runs bad (c # cs) =
     (if bad c then CHR ''_'' # sub_runs bad (dropWhile bad cs) else c # sub_runs bad cs)"
  by pat_completeness auto
termination
  by (relation "measure (\<lambda>(_, s). length s)") (auto simp: le_imp_less_Suc length_dropWhile_le)

text \<open>\<open>s.strip(chars)\<close>.\<close>

definition strip_of :: "string \<Rightarrow> string \<Rightarrow> string" where
  "strip_of chars s = rev (dropWhile (\<lambda>c. c \<in> set chars) (rev (dropWhile (\<lambda>c. c \<in> set chars) s)))"

text \<open>Replace, collapse, strip; \<open>keep\<close> are the characters that stay.\<close>

definition clean_name :: "string \<Rightarrow> string \<Rightarrow> string" where
  "clean_name keep s =
     strip_of ''_. '' (sub_runs (\<lambda>c. c = CHR ''_'') (sub_runs (\<lambda>c. c \<notin> set (alphanumerics @ keep)) s))"

text \<open>\<open>s[:k]\<close>, with Python's reading of a negative \<open>k\<close>.\<close>

definition py_prefix :: "int \<Rightarrow> string \<Rightarrow> string" where
  "py_prefix k s = (if 0 \<le> k then take (nat k) s else take (length s - nat (- k)) s)"

definition sanitize_filename :: "string \<Rightarrow> nat \<Rightarrow> string" where
  "sanitize_filename name max_len =
     (let s = clean_name ''._-()[]'' (basename name);
          s = (if max_len < length s
               then (case splitext s of (stem, ext) \<Rightarrow> py_prefix (int max_len - int (length ext)) stem @ ext)
               else s) in
      if s = [] then ''file'' else s)"

definition max_name_len :: nat where
  "max_name_len = 180"

section \<open>Extensions\<close>

definition allowed_extensions :: "string list" where
  "allowed_extensions =
     [''.mp4'', ''.mkv'', ''.avi'', ''.mov'', ''.webm'', ''.flv'', ''.wmv'', ''.m4v'', ''.mpg'', ''.mpeg'', ''.ts'',
      ''.mts'', ''.m2ts'', ''.3gp'', ''.ogv'', ''.webp'', ''.mp3'', ''.wav'', ''.aac'', ''.flac'', ''.ogg'', ''.m4a'',
      ''.opus'', ''.wma'', ''.jpg'', ''.jpeg'', ''.png'', ''.gif'', ''.bin'', ''.srt'', ''.ass'', ''.vtt'', ''.zip'']"

definition safe_extension :: "string option \<Rightarrow> string \<Rightarrow> string" where
  "safe_extension filename dflt =
     (case filename of
        None \<Rightarrow> dflt
      | Some f \<Rightarrow>
          if f = [] then dflt
          else let ext = lower (snd (splitext f)) in if ext \<in> set allowed_extensions then ext else dflt)"

section \<open>The name of an upload\<close>

text \<open>
  \<open>detect_filename\<close> for a message that carries a name: a document's name as it is; a video's or
  another medium's with an extension appended.
\<close>

definition document_filename :: "string \<Rightarrow> string" where
  "document_filename name = sanitize_filename name max_name_len"

definition media_filename :: "string \<Rightarrow> string \<Rightarrow> string" where
  "media_filename name input_path =
     (let ext = snd (splitext name);
          ext = (if ext = [] then snd (splitext input_path) else ext) in
      sanitize_filename (name @ ext) max_name_len)"

text \<open>The first of document, video, audio, animation and voice that has a name that is not empty.\<close>

definition named :: "string option \<Rightarrow> bool" where
  "named m \<longleftrightarrow> m \<noteq> None \<and> m \<noteq> Some []"

definition message_filename :: "string option \<Rightarrow> string option list \<Rightarrow> string \<Rightarrow> string option" where
  "message_filename doc media input_path =
     (if named doc then map_option document_filename doc
      else (case filter named media of
        [] \<Rightarrow> None
      | m # _ \<Rightarrow> map_option (\<lambda>n. media_filename n input_path) m))"

section \<open>Partial downloads\<close>

text \<open>What the walk finds: a path and, where \<open>stat\<close> works, the modification time and the size.\<close>

type_synonym found = "string \<times> (real \<times> nat) option"

definition partial_suffixes :: "string list" where
  "partial_suffixes = [''.part'']"

definition is_partial :: "string \<Rightarrow> bool" where
  "is_partial name \<longleftrightarrow> (\<exists>s \<in> set partial_suffixes. ends_with s name)"

text \<open>The walk: what is too old is removed, the rest are candidates.  The counts are files and bytes.\<close>

definition drop_expired :: "faults \<Rightarrow> real \<Rightarrow> real \<Rightarrow> found list \<Rightarrow>
    (disk, (nat \<times> nat) \<times> (real \<times> nat \<times> string) list) io" where
  "drop_expired fault now ttl fs =
     for_each fs ((0, 0), []) (\<lambda>(p, st) ((removed, freed), cands).
       if \<not> is_partial (basename p) then ret ((removed, freed), cands)
       else (case st of
         None \<Rightarrow> ret ((removed, freed), cands)
       | Some (t, n) \<Rightarrow>
           if ttl < now - t
           then tryc (bnd (f_remove fault p) (\<lambda>_. ret ((Suc removed, freed + n), cands)))
                  (\<lambda>_. ret ((removed, freed), cands))
           else ret ((removed, freed), cands @ [(t, n, p)])))"

text \<open>Oldest first, until what is kept fits; a file that cannot be removed stays counted.\<close>

fun evict :: "faults \<Rightarrow> nat \<Rightarrow> nat \<Rightarrow> (real \<times> nat \<times> string) list \<Rightarrow> nat \<Rightarrow> nat \<Rightarrow> nat \<times> nat \<Rightarrow> (disk, nat \<times> nat) io" where
  "evict fault max_files max_bytes [] kept bytes counts = ret counts"
| "evict fault max_files max_bytes ((t, n, p) # cs) kept bytes (removed, freed) =
     (if kept \<le> max_files \<and> bytes \<le> max_bytes then ret (removed, freed)
      else bnd (tryc (bnd (f_remove fault p) (\<lambda>_. ret True)) (\<lambda>_. ret False)) (\<lambda>gone.
        if gone then evict fault max_files max_bytes cs (kept - 1) (bytes - n) (Suc removed, freed + n)
        else evict fault max_files max_bytes cs kept bytes (removed, freed)))"

definition prune_partial_files :: "faults \<Rightarrow> real \<Rightarrow> real \<Rightarrow> nat \<Rightarrow> nat \<Rightarrow> found list \<Rightarrow> (disk, nat \<times> nat) io" where
  "prune_partial_files fault now ttl max_files max_bytes fs =
     bnd (drop_expired fault now ttl fs) (\<lambda>(counts, cands).
       evict fault max_files max_bytes (sort cands) (length cands) (sum_list (map (\<lambda>(_, n, _). n) cands)) counts)"

end
