(* ===== verification/Unpack.thy ===== *)
theory Unpack
  imports Disk FileNames "HOL-Library.Word"
begin

text \<open>
  \<open>utils/archive_input.py\<close>: the media of an uploaded archive.  \<open>zipfile\<close> itself is a parameter
  \<open>unzip\<close>, the entries it lists in a file's bytes (\<open>None\<close>: not a readable zip); an entry carries what the
  central directory declares and, apart from that, the bytes that come out when it is read.
\<close>

unbundle bit_operations_syntax

section \<open>Entries and results\<close>

record zinfo =
  zi_filename :: string
  zi_external_attr :: "32 word"
  zi_flag_bits :: "16 word"
  zi_file_size :: nat
  zi_compress_size :: nat
  zi_data :: "bytes option"

record member =
  mem_path :: string
  mem_name :: string
  mem_ext :: string
  mem_size :: int

datatype unpack_error = NoDirectory | NotZip | TooManyEntries int | PasswordProtected string
  | UnsafePath string | MemberTooLarge string int | TotalExceeded | SuspiciousRatio string | NotExtracted string

record expansion =
  ex_members :: "member list"
  ex_skipped :: nat
  ex_errors :: "unpack_error list"
  ex_total :: int

definition expansion_ok :: "expansion \<Rightarrow> bool" where
  "expansion_ok x \<longleftrightarrow> ex_members x \<noteq> []"

record caps =
  max_entries :: int
  max_member_bytes :: int
  max_total_bytes :: int
  max_ratio :: int

definition env_int :: "string option \<Rightarrow> int \<Rightarrow> int" where
  "env_int env dflt =
     (case env of
        None \<Rightarrow> dflt
      | Some s \<Rightarrow>
          if strip s = [] then dflt
          else (case py_int (strip s) of None \<Rightarrow> dflt | Some n \<Rightarrow> if 0 < n then n else dflt))"

text \<open>The caps of a call that overrides none, from the four environment variables.\<close>

definition caps_from :: "(string \<rightharpoonup> string) \<Rightarrow> caps" where
  "caps_from env =
     \<lparr>max_entries = env_int (env ''ARCHIVE_MAX_ENTRIES'') 100,
      max_member_bytes = env_int (env ''ARCHIVE_MAX_MEMBER_BYTES'') (2 ^ 30),
      max_total_bytes = env_int (env ''ARCHIVE_MAX_TOTAL_BYTES'') (2 * 2 ^ 30),
      max_ratio = env_int (env ''ARCHIVE_MAX_RATIO'') 200\<rparr>"

definition archive_extensions :: "string list" where
  "archive_extensions = [''.zip'']"

definition media_extensions :: "string list" where
  "media_extensions = filter (\<lambda>e. e \<notin> set archive_extensions \<and> e \<noteq> ''.bin'') allowed_extensions"

definition is_archive :: "string \<Rightarrow> bool" where
  "is_archive name \<longleftrightarrow> name \<noteq> [] \<and> lower (snd (splitext name)) \<in> set archive_extensions"

section \<open>Names\<close>

definition is_symlink :: "zinfo \<Rightarrow> bool" where
  "is_symlink z \<longleftrightarrow> drop_bit 16 (zi_external_attr z) AND 0xF000 = 0xA000"

definition safe_member_name :: "string \<Rightarrow> string option" where
  "safe_member_name raw_name =
     (if raw_name = [] then None
      else let raw = strip (map (\<lambda>c. if c = CHR 0x5C then CHR ''/'' else c) raw_name) in
        if raw = [] \<or> starts_with ''/'' raw \<or> starts_with ''~'' raw then None
        else if CHR 0x00 \<in> set raw \<or> CHR '':'' \<in> set raw then None
        else let parts = filter (\<lambda>p. p \<notin> {'''', ''.''}) (split_on (CHR ''/'') raw) in
          if parts = [] \<or> ''..'' \<in> set parts then None
          else let cleaned = clean_name ''._-()[] '' (last parts) in
            if cleaned = [] then None else Some cleaned)"

partial_function (option) free_path :: "files \<Rightarrow> string \<Rightarrow> string \<Rightarrow> string \<Rightarrow> string \<Rightarrow> nat \<Rightarrow> string option" where
  "free_path m dest base ext candidate counter =
     (if m candidate \<noteq> None
      then free_path m dest base ext (path_join dest (base @ ''_'' @ nat_str counter @ ext)) (Suc counter)
      else Some candidate)"

declare free_path.simps [code]

definition unique_path :: "files \<Rightarrow> string \<Rightarrow> string \<Rightarrow> string option" where
  "unique_path m dest name =
     (case splitext name of (base, ext) \<Rightarrow> free_path m dest base ext (path_join dest name) 1)"

definition f_unique_path :: "string \<Rightarrow> string \<Rightarrow> (disk, string option) io" where
  "f_unique_path dest name d = (Inr (unique_path (disk_files d) dest name), d)"

lemma wp_f_unique_path [simp]: "wp (f_unique_path dest name) Q E d = Q (unique_path (disk_files d) dest name) d"
  by (simp add: wp_def f_unique_path_def)

section \<open>One entry\<close>

definition chunk_bytes :: nat where
  "chunk_bytes = 2 ^ 20"

definition ratio_floor :: int where
  "ratio_floor = 8 * 1024 * 1024"

text \<open>Opening an entry, which the reader may refuse.\<close>

definition f_entry :: "faults \<Rightarrow> zinfo \<Rightarrow> (disk, bytes) io" where
  "f_entry fault z = disk_op fault (\<lambda>m. map_option (\<lambda>b. (b, m)) (zi_data z)) (\<lambda>_ m. m)"

text \<open>The copy loop; \<open>None\<close> is \<open>_LimitExceededError\<close>.\<close>

function copy_member :: "faults \<Rightarrow> string \<Rightarrow> int \<Rightarrow> int \<Rightarrow> bytes \<Rightarrow> (disk, int option) io" where
  "copy_member fault target cap written src =
     bnd (f_read fault chunk_bytes src) (\<lambda>chunk.
       if chunk = [] then ret (Some written)
       else if cap < written + int (length chunk) then ret None
       else bnd (f_write fault target chunk) (\<lambda>_.
         copy_member fault target cap (written + int (length chunk)) (drop (length chunk) src)))"
  by pat_completeness auto
termination
  by (relation "measure (\<lambda>(_, _, cap, written, _). nat (cap - written))") (auto simp flip: length_greater_0_conv)

declare copy_member.simps [simp del]

definition discard :: "faults \<Rightarrow> string \<Rightarrow> (disk, unit) io" where
  "discard fault p = suppress (f_remove fault p)"

definition write_member :: "faults \<Rightarrow> zinfo \<Rightarrow> string \<Rightarrow> int \<Rightarrow> int \<Rightarrow> (disk, int option) io" where
  "write_member fault z target member_cap remaining_cap =
     tryc
       (bnd (f_entry fault z) (\<lambda>src.
        bnd (f_create fault target) (\<lambda>_.
        bnd (copy_member fault target (min member_cap remaining_cap) 0 src) (\<lambda>r.
          case r of
            None \<Rightarrow> bnd (discard fault target) (\<lambda>_. ret None)
          | Some n \<Rightarrow> ret (Some n)))))
       (\<lambda>_. bnd (discard fault target) (\<lambda>_. ret None))"

text \<open>What the header of an entry decides: leave it, stop here, or extract it as this name.\<close>

datatype verdict = Leave "unpack_error list" | StopHere | Take string string

definition judge :: "caps \<Rightarrow> string list \<Rightarrow> int \<Rightarrow> zinfo \<Rightarrow> verdict" where
  "judge k allowed so_far z =
     (if ends_with ''/'' (zi_filename z) \<or> is_symlink z then Leave []
      else if zi_flag_bits z AND 1 \<noteq> 0 then Leave [PasswordProtected (zi_filename z)]
      else (case safe_member_name (zi_filename z) of
        None \<Rightarrow> Leave [UnsafePath (zi_filename z)]
      | Some name \<Rightarrow>
          let ext = lower (snd (splitext name)); declared = int (zi_file_size z); compressed = int (zi_compress_size z) in
          if ext \<notin> set allowed then Leave []
          else if max_member_bytes k < declared then Leave [MemberTooLarge name (max_member_bytes k)]
          else if max_total_bytes k < so_far + declared then StopHere
          else if ratio_floor < declared \<and>
              (compressed \<le> 0 \<or> real_of_int (max_ratio k) < real_of_int declared / real_of_int compressed)
          then Leave [SuspiciousRatio name]
          else Take name ext))"

section \<open>The whole archive\<close>

text \<open>The loop over the entries; \<open>None\<close> is a search for a free path that never ends.\<close>

fun expand_entries :: "faults \<Rightarrow> caps \<Rightarrow> string list \<Rightarrow> string \<Rightarrow> zinfo list \<Rightarrow> expansion \<Rightarrow> (disk, expansion option) io" where
  "expand_entries fault k allowed dest [] x = ret (Some x)"
| "expand_entries fault k allowed dest (z # zs) x =
     (case judge k allowed (ex_total x) z of
        Leave errs \<Rightarrow>
          expand_entries fault k allowed dest zs (x\<lparr>ex_skipped := Suc (ex_skipped x), ex_errors := ex_errors x @ errs\<rparr>)
      | StopHere \<Rightarrow>
          ret (Some (x\<lparr>ex_skipped := ex_skipped x + length (z # zs), ex_errors := ex_errors x @ [TotalExceeded]\<rparr>))
      | Take name ext \<Rightarrow>
          bnd (f_unique_path dest name) (\<lambda>free.
          case free of
            None \<Rightarrow> ret None
          | Some target \<Rightarrow>
              bnd (write_member fault z target (max_member_bytes k) (max_total_bytes k - ex_total x)) (\<lambda>w.
              expand_entries fault k allowed dest zs
                (case w of
                   None \<Rightarrow> x\<lparr>ex_skipped := Suc (ex_skipped x), ex_errors := ex_errors x @ [NotExtracted name]\<rparr>
                 | Some n \<Rightarrow>
                     x\<lparr>ex_members := ex_members x @
                         [\<lparr>mem_path = target, mem_name = basename target, mem_ext = ext, mem_size = n\<rparr>],
                       ex_total := ex_total x + n\<rparr>))))"

definition nothing_yet :: expansion where
  "nothing_yet = \<lparr>ex_members = [], ex_skipped = 0, ex_errors = [], ex_total = 0\<rparr>"

definition f_makedirs :: "faults \<Rightarrow> string \<Rightarrow> (disk, unit) io" where
  "f_makedirs fault p = disk_op fault (\<lambda>m. Some ((), m)) (\<lambda>_ m. m)"

definition expand_archive :: "faults \<Rightarrow> (bytes \<Rightarrow> zinfo list option) \<Rightarrow> caps \<Rightarrow> string list \<Rightarrow> string \<Rightarrow> string \<Rightarrow>
    (disk, expansion option) io" where
  "expand_archive fault unzip k allowed archive dest =
     bnd (tryc (bnd (f_makedirs fault dest) (\<lambda>_. ret True)) (\<lambda>_. ret False)) (\<lambda>made.
     if \<not> made then ret (Some (nothing_yet\<lparr>ex_errors := [NoDirectory]\<rparr>))
     else bnd (tryc (fmapio unzip (f_open fault archive)) (\<lambda>_. ret None)) (\<lambda>listing.
       case listing of
         None \<Rightarrow> ret (Some (nothing_yet\<lparr>ex_errors := [NotZip]\<rparr>))
       | Some zs \<Rightarrow>
           if max_entries k < int (length zs)
           then ret (Some (nothing_yet\<lparr>ex_skipped := length zs, ex_errors := [TooManyEntries (max_entries k)]\<rparr>))
           else expand_entries fault k allowed dest zs nothing_yet))"

end
