(* ===== verification/FileNameResults.thy ===== *)
theory FileNameResults
  imports FileNames "HOL-Library.Multiset"
begin

text \<open>
  What the naming functions guarantee (a name that stays in its directory, made of harmless characters),
  what they do not (a length limit for every name, a video's own name), and that pruning partial
  downloads bounds what is kept, oldest first.
\<close>

section \<open>Clean names\<close>

lemma sub_runs_set: "set (sub_runs bad s) \<subseteq> {c \<in> set s. \<not> bad c} \<union> {CHR ''_''}"
proof (induction bad s rule: sub_runs.induct)
  case (2 bad c cs)
  then show ?case using set_dropWhileD [of _ bad cs] by (auto split: if_splits)
qed simp

lemma sub_runs_id: "\<forall>c \<in> set s. \<not> bad c \<Longrightarrow> sub_runs bad s = s"
  by (induction bad s rule: sub_runs.induct) auto

lemma strip_of_set: "set (strip_of chars s) \<subseteq> set s"
proof
  fix x assume "x \<in> set (strip_of chars s)"
  then have "x \<in> set (dropWhile (\<lambda>c. c \<in> set chars) (rev (dropWhile (\<lambda>c. c \<in> set chars) s)))"
    by (simp add: strip_of_def)
  from set_dropWhileD [OF this] have "x \<in> set (dropWhile (\<lambda>c. c \<in> set chars) s)" by simp
  from set_dropWhileD [OF this] show "x \<in> set s" by simp
qed

lemma strip_of_ends:
  assumes "strip_of chars s \<noteq> []"
  shows "hd (strip_of chars s) \<notin> set chars" and "last (strip_of chars s) \<notin> set chars"
proof -
  let ?t = "dropWhile (\<lambda>c. c \<in> set chars) s"
  let ?r = "dropWhile (\<lambda>c. c \<in> set chars) (rev ?t)"
  have r: "?r \<noteq> []" using assms by (simp add: strip_of_def)
  then show "last (strip_of chars s) \<notin> set chars"
    using hd_dropWhile [of "\<lambda>c. c \<in> set chars" "rev ?t"] by (simp add: strip_of_def last_rev)
  have t: "?t \<noteq> []"
  proof
    assume "?t = []"
    then have "?r = []" by (simp only: list.map rev.simps dropWhile.simps)
    with r show False by (rule notE)
  qed
  define q where "q = takeWhile (\<lambda>c. c \<in> set chars) (rev ?t)"
  have "rev (q @ ?r) = ?t" unfolding q_def by (simp only: takeWhile_dropWhile_id rev_rev_ident)
  then have "hd ?t = hd (rev ?r @ rev q)" by (simp only: rev_append)
  also have "\<dots> = hd (rev ?r)" by (rule hd_append2) (simp only: rev_is_Nil_conv r not_False_eq_True)
  finally have "hd ?t = hd (rev ?r)" .
  then show "hd (strip_of chars s) \<notin> set chars"
    unfolding strip_of_def using hd_dropWhile [OF t] by metis
qed

lemma strip_of_id: "s \<noteq> [] \<Longrightarrow> hd s \<notin> set chars \<Longrightarrow> last s \<notin> set chars \<Longrightarrow> strip_of chars s = s"
proof -
  assume s: "s \<noteq> []" "hd s \<notin> set chars" "last s \<notin> set chars"
  have "dropWhile (\<lambda>c. c \<in> set chars) s = s" using s by (cases s) auto
  moreover have "dropWhile (\<lambda>c. c \<in> set chars) (rev s) = rev s" using s by (cases s rule: rev_cases) auto
  ultimately show ?thesis by (simp add: strip_of_def)
qed

text \<open>A name a cleaning may give.\<close>

definition tidy :: "string \<Rightarrow> string \<Rightarrow> bool" where
  "tidy keep s \<longleftrightarrow> set s \<subseteq> set (alphanumerics @ keep) \<union> {CHR ''_''} \<and>
     (s \<noteq> [] \<longrightarrow> hd s \<notin> set ''_. '' \<and> last s \<notin> set ''_. '')"

lemma clean_tidy: "tidy keep (clean_name keep s)"
proof -
  let ?a = "sub_runs (\<lambda>c. c \<notin> set (alphanumerics @ keep)) s"
  have "set ?a \<subseteq> set (alphanumerics @ keep) \<union> {CHR ''_''}" using sub_runs_set by fastforce
  then have "set (sub_runs (\<lambda>c. c = CHR ''_'') ?a) \<subseteq> set (alphanumerics @ keep) \<union> {CHR ''_''}"
    using sub_runs_set by fastforce
  then show ?thesis
    unfolding tidy_def clean_name_def using strip_of_set strip_of_ends by (meson subset_trans)
qed

lemma tidy_plain:
  assumes "tidy keep s" and "CHR ''/'' \<notin> set keep"
  shows "CHR ''/'' \<notin> set s"
  using assms by (auto simp: tidy_def alphanumerics_def)

lemma splitext_plain:
  assumes "CHR ''/'' \<notin> set s"
  shows "splitext s = (s, []) \<or>
    (\<exists>h e. splitext s = (h, CHR ''.'' # e) \<and> s = h @ CHR ''.'' # e \<and> CHR ''.'' \<notin> set e \<and> h \<noteq> [])"
proof -
  obtain h f e where r: "rpartition_at (CHR ''.'') s = (h, f, e)" by (cases "rpartition_at (CHR ''.'') s")
  then show ?thesis
    using rpartition_at_join [of "CHR ''.''" s h e] rpartition_at_tail [OF r] assms
    by (auto simp: splitext_def)
qed

text \<open>
  A cleaned name is never empty, has only letters, digits and the characters \<open>._-()[]\<close>, names a file in
  whatever directory it is joined to and not that directory or its parent, and keeps to the limit
  whenever its extension does.
\<close>

theorem sanitized_name_safe:
  "let r = sanitize_filename name n; ext = snd (splitext (clean_name ''._-()[]'' (basename name))) in
     r \<noteq> [] \<and> set r \<subseteq> set (alphanumerics @ ''._-()[]'') \<and> basename (path_join d r) = r \<and>
     r \<noteq> ''.'' \<and> r \<noteq> ''..'' \<and> (length r \<le> max n 4 \<or> n < length ext)"
proof -
  let ?s = "clean_name ''._-()[]'' (basename name)"
  have tidy: "tidy ''._-()[]'' ?s" by (rule clean_tidy)
  then have chars: "set ?s \<subseteq> set (alphanumerics @ ''._-()[]'')" by (auto simp: tidy_def)
  have slash: "CHR ''/'' \<notin> set (alphanumerics @ ''._-()[]'')" by (simp add: alphanumerics_def)
  then have plain: "CHR ''/'' \<notin> set ?s" using chars by blast
  have parts: "set (fst (splitext ?s)) \<union> set (snd (splitext ?s)) \<subseteq> set ?s"
    using splitext_plain [OF plain] by auto
  define r where "r = sanitize_filename name n"
  have "r = ''file'' \<or> r = ?s \<and> ?s \<noteq> [] \<and> length ?s \<le> n \<or>
      r = py_prefix (int n - int (length (snd (splitext ?s)))) (fst (splitext ?s)) @ snd (splitext ?s) \<and> r \<noteq> [] \<and> n < length ?s"
    by (auto simp: r_def sanitize_filename_def Let_def split: prod.splits)
  then have "r \<noteq> [] \<and> set r \<subseteq> set (alphanumerics @ ''._-()[]'') \<and> r \<noteq> ''.'' \<and> r \<noteq> ''..'' \<and>
      (length r \<le> max n 4 \<or> n < length (snd (splitext ?s)))"
  proof (elim disjE conjE)
    assume "r = ''file''"
    then show ?thesis by (simp add: alphanumerics_def le_max_iff_disj)
  next
    assume "r = ?s" "?s \<noteq> []" "length ?s \<le> n"
    then show ?thesis using chars tidy by (auto simp: tidy_def)
  next
    let ?stem = "fst (splitext ?s)" and ?ext = "snd (splitext ?s)"
    let ?p = "py_prefix (int n - int (length ?ext)) ?stem"
    assume r: "r = ?p @ ?ext" "r \<noteq> []" "n < length ?s"
    have p: "set ?p \<subseteq> set ?stem" by (auto simp: py_prefix_def dest: in_set_takeD)
    have chars_r: "set r \<subseteq> set (alphanumerics @ ''._-()[]'')" using r(1) p parts chars by auto
    have short: "length r \<le> n \<or> n < length ?ext" unfolding r(1) by (auto simp: py_prefix_def)
    have dots: "r \<noteq> ''.'' \<and> r \<noteq> ''..''"
    proof (cases "?p = []")
      case True
      then obtain e where e: "?ext = CHR ''.'' # e" "CHR ''.'' \<notin> set e" and last: "last ?s = last ?ext"
        using splitext_plain [OF plain] r by auto
      have "?s \<noteq> []" using r(3) by auto
      then have "last ?ext \<noteq> CHR ''.''" using tidy last by (auto simp: tidy_def)
      then show ?thesis using e True r(1) by auto
    next
      case False
      then have "hd ?p = hd ?stem" by (auto simp: py_prefix_def hd_take)
      moreover have "hd ?stem = hd ?s" using splitext_plain [OF plain] by auto
      moreover have "hd ?s \<noteq> CHR ''.''" using tidy r(3) by (auto simp: tidy_def)
      ultimately have "hd r \<noteq> CHR ''.''" using False r(1) by simp
      then show ?thesis by auto
    qed
    show ?thesis using r(2) chars_r short dots by auto
  qed
  moreover from this have "CHR ''/'' \<notin> set r" using slash by blast
  ultimately show ?thesis unfolding r_def Let_def by simp
qed

lemma sanitized_keeps:
  assumes "set s \<subseteq> set (alphanumerics @ ''.-'')" and "s \<noteq> []" "hd s \<noteq> CHR ''.''" "last s \<noteq> CHR ''.''" "length s \<le> n"
  shows "sanitize_filename s n = s"
proof -
  have off: "CHR ''/'' \<notin> set (alphanumerics @ ''.-'')" "CHR ''_'' \<notin> set (alphanumerics @ ''.-'')"
      "CHR '' '' \<notin> set (alphanumerics @ ''.-'')"
    by (simp_all add: alphanumerics_def)
  then have chars: "CHR ''/'' \<notin> set s" "CHR ''_'' \<notin> set s" "CHR '' '' \<notin> set s" using assms(1) by blast+
  have "sub_runs (\<lambda>c. c \<notin> set (alphanumerics @ ''._-()[]'')) s = s"
    using assms(1) by (intro sub_runs_id) auto
  moreover have "sub_runs (\<lambda>c. c = CHR ''_'') s = s" using chars(2) by (intro sub_runs_id) auto
  moreover have "hd s \<noteq> CHR ''_''" "hd s \<noteq> CHR '' ''" "last s \<noteq> CHR ''_''" "last s \<noteq> CHR '' ''"
    using chars(2,3) hd_in_set [OF assms(2)] last_in_set [OF assms(2)] by metis+
  then have "strip_of ''_. '' s = s" using assms(2-4) by (intro strip_of_id) auto
  ultimately show ?thesis
    using chars(1) assms(2,5) by (simp add: sanitize_filename_def clean_name_def)
qed

text \<open>
  A video, an audio or another medium that carries a file name is stored under that name with its
  extension written twice; the same file sent as a document keeps its name.
\<close>

theorem media_extension_doubled:
  assumes "set name \<subseteq> set (alphanumerics @ ''.-'')" and "hd name \<noteq> CHR ''.''" "last name \<noteq> CHR ''.''"
    and "splitext name = (stem, ext)" "ext \<noteq> []" "2 * length name \<le> max_name_len"
  shows "message_filename (Some name) media path = Some name"
    and "message_filename None (Some name # media) path = Some (name @ ext)"
proof -
  have plain: "CHR ''/'' \<notin> set name" using assms(1) by (auto simp: alphanumerics_def)
  then have name: "name = stem @ ext" "stem \<noteq> []"
    using splitext_plain [OF plain] assms(4,5) by auto
  then have ne: "name \<noteq> []" and sub: "set (name @ ext) \<subseteq> set (alphanumerics @ ''.-'')" using assms(1) by auto
  have "last (name @ ext) = last name" using name(1) assms(5) by simp
  moreover have "hd (name @ ext) = hd name" using ne by simp
  moreover have "length (name @ ext) \<le> max_name_len" using name(1) assms(6) by simp
  ultimately have "sanitize_filename (name @ ext) max_name_len = name @ ext"
    using ne assms(2,3) by (intro sanitized_keeps [OF sub]) simp_all
  then show "message_filename None (Some name # media) path = Some (name @ ext)"
    using assms(4,5) ne by (simp add: message_filename_def media_filename_def named_def)
  show "message_filename (Some name) media path = Some name"
    using sanitized_keeps [OF assms(1) ne assms(2,3)] assms(6) ne
    by (simp add: message_filename_def document_filename_def named_def)
qed

lemma media_extension_doubled_witness:
  "message_filename (Some ''clip.mp4'') [] ''up/f1'' = Some ''clip.mp4''"
  "message_filename None [Some ''clip.mp4''] ''up/f1'' = Some ''clip.mp4.mp4''"
proof -
  have name: "set ''clip.mp4'' \<subseteq> set (alphanumerics @ ''.-'')" "hd ''clip.mp4'' \<noteq> CHR ''.''" "last ''clip.mp4'' \<noteq> CHR ''.''"
    "splitext ''clip.mp4'' = (''clip'', ''.mp4'')" "''.mp4'' \<noteq> []" "2 * length ''clip.mp4'' \<le> max_name_len"
    by code_simp+
  show "message_filename (Some ''clip.mp4'') [] ''up/f1'' = Some ''clip.mp4''"
    by (rule media_extension_doubled(1) [OF name])
  show "message_filename None [Some ''clip.mp4''] ''up/f1'' = Some ''clip.mp4.mp4''"
    using media_extension_doubled(2) [OF name] by simp
qed

text \<open>An extension longer than the limit is kept whole, so the limit does not hold for every name.\<close>

lemma long_extension_kept: "length (sanitize_filename (''a.'' @ replicate 200 (CHR ''x'')) max_name_len) = 201"
  by code_simp

section \<open>Partial downloads\<close>

definition part_size :: "real \<times> nat \<times> string \<Rightarrow> nat" where
  "part_size c = fst (snd c)"

definition part_path :: "real \<times> nat \<times> string \<Rightarrow> string" where
  "part_path c = snd (snd c)"

definition part_bytes :: "(real \<times> nat \<times> string) list \<Rightarrow> nat" where
  "part_bytes cs = sum_list (map part_size cs)"

text \<open>What the walk finds with a working \<open>stat\<close>: expired partials and those still worth resuming.\<close>

definition partials :: "found list \<Rightarrow> (real \<times> nat \<times> string) list" where
  "partials fs = concat (map (\<lambda>(p, st). case st of None \<Rightarrow> [] | Some (t, n) \<Rightarrow>
     if is_partial (basename p) then [(t, n, p)] else []) fs)"

definition expired :: "real \<Rightarrow> real \<Rightarrow> found list \<Rightarrow> (real \<times> nat \<times> string) list" where
  "expired now ttl fs = filter (\<lambda>(t, _). ttl < now - t) (partials fs)"

definition resumable :: "real \<Rightarrow> real \<Rightarrow> found list \<Rightarrow> (real \<times> nat \<times> string) list" where
  "resumable now ttl fs = filter (\<lambda>(t, _). \<not> ttl < now - t) (partials fs)"

definition without :: "files \<Rightarrow> string list \<Rightarrow> files" where
  "without m ps = (\<lambda>p. if p \<in> set ps then None else m p)"

lemma without_simps [simp]: "without m [] = m" "without (without m ps) qs = without m (ps @ qs)"
  by (auto simp: without_def)

lemma remove_without: "m(p := None) = without m [p]"
  by (auto simp: without_def)

definition fits :: "nat \<Rightarrow> nat \<Rightarrow> (real \<times> nat \<times> string) list \<Rightarrow> bool" where
  "fits max_files max_bytes cs \<longleftrightarrow> length cs \<le> max_files \<and> part_bytes cs \<le> max_bytes"

lemma evict_run:
  assumes "flawless fault" and "distinct (map part_path cs)" and "\<forall>c \<in> set cs. disk_files d (part_path c) \<noteq> None"
  shows "wp (evict fault mf mb cs (length cs) (part_bytes cs) (r, f))
    (\<lambda>out d'. \<exists>k \<le> length cs. out = (r + k, f + part_bytes (take k cs)) \<and>
       disk_files d' = without (disk_files d) (map part_path (take k cs)) \<and>
       fits mf mb (drop k cs) \<and> (\<forall>j < k. \<not> fits mf mb (drop j cs)))
    (\<lambda>_ _. False) d"
  using assms(2,3)
proof (induction cs arbitrary: d r f)
  case Nil
  then show ?case by (simp add: fits_def part_bytes_def)
next
  case (Cons c cs)
  obtain t n p where c: "c = (t, n, p)" by (cases c)
  show ?case
  proof (cases "fits mf mb (c # cs)")
    case True
    then show ?thesis by (auto simp: c fits_def part_bytes_def part_size_def intro!: exI [of _ 0])
  next
    case False
    have rest: "wp (evict fault mf mb cs (length cs) (part_bytes cs) (Suc r, f + n))
        (\<lambda>out d'. \<exists>k \<le> length (c # cs). out = (r + k, f + part_bytes (take k (c # cs))) \<and>
           disk_files d' = without (disk_files d) (map part_path (take k (c # cs))) \<and>
           fits mf mb (drop k (c # cs)) \<and> (\<forall>j < k. \<not> fits mf mb (drop j (c # cs))))
        (\<lambda>_ _. False) d1"
      if d1: "disk_files d1 = (disk_files d)(p := None)" for d1
    proof (rule wp_mono [OF Cons.IH], goal_cases)
      case 1
      then show ?case using Cons.prems by simp
    next
      case 2
      then show ?case using Cons.prems by (auto simp: d1 c part_path_def)
    next
      case (3 out d')
      then obtain k where k: "k \<le> length cs" "out = (Suc r + k, f + n + part_bytes (take k cs))"
        "disk_files d' = without (disk_files d1) (map part_path (take k cs))" "fits mf mb (drop k cs)"
        "\<forall>j < k. \<not> fits mf mb (drop j cs)"
        by blast
      have "\<forall>j < Suc k. \<not> fits mf mb (drop j (c # cs))"
        using k(5) False by (auto simp: less_Suc_eq_0_disj)
      then show ?case
        using k by (intro exI [of _ "Suc k"]) (simp add: c part_bytes_def part_size_def part_path_def d1 remove_without)
    qed simp
    have "\<not> (Suc (length cs) \<le> mf \<and> n + part_bytes cs \<le> mb)"
      using False by (simp add: fits_def part_bytes_def c part_size_def)
    moreover have "disk_files d p \<noteq> None" using Cons.prems(2) by (simp add: c part_path_def)
    moreover have "part_bytes (c # cs) = n + part_bytes cs" by (simp add: part_bytes_def c part_size_def)
    ultimately show ?thesis
      using rest assms(1) unfolding c evict.simps
      by (auto intro!: wp_f_remove)
  qed
qed

lemma partials_paths:
  assumes "distinct (map fst fs)"
  shows "distinct (map part_path (partials fs))" and "part_path ` set (partials fs) \<subseteq> fst ` set fs"
proof -
  show sub: "part_path ` set (partials fs) \<subseteq> fst ` set fs" for fs
    by (force simp: partials_def part_path_def split: option.splits if_splits)
  show "distinct (map part_path (partials fs))"
    using assms
  proof (induction fs)
    case (Cons x fs)
    obtain p st where x: "x = (p, st)" by (cases x)
    have "p \<notin> part_path ` set (partials fs)" using sub [of fs] Cons.prems by (auto simp: x)
    then show ?case
      using Cons by (auto simp: x partials_def part_path_def split: option.split)
  qed (simp add: partials_def)
qed

lemma drop_expired_run:
  assumes "flawless fault" and "distinct (map fst fs)" and "\<forall>(p, st) \<in> set fs. disk_files d p \<noteq> None"
  shows "wp (drop_expired fault now ttl fs)
    (\<lambda>out d'. out = ((length (expired now ttl fs), part_bytes (expired now ttl fs)), resumable now ttl fs) \<and>
       disk_files d' = without (disk_files d) (map part_path (expired now ttl fs)))
    (\<lambda>_ _. False) d"
proof -
  let ?I = "\<lambda>done out d'. out = ((length (expired now ttl done), part_bytes (expired now ttl done)), resumable now ttl done) \<and>
       disk_files d' = without (disk_files d) (map part_path (expired now ttl done))"
  have "wp (drop_expired fault now ttl fs) (?I ([] @ fs)) (\<lambda>_ _. False) d"
    unfolding drop_expired_def
  proof (rule wp_for_each_prefix [where I = ?I], goal_cases)
    case (1 x dn rest s w)
    obtain p st where x: "x = (p, st)" by (cases x)
    have fs: "fs = dn @ x # rest" using 1(2) by simp
    have "part_path ` set (expired now ttl dn) \<subseteq> part_path ` set (partials dn)" by (auto simp: expired_def)
    moreover have "part_path ` set (partials dn) \<subseteq> fst ` set dn"
      using assms(2) by (intro partials_paths(2)) (simp add: fs)
    ultimately have "p \<notin> part_path ` set (expired now ttl dn)"
      using assms(2) by (auto simp: fs x)
    then have "disk_files w p \<noteq> None" using 1(1) assms(3) by (auto simp: fs x without_def)
    then show ?case
      using 1(1) assms(1)
      by (auto simp: x expired_def resumable_def partials_def part_bytes_def part_size_def part_path_def remove_without
          split: option.splits intro!: wp_f_remove)
  next
    case 2
    then show ?case by (simp add: expired_def resumable_def partials_def part_bytes_def)
  qed
  then show ?thesis by simp
qed

text \<open>
  One pass over the partial downloads, when files can be removed: every expired one goes, and of the
  rest the oldest, as many as it takes for what is kept to fit the limits on files and bytes and not one
  more; nothing else is touched, and the pass reports what it removed.
\<close>

theorem partials_bounded:
  assumes "flawless fault" and "distinct (map fst fs)" and "\<forall>(p, st) \<in> set fs. disk_files d p \<noteq> None"
  shows "\<exists>k. let kept = drop k (sort (resumable now ttl fs));
      gone = expired now ttl fs @ take k (sort (resumable now ttl fs)) in
    fst (prune_partial_files fault now ttl mf mb fs d) = Inr (length gone, part_bytes gone) \<and>
    disk_files (snd (prune_partial_files fault now ttl mf mb fs d)) = without (disk_files d) (map part_path gone) \<and>
    length kept \<le> mf \<and> part_bytes kept \<le> mb \<and>
    (\<forall>j < k. mf < length (drop j (sort (resumable now ttl fs))) \<or> mb < part_bytes (drop j (sort (resumable now ttl fs))))"
proof -
  let ?e = "expired now ttl fs" and ?r = "resumable now ttl fs"
  have e: "set ?e \<subseteq> set (partials fs)" "set ?r \<subseteq> set (partials fs)" "set ?e \<inter> set ?r = {}"
    by (auto simp: expired_def resumable_def)
  have d0: "distinct (map part_path (sort ?r))"
    using partials_paths(1) [OF assms(2)] by (auto simp: distinct_map resumable_def intro: inj_on_subset)
  let ?Q = "(\<lambda>out d'. \<exists>k. out = (length (?e @ take k (sort ?r)), part_bytes (?e @ take k (sort ?r))) \<and>
       disk_files d' = without (disk_files d) (map part_path (?e @ take k (sort ?r))) \<and>
       fits mf mb (drop k (sort ?r)) \<and> (\<forall>j < k. \<not> fits mf mb (drop j (sort ?r))))"
  have "wp (prune_partial_files fault now ttl mf mb fs) ?Q
    (\<lambda>_ _. False) d"
    unfolding prune_partial_files_def wp_bnd
  proof (rule wp_mono [OF drop_expired_run [OF assms]], goal_cases)
    case (1 out d1)
    then have d1: "disk_files d1 = without (disk_files d) (map part_path ?e)" by simp
    have inj: "inj_on part_path (set (partials fs))"
      using partials_paths(1) [OF assms(2)] by (simp add: distinct_map)
    have p: "part_path c \<notin> set (map part_path ?e)" "part_path c \<in> fst ` set fs" if c: "c \<in> set ?r" for c
    proof -
      show "part_path c \<in> fst ` set fs" using c e(2) partials_paths(2) [OF assms(2)] by blast
      show "part_path c \<notin> set (map part_path ?e)"
      proof
        assume "part_path c \<in> set (map part_path ?e)"
        then obtain x where x: "x \<in> set ?e" "part_path c = part_path x" by auto
        then have "x = c" using inj c e(1,2) by (metis inj_onD subsetD)
        then show False using x(1) c e(3) by blast
      qed
    qed
    then have there: "\<forall>c \<in> set (sort ?r). disk_files d1 (part_path c) \<noteq> None"
      using 1 assms(3) by (fastforce simp: without_def)
    have size: "sum_list (map (\<lambda>(_, n, _). n) ?r) = part_bytes (sort ?r)"
    proof -
      have "part_size = (\<lambda>(_, n, _). n)" by (auto simp: part_size_def)
      then show ?thesis
        unfolding part_bytes_def by (metis mset_map mset_sort sum_mset_sum_list)
    qed
    have "wp (evict fault mf mb (sort ?r) (length ?r) (sum_list (map (\<lambda>(_, n, _). n) ?r)) (length ?e, part_bytes ?e))
      (\<lambda>out d'. \<exists>k \<le> length ?r. out = (length ?e + k, part_bytes ?e + part_bytes (take k (sort ?r))) \<and>
         disk_files d' = without (disk_files d1) (map part_path (take k (sort ?r))) \<and>
         fits mf mb (drop k (sort ?r)) \<and> (\<forall>j < k. \<not> fits mf mb (drop j (sort ?r))))
      (\<lambda>_ _. False) d1"
      using evict_run [OF assms(1) d0 there, of mf mb "length ?e" "part_bytes ?e"] by (simp add: size)
    then have "wp (evict fault mf mb (sort ?r) (length ?r) (sum_list (map (\<lambda>(_, n, _). n) ?r)) (length ?e, part_bytes ?e))
      ?Q (\<lambda>_ _. False) d1"
    proof (rule wp_mono, goal_cases)
      case (1 out' d')
      then obtain k where "k \<le> length ?r" "out' = (length ?e + k, part_bytes ?e + part_bytes (take k (sort ?r)))"
        "disk_files d' = without (disk_files d1) (map part_path (take k (sort ?r)))"
        "fits mf mb (drop k (sort ?r))" "\<forall>j < k. \<not> fits mf mb (drop j (sort ?r))"
        by blast
      then show ?case
        using d1 by (intro exI [of _ k]) (simp add: part_bytes_def)
    qed simp
    then show ?case using 1 by simp
  qed simp
  then show ?thesis
    unfolding wp_def Let_def fits_def by (auto split: prod.splits sum.splits simp: not_le)
qed

lemma partials_bounded_witness:
  "\<exists>k. let fs = [(''d/a.part'', Some (10, 2)), (''d/b.part'', Some (100, 3)), (''d/c.part'', Some (120, 4))];
      kept = drop k (sort (resumable 130 60 fs));
      gone = expired 130 60 fs @ take k (sort (resumable 130 60 fs)) in
    fst (prune_partial_files (\<lambda>_. None) 130 60 1 9 fs
       \<lparr>disk_files = [''d/a.part'' \<mapsto> ''xx'', ''d/b.part'' \<mapsto> ''xxx'', ''d/c.part'' \<mapsto> ''xxxx''], disk_steps = 0\<rparr>) =
      Inr (length gone, part_bytes gone) \<and> length kept \<le> 1 \<and> part_bytes kept \<le> 9"
proof -
  let ?fs = "[(''d/a.part'', Some (10, 2)), (''d/b.part'', Some (100, 3)), (''d/c.part'', Some (120, 4))] :: found list"
  have "distinct (map fst ?fs)" by simp
  moreover have "\<forall>(p, st) \<in> set ?fs. disk_files \<lparr>disk_files =
      [''d/a.part'' \<mapsto> ''xx'', ''d/b.part'' \<mapsto> ''xxx'', ''d/c.part'' \<mapsto> ''xxxx''], disk_steps = 0\<rparr> p \<noteq> None"
    by simp
  ultimately show ?thesis
    using partials_bounded [OF flawless_None, of ?fs _ 130 60 1 9] unfolding Let_def by blast
qed

end
