(* ===== verification/UnpackResults.thy ===== *)
theory UnpackResults
  imports Unpack FileNameResults
begin

text \<open>
  What unpacking guarantees whatever the archive holds and whatever operation fails: it always returns,
  touches nothing that was there, writes only inside the destination and only what the caps allow, and
  accounts for every entry; and an archive of nothing but acceptable media is unpacked whole.
\<close>

section \<open>Names\<close>

lemma member_name_plain: "safe_member_name s = Some n \<Longrightarrow> tidy ''._-()[] '' n \<and> n \<noteq> [] \<and> CHR ''/'' \<notin> set n"
proof -
  assume s: "safe_member_name s = Some n"
  then obtain p where p: "n = clean_name ''._-()[] '' p" "n \<noteq> []"
    by (auto simp: safe_member_name_def Let_def split: if_splits)
  then have "tidy ''._-()[] '' n" using clean_tidy by simp
  moreover from this have "CHR ''/'' \<notin> set n" by (rule tidy_plain) simp
  ultimately show ?thesis using p(2) by simp
qed

lemma splitext_tidy:
  assumes "tidy keep n" and "n \<noteq> []" "CHR ''/'' \<notin> set n" and "splitext n = (h, e)"
  shows "CHR ''/'' \<notin> set h \<and> CHR ''/'' \<notin> set e \<and> n = h @ e \<and>
    (e \<noteq> [] \<longrightarrow> splitext (h @ ''_'' @ nat_str i @ e) = (h @ ''_'' @ nat_str i, e))"
proof -
  have "n = h @ e" using splitext_join [of n] assms(4) by simp
  moreover have "splitext (h @ ''_'' @ nat_str i @ e) = (h @ ''_'' @ nat_str i, e)" if e: "e \<noteq> []"
  proof -
    obtain f where f: "e = CHR ''.'' # f" "CHR ''.'' \<notin> set f"
      using splitext_plain [OF assms(3)] assms(4) e by auto
    have "splitext ((h @ ''_'' @ nat_str i) @ CHR ''.'' # f) = (h @ ''_'' @ nat_str i, CHR ''.'' # f)"
      by (rule splitext_dot) (use assms(3) f \<open>n = h @ e\<close> slash_not_digits in auto)
    then show ?thesis by (simp add: f(1))
  qed
  ultimately show ?thesis using assms(3) by auto
qed

interpretation paths: probing "\<lambda>c. m c \<noteq> None" "\<lambda>i. path_join dest (base @ ''_'' @ nat_str i @ ext)" "free_path m dest base ext"
  for m dest base ext
  by unfold_locales (subst free_path.simps, rule refl)

text \<open>The path for a member is free, in the destination, and has the member's extension.\<close>

lemma unique_path_found:
  assumes "finite (dom m)" and "safe_member_name s = Some name" and "snd (splitext name) = e" "e \<noteq> []"
  shows "\<exists>c. unique_path m dest name = Some c \<and> m c = None \<and> c = path_join dest (basename c) \<and>
    snd (splitext (basename c)) = e"
proof -
  obtain h where h: "splitext name = (h, e)" using assms(3) by (cases "splitext name") auto
  note name = member_name_plain [OF assms(2)]
  note parts = splitext_tidy [OF name [THEN conjunct1] name [THEN conjunct2, THEN conjunct1]
      name [THEN conjunct2, THEN conjunct2] h]
  let ?n = "\<lambda>i. h @ ''_'' @ nat_str i @ e"
  have plain: "CHR ''/'' \<notin> set (?n i)" for i using parts slash_not_digits by simp
  have "inj (\<lambda>i. path_join dest (?n i))"
    using path_join_inject [OF plain plain] by (auto intro: injI)
  then have "\<exists>k \<ge> 1. m (path_join dest (?n k)) = None"
    using free_beyond [OF _ assms(1)] by (auto simp: domIff)
  then obtain c where c: "free_path m dest h e (path_join dest name) 1 = Some c" "m c = None"
      "c = path_join dest name \<or> (\<exists>i. c = path_join dest (?n i))"
    using paths.probe_ends [where m = m and n = 1 and dest = dest and base = h and ext = e] by force
  have "c = path_join dest (basename c) \<and> snd (splitext (basename c)) = e"
    using c(3)
  proof (elim disjE exE)
    fix i assume "c = path_join dest (?n i)"
    then show ?thesis using plain [of i] parts assms(4) by (simp del: append_assoc append.simps)
  qed (use name h in simp)
  then show ?thesis using c(1,2) by (simp add: unique_path_def h)
qed

section \<open>One entry\<close>

lemma copy_member_run:
  assumes "disk_files d t = Some x"
  shows "wp (copy_member fault t cap w src)
    (\<lambda>r d'. only_at {t} (disk_files d) (disk_files d') \<and>
       (case r of
          None \<Rightarrow> disk_files d' t \<noteq> None \<and> cap < w + int (length src)
        | Some n \<Rightarrow> n = w + int (length src) \<and> disk_files d' t = Some (x @ src) \<and> (src = [] \<or> n \<le> cap)))
    (\<lambda>e d'. \<not> flawless fault \<and> only_at {t} (disk_files d) (disk_files d')) d"
  using assms
proof (induction fault t cap w src arbitrary: d x rule: copy_member.induct)
  case (1 fault t cap w src)
  let ?c = "take chunk_bytes src"
  show ?case
  proof (cases "src = []")
    case True
    then show ?thesis
      using "1.prems" by (subst copy_member.simps) (auto simp: only_at_def intro!: wp_f_read)
  next
    case False
    then have c: "?c \<noteq> []" by (simp add: chunk_bytes_def)
    show ?thesis
    proof (cases "cap < w + int (length ?c)")
      case True
      moreover have "length ?c \<le> length src" by simp
      ultimately have "cap < w + int (length src)" by linarith
      then show ?thesis
        using "1.prems" c True by (subst copy_member.simps) (auto simp: only_at_def simp del: length_take intro!: wp_f_read)
    next
      case fits: False
      let ?Q = "\<lambda>r d'. only_at {t} (disk_files d) (disk_files d') \<and>
         (case r of
            None \<Rightarrow> disk_files d' t \<noteq> None \<and> cap < w + int (length src)
          | Some n \<Rightarrow> n = w + int (length src) \<and> disk_files d' t = Some (x @ src) \<and> (src = [] \<or> n \<le> cap))"
      have "wp (copy_member fault t cap (w + int (length ?c)) (drop (length ?c) src)) ?Q
          (\<lambda>e d'. \<not> flawless fault \<and> only_at {t} (disk_files d) (disk_files d')) d2"
        if d2: "disk_files d2 = (disk_files d)(t \<mapsto> x @ ?c)" for d2
      proof (rule wp_mono [OF "1.IH" [OF c fits, of d2 "x @ ?c"]], goal_cases)
        case 1
        then show ?case by (simp add: d2)
      next
        case (2 r d')
        have "w + int (length ?c) + int (length (drop (length ?c) src)) = w + int (length src)" by simp
        moreover have "?c @ drop (length ?c) src = src" by (simp add: min_def)
        ultimately show ?case
          using 2 fits by (auto simp: d2 only_at_def simp del: length_take length_drop split: option.splits)
      qed (auto simp: d2 only_at_def)
      then show ?thesis
        using "1.prems" c fits
        by (subst copy_member.simps)
          (auto simp: content_def only_at_def simp del: length_take intro!: wp_f_read wp_f_write)
    qed
  qed
qed

lemma only_at_same: "only_at {t} m m' \<Longrightarrow> m' t = m t \<Longrightarrow> m' = m"
  by (rule ext) (auto simp: only_at_def)

lemma write_member_run:
  assumes "disk_files d t = None"
  shows "wp (write_member fault z t mc rc)
    (\<lambda>w d'. only_at {t} (disk_files d) (disk_files d') \<and>
       (case w of
          None \<Rightarrow> flawless fault \<longrightarrow> disk_files d' = disk_files d \<and>
            (\<forall>b. zi_data z = Some b \<longrightarrow> min mc rc < int (length b))
        | Some n \<Rightarrow> \<exists>b. zi_data z = Some b \<and> disk_files d' t = Some b \<and> n = int (length b) \<and> (b = [] \<or> n \<le> min mc rc)))
    (\<lambda>_ _. False) d"
    (is "wp _ ?Q _ d")
proof -
  have gone: "wp (discard fault t) (\<lambda>_. wp (ret None) ?Q (\<lambda>_ _. False)) (\<lambda>_ _. False) d1"
    if "only_at {t} (disk_files d) (disk_files d1)"
      "flawless fault \<Longrightarrow> \<forall>b. zi_data z = Some b \<longrightarrow> min mc rc < int (length b)" for d1
  proof -
    have "disk_files d1 = disk_files d" if "disk_files d1 t = None"
      using only_at_same [OF \<open>only_at _ _ _\<close>] that assms by simp
    moreover have "(disk_files d1)(t := None) = disk_files d"
      by (rule only_at_same [where t = t]) (use that(1) assms in \<open>auto simp: only_at_def\<close>)
    ultimately show ?thesis
      using that by (auto simp: discard_def only_at_def intro!: wp_f_remove)
  qed
  have body: "wp (copy_member fault t (min mc rc) 0 b)
      (\<lambda>r. wp (case r of None \<Rightarrow> bnd (discard fault t) (\<lambda>_. ret None) | Some n \<Rightarrow> ret (Some n)) ?Q
        (\<lambda>_. wp (bnd (discard fault t) (\<lambda>_. ret None)) ?Q (\<lambda>_ _. False)))
      (\<lambda>_. wp (bnd (discard fault t) (\<lambda>_. ret None)) ?Q (\<lambda>_ _. False)) d1"
    if d1: "disk_files d1 = (disk_files d)(t \<mapsto> [])" and b: "zi_data z = Some b" for d1 b
  proof (rule wp_mono [OF copy_member_run [of d1 t "[]"]], goal_cases)
    case 1
    then show ?case by (simp add: d1)
  next
    case (2 r d2)
    have only: "only_at {t} (disk_files d) (disk_files d2)" using 2 by (auto simp: d1 only_at_def)
    show ?case
    proof (cases r)
      case None
      then have "wp (discard fault t) (\<lambda>_. wp (ret None) ?Q (\<lambda>_ _. False)) (\<lambda>_ _. False) d2"
        using 2 b only by (intro gone) auto
      then show ?thesis using None by (auto elim: wp_mono)
    next
      case (Some n)
      then show ?thesis using 2 b only by auto
    qed
  next
    case (3 e d2)
    then have "only_at {t} (disk_files d) (disk_files d2)" by (auto simp: d1 only_at_def)
    then show ?case using 3 gone by simp
  qed
  show ?thesis
    unfolding write_member_def wp_tryc wp_bnd
    unfolding f_entry_def
    using gone body
    by (auto intro!: wp_disk_op wp_f_create simp: only_at_def)
qed

section \<open>The whole archive\<close>

text \<open>A path directly inside a directory.\<close>

definition inside :: "string \<Rightarrow> string \<Rightarrow> bool" where
  "inside dest p \<longleftrightarrow> p = path_join dest (basename p)"

text \<open>An extracted file: \<open>m\<close> is the disk before, \<open>m'\<close> now.\<close>

definition member_ok :: "caps \<Rightarrow> string list \<Rightarrow> string \<Rightarrow> files \<Rightarrow> files \<Rightarrow> member \<Rightarrow> bool" where
  "member_ok k allowed dest m m' f \<longleftrightarrow>
     m (mem_path f) = None \<and> inside dest (mem_path f) \<and> mem_name f = basename (mem_path f) \<and>
     mem_ext f \<in> set allowed \<and> lower (snd (splitext (mem_name f))) = mem_ext f \<and>
     mem_size f \<le> max_member_bytes k \<and> (\<exists>b. m' (mem_path f) = Some b \<and> mem_size f = int (length b))"

text \<open>What holds of the disk and of what was extracted so far; \<open>clean\<close>: nothing else was written.\<close>

definition within_caps :: "bool \<Rightarrow> caps \<Rightarrow> string list \<Rightarrow> string \<Rightarrow> files \<Rightarrow> files \<Rightarrow> expansion \<Rightarrow> bool" where
  "within_caps clean k allowed dest m m' x \<longleftrightarrow>
     (clean \<longrightarrow> only_at (mem_path ` set (ex_members x)) m m') \<and>
     (\<forall>p. m p \<noteq> None \<longrightarrow> m' p = m p) \<and> (\<forall>p. m' p \<noteq> m p \<longrightarrow> inside dest p) \<and>
     distinct (map mem_path (ex_members x)) \<and> (\<forall>f \<in> set (ex_members x). member_ok k allowed dest m m' f) \<and>
     ex_total x = sum_list (map mem_size (ex_members x)) \<and> (ex_members x \<noteq> [] \<longrightarrow> ex_total x \<le> max_total_bytes k)"

lemma judge_take:
  assumes "judge k allowed so_far z = Take name ext"
  shows "safe_member_name (zi_filename z) = Some name" and "ext = lower (snd (splitext name))" and "ext \<in> set allowed"
    and "0 \<le> max_member_bytes k" and "so_far \<le> max_total_bytes k"
  using assms by (auto simp: judge_def Let_def split: if_splits option.splits)

lemma only_at_finite: "only_at {t} m m' \<Longrightarrow> finite (dom m) \<Longrightarrow> finite (dom m')"
  using finite_subset [of "dom m'" "insert t (dom m)"] by (fastforce simp: only_at_def dom_def)

lemma within_caps_gap:
  assumes "within_caps clean k allowed dest m m1 x" and "m1 t = None"
  shows "m t = None" and "t \<notin> mem_path ` set (ex_members x)"
  using assms unfolding within_caps_def member_ok_def by (metis option.exhaust, force)

lemma within_caps_write:
  assumes x: "within_caps clean k allowed dest m m1 x" and only: "only_at {t} m1 m2"
    and t: "m1 t = None" "inside dest t" and clean: "clean \<Longrightarrow> m2 = m1"
  shows "within_caps clean k allowed dest m m2 x"
proof -
  note gap = within_caps_gap [OF x t(1)]
  have same: "m2 p = m1 p" if "p \<noteq> t" for p using only that by (simp add: only_at_def)
  have "member_ok k allowed dest m m2 f" if f: "f \<in> set (ex_members x)" for f
  proof -
    have "mem_path f \<noteq> t" using f gap(2) by blast
    moreover have "member_ok k allowed dest m m1 f" using f x by (simp add: within_caps_def)
    ultimately show ?thesis using same by (auto simp: member_ok_def)
  qed
  moreover have "m2 p = m p" if "m p \<noteq> None" for p
    using that gap(1) same [of p] x by (cases "p = t") (auto simp: within_caps_def)
  moreover have "inside dest p" if "m2 p \<noteq> m p" for p
    using that same [of p] x t(2) by (cases "p = t") (auto simp: within_caps_def)
  ultimately show ?thesis using x clean unfolding within_caps_def by auto
qed

lemma within_caps_add:
  assumes x: "within_caps clean k allowed dest m m1 x" and only: "only_at {t} m1 m2"
    and t: "m1 t = None" "inside dest t"
    and b: "m2 t = Some b" and ext: "ext \<in> set allowed" "lower (snd (splitext (basename t))) = ext"
    and size: "int (length b) \<le> max_member_bytes k" "ex_total x + int (length b) \<le> max_total_bytes k"
  shows "within_caps clean k allowed dest m m2
    (x\<lparr>ex_members := ex_members x @ [\<lparr>mem_path = t, mem_name = basename t, mem_ext = ext, mem_size = int (length b)\<rparr>],
       ex_total := ex_total x + int (length b)\<rparr>)"
proof -
  have x': "within_caps False k allowed dest m m1 x" using x by (auto simp: within_caps_def)
  have clean: "only_at (insert t (mem_path ` set (ex_members x))) m m2" if clean
  proof (rule only_at_trans)
    show "only_at (mem_path ` set (ex_members x)) m m1" using that x by (auto simp: within_caps_def)
  qed (use only in auto)
  have "member_ok k allowed dest m m2 \<lparr>mem_path = t, mem_name = basename t, mem_ext = ext, mem_size = int (length b)\<rparr>"
    using within_caps_gap(1) [OF x t(1)] t(2) b ext size(1) by (simp add: member_ok_def)
  then show ?thesis
    using within_caps_write [OF x' only t] within_caps_gap(2) [OF x t(1)] size(2) clean
    by (auto simp: within_caps_def)
qed

lemma within_caps_more [simp]:
  "within_caps clean k allowed dest m m' (x\<lparr>ex_skipped := n, ex_errors := es\<rparr>) = within_caps clean k allowed dest m m' x"
  by (simp add: within_caps_def)

definition accounted :: "expansion \<Rightarrow> nat" where
  "accounted x = length (ex_members x) + ex_skipped x"

lemma expand_entries_run:
  assumes "finite (dom (disk_files d))" and "within_caps (flawless fault) k allowed dest m (disk_files d) x" and "[] \<notin> set allowed"
  shows "wp (expand_entries fault k allowed dest zs x)
    (\<lambda>out d'. \<exists>y. out = Some y \<and> within_caps (flawless fault) k allowed dest m (disk_files d') y \<and> accounted y = accounted x + length zs)
    (\<lambda>_ _. False) d"
  using assms(1,2)
proof (induction zs arbitrary: d x)
  case Nil
  then show ?case by simp
next
  case (Cons z zs)
  show ?case
  proof (cases "judge k allowed (ex_total x) z")
    case (Leave es)
    then show ?thesis
      by (auto simp: accounted_def intro!: wp_mono [OF Cons.IH] Cons.prems)
  next
    case StopHere
    then show ?thesis using Cons.prems by (simp add: accounted_def)
  next
    case (Take name ext)
    note j = judge_take [OF Take]
    have e: "snd (splitext name) \<noteq> []" using j(2,3) assms(3) by (auto simp: lower_def)
    obtain t where t: "unique_path (disk_files d) dest name = Some t" "disk_files d t = None"
        "inside dest t" "snd (splitext (basename t)) = snd (splitext name)"
      using unique_path_found [OF Cons.prems(1) j(1) refl e] unfolding inside_def by blast
    let ?next = "\<lambda>w. case w of
        None \<Rightarrow> x\<lparr>ex_skipped := Suc (ex_skipped x), ex_errors := ex_errors x @ [NotExtracted name]\<rparr>
      | Some n \<Rightarrow> x\<lparr>ex_members := ex_members x @ [\<lparr>mem_path = t, mem_name = basename t, mem_ext = ext, mem_size = n\<rparr>],
          ex_total := ex_total x + n\<rparr>"
    have run: "wp (write_member fault z t (max_member_bytes k) (max_total_bytes k - ex_total x))
      (\<lambda>w d'. finite (dom (disk_files d')) \<and> within_caps (flawless fault) k allowed dest m (disk_files d') (?next w) \<and>
         accounted (?next w) = Suc (accounted x)) (\<lambda>_ _. False) d"
    proof (rule wp_mono [OF write_member_run [of d t]], goal_cases)
      case (2 w d')
      then have only: "only_at {t} (disk_files d) (disk_files d')" by blast
      then have fin: "finite (dom (disk_files d'))" using Cons.prems(1) by (rule only_at_finite)
      show ?case
      proof (cases w)
        case None
        then show ?thesis
          using fin 2 within_caps_write [OF Cons.prems(2) only t(2,3)] by (simp add: accounted_def)
      next
        case (Some n)
        then obtain b where b: "disk_files d' t = Some b" "n = int (length b)"
            "b = [] \<or> n \<le> min (max_member_bytes k) (max_total_bytes k - ex_total x)"
          using 2 by auto
        then have "int (length b) \<le> max_member_bytes k" "ex_total x + int (length b) \<le> max_total_bytes k"
          using j(4,5) by auto
        from within_caps_add [OF Cons.prems(2) only t(2,3) b(1) j(3) _ this] show ?thesis
          using fin Some b(2) t(4) j(2) by (simp add: accounted_def)
      qed
    qed (use t in simp_all)
    have rest: "wp (expand_entries fault k allowed dest zs (?next w))
      (\<lambda>out d'. \<exists>y. out = Some y \<and> within_caps (flawless fault) k allowed dest m (disk_files d') y \<and>
         accounted y = accounted x + length (z # zs)) (\<lambda>_ _. False) d'"
      if "finite (dom (disk_files d'))" "within_caps (flawless fault) k allowed dest m (disk_files d') (?next w)"
        "accounted (?next w) = Suc (accounted x)" for w d'
      by (rule wp_mono [OF Cons.IH [OF that(1,2)]]) (use that(3) in auto)
    show ?thesis
      unfolding expand_entries.simps Take verdict.case wp_bnd wp_f_unique_path t(1) option.case
      by (rule wp_mono [OF run]) (use rest in auto)
  qed
qed

lemma wp_total: "wp m Q (\<lambda>_ _. False) d \<Longrightarrow> \<exists>x d'. m d = (Inr x, d') \<and> Q x d'"
  by (auto simp: wp_def split: prod.splits sum.splits)

lemma within_caps_start: "ex_members x = [] \<Longrightarrow> ex_total x = 0 \<Longrightarrow> within_caps clean k allowed dest m m x"
  by (simp add: within_caps_def)


section \<open>An honest archive\<close>

text \<open>An entry with nothing against it, and a header that tells the truth.\<close>

definition acceptable :: "caps \<Rightarrow> string list \<Rightarrow> zinfo \<Rightarrow> bool" where
  "acceptable k allowed z \<longleftrightarrow>
     (case (safe_member_name (zi_filename z), zi_data z) of
        (Some name, Some b) \<Rightarrow>
          \<not> ends_with ''/'' (zi_filename z) \<and> \<not> is_symlink z \<and> zi_flag_bits z AND 1 = 0 \<and>
          lower (snd (splitext name)) \<in> set allowed \<and> zi_file_size z = length b \<and> int (length b) \<le> max_member_bytes k \<and>
          (int (length b) \<le> ratio_floor \<or>
           0 < zi_compress_size z \<and> real (length b) \<le> real_of_int (max_ratio k) * real (zi_compress_size z))
      | _ \<Rightarrow> False)"

lemma acceptable_judge:
  assumes "acceptable k allowed z" and "so_far + int (zi_file_size z) \<le> max_total_bytes k"
  obtains name b where "safe_member_name (zi_filename z) = Some name" "zi_data z = Some b" "zi_file_size z = length b"
    "int (length b) \<le> max_member_bytes k" "judge k allowed so_far z = Take name (lower (snd (splitext name)))"
proof -
  obtain name b where nb: "safe_member_name (zi_filename z) = Some name" "zi_data z = Some b"
    using assms(1) by (auto simp: acceptable_def split: option.splits)
  then have "judge k allowed so_far z = Take name (lower (snd (splitext name)))"
    using assms by (auto simp: acceptable_def judge_def Let_def divide_simps mult.commute)
  then show thesis using nb assms(1) that by (auto simp: acceptable_def)
qed

lemma expand_entries_whole:
  assumes "flawless fault" and "[] \<notin> set allowed" and "finite (dom (disk_files d))"
    and "\<forall>z \<in> set zs. acceptable k allowed z"
    and "ex_total x + int (sum_list (map zi_file_size zs)) \<le> max_total_bytes k"
  shows "wp (expand_entries fault k allowed dest zs x)
    (\<lambda>out d'. \<exists>ms n. out = Some (x\<lparr>ex_members := ex_members x @ ms, ex_total := n\<rparr>) \<and>
       map (\<lambda>f. disk_files d' (mem_path f)) ms = map zi_data zs \<and>
       (\<forall>p. disk_files d p \<noteq> None \<longrightarrow> disk_files d' p = disk_files d p))
    (\<lambda>_ _. False) d"
  using assms(3-5)
proof (induction zs arbitrary: d x)
  case Nil
  then show ?case by (auto intro!: exI [of _ "[]"] exI [of _ "ex_total x"])
next
  case (Cons z zs)
  have fits: "ex_total x + int (zi_file_size z) \<le> max_total_bytes k" using Cons.prems(3) by simp
  obtain name b where z: "safe_member_name (zi_filename z) = Some name" "zi_data z = Some b" "zi_file_size z = length b"
    "int (length b) \<le> max_member_bytes k" "judge k allowed (ex_total x) z = Take name (lower (snd (splitext name)))"
    using acceptable_judge [OF _ fits] Cons.prems(2) by (metis list.set_intros(1))
  let ?ext = "lower (snd (splitext name))"
  have "snd (splitext name) \<noteq> []" using judge_take(3) [OF z(5)] assms(2) by (auto simp: lower_def)
  then obtain t where t: "unique_path (disk_files d) dest name = Some t" "disk_files d t = None"
    using unique_path_found [OF Cons.prems(1) z(1) refl] by blast
  define x' where "x' = x\<lparr>ex_members := ex_members x @
      [\<lparr>mem_path = t, mem_name = basename t, mem_ext = ?ext, mem_size = int (length b)\<rparr>], ex_total := ex_total x + int (length b)\<rparr>"
  have run: "wp (write_member fault z t (max_member_bytes k) (max_total_bytes k - ex_total x))
      (\<lambda>w d'. w = Some (int (length b)) \<and> only_at {t} (disk_files d) (disk_files d') \<and> disk_files d' t = Some b)
      (\<lambda>_ _. False) d"
    by (rule wp_mono [OF write_member_run [OF t(2)]])
      (use z fits assms(1) in \<open>auto split: option.splits\<close>)
  have rest: "wp (expand_entries fault k allowed dest zs x')
    (\<lambda>out d'. \<exists>ms n. out = Some (x\<lparr>ex_members := ex_members x @ ms, ex_total := n\<rparr>) \<and>
       map (\<lambda>f. disk_files d' (mem_path f)) ms = map zi_data (z # zs) \<and>
       (\<forall>p. disk_files d p \<noteq> None \<longrightarrow> disk_files d' p = disk_files d p)) (\<lambda>_ _. False) d1"
    if d1: "only_at {t} (disk_files d) (disk_files d1)" "disk_files d1 t = Some b" for d1
  proof (rule wp_mono [OF Cons.IH], goal_cases)
    case 1
    show ?case using d1(1) Cons.prems(1) by (rule only_at_finite)
  next
    case (4 out d')
    then obtain ms n where ms: "out = Some (x'\<lparr>ex_members := ex_members x' @ ms, ex_total := n\<rparr>)"
        "map (\<lambda>f. disk_files d' (mem_path f)) ms = map zi_data zs"
        "\<forall>p. disk_files d1 p \<noteq> None \<longrightarrow> disk_files d' p = disk_files d1 p"
      by blast
    moreover have "disk_files d' p = disk_files d p" if "disk_files d p \<noteq> None" for p
      using that t(2) ms(3) only_atD [OF d1(1), of p] by (cases "p = t") auto
    ultimately show ?case
      using d1(2) z(2)
      by (intro exI [of _ "\<lparr>mem_path = t, mem_name = basename t, mem_ext = ?ext, mem_size = int (length b)\<rparr> # ms"] exI [of _ n])
        (simp add: x'_def)
  qed (use Cons.prems z(3) in \<open>auto simp: x'_def\<close>)
  show ?case
    unfolding expand_entries.simps z(5) verdict.case wp_bnd wp_f_unique_path t(1) option.case
    by (rule wp_mono [OF run]) (use rest in \<open>auto simp: x'_def\<close>)
qed

text \<open>
  C35: An archive of at most so many acceptable entries, which fit together, is unpacked whole when no
  operation fails: nothing is skipped, and the members are, in order, files with the entries' bytes.
\<close>

theorem unpack_complete:
  assumes "flawless fault" and "finite (dom (disk_files d))" and "[] \<notin> set allowed"
    and "disk_files d archive = Some b" "unzip b = Some zs" "int (length zs) \<le> max_entries k"
    and "\<forall>z \<in> set zs. acceptable k allowed z" and "int (sum_list (map zi_file_size zs)) \<le> max_total_bytes k"
  shows "\<exists>x d'. expand_archive fault unzip k allowed archive dest d = (Inr (Some x), d') \<and>
    ex_skipped x = 0 \<and> ex_errors x = [] \<and>
    map (\<lambda>f. disk_files d' (mem_path f)) (ex_members x) = map zi_data zs"
proof -
  let ?Q = "\<lambda>out d'. \<exists>x. out = Some x \<and> ex_skipped x = 0 \<and> ex_errors x = [] \<and>
    map (\<lambda>f. disk_files d' (mem_path f)) (ex_members x) = map zi_data zs"
  have entries: "wp (expand_entries fault k allowed dest zs nothing_yet) ?Q (\<lambda>_ _. False) d1"
    if "disk_files d1 = disk_files d" for d1
    by (rule wp_mono [OF expand_entries_whole [OF assms(1,3) _ assms(7)]])
      (use assms(2,8) that in \<open>auto simp: nothing_yet_def\<close>)
  have "wp (expand_archive fault unzip k allowed archive dest) ?Q (\<lambda>_ _. False) d"
    unfolding expand_archive_def f_makedirs_def wp_bnd wp_tryc wp_fmapio
    by (rule wp_disk_op) (use assms entries in \<open>auto intro!: wp_f_open\<close>)
  then show ?thesis by (auto dest!: wp_total)
qed

section \<open>Examples\<close>

definition clip_entry :: zinfo where
  "clip_entry = \<lparr>zi_filename = ''a/my clip.mp4'', zi_external_attr = 0, zi_flag_bits = 0, zi_file_size = 3,
     zi_compress_size = 3, zi_data = Some ''abc''\<rparr>"

definition upload_disk :: disk where
  "upload_disk = \<lparr>disk_files = [''up.zip'' \<mapsto> ''PK'', ''out/my clip.mp4'' \<mapsto> ''old''], disk_steps = 0\<rparr>"

lemma clip_acceptable: "acceptable (caps_from (\<lambda>_. None)) media_extensions clip_entry"
proof -
  have "safe_member_name ''a/my clip.mp4'' = Some ''my clip.mp4''" "\<not> ends_with ''/'' ''a/my clip.mp4''"
    "lower (snd (splitext ''my clip.mp4'')) \<in> set media_extensions"
    by code_simp+
  then show ?thesis
    by (simp add: acceptable_def clip_entry_def is_symlink_def caps_from_def env_int_def ratio_floor_def)
qed

lemma media_extensions_nonempty: "[] \<notin> set media_extensions"
  by code_simp

lemma upload_finite: "finite (dom (disk_files upload_disk))"
  by (simp add: upload_disk_def)


lemma unpack_complete_witness:
  "\<exists>x d'. expand_archive (\<lambda>_. None) (\<lambda>_. Some [clip_entry, clip_entry]) (caps_from (\<lambda>_. None))
      media_extensions ''up.zip'' ''out'' upload_disk = (Inr (Some x), d') \<and>
      map (\<lambda>f. disk_files d' (mem_path f)) (ex_members x) = [Some ''abc'', Some ''abc'']"
proof -
  have "\<exists>x d'. expand_archive (\<lambda>_. None) (\<lambda>_. Some [clip_entry, clip_entry]) (caps_from (\<lambda>_. None))
      media_extensions ''up.zip'' ''out'' upload_disk = (Inr (Some x), d') \<and> ex_skipped x = 0 \<and> ex_errors x = [] \<and>
      map (\<lambda>f. disk_files d' (mem_path f)) (ex_members x) = map zi_data [clip_entry, clip_entry]"
  proof (rule unpack_complete [OF flawless_None upload_finite media_extensions_nonempty])
    show "disk_files upload_disk ''up.zip'' = Some ''PK''" by (simp add: upload_disk_def)
  qed (use clip_acceptable in \<open>auto simp: caps_from_def env_int_def clip_entry_def\<close>)
  then show ?thesis by (auto simp: clip_entry_def)
qed

end
