(* ===== verification/Ingest.thy ===== *)
theory Ingest
  imports Claims FloodGate
begin

text \<open>
  One ingest per media at a time: the gate a request passes before it downloads a media
  (\<open>_claim_pipeline_dedup\<close> and its helpers, \<open>src/handlers.py\<close>).  The key of a media holds the id of the
  job that has it, or, until there is a job, a placeholder with the time the claim was made.  The
  monotonic clock (\<open>ticks\<close>) and \<open>asyncio.sleep\<close> (\<open>nap\<close>) are parameters; waiting takes fuel, and its
  outer \<open>None\<close> is running out of it.
\<close>

section \<open>The placeholder\<close>

definition dedup_key_of :: "string \<Rightarrow> string \<Rightarrow> string" where
  "dedup_key_of user_id file_uid = pipeline_dedup_prefix @ user_id @ '':'' @ file_uid"

definition dedup_pending_prefix :: string where
  "dedup_pending_prefix = ''pending''"

definition dedup_placeholder_ttl :: int where
  "dedup_placeholder_ttl = 1800"

definition dedup_placeholder :: "real \<Rightarrow> string" where
  "dedup_placeholder now = dedup_pending_prefix @ '':'' @ int_str (py_trunc now)"

text \<open>\<open>now - started > ttl\<close>, where \<open>float\<close> may have read an infinity.\<close>

definition older_than :: "real \<Rightarrow> real \<Rightarrow> pyfloat \<Rightarrow> bool" where
  "older_than age now started =
     (case started of Fin x \<Rightarrow> age < now - x | NInf \<Rightarrow> True | PInf \<Rightarrow> False | NaN \<Rightarrow> False)"

definition dedup_placeholder_is_stale :: "'w exec \<Rightarrow> string \<Rightarrow> ('w, bool) io" where
  "dedup_placeholder_is_stale exec text =
     (if \<not> starts_with (dedup_pending_prefix @ '':'') text then ret False
      else case py_float (drop (length dedup_pending_prefix + 1) text) of
             None \<Rightarrow> ret False
           | Some started \<Rightarrow>
               bnd (r_time exec) (\<lambda>now. ret (older_than (of_int dedup_placeholder_ttl) now started)))"

section \<open>The claim\<close>

definition dedup_active_states :: "string list" where
  "dedup_active_states = [''processing'', ''queued'', ''waiting'', ''started'', ''uploading'', ''sending'']"

text \<open>On a job's hash: not cancelled, and in one of the states of work.\<close>

definition dedup_hash_active :: "(string, string) dict \<Rightarrow> bool" where
  "dedup_hash_active h \<longleftrightarrow>
     dget h ''cancel'' \<noteq> Some ''1'' \<and> (\<exists>s \<in> set dedup_active_states. dget h ''status'' = Some s)"

definition dedup_job_is_active :: "'w exec \<Rightarrow> string \<Rightarrow> ('w, bool) io" where
  "dedup_job_is_active exec job_id =
     bnd (attempt (r_hgetall exec (job_hash_key job_id))) (\<lambda>got.
       ret (case got of None \<Rightarrow> False | Some h \<Rightarrow> dedup_hash_active h))"

text \<open>The value of the key; a failing read counts as an empty one.\<close>

definition read_claim :: "'w exec \<Rightarrow> string \<Rightarrow> ('w, string) io" where
  "read_claim exec key =
     bnd (attempt (r_get exec key)) (\<lambda>got. ret (case got of Some (Some s) \<Rightarrow> s | _ \<Rightarrow> []))"

fun dedup_poll ::
    "nat \<Rightarrow> 'w exec \<Rightarrow> ('w \<Rightarrow> real) \<Rightarrow> ('w, unit) io \<Rightarrow> string \<Rightarrow> real \<Rightarrow> ('w, string option option) io" where
  "dedup_poll 0 exec ticks nap key deadline = ret None"
| "dedup_poll (Suc fuel) exec ticks nap key deadline =
     bnd (read_claim exec key) (\<lambda>value.
     if value = [] then ret (Some None)
     else if \<not> starts_with dedup_pending_prefix value then ret (Some (Some value))
     else bnd (dedup_placeholder_is_stale exec value) (\<lambda>stale.
       if stale then ret (Some None)
       else bnd (r_mono ticks) (\<lambda>now.
         if deadline \<le> now then ret (Some None)
         else bnd nap (\<lambda>_. dedup_poll fuel exec ticks nap key deadline))))"

record 'w waiter =
  wt_fuel :: nat
  wt_ticks :: "'w \<Rightarrow> real"
  wt_nap :: "('w, unit) io"
  wt_wait :: real

definition dedup_wait_for_owner :: "'w exec \<Rightarrow> 'w waiter \<Rightarrow> string \<Rightarrow> ('w, string option option) io" where
  "dedup_wait_for_owner exec W key =
     bnd (r_mono (wt_ticks W)) (\<lambda>start.
       dedup_poll (wt_fuel W) exec (wt_ticks W) (wt_nap W) key (start + wt_wait W))"

definition place_claim :: "'w exec \<Rightarrow> string \<Rightarrow> ('w, bool) io" where
  "place_claim exec key =
     bnd (r_time exec) (\<lambda>now. r_setnx exec key (dedup_placeholder now) (dedup_placeholder_ttl * 1000))"

text \<open>Who has the media already, if the key says so; a dead claim is deleted.\<close>

definition dedup_holder :: "'w exec \<Rightarrow> 'w waiter \<Rightarrow> string \<Rightarrow> ('w, string option option) io" where
  "dedup_holder exec W key =
     bnd (read_claim exec key) (\<lambda>text.
     if text = [] then ret (Some None)
     else bnd (if starts_with dedup_pending_prefix text then dedup_wait_for_owner exec W key
               else fmapio (\<lambda>active. Some (if active then Some text else None)) (dedup_job_is_active exec text)) (\<lambda>r.
       if r = Some None then bnd (suppress (r_del exec [key])) (\<lambda>_. ret r) else ret r))"

definition claim_pipeline_dedup :: "'w exec \<Rightarrow> 'w waiter \<Rightarrow> string \<Rightarrow> ('w, string option option) io" where
  "claim_pipeline_dedup exec W key =
     bnd (dedup_holder exec W key) (\<lambda>r.
     if r \<noteq> Some None then ret r
     else bnd (tryc (place_claim exec key) (\<lambda>_. ret False)) (\<lambda>claimed.
       if claimed then ret (Some None)
       else bnd (dedup_wait_for_owner exec W key) (\<lambda>r.
         if r \<noteq> Some None then ret r
         else bnd (suppress (bnd (r_del exec [key]) (\<lambda>_. place_claim exec key))) (\<lambda>_. ret (Some None)))))"

end
