(* ===== verification/Cleanup.thy ===== *)
theory Cleanup
  imports Claims Disk
begin

text \<open>
  The periodic cleanup of what jobs leave behind (\<open>CleanupManager\<close>, \<open>src/tasks/cleanup_tasks.py\<close>): input
  locks, claims on media and job hashes in Redis, and the prefixes of the bucket.  The pages of a
  SCAN are one reply with all the keys.  The storage backend is a parameter (\<open>bucket\<close>).
\<close>

section \<open>Redis\<close>

text \<open>\<open>s.replace(p, "")\<close>; the number counts the characters of a match still to be passed over.\<close>

fun without :: "string \<Rightarrow> nat \<Rightarrow> string \<Rightarrow> string" where
  "without p n [] = []"
| "without p (Suc n) (c # cs) = without p n cs"
| "without p 0 (c # cs) = (if p \<noteq> [] \<and> starts_with p (c # cs) then without p (length p - 1) cs else c # without p 0 cs)"

definition lock_scan_prefix :: string where
  "lock_scan_prefix = ''ffmpeg:lock:''"

definition status_of :: "(string, string) dict \<Rightarrow> string" where
  "status_of h = (case dget h ''status'' of None \<Rightarrow> [] | Some s \<Rightarrow> s)"

definition over_states :: "string list" where
  "over_states = [''done'', ''error'', ''cancelled'']"

definition drop_key :: "'w exec \<Rightarrow> string \<Rightarrow> int \<Rightarrow> ('w, int) io" where
  "drop_key exec key deleted = bnd (r_del exec [key]) (\<lambda>_. ret (deleted + 1))"

text \<open>A key that names its owner: removed when \<open>dead\<close> says so of the value, or the job is gone or over.\<close>

definition cleanup_owned_key :: "'w exec \<Rightarrow> (string \<Rightarrow> bool) \<Rightarrow> string \<Rightarrow> int \<Rightarrow> ('w, int) io" where
  "cleanup_owned_key exec dead key deleted =
     tryc
       (bnd (r_get exec key) (\<lambda>val.
          let owner = (case val of None \<Rightarrow> [] | Some s \<Rightarrow> s) in
          if owner = [] \<or> dead owner then drop_key exec key deleted
          else bnd (r_hgetall exec (job_hash_key owner)) (\<lambda>h.
            if h = [] \<or> status_of h \<in> set ([] # over_states) then drop_key exec key deleted else ret deleted)))
       (\<lambda>_. ret deleted)"

definition swept_keys :: "'w exec \<Rightarrow> string \<Rightarrow> (string \<Rightarrow> int \<Rightarrow> ('w, int) io) \<Rightarrow> ('w, int) io" where
  "swept_keys exec prefix body =
     bnd (attempt (r_connect exec)) (\<lambda>client.
     if client = None then ret 0
     else fin
       (bnd (attempt (r_scan exec prefix)) (\<lambda>got.
          case got of None \<Rightarrow> ret 0 | Some keys \<Rightarrow> for_each keys 0 body))
       (suppress (r_close exec)))"

definition cleanup_stale_locks :: "'w exec \<Rightarrow> ('w, int) io" where
  "cleanup_stale_locks exec = swept_keys exec lock_scan_prefix (cleanup_owned_key exec (\<lambda>_. False))"

definition cleanup_stale_dedup_keys :: "'w exec \<Rightarrow> ('w, int) io" where
  "cleanup_stale_dedup_keys exec =
     swept_keys exec pipeline_dedup_prefix (cleanup_owned_key exec (\<lambda>owner. owner = ''pending''))"

text \<open>\<open>finished_at\<close>, else \<open>started_at\<close>; an empty text counts as missing.\<close>

definition ended_at :: "(string, string) dict \<Rightarrow> string" where
  "ended_at h =
     (case dget h ''finished_at'' of
        Some (c # cs) \<Rightarrow> c # cs
      | _ \<Rightarrow> (case dget h ''started_at'' of None \<Rightarrow> [] | Some s \<Rightarrow> s))"

text \<open>Whether a job's hash may go, at the time \<open>now\<close>.\<close>

definition hash_expired :: "real \<Rightarrow> real \<Rightarrow> (string, string) dict \<Rightarrow> bool" where
  "hash_expired max_age now h \<longleftrightarrow>
     h = [] \<or>
     status_of h \<in> set over_states \<and>
     (ended_at h = [] \<or>
      (case py_float (ended_at h) of
         None \<Rightarrow> True
       | Some (Fin ts) \<Rightarrow> max_age < now - ts
       | Some NInf \<Rightarrow> True
       | Some _ \<Rightarrow> False))"

definition cleanup_job_key :: "'w exec \<Rightarrow> real \<Rightarrow> real \<Rightarrow> string \<Rightarrow> int \<Rightarrow> ('w, int) io" where
  "cleanup_job_key exec max_age now key deleted =
     tryc
       (let job_id = without job_hash_prefix 0 key in
        if length job_id < 8 then ret deleted
        else bnd (r_hgetall exec key) (\<lambda>h.
          if hash_expired max_age now h then drop_key exec key deleted else ret deleted))
       (\<lambda>_. ret deleted)"

definition cleanup_stale_redis_jobs :: "'w exec \<Rightarrow> real \<Rightarrow> ('w, int) io" where
  "cleanup_stale_redis_jobs exec max_age =
     bnd (attempt (r_connect exec)) (\<lambda>client.
     if client = None then ret 0
     else bnd (r_time exec) (\<lambda>now. fin
       (bnd (attempt (r_scan exec job_hash_prefix)) (\<lambda>got.
          case got of None \<Rightarrow> ret 0 | Some keys \<Rightarrow> for_each keys 0 (cleanup_job_key exec max_age now)))
       (suppress (r_close exec))))"

text \<open>The Redis part of a pass of \<open>cleanup_all\<close>, in its order.\<close>

definition cleanup_redis :: "'w exec \<Rightarrow> real \<Rightarrow> ('w, int \<times> int \<times> int) io" where
  "cleanup_redis exec max_age =
     bnd (cleanup_stale_redis_jobs exec max_age) (\<lambda>jobs.
     bnd (cleanup_stale_dedup_keys exec) (\<lambda>claims.
     bnd (cleanup_stale_locks exec) (\<lambda>locks. ret (jobs, claims, locks))))"

text \<open>A lifetime from the environment; \<open>Inl\<close> is the \<open>OverflowError\<close> of an infinity, which nothing catches.\<close>

definition env_ttl :: "string option \<Rightarrow> unit + int option" where
  "env_ttl raw =
     (let s = strip (case raw of None \<Rightarrow> [] | Some s \<Rightarrow> s) in
      if s = [] then Inr None
      else case py_float s of
        None \<Rightarrow> Inr None
      | Some (Fin x) \<Rightarrow> Inr (Some (max 0 (py_trunc x)))
      | Some NaN \<Rightarrow> Inr None
      | Some _ \<Rightarrow> Inl ())"

section \<open>The bucket\<close>

record version =
  v_key :: string
  v_id :: string
  v_modified :: real
  v_latest :: bool
  v_marker :: bool

text \<open>\<open>bk_list_versions\<close> answers \<open>None\<close> where the backend raises \<open>NotImplementedError\<close>.\<close>

record 'w bucket =
  bk_remote :: bool
  bk_versions :: bool
  bk_list :: "string \<Rightarrow> ('w, (string \<times> real) list) io"
  bk_delete :: "string list \<Rightarrow> ('w, int) io"
  bk_list_versions :: "string \<Rightarrow> ('w, version list option) io"
  bk_delete_versions :: "(string \<times> string) list \<Rightarrow> ('w, int) io"

definition under :: "string list \<Rightarrow> string \<Rightarrow> bool" where
  "under prefixes key \<longleftrightarrow> (\<exists>p \<in> set prefixes. starts_with p key)"

definition expired_keys :: "real \<Rightarrow> int \<Rightarrow> string list \<Rightarrow> (string \<times> real) list \<Rightarrow> string list" where
  "expired_keys now max_age excluded objects =
     map fst (filter (\<lambda>(key, modified). of_int max_age < now - modified \<and> \<not> under excluded key) objects)"

definition doomed_version :: "real \<Rightarrow> int \<Rightarrow> string list \<Rightarrow> string list \<Rightarrow> version \<Rightarrow> bool" where
  "doomed_version now max_age excluded expired v \<longleftrightarrow>
     v_key v \<noteq> [] \<and> v_id v \<noteq> [] \<and> \<not> under excluded (v_key v) \<and>
     (v_key v \<in> set expired \<or>
      (max_age \<le> 0 \<or> of_int max_age < now - v_modified v) \<and>
      (v_marker v \<or> \<not> v_latest v \<and> v_id v \<noteq> ''null''))"

definition purge_version_residue ::
    "'w exec \<Rightarrow> 'w bucket \<Rightarrow> int option \<Rightarrow> string \<Rightarrow> int \<Rightarrow> string list \<Rightarrow> string list \<Rightarrow> ('w, int) io" where
  "purge_version_residue exec B noncurrent prefix max_age excluded expired =
     (if \<not> bk_versions B then ret 0
      else bnd (bk_list_versions B prefix) (\<lambda>got.
        case got of
          None \<Rightarrow> ret 0
        | Some versions \<Rightarrow>
            if versions = [] then ret 0
            else bnd (r_time exec) (\<lambda>now.
              let age = (case noncurrent of None \<Rightarrow> max_age | Some n \<Rightarrow> n);
                  doomed = map (\<lambda>v. (v_key v, v_id v)) (filter (doomed_version now age excluded expired) versions) in
              if doomed = [] then ret 0 else bk_delete_versions B doomed)))"

text \<open>\<open>backend\<close> is \<open>get_storage_backend()\<close>, which may raise.\<close>

definition cleanup_s3_prefix ::
    "'w exec \<Rightarrow> ('w, 'w bucket) io \<Rightarrow> int option \<Rightarrow> string \<Rightarrow> int \<Rightarrow> string list \<Rightarrow> ('w, int) io" where
  "cleanup_s3_prefix exec backend noncurrent prefix max_age excluded =
     tryc
       (bnd backend (\<lambda>B.
        if \<not> bk_remote B then ret 0
        else bnd (bk_list B prefix) (\<lambda>objects.
        bnd (r_time exec) (\<lambda>now.
        let to_delete = expired_keys now max_age excluded objects in
        bnd (if to_delete = [] then ret 0 else bk_delete B to_delete) (\<lambda>deleted.
        bnd (purge_version_residue exec B noncurrent prefix max_age excluded to_delete) (\<lambda>purged.
        ret (deleted + purged)))))))
       (\<lambda>_. ret 0)"

text \<open>The lifetimes, in seconds; \<open>ct_noncurrent\<close> is \<open>None\<close> when nothing sets it.\<close>

record cleanup_times =
  ct_input :: int
  ct_upload :: int
  ct_forward :: int
  ct_output :: int
  ct_library :: int
  ct_noncurrent :: "int option"

definition library_prefix :: string where
  "library_prefix = ''inputs/library/''"

definition cleanup_s3_inputs :: "'w exec \<Rightarrow> ('w, 'w bucket) io \<Rightarrow> cleanup_times \<Rightarrow> ('w, int) io" where
  "cleanup_s3_inputs exec backend T =
     cleanup_s3_prefix exec backend (ct_noncurrent T) ''inputs/'' (ct_input T) [library_prefix]"

definition cleanup_s3_library :: "'w exec \<Rightarrow> ('w, 'w bucket) io \<Rightarrow> cleanup_times \<Rightarrow> ('w, int) io" where
  "cleanup_s3_library exec backend T = cleanup_s3_prefix exec backend (ct_noncurrent T) library_prefix (ct_library T) []"

definition cleanup_s3_uploads :: "'w exec \<Rightarrow> ('w, 'w bucket) io \<Rightarrow> cleanup_times \<Rightarrow> ('w, int) io" where
  "cleanup_s3_uploads exec backend T = cleanup_s3_prefix exec backend (ct_noncurrent T) ''uploads/'' (ct_upload T) []"

definition cleanup_s3_forwards :: "'w exec \<Rightarrow> ('w, 'w bucket) io \<Rightarrow> cleanup_times \<Rightarrow> ('w, int) io" where
  "cleanup_s3_forwards exec backend T = cleanup_s3_prefix exec backend (ct_noncurrent T) ''forwards/'' (ct_forward T) []"

definition cleanup_s3_outputs :: "'w exec \<Rightarrow> ('w, 'w bucket) io \<Rightarrow> cleanup_times \<Rightarrow> ('w, int) io" where
  "cleanup_s3_outputs exec backend T = cleanup_s3_prefix exec backend (ct_noncurrent T) ''outputs/'' (ct_output T) []"

end
