(* ===== verification/CleanupResults.thy ===== *)
theory CleanupResults
  imports Cleanup ClaimResults
begin

text \<open>
  What a cleanup pass takes from Redis: with Redis up, exactly the job hashes that have expired; and
  whatever fails, nothing of a job that is still at work.
\<close>

section \<open>Keys\<close>

definition cleanable :: "string \<Rightarrow> bool" where
  "cleanable k \<longleftrightarrow> starts_with job_hash_prefix k \<or> starts_with pipeline_dedup_prefix k \<or> starts_with lock_scan_prefix k"

lemma job_hash_key_prefix [simp]: "starts_with job_hash_prefix (job_hash_key j)"
  by (simp add: job_hash_key_def)

lemma hash_not_owned:
  "starts_with job_hash_prefix k \<Longrightarrow> \<not> starts_with pipeline_dedup_prefix k"
  "starts_with job_hash_prefix k \<Longrightarrow> \<not> starts_with lock_scan_prefix k"
  by (auto simp: starts_with_iff key_defs lock_scan_prefix_def)

section \<open>Which job hashes go\<close>

context redis_up begin

lemma up_cleanup_job:
  assumes "typed (kv w)" and "starts_with job_hash_prefix key"
  shows "wp (cleanup_job_key exec max_age now key n)
    (\<lambda>_ w'. clock w' = clock w \<and>
       kv w' = wipe (if 8 \<le> length (without job_hash_prefix 0 key) \<and> hash_expired max_age now (hash_at (clock w) (kv w) key) then [key] else []) (kv w))
    (\<lambda>_ _. False) w"
proof -
  have h: "is_hash (live (clock w) (kv w) key)" by (rule typed_hash [OF assms(1)]) (simp add: kind_of_def assms(2))
  show ?thesis
    unfolding cleanup_job_key_def Let_def drop_key_def wp_tryc
    by (auto simp: wp_bnd wipe_def not_less intro!: up_hgetall [OF h] up_del)
qed

lemma up_cleanup_jobs_loop:
  fixes m :: store
  assumes "typed m"
    and D: "\<And>key. D key \<longleftrightarrow> 8 \<le> length (without job_hash_prefix 0 key) \<and> hash_expired max_age now (hash_at t m key)"
  shows "clock w = t \<Longrightarrow> kv w = wipe (filter D ys) m \<Longrightarrow> \<forall>k \<in> set xs. starts_with job_hash_prefix k \<Longrightarrow>
    wp (for_each xs n (cleanup_job_key exec max_age now)) (\<lambda>_ w'. clock w' = t \<and> kv w' = wipe (filter D (ys @ xs)) m) (\<lambda>_ _. False) w"
proof (induction xs arbitrary: ys n w)
  case Nil
  then show ?case by simp
next
  case (Cons k xs)
  have t: "typed (kv w)" unfolding Cons.prems(2) by (rule typed_wipe [OF assms(1)])
  have step: "wipe (if 8 \<le> length (without job_hash_prefix 0 k) \<and> hash_expired max_age now (hash_at t (kv w) k) then [k] else []) (kv w) =
      wipe (filter D (ys @ [k])) m"
  proof (cases "k \<in> set (filter D ys)")
    case True
    then have "kv w k = None" unfolding Cons.prems(2) by (simp add: wipe_def)
    then show ?thesis using True unfolding Cons.prems(2) by (auto simp: wipe_def fun_eq_iff)
  next
    case False
    then have "kv w k = m k" unfolding Cons.prems(2) by (auto simp: wipe_def)
    then have "hash_at t (kv w) k = hash_at t m k" by (rule hash_at_cong)
    then show ?thesis unfolding Cons.prems(2) by (auto simp: wipe_def fun_eq_iff D Cons.prems(1))
  qed
  show ?case
    unfolding for_each.simps wp_bnd
  proof (rule wp_mono [OF up_cleanup_job [OF t]], goal_cases)
    case (2 n' w')
    then have "clock w' = t" "kv w' = wipe (filter D (ys @ [k])) m" using Cons.prems(1) step by simp_all
    from Cons.IH [OF this, of n'] show ?case using Cons.prems(3) by simp
  qed (use Cons.prems(3) in simp_all)
qed

end


section \<open>What a working job keeps\<close>

text \<open>
  \<open>keeps_work k jid m0\<close>: from \<open>m0\<close> only cleanable keys change, and as long as the hash of the job \<open>jid\<close> is
  there, neither it nor the key \<open>k\<close> it owns.
\<close>

definition keeps_work :: "string \<Rightarrow> string \<Rightarrow> store \<Rightarrow> real \<Rightarrow> store \<Rightarrow> bool" where
  "keeps_work k jid m0 t m \<longleftrightarrow>
     (\<forall>x. \<not> cleanable x \<longrightarrow> m x = m0 x) \<and>
     (live t m0 (job_hash_key jid) \<noteq> None \<longrightarrow>
        m (job_hash_key jid) = m0 (job_hash_key jid) \<and> (live t m0 k \<noteq> None \<longrightarrow> m k = m0 k))"

definition at_work :: "string \<Rightarrow> string \<Rightarrow> store \<Rightarrow> bool" where
  "at_work k jid m \<longleftrightarrow>
     (starts_with pipeline_dedup_prefix k \<or> starts_with lock_scan_prefix k) \<and> jid \<notin> {[], ''pending''} \<and>
     (\<exists>e. m k = Some (VStr jid, e)) \<and>
     (\<exists>h e. m (job_hash_key jid) = Some (VHash h, e) \<and> status_of h \<notin> set ([] # over_states))"

lemma live_before: "live t' m k \<noteq> None \<Longrightarrow> t \<le> t' \<Longrightarrow> live t m k \<noteq> None"
  by (auto simp: live_def split: option.splits if_splits)

lemma keeps_work_later:
  "keeps_work k jid m0 t m \<Longrightarrow> t \<le> t' \<Longrightarrow> keeps_work k jid m0 t' m"
  unfolding keeps_work_def by (metis live_before)

lemma keeps_work_drop:
  assumes "keeps_work k jid m0 t m" and "t \<le> t'" and "m' = m \<or> m' = wipe [key] m" and "cleanable key"
    and "live t' m0 (job_hash_key jid) \<noteq> None \<Longrightarrow> key \<noteq> job_hash_key jid \<and> (live t' m0 k \<noteq> None \<longrightarrow> key \<noteq> k)"
  shows "keeps_work k jid m0 t' m'"
  using keeps_work_later [OF assms(1,2)] assms(3-5) unfolding keeps_work_def wipe_def by auto

text \<open>What a read of the two keys shows while they are there.\<close>

lemma at_work_hash:
  assumes "keeps_work k jid m0 t m" and "at_work k jid m0" and "live t m0 (job_hash_key jid) \<noteq> None"
  shows "hash_at t m (job_hash_key jid) \<noteq> [] \<and> status_of (hash_at t m (job_hash_key jid)) \<notin> set ([] # over_states)"
proof -
  obtain h e where h: "m0 (job_hash_key jid) = Some (VHash h, e)" "status_of h \<notin> set ([] # over_states)"
    using assms(2) by (auto simp: at_work_def)
  have "hash_at t m (job_hash_key jid) = h"
    using assms(1,3) h(1) by (auto simp: keeps_work_def hash_at_def live_def split: option.splits if_splits)
  then show ?thesis using h(2) by (auto simp: status_of_def)
qed

lemma at_work_owner:
  assumes "keeps_work k jid m0 t m" and "at_work k jid m0" and "live t m0 (job_hash_key jid) \<noteq> None" and "live t m0 k \<noteq> None"
  shows "str_at t m k = Some jid"
proof -
  obtain e where k: "m0 k = Some (VStr jid, e)" using assms(2) by (auto simp: at_work_def)
  then show ?thesis
    using assms(1,3,4) by (auto simp: keeps_work_def str_at_def live_def split: option.splits if_splits)
qed

context redis_server begin

lemma keeps_drop_key:
  assumes "cleanable key" and "keeps_work k jid m0 (clock w) (kv w)"
    and "\<And>t. clock w \<le> t \<Longrightarrow> live t m0 (job_hash_key jid) \<noteq> None \<Longrightarrow> key \<noteq> job_hash_key jid \<and> (live t m0 k \<noteq> None \<longrightarrow> key \<noteq> k)"
  shows "wp (drop_key exec key n) (\<lambda>_ w'. keeps_work k jid m0 (clock w') (kv w')) (\<lambda>_ w'. keeps_work k jid m0 (clock w') (kv w')) w"
  unfolding drop_key_def wp_bnd
  by (rule wp_r_del) (use assms in \<open>auto intro: keeps_work_drop\<close>)

lemma keeps_cleanup_job:
  assumes "at_work k jid m0" and "starts_with job_hash_prefix key"
  shows "keeps (\<lambda>w. keeps_work k jid m0 (clock w) (kv w)) (cleanup_job_key exec max_age now key n)"
proof (rule keepsI)
  let ?I = "\<lambda>w. keeps_work k jid m0 (clock w) (kv w)"
  fix w assume I: "?I w"
  have "wp (drop_key exec key n) (\<lambda>_. ?I) (\<lambda>_. ?I) w1"
    if w1: "clock w \<le> clock w1" "kv w1 = kv w" and x: "hash_expired max_age now (hash_at (clock w) (kv w) key)" for w1
  proof (rule keeps_drop_key)
    show "cleanable key" using assms(2) by (simp add: cleanable_def)
    show "?I w1" using keeps_work_later [OF I w1(1)] w1(2) by simp
    fix t assume t: "clock w1 \<le> t" "live t m0 (job_hash_key jid) \<noteq> None"
    have "live (clock w) m0 (job_hash_key jid) \<noteq> None" using live_before [OF t(2)] t(1) w1(1) by simp
    then have "key \<noteq> job_hash_key jid"
      using at_work_hash [OF I assms(1)] x by (auto simp: hash_expired_def)
    moreover have "key \<noteq> k" using assms hash_not_owned [of k] by (auto simp: at_work_def)
    ultimately show "key \<noteq> job_hash_key jid \<and> (live t m0 k \<noteq> None \<longrightarrow> key \<noteq> k)" by simp
  qed
  then show "wp (cleanup_job_key exec max_age now key n) (\<lambda>_. ?I) (\<lambda>_. ?I) w"
    unfolding cleanup_job_key_def Let_def
    by (auto simp: wp_bnd I intro!: wp_r_hgetall keeps_work_later [OF I] wp_mono [of "drop_key exec key n" "\<lambda>_. ?I" "\<lambda>_. ?I"])
qed

lemma keeps_cleanup_owned:
  assumes "at_work k jid m0" and "starts_with pipeline_dedup_prefix key \<or> starts_with lock_scan_prefix key"
    and "\<not> dead jid"
  shows "keeps (\<lambda>w. keeps_work k jid m0 (clock w) (kv w)) (cleanup_owned_key exec dead key n)"
proof (rule keepsI)
  let ?I = "\<lambda>w. keeps_work k jid m0 (clock w) (kv w)"
  fix w assume I: "?I w"
  have c: "cleanable key" and nh: "key \<noteq> job_hash_key jid"
    using assms(2) hash_not_owned [of "job_hash_key jid"] by (auto simp: cleanable_def)
  have later: "?I w1" if "clock w \<le> clock w1" "kv w1 = kv w" for w1
    using keeps_work_later [OF I that(1)] that(2) by simp
  have drop: "wp (drop_key exec key n) (\<lambda>_. ?I) (\<lambda>_. ?I) w1"
    if "clock w \<le> clock w1" "kv w1 = kv w"
      and "\<And>t. clock w1 \<le> t \<Longrightarrow> live t m0 (job_hash_key jid) \<noteq> None \<Longrightarrow> live t m0 k \<noteq> None \<Longrightarrow> key \<noteq> k" for w1
    by (rule keeps_drop_key [OF c later]) (use that nh in auto)
  have owner: "str_at (clock w) (kv w) k = Some jid"
    if "clock w \<le> t" "live t m0 (job_hash_key jid) \<noteq> None" "live t m0 k \<noteq> None" for t
    using at_work_owner [OF I assms(1)] live_before that by blast
  have hash: "hash_at (clock w1) (kv w1) (job_hash_key jid) \<noteq> [] \<and> status_of (hash_at (clock w1) (kv w1) (job_hash_key jid)) \<notin> set ([] # over_states)"
    if "clock w \<le> clock w1" "kv w1 = kv w" "clock w1 \<le> t" "live t m0 (job_hash_key jid) \<noteq> None" for w1 t
    using at_work_hash [OF later [OF that(1,2)] assms(1)] live_before [OF that(4,3)] by blast
  have jid: "jid \<noteq> []" using assms(1) by (simp add: at_work_def)
  show "wp (cleanup_owned_key exec dead key n) (\<lambda>_. ?I) (\<lambda>_. ?I) w"
    unfolding cleanup_owned_key_def Let_def wp_tryc wp_bnd
  proof (rule wp_r_get, goal_cases)
    case (1 w1)
    let ?o = "case str_at (clock w) (kv w) key of None \<Rightarrow> [] | Some s \<Rightarrow> s"
    show ?case
    proof (cases "?o = [] \<or> dead ?o")
      case True
      have "key \<noteq> k" if "clock w1 \<le> t" "live t m0 (job_hash_key jid) \<noteq> None" "live t m0 k \<noteq> None" for t
        using owner [OF _ that(2,3)] that(1) 1(1) True jid assms(3) by auto
      then have "wp (drop_key exec key n) (\<lambda>_. ?I) (\<lambda>_. ?I) w1" by (intro drop 1)
      then show ?thesis using True by simp
    next
      case False
      have "wp (r_hgetall exec (job_hash_key ?o)) (\<lambda>h. wp (if h = [] \<or> status_of h \<in> set ([] # over_states)
          then drop_key exec key n else ret n) (\<lambda>_. ?I) (\<lambda>_. ?I)) (\<lambda>_. ?I) w1"
      proof (rule wp_r_hgetall, goal_cases)
        case (1 w2)
        then have w2: "clock w \<le> clock w2" "kv w2 = kv w" using \<open>clock w \<le> clock w1\<close> \<open>kv w1 = kv w\<close> by simp_all
        have "wp (drop_key exec key n) (\<lambda>_. ?I) (\<lambda>_. ?I) w2"
          if h: "hash_at (clock w1) (kv w1) (job_hash_key ?o) = [] \<or>
            status_of (hash_at (clock w1) (kv w1) (job_hash_key ?o)) \<in> set ([] # over_states)"
        proof (rule drop [OF w2])
          fix t assume t: "clock w2 \<le> t" "live t m0 (job_hash_key jid) \<noteq> None" "live t m0 k \<noteq> None"
          show "key \<noteq> k"
          proof
            assume "key = k"
            then have "?o = jid" using owner [OF _ t(2,3)] w2(1) t(1) by simp
            then show False
              using h hash [OF \<open>clock w \<le> clock w1\<close> \<open>kv w1 = kv w\<close> _ t(2)] 1(1) t(1) by auto
          qed
        qed
        then show ?case using later [OF w2] by simp
      next
        case (2 e w2)
        then show ?case using later \<open>clock w \<le> clock w1\<close> \<open>kv w1 = kv w\<close> by simp
      qed
      then show ?thesis using False by (simp add: later [OF 1])
    qed
  next
    case (2 e w1)
    then show ?case using later by simp
  qed
qed

lemma keeps_quiet_commands:
  assumes "\<And>w w'. I w \<Longrightarrow> clock w \<le> clock w' \<Longrightarrow> kv w' = kv w \<Longrightarrow> I w'"
  shows "keeps I (r_connect exec)" "keeps I (r_close exec)" "keeps I (r_time exec)"
proof -
  show "keeps I (r_connect exec)" by (rule keepsI, rule wp_r_connect) (rule assms, assumption+)+
  show "keeps I (r_close exec)" by (rule keepsI, rule wp_r_close) (rule assms, assumption+)+
  show "keeps I (r_time exec)" by (rule keepsI, rule wp_r_time) (rule assms, assumption+)
qed

lemma keeps_scanned:
  assumes "\<And>w w'. I w \<Longrightarrow> clock w \<le> clock w' \<Longrightarrow> kv w' = kv w \<Longrightarrow> I w'"
    and "\<And>key n. starts_with p key \<Longrightarrow> keeps I (body key n)"
  shows "keeps I (bnd (attempt (r_scan exec p)) (\<lambda>got. case got of None \<Rightarrow> ret 0 | Some keys \<Rightarrow> for_each keys 0 body))"
proof (rule keepsI, unfold wp_bnd wp_attempt, rule wp_r_scan, goal_cases)
  case (1 w ks w')
  have "keeps I (for_each ks 0 body)" using 1(4) by (intro keeps_for_each assms(2)) simp
  from keepsD [OF this assms(1) [OF 1(1-3)]] show ?case by simp
next
  case (2 w e w')
  then show ?case using assms(1) [OF 2(1-3)] by simp
qed

lemma keeps_cleanup_redis:
  assumes "at_work k jid m0"
  shows "keeps (\<lambda>w. keeps_work k jid m0 (clock w) (kv w)) (cleanup_redis exec max_age)"
proof -
  let ?I = "\<lambda>w. keeps_work k jid m0 (clock w) (kv w)"
  have r: "?I w'" if "?I w" "clock w \<le> clock w'" "kv w' = kv w" for w w'
    using keeps_work_later [OF that(1,2)] that(3) by simp
  note reads = keeps_quiet_commands [of ?I, OF r] and scanned = keeps_scanned [of ?I, OF r]
  have np: "jid \<noteq> ''pending''" using assms by (simp add: at_work_def)
  have jobs: "keeps ?I (cleanup_stale_redis_jobs exec max_age)"
    unfolding cleanup_stale_redis_jobs_def
    by (intro keeps_bnd keeps_if keeps_ret keeps_fin keeps_suppress keeps_attempt reads scanned keeps_cleanup_job [OF assms])
  have owned: "keeps ?I (swept_keys exec p (cleanup_owned_key exec dead))"
    if "p = pipeline_dedup_prefix \<or> p = lock_scan_prefix" "\<not> dead jid" for p dead
    unfolding swept_keys_def
    by (intro keeps_bnd keeps_if keeps_ret keeps_fin keeps_suppress keeps_attempt reads scanned keeps_cleanup_owned [OF assms])
      (use that in auto)
  show ?thesis
    unfolding cleanup_redis_def cleanup_stale_dedup_keys_def cleanup_stale_locks_def
    by (intro keeps_bnd keeps_ret jobs owned) (use np in simp_all)
qed

end


section \<open>The demonstration\<close>

definition demo_cleanup :: mem where
  "demo_cleanup =
     \<lparr>mstore =
       [(''ffmpeg:job:job-0001'', VHash [(''status'', ''processing'')], None),
        (''ffmpeg:job:job-0002'', VHash [(''status'', ''done''), (''started_at'', ''5'')], None),
        (''ffmpeg:lock:aa'', VStr ''job-0001'', None), (''ffmpeg:lock:bb'', VStr ''job-0002'', None)], mclock = 100000\<rparr>"

lemma demo_cleanup_keys [simp]:
  "mkv demo_cleanup ''ffmpeg:lock:aa'' = Some (VStr ''job-0001'', None)"
  "mkv demo_cleanup ''ffmpeg:job:job-0001'' = Some (VHash [(''status'', ''processing'')], None)"
  "mkv demo_cleanup ''ffmpeg:job:job-0002'' = Some (VHash [(''status'', ''done''), (''started_at'', ''5'')], None)"
  "mclock demo_cleanup = 100000"
  by (simp_all add: mkv_def demo_cleanup_def)

lemma demo_cleanup_typed: "typed (mkv demo_cleanup)"
  unfolding mkv_def demo_cleanup_def mem.simps
  by (rule typed_map_of) (simp add: kind_of_def key_defs starts_with_def)



section \<open>What the bucket keeps\<close>

text \<open>
  A backend that does what it is asked: listings show what is stored and change nothing, deleting keys leaves
  other keys, deleting versions leaves other keys and the newest version unless it is named.
\<close>

definition bucket_ok :: "'w exec \<Rightarrow> ('w \<Rightarrow> version list) \<Rightarrow> 'w bucket \<Rightarrow> bool" where
  "bucket_ok exec stored B \<longleftrightarrow>
     (\<forall>c w. stored (snd (exec c w)) = stored w) \<and>
     (\<forall>w. \<forall>u \<in> set (stored w). \<forall>v \<in> set (stored w). v_key u = v_key v \<and> v_id u = v_id v \<longrightarrow> u = v) \<and>
     (\<forall>p w. stored (snd (bk_list B p w)) = stored w) \<and>
     (\<forall>p w xs. fst (bk_list B p w) = Inr xs \<longrightarrow>
        (\<forall>v \<in> set (stored w). v_latest v \<and> \<not> v_marker v \<longrightarrow> (\<forall>m. (v_key v, m) \<in> set xs \<longrightarrow> m = v_modified v))) \<and>
     (\<forall>p w. stored (snd (bk_list_versions B p w)) = stored w) \<and>
     (\<forall>p w vs. fst (bk_list_versions B p w) = Inr (Some vs) \<longrightarrow> set vs \<subseteq> set (stored w)) \<and>
     (\<forall>ks w. \<forall>v \<in> set (stored w). v_key v \<notin> set ks \<longrightarrow> v \<in> set (stored (snd (bk_delete B ks w)))) \<and>
     (\<forall>ps w. \<forall>v \<in> set (stored w). v_key v \<notin> fst ` set ps \<or> v_latest v \<and> (v_key v, v_id v) \<notin> set ps \<longrightarrow>
        v \<in> set (stored (snd (bk_delete_versions B ps w))))"

lemma bucket_okD:
  assumes "bucket_ok exec stored B"
  shows bucket_same: "v_key u = v_key v \<Longrightarrow> v_id u = v_id v \<Longrightarrow> u \<in> set (stored w) \<Longrightarrow> v \<in> set (stored w) \<Longrightarrow> u = v"
    and bucket_list: "bk_list B p w = (r, w') \<Longrightarrow> stored w' = stored w"
    and bucket_listed: "bk_list B p w = (Inr xs, w') \<Longrightarrow> v \<in> set (stored w) \<Longrightarrow> v_latest v \<Longrightarrow> \<not> v_marker v \<Longrightarrow>
      (v_key v, m) \<in> set xs \<Longrightarrow> m = v_modified v"
    and bucket_versions: "bk_list_versions B p w = (r', w') \<Longrightarrow> stored w' = stored w"
    and bucket_versioned: "bk_list_versions B p w = (Inr (Some vs), w') \<Longrightarrow> set vs \<subseteq> set (stored w)"
    and bucket_delete: "v \<in> set (stored w) \<Longrightarrow> v_key v \<notin> set ks \<Longrightarrow> v \<in> set (stored (snd (bk_delete B ks w)))"
    and bucket_delete_versions: "v \<in> set (stored w) \<Longrightarrow> v_latest v \<Longrightarrow> (v_key v, v_id v) \<notin> set ps \<Longrightarrow>
      v \<in> set (stored (snd (bk_delete_versions B ps w)))"
proof -
  note b = assms [unfolded bucket_ok_def]
  show "v_key u = v_key v \<Longrightarrow> v_id u = v_id v \<Longrightarrow> u \<in> set (stored w) \<Longrightarrow> v \<in> set (stored w) \<Longrightarrow> u = v"
    using b [THEN conjunct2, THEN conjunct1] by simp
  show "bk_list B p w = (r, w') \<Longrightarrow> stored w' = stored w"
    using b [THEN conjunct2, THEN conjunct2, THEN conjunct1] by (metis snd_conv)
  show "bk_list B p w = (Inr xs, w') \<Longrightarrow> v \<in> set (stored w) \<Longrightarrow> v_latest v \<Longrightarrow> \<not> v_marker v \<Longrightarrow>
      (v_key v, m) \<in> set xs \<Longrightarrow> m = v_modified v"
    using b [THEN conjunct2, THEN conjunct2, THEN conjunct2, THEN conjunct1] by (metis fst_conv)
  show "bk_list_versions B p w = (r', w') \<Longrightarrow> stored w' = stored w"
    using b [THEN conjunct2, THEN conjunct2, THEN conjunct2, THEN conjunct2, THEN conjunct1] by (metis snd_conv)
  show "bk_list_versions B p w = (Inr (Some vs), w') \<Longrightarrow> set vs \<subseteq> set (stored w)"
    using b [THEN conjunct2, THEN conjunct2, THEN conjunct2, THEN conjunct2, THEN conjunct2, THEN conjunct1] by (metis fst_conv)
  show "v \<in> set (stored w) \<Longrightarrow> v_key v \<notin> set ks \<Longrightarrow> v \<in> set (stored (snd (bk_delete B ks w)))"
    "v \<in> set (stored w) \<Longrightarrow> v_latest v \<Longrightarrow> (v_key v, v_id v) \<notin> set ps \<Longrightarrow>
      v \<in> set (stored (snd (bk_delete_versions B ps w)))"
    using b by simp_all
qed

lemma wp_keeps_final: "(I (snd (m w))) \<Longrightarrow> wp m (\<lambda>_. I) (\<lambda>_. I) w"
  by (auto simp: wp_def split: prod.splits sum.splits)

text \<open>An object that is protected: newest of its key, and under an excluded prefix or young enough.\<close>

definition protected :: "real \<Rightarrow> int \<Rightarrow> string list \<Rightarrow> version \<Rightarrow> bool" where
  "protected latest max_age excluded v \<longleftrightarrow>
     v_latest v \<and> \<not> v_marker v \<and> (under excluded (v_key v) \<or> latest - v_modified v \<le> of_int max_age)"

lemma protected_not_expired:
  assumes "protected latest max_age excluded v" and "now \<le> latest" and "\<forall>m. (v_key v, m) \<in> set xs \<longrightarrow> m = v_modified v"
  shows "v_key v \<notin> set (expired_keys now max_age excluded xs)"
  using assms by (fastforce simp: expired_keys_def protected_def)

text \<open>
  C40: A pass over a prefix of the bucket keeps the newest version of an object that is under an excluded prefix, or
  not older than the limit, whatever the backend answers as long as it deletes only what it is told to: not
  even the purge of what earlier deletes left behind takes it.
\<close>

theorem sweep_keeps_protected:
  assumes ok: "bucket_ok exec stored B" and time: "\<And>w t w'. r_time exec w = (Inr t, w') \<Longrightarrow> t \<le> latest"
    and v: "v \<in> set (stored w)" "protected latest max_age excluded v"
  shows "v \<in> set (stored (snd (cleanup_s3_prefix exec (ret B) noncurrent prefix max_age excluded w)))"
proof -
  let ?I = "\<lambda>w. v \<in> set (stored w)"
  have clock: "wp (r_time exec) (\<lambda>t w'. t \<le> latest \<and> ?I w') (\<lambda>_. ?I) w1" if "?I w1" for w1
  proof (rule wpI)
    have "stored (snd (exec Time w1)) = stored w1" using ok by (simp add: bucket_ok_def)
    then have s: "stored (snd (r_time exec w1)) = stored w1"
      by (auto simp: r_time_def tryc_def fmapio_def bnd_def ret_def split: prod.splits sum.splits)
    show "t \<le> latest \<and> ?I w'" if "r_time exec w1 = (Inr t, w')" for t w'
      using time [OF that] s that \<open>?I w1\<close> by simp
    show "?I w'" if "r_time exec w1 = (Inl e, w')" for e w'
      using s that \<open>?I w1\<close> by simp
  qed
  have purge: "wp (purge_version_residue exec B noncurrent prefix max_age excluded expired) (\<lambda>_. ?I) (\<lambda>_. ?I) w1"
    if w1: "?I w1" and e: "v_key v \<notin> set expired" for w1 expired
  proof -
    have spared: "wp (bk_delete_versions B (map (\<lambda>v. (v_key v, v_id v)) (filter (doomed_version now age excluded expired) vs))) (\<lambda>_. ?I) (\<lambda>_. ?I) w3"
      if i3: "?I w3" and vs: "set vs \<subseteq> set (stored w1)" for vs now age w3
    proof -
      have "(v_key v, v_id v) \<notin> set (map (\<lambda>v. (v_key v, v_id v)) (filter (doomed_version now age excluded expired) vs))"
      proof
        assume "(v_key v, v_id v) \<in> set (map (\<lambda>v. (v_key v, v_id v)) (filter (doomed_version now age excluded expired) vs))"
        then obtain u where "u \<in> set (stored w1)" "v_key u = v_key v" "v_id u = v_id v" "doomed_version now age excluded expired u"
          using vs by auto
        then have "doomed_version now age excluded expired v" using bucket_same [OF ok _ _ _ w1] by metis
        then show False using e v(2) by (auto simp: doomed_version_def protected_def)
      qed
      then show ?thesis using v(2) by (intro wp_keeps_final [of ?I] bucket_delete_versions [OF ok i3]) (simp_all add: protected_def)
    qed
    have listed: "wp (bk_list_versions B prefix) (\<lambda>got w2. ?I w2 \<and> (\<forall>vs. got = Some vs \<longrightarrow> set vs \<subseteq> set (stored w1))) (\<lambda>_. ?I) w1"
      by (rule wpI) (use w1 bucket_versions [OF ok] in \<open>auto dest!: bucket_versioned [OF ok]\<close>)
    show ?thesis
      unfolding purge_version_residue_def Let_def wp_bnd
      by (auto simp: w1 wp_bnd split: option.split intro!: wp_mono [OF listed] wp_mono [OF clock] spared)
  qed
  have objects: "wp (bk_list B prefix) (\<lambda>xs w2. ?I w2 \<and> (\<forall>m. (v_key v, m) \<in> set xs \<longrightarrow> m = v_modified v)) (\<lambda>_. ?I) w"
    by (rule wpI) (use v bucket_list [OF ok] bucket_listed [OF ok] in \<open>auto simp: protected_def\<close>)
  have deleted: "wp (if ks = [] then ret 0 else bk_delete B ks) (\<lambda>_. ?I) (\<lambda>_. ?I) w3" if "?I w3" "v_key v \<notin> set ks" for ks w3
  proof -
    have "?I (snd (bk_delete B ks w3))" by (rule bucket_delete [OF ok that])
    then show ?thesis using that(1) by (auto intro: wp_keeps_final)
  qed
  have "wp (cleanup_s3_prefix exec (ret B) noncurrent prefix max_age excluded) (\<lambda>_. ?I) (\<lambda>_. ?I) w"
    unfolding cleanup_s3_prefix_def Let_def wp_tryc
    by (auto simp: v wp_bnd protected_not_expired [OF v(2)]
        intro!: wp_mono [OF objects] wp_mono [OF clock] wp_mono [OF deleted] wp_mono [OF purge])
  then show ?thesis by (auto simp: wp_def split: prod.splits sum.splits)
qed

text \<open>A bucket in memory, whose clock stands at 1000; versions that claim the same place are not there.\<close>

definition vault_exec :: "version list exec" where
  "vault_exec c w = (Inr (RReal 1000), w)"

definition same_place :: "version \<Rightarrow> version \<Rightarrow> bool" where
  "same_place u v \<longleftrightarrow> v_key u = v_key v \<and> (v_id u = v_id v \<or> v_latest u \<and> v_latest v)"

definition vault_stored :: "version list \<Rightarrow> version list" where
  "vault_stored w = filter (\<lambda>v. \<forall>u \<in> set w. same_place u v \<longrightarrow> u = v) w"

definition vault :: "version list bucket" where
  "vault = \<lparr>bk_remote = True, bk_versions = True,
     bk_list = (\<lambda>p w. (Inr (map (\<lambda>v. (v_key v, v_modified v))
       (filter (\<lambda>v. starts_with p (v_key v) \<and> v_latest v \<and> \<not> v_marker v) (vault_stored w))), w)),
     bk_delete = (\<lambda>ks w. (Inr (int (length ks)), filter (\<lambda>v. v_key v \<notin> set ks) w)),
     bk_list_versions = (\<lambda>p w. (Inr (Some (filter (\<lambda>v. starts_with p (v_key v)) (vault_stored w))), w)),
     bk_delete_versions = (\<lambda>ps w. (Inr (int (length ps)), filter (\<lambda>v. (v_key v, v_id v) \<notin> set ps) w))\<rparr>"

lemma vault_ok: "bucket_ok vault_exec vault_stored vault"
  unfolding bucket_ok_def
proof (intro conjI)
  show "\<forall>p w xs. fst (bk_list vault p w) = Inr xs \<longrightarrow> (\<forall>v \<in> set (vault_stored w). v_latest v \<and> \<not> v_marker v \<longrightarrow>
      (\<forall>m. (v_key v, m) \<in> set xs \<longrightarrow> m = v_modified v))"
    by (auto simp: vault_def vault_stored_def same_place_def)
qed (auto simp: vault_def vault_exec_def vault_stored_def same_place_def intro: rev_image_eqI)

definition new_object :: version where
  "new_object = \<lparr>v_key = ''outputs/a'', v_id = ''1'', v_modified = 900, v_latest = True, v_marker = False\<rparr>"

definition old_object :: version where
  "old_object = \<lparr>v_key = ''outputs/b'', v_id = ''2'', v_modified = 0, v_latest = True, v_marker = False\<rparr>"

theorem sweep_keeps_protected_witness:
  "new_object \<in> set (vault_stored (snd (cleanup_s3_prefix vault_exec (ret vault) None ''outputs/'' 500 [] [new_object, old_object]))) \<and>
   old_object \<notin> set (snd (cleanup_s3_prefix vault_exec (ret vault) None ''outputs/'' 500 [] [new_object, old_object]))"
proof
  have t: "r_time vault_exec w = (Inr t, w') \<Longrightarrow> t \<le> 1000" for w t w'
    by (simp add: r_time_def tryc_def fmapio_def bnd_def ret_def vault_exec_def)
  have n: "new_object \<in> set (vault_stored [new_object, old_object])" "protected 1000 500 [] new_object"
    by (simp_all add: vault_stored_def same_place_def new_object_def old_object_def protected_def)
  show "new_object \<in> set (vault_stored (snd (cleanup_s3_prefix vault_exec (ret vault) None ''outputs/'' 500 [] [new_object, old_object])))"
    by (rule sweep_keeps_protected [OF vault_ok t n])
  show "old_object \<notin> set (snd (cleanup_s3_prefix vault_exec (ret vault) None ''outputs/'' 500 [] [new_object, old_object]))"
    by code_simp
qed

section \<open>A lifetime that stops the manager\<close>

lemma env_ttl_infinite: "env_ttl (Some ''inf'') = Inl ()"
  by code_simp

end
