(* ===== verification/IngestResults.thy ===== *)
theory IngestResults
  imports Ingest CleanupResults
begin

text \<open>
  What the gate before an ingest guarantees: an answer within the wait, whatever Redis does; with Redis up,
  the media for whoever comes first; and what a cleanup pass does to the claim of an ingest that is
  still running.
\<close>

section \<open>An answer\<close>

text \<open>The monotonic clock does not run backwards, and a nap returns and takes its two seconds.\<close>

definition time_passes :: "'w exec \<Rightarrow> 'w waiter \<Rightarrow> bool" where
  "time_passes exec W \<longleftrightarrow>
     (\<forall>c w. wt_ticks W w \<le> wt_ticks W (snd (exec c w))) \<and>
     (\<forall>w. \<exists>w'. wt_nap W w = (Inr (), w') \<and> wt_ticks W w + 2 \<le> wt_ticks W w')"

definition enough_fuel :: "'w waiter \<Rightarrow> bool" where
  "enough_fuel W \<longleftrightarrow> 0 < wt_fuel W \<and> wt_wait W + 2 \<le> 2 * real (wt_fuel W)"

lemma keeps_ticks_exec: "time_passes exec W \<Longrightarrow> keeps (\<lambda>w. t \<le> wt_ticks W w) (exec c)"
  by (rule keepsI, rule wpI) (metis time_passes_def snd_conv order_trans)+

lemma safe_keeps: "safe m \<Longrightarrow> keeps I m \<Longrightarrow> I w \<Longrightarrow> wp m (\<lambda>_. I) (\<lambda>_ _. False) w"
  using wp_conj [of m "\<lambda>_. I" "\<lambda>_. I" w "\<lambda>_ _. True" "\<lambda>_ _. False"]
  by (auto simp: safe_def keeps_def intro: wp_mono)

lemma read_claim_ticks:
  assumes "time_passes exec W" and "t \<le> wt_ticks W w"
  shows "wp (read_claim exec key) (\<lambda>_ w'. t \<le> wt_ticks W w') (\<lambda>_ _. False) w"
proof (rule safe_keeps [where I = "\<lambda>w. t \<le> wt_ticks W w"])
  show "t \<le> wt_ticks W w" by (rule assms(2))
next
  show "safe (read_claim exec key)" unfolding read_claim_def attempt_def by (intro safe_intros)
  show "keeps (\<lambda>w. t \<le> wt_ticks W w) (read_claim exec key)"
    unfolding read_claim_def r_get_def
    by (intro keeps_bnd keeps_attempt keeps_ret keeps_fmapio keeps_ticks_exec assms(1))
qed

lemma stale_ticks:
  assumes "time_passes exec W" and "t \<le> wt_ticks W w"
  shows "wp (dedup_placeholder_is_stale exec text) (\<lambda>_ w'. t \<le> wt_ticks W w') (\<lambda>_ _. False) w"
proof (rule safe_keeps [where I = "\<lambda>w. t \<le> wt_ticks W w"])
  show "t \<le> wt_ticks W w" by (rule assms(2))
next
  show "safe (dedup_placeholder_is_stale exec text)"
    unfolding dedup_placeholder_is_stale_def by (intro safe_intros safe_cases safe_r_time)
  show "keeps (\<lambda>w. t \<le> wt_ticks W w) (dedup_placeholder_is_stale exec text)"
    unfolding dedup_placeholder_is_stale_def r_time_def
    by (intro keeps_bnd keeps_if keeps_option keeps_tryc keeps_ret keeps_fmapio keeps_ticks_exec assms(1))
qed

lemma poll_answers:
  assumes "time_passes exec W"
  shows "0 < fuel \<Longrightarrow> deadline + 2 \<le> wt_ticks W w + 2 * real fuel \<Longrightarrow>
    wp (dedup_poll fuel exec (wt_ticks W) (wt_nap W) key deadline) (\<lambda>r _. r \<noteq> None) (\<lambda>_ _. False) w"
proof (induction fuel arbitrary: w)
  case (Suc fuel)
  have nap: "wp (wt_nap W) (\<lambda>_. wp (dedup_poll fuel exec (wt_ticks W) (wt_nap W) key deadline) (\<lambda>r _. r \<noteq> None) (\<lambda>_ _. False)) (\<lambda>_ _. False) w2"
    if "wt_ticks W w \<le> wt_ticks W w2" "\<not> deadline \<le> wt_ticks W w2" for w2
  proof -
    obtain w3 where "wt_nap W w2 = (Inr (), w3)" "wt_ticks W w2 + 2 \<le> wt_ticks W w3"
      using assms unfolding time_passes_def by blast
    moreover have "0 < fuel" using Suc.prems(2) that by (cases fuel) auto
    ultimately show ?thesis using Suc.IH [of w3] Suc.prems(2) that(1) by (simp add: wp_def)
  qed
  show ?case
    unfolding dedup_poll.simps wp_bnd
  proof (rule wp_mono [OF read_claim_ticks [OF assms order_refl]], goal_cases)
    case (1 v w1)
    have "wp (dedup_placeholder_is_stale exec v) (\<lambda>stale. wp (if stale then ret (Some None)
        else bnd (r_mono (wt_ticks W)) (\<lambda>now. if deadline \<le> now then ret (Some None)
          else bnd (wt_nap W) (\<lambda>_. dedup_poll fuel exec (wt_ticks W) (wt_nap W) key deadline)))
        (\<lambda>r _. r \<noteq> None) (\<lambda>_ _. False)) (\<lambda>_ _. False) w1"
      by (rule wp_mono [OF stale_ticks [OF assms 1]]) (auto simp: wp_bnd wp_def [of "r_mono _"] r_mono_def nap [unfolded not_None_eq])
    then show ?case by (simp add: wp_bnd)
  qed simp
qed simp

lemma wait_answers:
  assumes "time_passes exec W" and "enough_fuel W"
  shows "wp (dedup_wait_for_owner exec W key) (\<lambda>r _. r \<noteq> None) (\<lambda>_ _. False) w"
proof -
  have "wp (dedup_poll (wt_fuel W) exec (wt_ticks W) (wt_nap W) key (wt_ticks W w + wt_wait W)) (\<lambda>r _. r \<noteq> None) (\<lambda>_ _. False) w"
    by (rule poll_answers [OF assms(1)]) (use assms(2) in \<open>auto simp: enough_fuel_def\<close>)
  then show ?thesis by (simp add: dedup_wait_for_owner_def wp_bnd wp_def [of "r_mono _"] r_mono_def)
qed

lemma safe_runs_to: "safe m \<Longrightarrow> (\<And>x w'. Q x w') \<Longrightarrow> wp m Q E w"
  unfolding safe_def by (rule wp_mono [of m "\<lambda>_ _. True" "\<lambda>_ _. False"]) auto

text \<open>
  C18: Whatever Redis does, the gate answers: who has the media, or that it is the caller's to fetch.  The fuel
  needed is one poll for every two seconds of the wait and one more.
\<close>

theorem gate_answers:
  assumes "time_passes exec W" and "enough_fuel W"
  shows "\<exists>owner w'. claim_pipeline_dedup exec W key w = (Inr (Some owner), w')"
proof -
  let ?A = "\<lambda>r _. r \<noteq> None" and ?F = "\<lambda>_ _. False"
  note wait = wait_answers [OF assms]
  have del: "safe (suppress (r_del exec [key]))" "safe (suppress (bnd (r_del exec [key]) (\<lambda>_. place_claim exec key)))"
    by (intro safe_intros)+
  have act: "safe (dedup_job_is_active exec v)" for v
    unfolding dedup_job_is_active_def attempt_def by (intro safe_intros)
  have place: "safe (tryc (place_claim exec key) (\<lambda>_. ret False))" by (intro safe_intros)
  have tidy: "wp (if r = Some None then bnd (suppress (r_del exec [key])) (\<lambda>_. ret r) else ret r) ?A ?F w1" if "r \<noteq> None" for r w1
  proof (cases "r = Some None")
    case True
    then show ?thesis unfolding True if_True refl wp_bnd eqTrueI [OF refl] by (intro safe_runs_to [OF del(1)]) simp
  qed (use that in simp)
  have holder: "wp (dedup_holder exec W key) ?A ?F w1" for w1
    unfolding dedup_holder_def wp_bnd
  proof (rule wp_mono [OF read_claim_ticks [OF assms(1) order_refl]], goal_cases)
    case (1 v w2)
    have "wp (if starts_with dedup_pending_prefix v then dedup_wait_for_owner exec W key
        else fmapio (\<lambda>active. Some (if active then Some v else None)) (dedup_job_is_active exec v)) ?A ?F w2"
      by (cases "starts_with dedup_pending_prefix v")
        (simp only: if_True, rule wait, simp only: if_False wp_fmapio, rule safe_runs_to [OF act], simp)
    then have "wp (bnd (if starts_with dedup_pending_prefix v then dedup_wait_for_owner exec W key
        else fmapio (\<lambda>active. Some (if active then Some v else None)) (dedup_job_is_active exec v))
        (\<lambda>r. if r = Some None then bnd (suppress (r_del exec [key])) (\<lambda>_. ret r) else ret r)) ?A ?F w2"
      unfolding wp_bnd [of "if _ then _ else _"] by (rule wp_mono) (rule tidy, simp_all)
    then show ?case by simp
  qed simp
  have last_try: "wp (bnd (dedup_wait_for_owner exec W key) (\<lambda>r. if r \<noteq> Some None then ret r
      else bnd (suppress (bnd (r_del exec [key]) (\<lambda>_. place_claim exec key))) (\<lambda>_. ret (Some None)))) ?A ?F w1" for w1
    unfolding wp_bnd [of "dedup_wait_for_owner exec W key"]
  proof (rule wp_mono [OF wait], goal_cases)
    case (1 r w2)
    show ?case
    proof (cases "r = Some None")
      case True
      have "wp (bnd (suppress (bnd (r_del exec [key]) (\<lambda>_. place_claim exec key))) (\<lambda>_. ret (Some None))) ?A ?F w2"
        unfolding wp_bnd [of "suppress _"] by (intro safe_runs_to [OF del(2)]) simp
      then show ?thesis using True by simp
    qed (use 1 in simp)
  qed simp
  have "wp (claim_pipeline_dedup exec W key) ?A ?F w"
    unfolding claim_pipeline_dedup_def wp_bnd [of "dedup_holder exec W key"]
  proof (rule wp_mono [OF holder], goal_cases)
    case (1 r w1)
    have "wp (bnd (tryc (place_claim exec key) (\<lambda>_. ret False)) (\<lambda>claimed. if claimed then ret (Some None)
       else bnd (dedup_wait_for_owner exec W key) (\<lambda>r. if r \<noteq> Some None then ret r
         else bnd (suppress (bnd (r_del exec [key]) (\<lambda>_. place_claim exec key))) (\<lambda>_. ret (Some None))))) ?A ?F w1"
      unfolding wp_bnd [of "tryc _ _"]
    proof (rule safe_runs_to [OF place], goal_cases)
      case (1 claimed w2)
      show ?case by (cases claimed) (simp, simp only: if_False, rule last_try)
    qed
    then show ?case using 1 by simp
  qed simp
  then show ?thesis unfolding wp_outcome by auto
qed

section \<open>The demonstration\<close>

text \<open>A media with no claim, one with a job at work on it, and a request that waits in steps of two seconds.\<close>

definition demo_ingest :: mem where
  "demo_ingest =
     \<lparr>mstore = [(''ffmpeg:pipeline_dedup:7:g'', VStr ''j1'', None), (''ffmpeg:job:j1'', VHash [(''status'', ''queued'')], None)],
      mclock = 50\<rparr>"

definition demo_waiter :: "mem waiter" where
  "demo_waiter = \<lparr>wt_fuel = 11, wt_ticks = mclock, wt_nap = (\<lambda>w. (Inr (), w\<lparr>mclock := mclock w + 2\<rparr>)), wt_wait = 20\<rparr>"

lemma demo_ingest_typed: "typed (mkv demo_ingest)"
  unfolding mkv_def demo_ingest_def mem.simps
  by (rule typed_map_of) (simp add: kind_of_def key_defs starts_with_def)

lemma demo_waits: "time_passes mem_exec demo_waiter" "enough_fuel demo_waiter"
  by (simp_all add: time_passes_def enough_fuel_def demo_waiter_def mem_exec_def)

theorem gate_answers_witness:
  "\<exists>owner w'. claim_pipeline_dedup mem_exec demo_waiter ''ffmpeg:pipeline_dedup:7:g'' demo_ingest = (Inr (Some owner), w')"
  by (rule gate_answers [OF demo_waits])

section \<open>First come\<close>

lemma dedup_kind: "starts_with pipeline_dedup_prefix k \<Longrightarrow> kind_of k = KStr"
  by (auto simp: kind_of_def starts_with_iff key_defs)

text \<open>What the key of a media says, and the key once its claim is placed.\<close>

definition claim_value :: "real \<Rightarrow> store \<Rightarrow> string \<Rightarrow> string" where
  "claim_value t m key = (case str_at t m key of None \<Rightarrow> [] | Some s \<Rightarrow> s)"

definition held_by_job :: "real \<Rightarrow> store \<Rightarrow> string \<Rightarrow> bool" where
  "held_by_job t m v \<longleftrightarrow> v \<noteq> [] \<and> dedup_hash_active (hash_at t m (job_hash_key v))"

definition claimed_at :: "real \<Rightarrow> string \<Rightarrow> store \<Rightarrow> store" where
  "claimed_at t key m = m(key \<mapsto> (VStr (dedup_placeholder t), Some (t + of_int dedup_placeholder_ttl)))"

context redis_up begin

lemma up_read_claim:
  assumes "typed (kv w)" and "starts_with pipeline_dedup_prefix key"
  shows "wp (read_claim exec key) (\<lambda>v w'. v = claim_value (clock w) (kv w) key \<and> clock w' = clock w \<and> kv w' = kv w) (\<lambda>_ _. False) w"
  unfolding read_claim_def wp_bnd wp_attempt
  by (rule up_get, rule typed_str [OF assms(1) dedup_kind [OF assms(2)]]) (auto simp: claim_value_def split: option.split list.split)

lemma up_job_active:
  assumes "typed (kv w)"
  shows "wp (dedup_job_is_active exec j)
    (\<lambda>b w'. b = dedup_hash_active (hash_at (clock w) (kv w) (job_hash_key j)) \<and> clock w' = clock w \<and> kv w' = kv w) (\<lambda>_ _. False) w"
  unfolding dedup_job_is_active_def wp_bnd wp_attempt
  by (rule up_hgetall, rule typed_hash [OF assms]) simp_all

lemma up_place_claim:
  assumes "live (clock w) (kv w) key = None"
  shows "wp (place_claim exec key) (\<lambda>b w'. b \<and> clock w' = clock w \<and> kv w' = claimed_at (clock w) key (kv w)) (\<lambda>_ _. False) w"
  unfolding place_claim_def wp_bnd
  by (rule up_time, rule up_setnx) (use assms in \<open>simp add: claimed_at_def\<close>)

lemma up_claim:
  assumes typed: "typed (kv w)" and key: "starts_with pipeline_dedup_prefix key"
    and v: "v = claim_value (clock w) (kv w) key" and "\<not> starts_with dedup_pending_prefix v"
    and "str_at (clock w) (kv w) key \<noteq> Some []"
  shows "wp (claim_pipeline_dedup exec W key)
    (\<lambda>r w'. clock w' = clock w \<and>
       (if held_by_job (clock w) (kv w) v then r = Some (Some v) \<and> kv w' = kv w
        else r = Some None \<and> kv w' = claimed_at (clock w) key (kv w))) (\<lambda>_ _. False) w"
proof -
  let ?t = "clock w" and ?m = "kv w"
  have place: "wp (bnd (tryc (place_claim exec key) (\<lambda>_. ret False)) (\<lambda>claimed. if claimed then ret (Some None)
       else bnd (dedup_wait_for_owner exec W key) (\<lambda>r. if r \<noteq> Some None then ret r
         else bnd (suppress (bnd (r_del exec [key]) (\<lambda>_. place_claim exec key))) (\<lambda>_. ret (Some None)))))
      (\<lambda>r w'. clock w' = ?t \<and> r = Some None \<and> kv w' = claimed_at ?t key ?m) (\<lambda>_ _. False) w1"
    if "clock w1 = ?t" "live ?t (kv w1) key = None" "\<And>k. k \<noteq> key \<Longrightarrow> kv w1 k = ?m k" for w1
  proof -
    have "claimed_at ?t key (kv w1) = claimed_at ?t key ?m" using that(3) by (auto simp: claimed_at_def fun_eq_iff)
    then show ?thesis
      unfolding wp_bnd [of "tryc _ _"] wp_tryc by (intro wp_mono [OF up_place_claim]) (use that in auto)
  qed
  have l: "live ?t ?m key = None \<longleftrightarrow> v = []"
  proof -
    have "is_str (live ?t ?m key)" by (rule typed_str [OF typed dedup_kind [OF key]])
    then show ?thesis using assms(5) unfolding v by (auto simp: claim_value_def str_at_def is_str_def split: option.splits rval.splits)
  qed
  let ?h = "dedup_holder exec W key"
  have holder: "wp ?h (\<lambda>r w1. clock w1 = ?t \<and> (if held_by_job ?t ?m v then r = Some (Some v) \<and> kv w1 = ?m
      else r = Some None \<and> live ?t (kv w1) key = None \<and> (\<forall>k. k \<noteq> key \<longrightarrow> kv w1 k = ?m k))) (\<lambda>_ _. False) w"
    unfolding dedup_holder_def wp_bnd [of "read_claim exec key"]
  proof (rule wp_mono [OF up_read_claim [OF typed key]], goal_cases)
    case (1 v' w1)
    then have w1: "v' = v" "clock w1 = ?t" "kv w1 = ?m" using v by simp_all
    have ty: "typed (kv w1)" using typed w1 by simp
    show ?case
    proof (cases "v = []")
      case True
      then show ?thesis using w1 l by (simp add: held_by_job_def)
    next
      case False
      have "wp (fmapio (\<lambda>active. Some (if active then Some v else None)) (dedup_job_is_active exec v))
         (\<lambda>r. wp (if r = Some None then bnd (suppress (r_del exec [key])) (\<lambda>_. ret r) else ret r)
           (\<lambda>r w1. clock w1 = ?t \<and> (if held_by_job ?t ?m v then r = Some (Some v) \<and> kv w1 = ?m
      else r = Some None \<and> live ?t (kv w1) key = None \<and> (\<forall>k. k \<noteq> key \<longrightarrow> kv w1 k = ?m k))) (\<lambda>_ _. False)) (\<lambda>_ _. False) w1"
        unfolding wp_fmapio
        by (rule wp_mono [OF up_job_active [OF ty]])
          (use w1 False in \<open>auto simp: wp_bnd held_by_job_def wipe_def intro!: up_del\<close>)
      then show ?thesis unfolding w1(1) if_not_P [OF False] if_not_P [OF assms(4)] wp_bnd [of "fmapio _ _"] .
    qed
  qed simp
  show ?thesis
    unfolding claim_pipeline_dedup_def wp_bnd [of ?h]
  proof (rule wp_mono [OF holder], goal_cases)
    case (1 r w1)
    show ?case
    proof (cases "held_by_job ?t ?m v")
      case True
      then show ?thesis using 1 by simp
    next
      case False
      then have c: "clock w1 = ?t" "live ?t (kv w1) key = None" "\<And>k. k \<noteq> key \<Longrightarrow> kv w1 k = ?m k" and r: "r = Some None"
        using 1 by simp_all
      show ?thesis
        unfolding r simp_thms if_False if_not_P [OF False]
        by (rule wp_mono [OF place [OF c]]) auto
    qed
  qed simp
qed

end



section \<open>A claim swept away\<close>

context redis_up begin

lemma up_owned:
  assumes "typed (kv w)" and "starts_with pipeline_dedup_prefix key"
  shows "wp (cleanup_owned_key exec dead key n)
    (\<lambda>_ w'. clock w' = clock w \<and> (kv w' = kv w \<or> kv w' = wipe [key] (kv w)) \<and>
       (hash_at (clock w) (kv w) (job_hash_key (claim_value (clock w) (kv w) key)) = [] \<longrightarrow> kv w' = wipe [key] (kv w))) (\<lambda>_ _. False) w"
  unfolding cleanup_owned_key_def Let_def wp_tryc wp_bnd drop_key_def
proof (rule up_get, goal_cases)
  case 1
  show ?case by (rule typed_str [OF assms(1) dedup_kind [OF assms(2)]])
next
  case (2 w1)
  have h: "is_hash (live (clock w1) (kv w1) (job_hash_key j))" for j
    unfolding 2 by (rule typed_hash [OF assms(1)]) simp
  show ?case
    unfolding claim_value_def [symmetric]
    by (auto simp: wp_bnd 2 intro!: up_del up_hgetall [OF h])
qed

lemma up_sweep_removes:
  assumes p: "p \<noteq> []"
  shows "clock w = t \<Longrightarrow> typed (kv w) \<Longrightarrow> hash_at t (kv w) (job_hash_key p) = [] \<Longrightarrow>
    kv w key = None \<or> (key \<in> set xs \<and> str_at t (kv w) key = Some p) \<Longrightarrow> \<forall>k \<in> set xs. starts_with pipeline_dedup_prefix k \<Longrightarrow>
    wp (for_each xs n (cleanup_owned_key exec dead))
      (\<lambda>_ w'. clock w' = t \<and> typed (kv w') \<and> kv w' key = None) (\<lambda>_ _. False) w"
proof (induction xs arbitrary: n w)
  case (Cons k xs)
  have dp: "starts_with pipeline_dedup_prefix k" using Cons.prems(5) by simp
  show ?case
    unfolding for_each.simps wp_bnd
  proof (rule wp_mono [OF up_owned [OF Cons.prems(2) dp]], goal_cases)
    case (1 n' w1)
    have "job_hash_key p \<noteq> k" using hash_not_owned(1) [of "job_hash_key p"] dp by auto
    then have "kv w1 (job_hash_key p) = kv w (job_hash_key p)" using 1 by (auto simp: wipe_def)
    then have h: "hash_at t (kv w1) (job_hash_key p) = []" using Cons.prems(3) hash_at_cong by metis
    have ty: "typed (kv w1)" using 1 Cons.prems(2) by (auto intro: typed_wipe)
    have gone: "kv w1 key = None \<or> (key \<in> set xs \<and> str_at t (kv w1) key = Some p)"
    proof (cases "kv w key = None")
      case True
      then have "kv w1 key = None" using 1 by (auto simp: wipe_def split: if_splits)
      then show ?thesis ..
    next
      case False
      from Cons.prems(4) have "key \<in> set (k # xs) \<and> str_at t (kv w) key = Some p"
      proof
        assume "kv w key = None"
        then show ?thesis using False by contradiction
      qed
      then have s: "key \<in> set (k # xs)" "str_at t (kv w) key = Some p" by simp_all
      show ?thesis
      proof (cases "key = k")
        case True
        then have "claim_value (clock w) (kv w) k = p" using s(2) Cons.prems(1) by (simp add: claim_value_def)
        then have "kv w1 = wipe [k] (kv w)" using 1 Cons.prems(1,3) by simp
        then show ?thesis using True by (simp add: wipe_def)
      next
        case False
        then have "kv w1 key = kv w key" using 1 by (auto simp: wipe_def)
        then have "str_at t (kv w1) key = Some p" using s(2) str_at_cong by metis
        then show ?thesis using s(1) False by simp
      qed
    qed
    show ?case
      by (rule Cons.IH [OF _ ty h gone]) (use 1 Cons.prems in simp_all)
  qed simp
qed simp

lemma up_cleanup_claims:
  assumes "typed (kv w)" and "str_at (clock w) (kv w) key = Some p" and "p \<noteq> []"
    and "hash_at (clock w) (kv w) (job_hash_key p) = []" and "starts_with pipeline_dedup_prefix key"
  shows "wp (cleanup_stale_dedup_keys exec) (\<lambda>_ w'. clock w' = clock w \<and> typed (kv w') \<and> kv w' key = None) (\<lambda>_ _. False) w"
proof -
  let ?Q = "\<lambda>w'. clock w' = clock w \<and> typed (kv w') \<and> kv w' key = None"
  let ?body = "cleanup_owned_key exec (\<lambda>owner. owner = ''pending'')"
  have close: "wp (suppress (r_close exec)) (\<lambda>_. ?Q) (\<lambda>_ _. False) w1" if "?Q w1" for w1
    unfolding wp_suppress by (rule up_close) (use that in auto)
  have "wp (fin (bnd (attempt (r_scan exec pipeline_dedup_prefix)) (\<lambda>got.
      case got of None \<Rightarrow> ret 0 | Some keys \<Rightarrow> for_each keys 0 ?body)) (suppress (r_close exec))) (\<lambda>_. ?Q) (\<lambda>_ _. False) w1"
    if w1: "clock w1 = clock w" "kv w1 = kv w" for w1
    unfolding wp_fin wp_bnd [of "attempt _"] wp_attempt
  proof (rule up_scan, goal_cases)
    case (1 ks w2)
    have "live (clock w) (kv w) key \<noteq> None" using assms(2) by (simp add: str_at_live)
    then have "wp (for_each ks 0 ?body) (\<lambda>_. ?Q) (\<lambda>_ _. False) w2"
      by (intro up_sweep_removes [OF assms(3)]) (use 1 w1 assms in auto)
    then have "wp (for_each ks 0 ?body) (\<lambda>_. wp (suppress (r_close exec)) (\<lambda>_. ?Q) (\<lambda>_ _. False))
        (\<lambda>e. wp (suppress (r_close exec)) (\<lambda>_ _. False) (\<lambda>_ _. False)) w2"
      by (rule wp_mono) (rule close, simp_all)
    then show ?case by simp
  qed
  then show ?thesis
    unfolding cleanup_stale_dedup_keys_def swept_keys_def wp_bnd [of "attempt _"] wp_attempt
    by (intro up_connect) simp
qed

end

text \<open>
  A cleanup pass that meets the claim of an ingest that is still running, however young, deletes it: it takes
  the placeholder for the id of a job, and there is no such job.  A second request for the media is then
  told to fetch it too.
\<close>

theorem ingest_fetched_twice:
  assumes up: "redis_up exec kv clock" and typed: "typed (kv w)" and key: "starts_with pipeline_dedup_prefix key"
    and free: "live (clock w) (kv w) key = None" and "kv w (job_hash_key (dedup_placeholder (clock w))) = None"
  shows "\<exists>w'. bnd (claim_pipeline_dedup exec W key) (\<lambda>mine. bnd (cleanup_stale_dedup_keys exec) (\<lambda>_.
      bnd (claim_pipeline_dedup exec W key) (\<lambda>theirs. ret (mine, theirs)))) w =
    (Inr (Some None, Some None), w')"
proof -
  let ?t = "clock w" and ?p = "dedup_placeholder (clock w)"
  have first: "wp (claim_pipeline_dedup exec W key) (\<lambda>r w'. r = Some None \<and> clock w' = clock v \<and> kv w' = claimed_at (clock v) key (kv v)) (\<lambda>_ _. False) v"
    if "typed (kv v)" "live (clock v) (kv v) key = None" for v
  proof -
    have e: "[] = claim_value (clock v) (kv v) key" "str_at (clock v) (kv v) key \<noteq> Some []"
      using that(2) by (simp_all add: claim_value_def str_at_def)
    have np: "\<not> starts_with dedup_pending_prefix []" by (simp add: starts_with_def dedup_pending_prefix_def)
    show ?thesis by (rule wp_mono [OF redis_up.up_claim [OF up that(1) key e(1) np e(2)]]) (auto simp: held_by_job_def)
  qed
  have "wp (bnd (claim_pipeline_dedup exec W key) (\<lambda>mine. bnd (cleanup_stale_dedup_keys exec) (\<lambda>_.
      bnd (claim_pipeline_dedup exec W key) (\<lambda>theirs. ret (mine, theirs))))) (\<lambda>r _. r = (Some None, Some None)) (\<lambda>_ _. False) w"
    unfolding wp_bnd
  proof (rule wp_mono [OF first [OF typed free]], goal_cases)
    case (1 r w1)
    then have w1: "r = Some None" "clock w1 = ?t" "kv w1 = claimed_at ?t key (kv w)" by simp_all
    have ty: "typed (kv w1)" unfolding w1(3) claimed_at_def by (rule typed_upd [OF typed]) (simp add: dedup_kind [OF key])
    have s: "str_at (clock w1) (kv w1) key = Some ?p"
      unfolding w1 by (simp add: claimed_at_def str_at_def live_def dedup_placeholder_ttl_def)
    have "key \<noteq> job_hash_key ?p" using hash_not_owned(1) [of "job_hash_key ?p"] key by auto
    then have "kv w1 (job_hash_key ?p) = None" unfolding w1(3) claimed_at_def using assms(5) by simp
    then have h: "hash_at (clock w1) (kv w1) (job_hash_key ?p) = []" by (simp add: hash_at_def)
    have p: "?p \<noteq> []" by (simp add: dedup_placeholder_def dedup_pending_prefix_def)
    show ?case
    proof (rule wp_mono [OF redis_up.up_cleanup_claims [OF up ty s p h key]], goal_cases)
      case (1 n w2)
      have "live (clock w2) (kv w2) key = None" using 1 by simp
      then show ?case using 1 w1(1) by (intro wp_mono [OF first]) auto
    qed simp
  qed simp
  then show ?thesis unfolding wp_outcome by blast
qed

theorem ingest_fetched_twice_witness:
  "\<exists>w'. bnd (claim_pipeline_dedup mem_exec demo_waiter ''ffmpeg:pipeline_dedup:7:h'') (\<lambda>mine.
      bnd (cleanup_stale_dedup_keys mem_exec) (\<lambda>_.
      bnd (claim_pipeline_dedup mem_exec demo_waiter ''ffmpeg:pipeline_dedup:7:h'') (\<lambda>theirs. ret (mine, theirs)))) demo_ingest =
    (Inr (Some None, Some None), w')"
proof -
  have k: "starts_with pipeline_dedup_prefix ''ffmpeg:pipeline_dedup:7:h''" by (simp add: starts_with_def key_defs)
  have f: "live (mclock demo_ingest) (mkv demo_ingest) ''ffmpeg:pipeline_dedup:7:h'' = None"
    by (simp add: live_def mkv_def demo_ingest_def)
  have j: "mkv demo_ingest (job_hash_key (dedup_placeholder (mclock demo_ingest))) = None"
    by (simp add: mkv_def demo_ingest_def key_defs dedup_placeholder_def dedup_pending_prefix_def)
  show ?thesis by (rule ingest_fetched_twice [OF memory_up demo_ingest_typed k f j])
qed

end
