(* ===== verification/CancelResults.thy ===== *)
theory CancelResults
  imports BatchDown JobCancelResults IngestResults
begin

text \<open>
  What stopping a batch by hand (\<open>cancel_batch\<close>) leaves, with Redis up: nothing of it waits or is delayed,
  every member is flagged, its state is gone; the claims of its members on their media are gone, and the
  claims of ingests that have no job yet are not.
\<close>

section \<open>The stages\<close>

text \<open>What holds of the key space \<open>m\<close>, from \<open>m0\<close>, after each stage; \<open>js\<close> are the members.\<close>

definition flagged :: "real \<Rightarrow> string set \<Rightarrow> store \<Rightarrow> bool" where
  "flagged t js m \<longleftrightarrow> (\<forall>j \<in> js. dget (hash_at t m (job_hash_key j)) ''cancel'' = Some ''1'')"

definition none_waits :: "real \<Rightarrow> string \<Rightarrow> store \<Rightarrow> bool" where
  "none_waits t b m \<longleftrightarrow> filter (item_in_batch b) (list_at t m job_list_key) = []"

definition none_delayed :: "real \<Rightarrow> string \<Rightarrow> store \<Rightarrow> bool" where
  "none_delayed t b m \<longleftrightarrow> (\<forall>it \<in> fst ` set (zset_at t m delayed_set_key). \<not> delayed_in_batch b it)"

definition claims_cleared :: "real \<Rightarrow> string set \<Rightarrow> store \<Rightarrow> store \<Rightarrow> bool" where
  "claims_cleared t js m0 m \<longleftrightarrow>
     (\<forall>k. starts_with pipeline_dedup_prefix k \<longrightarrow> live t m0 k \<noteq> None \<longrightarrow>
        m k = (if claim_value t m0 k \<in> insert ''pending'' js then None else m0 k))"

definition state_gone :: "real \<Rightarrow> string \<Rightarrow> store \<Rightarrow> bool" where
  "state_gone t b m \<longleftrightarrow> (\<forall>k \<in> set (batch_state_keys b). m k = None) \<and> b \<notin> set (set_at t m active_batches_key)"

lemma flagged_cong: "(\<And>j. j \<in> js \<Longrightarrow> m' (job_hash_key j) = m (job_hash_key j)) \<Longrightarrow> flagged t js m \<Longrightarrow> flagged t js m'"
  unfolding flagged_def using hash_at_cong by metis

lemma none_waits_cong: "m' job_list_key = m job_list_key \<Longrightarrow> none_waits t b m \<Longrightarrow> none_waits t b m'"
  unfolding none_waits_def using list_at_cong by metis

lemma none_delayed_cong: "m' delayed_set_key = m delayed_set_key \<Longrightarrow> none_delayed t b m \<Longrightarrow> none_delayed t b m'"
  unfolding none_delayed_def using zset_at_cong by metis

lemma claims_cleared_cong:
  "(\<And>k. starts_with pipeline_dedup_prefix k \<Longrightarrow> m' k = m k) \<Longrightarrow> claims_cleared t js m0 m \<Longrightarrow> claims_cleared t js m0 m'"
  unfolding claims_cleared_def by auto

lemma wp_then:
  "wp m P F w \<Longrightarrow> (\<And>x w'. P x w' \<Longrightarrow> wp (f x) Q F w') \<Longrightarrow> wp (bnd m f) Q F w"
  unfolding wp_bnd by (rule wp_mono)

lemma safe_wp: "safe m \<Longrightarrow> wp m Q E w \<Longrightarrow> wp m Q (\<lambda>_ _. False) w"
  unfolding safe_def wp_def by (auto split: prod.splits sum.splits)

lemma safe_forget: "safe (forget_resume_membership exec b)"
  unfolding forget_resume_membership_def
  by (rule safe_bnd) (auto intro!: safe_for_each safe_suppress simp: attempt_def safe_tryc safe_ret split: option.split)

context redis_up begin

lemma up_needs_tombstone:
  assumes "typed (kv w)" and "batch_id_ok b"
  shows "wp (batch_needs_tombstone exec b []) (\<lambda>_ w'. clock w' = clock w \<and> kv w' = kv w) (\<lambda>_ _. False) w"
proof -
  have s: "is_str (live (clock w) (kv w) (batch_progress_key b))" "is_str (live (clock w) (kv w) (batch_total_key b))"
    by (rule typed_str [OF assms(1)], simp add: assms(2))+
  show ?thesis
    unfolding batch_needs_tombstone_def wp_bnd wp_attempt
    by (rule up_exists) (auto simp: wp_bnd s split: option.split intro!: up_get)
qed

lemma up_flag_members:
  assumes "clock w = t" and "typed (kv w)"
  shows "wp (for_each js () (\<lambda>j _. r_hset exec (job_hash_key j) cancel_mark))
     (\<lambda>_ w'. (clock w' = t \<and> typed (kv w') \<and> (\<forall>k. k \<notin> job_hash_key ` set js \<longrightarrow> kv w' k = kv w k)) \<and>
       (\<forall>j \<in> set js. dget (hash_at t (kv w') (job_hash_key j)) ''cancel'' = Some ''1'')) (\<lambda>_ _. False) w"
proof (rule wp_for_each_all, goal_cases)
  case (1 j s w1)
  show ?case
  proof (rule up_hset, goal_cases)
    case 1
    show ?case by (rule typed_hash) (use \<open>clock w1 = t \<and> _\<close> in simp_all)
  next
    case (2 w2)
    have e: "kv w2 = effect (Hset (job_hash_key j) cancel_mark) t (kv w1)" and c: "clock w2 = t" using 1 2 by simp_all
    have ty: "typed (kv w2)" unfolding e by (rule effect_typed) (use 1 in simp_all)
    have d: "distinct (map fst cancel_mark)" by (simp add: cancel_mark_def)
    have h: "dget (hash_at t (kv w2) (job_hash_key j)) ''cancel'' = Some ''1''"
      unfolding e hash_at_hset [OF d] by (simp add: cancel_mark_def)
    have same: "kv w2 k = kv w1 k" if "k \<noteq> job_hash_key j" for k
      unfolding e by (rule effect_untouched) (use that in simp)
    have "hash_at t (kv w2) (job_hash_key i) = hash_at t (kv w1) (job_hash_key i)" if "i \<noteq> j" for i
      by (rule hash_at_cong, rule same) (use that in \<open>simp add: job_hash_key_def\<close>)
    then have keep: "dget (hash_at t (kv w1) (job_hash_key i)) ''cancel'' = Some ''1'' \<Longrightarrow>
        dget (hash_at t (kv w2) (job_hash_key i)) ''cancel'' = Some ''1''" for i
      using h by (cases "i = j") simp_all
    have "kv w2 k = kv w k" if "k \<notin> job_hash_key ` set js" for k using same [of k] 1 that by auto
    then show ?case using 1 c ty h keep by auto
  qed
qed (use assms in simp)

lemma up_prune_batch:
  assumes "clock w = t" and "typed (kv w)"
  shows "wp (r_eval exec (PruneBatchScript job_list_key b))
    (\<lambda>_ w'. clock w' = t \<and> typed (kv w') \<and> none_waits t b (kv w') \<and> (\<forall>k. k \<noteq> job_list_key \<longrightarrow> kv w' k = kv w k)) (\<lambda>_ _. False) w"
proof (rule up_eval, goal_cases)
  case 1
  show ?case using typed_list [OF assms(2), of job_list_key] by simp
next
  case (2 w1)
  let ?L = "list_at t (kv w) job_list_key" and ?p = "item_in_batch b"
  have e: "kv w1 = effect (Eval (PruneBatchScript job_list_key b)) t (kv w)" using 2 assms(1) by simp
  have eq: "fst (lrem_each ?p ?L ?L) = filter (\<lambda>it. \<not> ?p it) ?L" using lrem_each_all [of "[]" ?p ?L "[]"] by simp
  have "list_at t (kv w1) job_list_key = filter (\<lambda>it. \<not> ?p it) ?L"
  proof (cases "snd (lrem_each ?p ?L ?L) = 0")
    case True
    then show ?thesis using eq lrem_each_none [OF True] by (simp add: e lua_prune_batch_def case_prod_beta)
  next
    case False
    then show ?thesis using eq by (simp add: e lua_prune_batch_def case_prod_beta)
  qed
  moreover have "typed (kv w1)" unfolding e by (rule effect_typed [OF assms(2)]) simp
  moreover have "kv w1 k = kv w k" if "k \<noteq> job_list_key" for k
    unfolding e by (rule effect_untouched) (use that in simp)
  ultimately show ?case using 2 assms(1) by (simp add: none_waits_def)
qed

lemma up_drop_delayed:
  assumes "clock w = t" and "typed (kv w)" and "set items = fst ` set (zset_at t (kv w) delayed_set_key)"
  shows "wp (drop_delayed exec (delayed_in_batch b) items)
    (\<lambda>_ w'. clock w' = t \<and> typed (kv w') \<and> none_delayed t b (kv w') \<and> (\<forall>k. k \<noteq> delayed_set_key \<longrightarrow> kv w' k = kv w k)) (\<lambda>_ _. False) w"
proof -
  let ?Z = "\<lambda>w. fst ` set (zset_at t (kv w) delayed_set_key)"
  let ?I = "\<lambda>w'. clock w' = t \<and> typed (kv w') \<and> ?Z w' \<subseteq> set items \<and> (\<forall>k. k \<noteq> delayed_set_key \<longrightarrow> kv w' k = kv w k)"
  have "wp (drop_delayed exec (delayed_in_batch b) items)
    (\<lambda>_ w'. ?I w' \<and> (\<forall>it \<in> set items. delayed_in_batch b it \<longrightarrow> it \<notin> ?Z w')) (\<lambda>_ _. False) w"
    unfolding drop_delayed_def
  proof (rule wp_for_each_all, goal_cases)
    case (1 it n w1)
    show ?case
    proof (cases "delayed_in_batch b it")
      case False
      then show ?thesis using 1 by simp
    next
      case True
      have z: "is_zset (live (clock w1) (kv w1) delayed_set_key)" by (rule typed_zset) (use 1 in simp_all)
      have "wp (r_zrem exec delayed_set_key it) (\<lambda>_ w2. ?I w2 \<and> (\<forall>y. y \<notin> ?Z w1 \<longrightarrow> y \<notin> ?Z w2) \<and> it \<notin> ?Z w2) (\<lambda>_ _. False) w1"
      proof (rule up_zrem [OF z], goal_cases)
        case (1 w2)
        have e: "kv w2 = effect (Zrem delayed_set_key it) t (kv w1)" and c: "clock w2 = t" using 1 \<open>?I w1\<close> by simp_all
        have "?Z w2 = ?Z w1 - {it}" unfolding e zset_at_zrem zdel_def
          by (metis delete_keys list.set_map set_removeAll)
        moreover have "typed (kv w2)" unfolding e by (rule effect_typed) (use \<open>?I w1\<close> in simp_all)
        moreover have "kv w2 k = kv w1 k" if "k \<noteq> delayed_set_key" for k
          unfolding e by (rule effect_untouched) (use that in simp)
        ultimately show ?case using c \<open>?I w1\<close> by auto
      qed
      then show ?thesis using True unfolding if_P [OF True] wp_bnd wp_attempt by (auto elim!: wp_mono)
    qed
  qed (use assms in simp)
  then show ?thesis by (rule wp_mono) (auto simp: none_delayed_def)
qed

lemma up_clear_claims:
  assumes "typed m" and "\<forall>k \<in> set (ys @ xs). starts_with pipeline_dedup_prefix k"
    and D: "\<And>k. D k \<longleftrightarrow> claim_value t m k \<in> set (''pending'' # js)"
  shows "clock w = t \<Longrightarrow> kv w = wipe (filter D ys) m \<Longrightarrow>
    wp (clear_dedup exec js xs n) (\<lambda>_ w'. clock w' = t \<and> kv w' = wipe (filter D (ys @ xs)) m) (\<lambda>_ _. False) w"
  using assms(2)
proof (induction xs arbitrary: ys n w)
  case Nil
  then show ?case by simp
next
  case (Cons k xs)
  have dp: "starts_with pipeline_dedup_prefix k" using Cons.prems(3) by simp
  have ty: "typed (kv w)" unfolding Cons.prems(2) by (rule typed_wipe [OF assms(1)])
  have onward: "wp (clear_dedup exec js xs n') (\<lambda>_ w'. clock w' = t \<and> kv w' = wipe (filter D (ys @ k # xs)) m) (\<lambda>_ _. False) w'"
    if "clock w' = t" "kv w' = wipe (filter D (ys @ [k])) m" for n' w'
    using Cons.IH [of w' "ys @ [k]" n'] that Cons.prems(3) by simp
  have out: "kv w k = None \<or> claim_value t (kv w) k = claim_value t m k"
  proof (cases "k \<in> set (filter D ys)")
    case True
    then show ?thesis unfolding Cons.prems(2) by (simp add: wipe_def)
  next
    case False
    then have "kv w k = m k" unfolding Cons.prems(2) by (auto simp: wipe_def)
    then show ?thesis using str_at_cong by (metis claim_value_def)
  qed
  have a: "wipe [k] (kv w) = wipe (filter D (ys @ [k])) m" if "kv w k = None \<or> D k"
    using that unfolding Cons.prems(2) by (auto simp: wipe_def fun_eq_iff)
  have b: "kv w = wipe (filter D (ys @ [k])) m" if "kv w k = None \<or> \<not> D k"
    using that unfolding Cons.prems(2) by (auto simp: wipe_def fun_eq_iff)
  show ?case
    unfolding clear_dedup.simps Let_def wp_bnd wp_attempt option.case claim_value_def [symmetric]
  proof (rule up_get, goal_cases)
    case 1
    show ?case by (rule typed_str [OF ty dedup_kind [OF dp]])
  next
    case (2 w1)
    let ?o = "claim_value (clock w) (kv w) k"
    have t: "clock w = t" by (rule Cons.prems(1))
    show ?case
      unfolding option.case claim_value_def [symmetric]
    proof (cases "?o \<in> set (''pending'' # js)")
      case True
      then have "kv w k = None \<or> D k" using out D [of k] unfolding t by auto
      then have w: "wipe [k] (kv w) = wipe (filter D (ys @ [k])) m" by (rule a)
      have "wp (r_del exec [k]) (\<lambda>c. wp (clear_dedup exec js xs (if c \<noteq> 0 then n + 1 else n))
          (\<lambda>_ w'. clock w' = t \<and> kv w' = wipe (filter D (ys @ k # xs)) m) (\<lambda>_ _. False)) E w1" for E
        by (rule up_del, rule onward) (use 2 t w in simp_all)
      then show "wp (if ?o \<in> set (''pending'' # js) then bnd (attempt (r_del exec [k])) (\<lambda>n'. case n' of None \<Rightarrow> ret n
          | Some c \<Rightarrow> clear_dedup exec js xs (if c \<noteq> 0 then n + 1 else n)) else clear_dedup exec js xs n)
          (\<lambda>_ w'. clock w' = t \<and> kv w' = wipe (filter D (ys @ k # xs)) m) (\<lambda>_ _. False) w1"
        unfolding if_P [OF True] wp_bnd wp_attempt option.case .
    next
      case False
      then have "kv w k = None \<or> \<not> D k" using out D [of k] unfolding t by auto
      then have w: "kv w = wipe (filter D (ys @ [k])) m" by (rule b)
      show "wp (if ?o \<in> set (''pending'' # js) then bnd (attempt (r_del exec [k])) (\<lambda>n'. case n' of None \<Rightarrow> ret n
          | Some c \<Rightarrow> clear_dedup exec js xs (if c \<noteq> 0 then n + 1 else n)) else clear_dedup exec js xs n)
          (\<lambda>_ w'. clock w' = t \<and> kv w' = wipe (filter D (ys @ k # xs)) m) (\<lambda>_ _. False) w1"
        unfolding if_not_P [OF False] by (rule onward) (use 2 t w in simp_all)
    qed
  qed
qed


text \<open>The last stage: the state is deleted and the batch leaves the views.\<close>

lemma up_drop_state:
  assumes c: "clock w = t" and ty: "typed (kv w)" and b: "batch_id_ok b"
  shows "wp (bnd (r_del exec (batch_state_keys b)) (\<lambda>dropped.
       bnd (suppress (r_srem exec active_batches_key [b])) (\<lambda>_.
       bnd (forget_resume_membership exec b) (\<lambda>_. ret (f dropped)))))
    (\<lambda>_ w'. state_gone t b (kv w') \<and>
       (\<forall>k. k \<notin> set (batch_state_keys b) \<longrightarrow> k \<noteq> active_batches_key \<longrightarrow> \<not> starts_with resume_key_prefix k \<longrightarrow>
          kv w' k = kv w k)) (\<lambda>_ _. False) w"
  unfolding wp_bnd [of "r_del exec ks" for ks]
proof (rule up_del, goal_cases)
  case (1 w1)
  have ty1: "typed (kv w1)" unfolding 1 by (rule typed_wipe [OF ty])
  show ?case
    unfolding wp_bnd [of "suppress m" for m] wp_suppress
  proof (rule up_srem, goal_cases)
    case 1
    show ?case by (rule typed_set [OF ty1]) simp
  next
    case (2 w2)
    have e2: "kv w2 = effect (Srem active_batches_key [b]) t (kv w1)" using 2 \<open>clock w1 = clock w\<close> c by simp
    have u2: "kv w2 k = kv w1 k" if "k \<noteq> active_batches_key" for k
      unfolding e2 by (rule effect_untouched) (use that in simp)
    have act: "b \<notin> set (set_at t (kv w2) active_batches_key)"
      using set_at_srem [OF ty1, of active_batches_key t "[b]"] unfolding e2 by simp
    have gone: "kv w2 k = None" if "k \<in> set (batch_state_keys b)" for k
      using that u2 [of k] active_key_not_state [of b] \<open>kv w1 = wipe _ _\<close> by (auto simp: wipe_def)
    have frame: "wp (bnd (forget_resume_membership exec b) (\<lambda>_. ret (f x)))
        (\<lambda>_ w'. clock w2 \<le> clock w' \<and> frame (starts_with resume_key_prefix) (kv w2) (kv w')) (\<lambda>_ _. False) w2" for x
      by (rule safe_wp [OF safe_bnd [OF safe_forget safe_ret]], rule touchesD,
          rule touches_bnd [OF touches_forget touches_ret])
    have res: "k \<notin> set (batch_state_keys b)" "k \<noteq> active_batches_key" if "starts_with resume_key_prefix k" for k
      using that own_not_resume [OF b, of k] state_own [of k b] by (auto simp: key_defs starts_with_def)
    have "state_gone t b (kv w') \<and>
       (\<forall>k. k \<notin> set (batch_state_keys b) \<longrightarrow> k \<noteq> active_batches_key \<longrightarrow> \<not> starts_with resume_key_prefix k \<longrightarrow>
          kv w' k = kv w k)" if "frame (starts_with resume_key_prefix) (kv w2) (kv w')" for w'
    proof -
      have k: "kv w' k = kv w2 k" if "\<not> starts_with resume_key_prefix k" for k
        using \<open>frame _ _ _\<close> that by (simp add: frame_def)
      have "set_at t (kv w') active_batches_key = set_at t (kv w2) active_batches_key"
        by (rule set_at_cong, rule k) (use res in blast)
      moreover have "kv w' k = None" if "k \<in> set (batch_state_keys b)" for k
        using gone [OF that] k [of k] res [of k] that by metis
      moreover have "kv w' k = kv w k"
        if "k \<notin> set (batch_state_keys b)" "k \<noteq> active_batches_key" "\<not> starts_with resume_key_prefix k" for k
        using k [OF that(3)] u2 [OF that(2)] that(1) \<open>kv w1 = wipe _ _\<close> by (simp add: wipe_def)
      ultimately show ?thesis using act by (simp add: state_gone_def)
    qed
    then show ?case by (intro wp_mono [OF frame]) simp_all
  qed
qed


text \<open>The single calls between the stages.\<close>

lemma up_opened:
  assumes "\<And>w0. clock w0 = clock w \<Longrightarrow> kv w0 = kv w \<Longrightarrow>
      wp body (\<lambda>x w1. \<forall>w2. clock w2 = clock w1 \<longrightarrow> kv w2 = kv w1 \<longrightarrow> Q x w2) (\<lambda>_ _. False) w0"
  shows "wp (bnd (whenb own (r_connect exec)) (\<lambda>_. fin body (suppress (r_close exec)))) Q E w"
proof -
  have "wp (fin body (suppress (r_close exec))) Q E w0" if "clock w0 = clock w" "kv w0 = kv w" for w0
    unfolding wp_fin wp_suppress by (rule wp_mono [OF assms [OF that]]) (auto intro!: up_close)
  then show ?thesis unfolding wp_bnd wp_whenb by (auto intro!: up_connect)
qed

lemma up_maybe_tombstone:
  assumes "typed (kv w)" and "batch_id_ok b"
  shows "wp (whenb fence (write_tombstone exec b who ttl))
    (\<lambda>_ w'. clock w' = clock w \<and> typed (kv w') \<and> (\<forall>k. k \<noteq> batch_cancel_key b \<longrightarrow> kv w' k = kv w k)) (\<lambda>_ _. False) w"
  unfolding wp_whenb write_tombstone_def wp_bnd
  using assms by (auto intro!: up_time up_set typed_upd)

lemma up_ask_members:
  assumes "typed (kv w)" and "batch_id_ok b"
  shows "wp (r_smembers exec (batch_jobs_key b))
    (\<lambda>xs w'. clock w' = clock w \<and> kv w' = kv w \<and> set xs = set (set_at (clock w) (kv w) (batch_jobs_key b))) (\<lambda>_ _. False) w"
  by (rule up_smembers, rule typed_set [OF assms(1)]) (simp_all add: assms(2))

lemma up_ask_delayed:
  assumes "typed (kv w)"
  shows "wp (r_zrange exec delayed_set_key)
    (\<lambda>xs w'. clock w' = clock w \<and> kv w' = kv w \<and> set xs = fst ` set (zset_at (clock w) (kv w) delayed_set_key)) (\<lambda>_ _. False) w"
proof (rule up_zrange, goal_cases)
  case 1
  show ?case by (rule typed_zset [OF assms]) simp
next
  case (2 xs w')
  then show ?case using mset_eq_setD [of xs "map fst (zset_at (clock w) (kv w) delayed_set_key)"] by simp
qed

lemma up_ask_claims:
  "wp (attempt (r_scan exec p)) (\<lambda>r w'. clock w' = clock w \<and> kv w' = kv w \<and>
     (\<exists>ks. r = Some ks \<and> set ks = {k. live (clock w) (kv w) k \<noteq> None \<and> starts_with p k})) (\<lambda>_ _. False) w"
  unfolding wp_attempt by (rule up_scan) simp

lemma up_ask_message:
  "typed (kv w) \<Longrightarrow> batch_id_ok b \<Longrightarrow>
   wp (attempt (r_get exec (batch_message_key b))) (\<lambda>_ w'. clock w' = clock w \<and> kv w' = kv w) (\<lambda>_ _. False) w"
  unfolding wp_attempt by (rule up_get, rule typed_str) simp_all

lemma up_stop_jobs:
  assumes w: "clock w = t" "typed (kv w)" and ids: "set ids = js"
    and rest: "\<And>q d w'. clock w' = t \<Longrightarrow> typed (kv w') \<Longrightarrow> flagged t js (kv w') \<Longrightarrow> none_waits t b (kv w') \<Longrightarrow>
        none_delayed t b (kv w') \<Longrightarrow>
        (\<forall>k. k \<notin> job_hash_key ` js \<longrightarrow> k \<noteq> job_list_key \<longrightarrow> k \<noteq> delayed_set_key \<longrightarrow> kv w' k = kv w k) \<Longrightarrow>
        wp (f q d) Q (\<lambda>_ _. False) w'"
  shows "wp (bnd (for_each ids () (\<lambda>j _. r_hset exec (job_hash_key j) cancel_mark)) (\<lambda>_.
      bnd (r_eval exec (PruneBatchScript job_list_key b)) (\<lambda>q.
      bnd (r_zrange exec delayed_set_key) (\<lambda>items.
      bnd (drop_delayed exec (delayed_in_batch b) items) (\<lambda>d. f q d))))) Q (\<lambda>_ _. False) w"
proof (rule wp_then [OF up_flag_members [OF w]], goal_cases)
  case w1: (1 _ w1)
  then have c1: "clock w1 = t" and t1: "typed (kv w1)" by simp_all
  show ?case
  proof (rule wp_then [OF up_prune_batch [OF c1 t1]], goal_cases)
    case w2: (1 q w2)
    then have t2: "typed (kv w2)" by simp
    show ?case
    proof (rule wp_then [OF up_ask_delayed [OF t2]], goal_cases)
      case w3: (1 items w3)
      have c3: "clock w3 = t" and t3: "typed (kv w3)" and i3: "set items = fst ` set (zset_at t (kv w3) delayed_set_key)"
        using w2 w3 by simp_all
      show ?case
      proof (rule wp_then [OF up_drop_delayed [OF c3 t3 i3]], rule rest, goal_cases)
        case (3 d w4)
        have "kv w4 (job_hash_key j) = kv w1 (job_hash_key j)" for j
          using 3 w2 w3 foreign_keys(8) [of j] foreign_keys(9) [of j] by simp
        moreover have "flagged t js (kv w1)" using w1 ids by (simp add: flagged_def)
        ultimately show ?case by (intro flagged_cong [of js "kv w4" "kv w1"]) simp_all
      next
        case (4 d w4)
        have "kv w4 job_list_key = kv w2 job_list_key" using 4 w3 foreign_keys by simp
        then show ?case using w2 by (intro none_waits_cong [of "kv w4" "kv w2"]) simp_all
      next
        case (6 d w4)
        then show ?case using w1 w2 w3 ids by simp
      qed simp_all
    qed
  qed
qed

lemma up_forget_batch:
  assumes w: "clock w = t" "typed (kv w)" and b: "batch_id_ok b" and ids: "set ids = js"
    and claims: "\<forall>k. starts_with pipeline_dedup_prefix k \<longrightarrow> kv w k = m k"
  shows "wp (bnd (attempt (r_scan exec pipeline_dedup_prefix)) (\<lambda>ks.
      bnd (case ks of None \<Rightarrow> ret 0 | Some keys \<Rightarrow> clear_dedup exec ids keys 0) (\<lambda>dedup.
      bnd (attempt (r_get exec (batch_message_key b))) (\<lambda>stock.
      bnd (r_del exec (batch_state_keys b)) (\<lambda>dropped.
      bnd (suppress (r_srem exec active_batches_key [b])) (\<lambda>_.
      bnd (forget_resume_membership exec b) (\<lambda>_. ret (f dedup stock dropped))))))))
    (\<lambda>_ w'. state_gone t b (kv w') \<and> claims_cleared t js m (kv w') \<and>
       (\<forall>k. k \<notin> set (batch_state_keys b) \<longrightarrow> k \<noteq> active_batches_key \<longrightarrow> \<not> starts_with resume_key_prefix k \<longrightarrow>
          \<not> starts_with pipeline_dedup_prefix k \<longrightarrow> kv w' k = kv w k)) (\<lambda>_ _. False) w"
proof (rule wp_then [OF up_ask_claims], goal_cases)
  case w1: (1 r w1)
  obtain ks where r: "r = Some ks" and ks: "set ks = {k. live t (kv w) k \<noteq> None \<and> starts_with pipeline_dedup_prefix k}"
    using w1 w(1) by auto
  let ?D = "\<lambda>k. claim_value t (kv w) k \<in> set (''pending'' # ids)"
  have start: "clock w1 = t" "kv w1 = wipe (filter ?D []) (kv w)" using w1 w by (simp_all add: wipe_def)
  have scanned: "\<forall>k \<in> set ([] @ ks). starts_with pipeline_dedup_prefix k" using ks by simp
  show ?case
    unfolding r option.case
  proof (rule wp_then [OF up_clear_claims [OF w(2) scanned refl start]], goal_cases)
    case w2: (1 n w2)
    have t2: "typed (kv w2)" using w2 typed_wipe [OF w(2)] by simp
    show ?case
    proof (rule wp_then [OF up_ask_message [OF t2 b]], goal_cases)
      case w3: (1 stock w3)
      have c3: "clock w3 = t" and t3: "typed (kv w3)" using w2 w3 t2 by simp_all
      have e3: "kv w3 = wipe (filter ?D ks) (kv w)" using w2 w3 by simp
      have cleared: "claims_cleared t js m (kv w3)"
        unfolding claims_cleared_def e3
        using claims ids ks by (auto simp: wipe_def claim_value_def live_def str_at_cong [of "kv w" _ m])
      have dd: "k \<notin> set (batch_state_keys b) \<and> k \<noteq> active_batches_key \<and> \<not> starts_with resume_key_prefix k"
        if "starts_with pipeline_dedup_prefix k" for k
        using that by (auto simp: batch_state_keys_def key_defs starts_with_iff)
      show ?case
        by (rule wp_mono [OF up_drop_state [OF c3 t3 b]])
          (use dd ks in \<open>auto simp: e3 wipe_def intro!: claims_cleared_cong [OF _ cleared]\<close>)
    qed
  qed
qed

lemma up_cancel_batch:
  assumes c: "clock w = t" and m: "kv w = m" "typed m" and b: "batch_id_ok b"
    and js: "js = set (set_at t m (batch_jobs_key b))"
  shows "wp (cancel_batch exec cfg own b who ttl)
    (\<lambda>_ w'. flagged t js (kv w') \<and> none_waits t b (kv w') \<and> none_delayed t b (kv w') \<and> state_gone t b (kv w') \<and>
       claims_cleared t js m (kv w')) (\<lambda>_ _. False) w"
proof -
  have ne: "b \<noteq> []" using b by (simp add: batch_id_ok_def)
  have own: "batch_jobs_key b \<noteq> batch_cancel_key b" by (simp add: key_defs)
  have pre: "starts_with pipeline_dedup_prefix k \<Longrightarrow> k \<notin> set (batch_state_keys b)"
    "starts_with pipeline_dedup_prefix k \<Longrightarrow> k \<noteq> batch_cancel_key b"
    "starts_with pipeline_dedup_prefix k \<Longrightarrow> k \<noteq> active_batches_key"
    "starts_with pipeline_dedup_prefix k \<Longrightarrow> \<not> starts_with resume_key_prefix k"
    "starts_with pipeline_dedup_prefix k \<Longrightarrow> k \<noteq> job_list_key"
    "starts_with pipeline_dedup_prefix k \<Longrightarrow> k \<noteq> delayed_set_key"
    "starts_with pipeline_dedup_prefix k \<Longrightarrow> k \<noteq> job_hash_key j" for k j
    by (auto simp: batch_state_keys_def key_defs starts_with_iff)
  have not_resume: "\<not> starts_with resume_key_prefix job_list_key" "\<not> starts_with resume_key_prefix delayed_set_key"
    "\<not> starts_with resume_key_prefix (job_hash_key j)" for j
    by (auto simp: key_defs starts_with_iff)
  let ?post = "\<lambda>_ w'. flagged t js (kv w') \<and> none_waits t b (kv w') \<and> none_delayed t b (kv w') \<and> state_gone t b (kv w') \<and>
       claims_cleared t js m (kv w')"
  show ?thesis
    unfolding cancel_batch_def if_not_P [OF ne]
  proof (rule up_opened, goal_cases)
    case w0: (1 w0)
    have m0: "clock w0 = t" "kv w0 = m" using w0 c m by simp_all
    show ?case
    proof (rule wp_then [OF up_needs_tombstone [OF _ b]], goal_cases)
      case 1
      then show ?case using m0 m by simp
    next
      case w1: (2 fence w1)
      show ?case
      proof (rule wp_then [OF up_maybe_tombstone [OF _ b]], goal_cases)
        case 1
        then show ?case using m0 m w1 by simp
      next
        case w2: (2 _ w2)
        show ?case
        proof (rule wp_then [OF up_ask_members [OF _ b]], goal_cases)
          case 1
          then show ?case using w2 by simp
        next
          case w3: (2 ids w3)
          have t3: "clock w3 = t" "typed (kv w3)" using w1 w2 w3 m0 by simp_all
          have ids: "set ids = js"
            using w1 w2 w3 m0 own set_at_cong [of "kv w2" "batch_jobs_key b" m t] by (simp add: js)
          have same: "kv w3 k = m k" if "starts_with pipeline_dedup_prefix k" for k
            using that pre(2) [of k] w1 w2 w3 m0 by simp
          show ?case
          proof (rule up_stop_jobs [OF t3 ids], goal_cases)
            case w4: (1 q d w4)
            have "kv w4 k = m k" if "starts_with pipeline_dedup_prefix k" for k
              using that same [OF that] pre(5,6,7) w4(6) by (metis imageE)
            then have d: "\<forall>k. starts_with pipeline_dedup_prefix k \<longrightarrow> kv w4 k = m k" by blast
            show ?case
            proof (rule wp_mono [OF up_forget_batch [OF w4(1,2) b ids d]], goal_cases)
              case (1 x w5)
              then have keep: "k \<notin> set (batch_state_keys b) \<Longrightarrow> k \<noteq> active_batches_key \<Longrightarrow> \<not> starts_with resume_key_prefix k \<Longrightarrow>
                  \<not> starts_with pipeline_dedup_prefix k \<Longrightarrow> kv w5 k = kv w4 k" for k by blast
              have k: "kv w5 k = kv w4 k" if "k \<in> {job_hash_key j, job_list_key, delayed_set_key}" for k j
                using keep [of k] that not_resume(1,2) not_resume(3) [of j] foreign_keys(1) [of j b] foreign_keys(3) [of j]
                  foreign_keys(10,11) [of b] foreign_keys(17,18) pre(5,6) [of k] pre(7) [of k j] by auto
              show ?case
                using 1 flagged_cong [OF _ w4(3), of "kv w5"] none_waits_cong [OF _ w4(4), of "kv w5"]
                  none_delayed_cong [OF _ w4(5), of "kv w5"] k by simp
            qed
          qed
        qed
      qed
    qed
  qed
qed

end

text \<open>
  C17: Cxx: Stopping a batch by hand, with Redis up, takes the whole of it out: every member is flagged, no
  queued or put-off item of the batch is left, its state keys and its place in the view are gone.  Of the
  claims on media, exactly those held by a member, or by the bare word \<open>pending\<close>, are deleted; the claim of
  an ingest that has no job yet, which holds \<open>pending:\<close> and a time, is left as it is.
\<close>

theorem cancel_takes_whole_batch:
  assumes "redis_up exec kv clock" and "typed (kv w)" and "batch_id_ok b"
    and "js = set (set_at (clock w) (kv w) (batch_jobs_key b))"
  shows "\<exists>r w'. cancel_batch exec cfg own b who ttl w = (Inr r, w') \<and>
    (\<forall>j \<in> js. dget (hash_at (clock w) (kv w') (job_hash_key j)) ''cancel'' = Some ''1'') \<and>
    (\<forall>it \<in> set (list_at (clock w) (kv w') job_list_key). \<not> item_in_batch b it) \<and>
    (\<forall>it \<in> fst ` set (zset_at (clock w) (kv w') delayed_set_key). \<not> delayed_in_batch b it) \<and>
    (\<forall>k \<in> set (batch_state_keys b). kv w' k = None) \<and> b \<notin> set (set_at (clock w) (kv w') active_batches_key) \<and>
    (\<forall>k. starts_with pipeline_dedup_prefix k \<longrightarrow> live (clock w) (kv w) k \<noteq> None \<longrightarrow>
       kv w' k = (if claim_value (clock w) (kv w) k \<in> insert ''pending'' js then None else kv w k))"
  using redis_up.up_cancel_batch [OF assms(1) refl refl assms(2,3,4), of cfg own who ttl]
  unfolding wp_outcome flagged_def none_waits_def none_delayed_def state_gone_def claims_cleared_def filter_empty_conv
  by blast

text \<open>A batch of one job, and the claims of that job and of an ingest still fetching.\<close>

definition demo_cancel :: mem where
  "demo_cancel = \<lparr>mstore =
     [(''ffmpeg:batch:ab:jobs'', VSet [''j1''], None),
      (''ffmpeg:pipeline_dedup:u:f'', VStr ''j1'', None),
      (''ffmpeg:pipeline_dedup:u:g'', VStr ''pending:10'', None)], mclock = 0\<rparr>"

theorem cancel_takes_whole_batch_witness:
  "\<exists>r w'. cancel_batch mem_exec default_cfg False ''ab'' ''user'' None demo_cancel = (Inr r, w') \<and>
     mkv w' ''ffmpeg:batch:ab:jobs'' = None \<and> mkv w' ''ffmpeg:pipeline_dedup:u:f'' = None \<and>
     mkv w' ''ffmpeg:pipeline_dedup:u:g'' = Some (VStr ''pending:10'', None)"
proof -
  have t: "typed (mkv demo_cancel)"
    unfolding mkv_def demo_cancel_def mem.simps
    by (rule typed_map_of) (simp add: kind_of_def key_defs starts_with_def rpartition_at_def)
  have j: "{''j1''} = set (set_at (mclock demo_cancel) (mkv demo_cancel) (batch_jobs_key ''ab''))"
    by (simp add: set_at_def live_def mkv_def demo_cancel_def key_defs)
  have k: "''ffmpeg:batch:ab:jobs'' \<in> set (batch_state_keys ''ab'')" by (simp add: batch_state_keys_def key_defs)
  have c: "starts_with pipeline_dedup_prefix (''ffmpeg:pipeline_dedup:u:'' @ x)" for x by (simp add: key_defs starts_with_def)
  have f: "live (mclock demo_cancel) (mkv demo_cancel) ''ffmpeg:pipeline_dedup:u:f'' \<noteq> None"
      "claim_value (mclock demo_cancel) (mkv demo_cancel) ''ffmpeg:pipeline_dedup:u:f'' = ''j1''"
    and g: "live (mclock demo_cancel) (mkv demo_cancel) ''ffmpeg:pipeline_dedup:u:g'' \<noteq> None"
      "claim_value (mclock demo_cancel) (mkv demo_cancel) ''ffmpeg:pipeline_dedup:u:g'' = ''pending:10''"
      "mkv demo_cancel ''ffmpeg:pipeline_dedup:u:g'' = Some (VStr ''pending:10'', None)"
    by (simp_all add: claim_value_def str_at_def live_def mkv_def demo_cancel_def)
  show ?thesis
    using cancel_takes_whole_batch [OF memory_up t batch_ab j, of default_cfg False "''user''" None]
      k c [of "''f''"] c [of "''g''"] f g by force
qed

end
