(* ===== verification/Spec2Isabelle.thy ===== *)
theory Spec2Isabelle
  imports BatchDown LockRace WebLimiterResults TokenBucketResults EditResults JobCancelResults QueueAdminResults
    BrokerResults DataLayerResults DeferredResults CredentialResults ArchiveResults UnpackResults
    FileNameResults CancelResults
begin

text \<open>
  The shared-state core of the media converter bot.  The bot (\<open>src/main.py\<close>, \<open>src/handlers.py\<close>)
  turns uploads into conversion jobs; worker processes (\<open>src/workers/ffmpeg_worker.py\<close>) pop them
  and run ffmpeg; a web application shows the jobs to their owners.  The processes share nothing but
  Redis, and what keeps them from stepping on each other is a set of modules under \<open>src/utils\<close> and the
  worker's own path around a conversion.  Those are what is modelled here, function by function,
  together with the pacing of the calls to Telegram, the guards of the data layer and of the web
  routes, and the handling of archives and file names.

  \<^bold>\<open>Ground.\<close>
  \<^item> \<open>Prelude\<close>, \<open>Numbers\<close>, \<open>Payload\<close>: Python's string operations on ASCII text, \<open>int()\<close>, \<open>float()\<close>,
    \<open>str()\<close> and \<open>round()\<close>, floats as reals with infinities and NaN (no rounding error is modelled),
    dictionaries as association lists in insertion order, and job payloads.
  \<^item> \<open>Effects\<close>: an effectful function takes the state of everything outside it and gives a value or a
    raised exception, and the next state; \<open>try\<close>, \<open>finally\<close> and \<open>suppress\<close> are combinators, \<open>wp\<close> and
    \<open>keeps\<close> are the rules the proofs use.
  \<^item> \<open>Redis\<close>, \<open>RedisLaws\<close>, \<open>RedisServer\<close>: the commands and Lua scripts the code sends, what each
    does to the key space (values with an expiry deadline), and two locales for the outside.
    \<open>redis_server\<close> lets any command fail, with or without its effect having happened, and time pass
    between any two; \<open>redis_up\<close> adds that commands on keys of the right type succeed.  Both are
    interpreted on an executable server, on which every witness is evaluated.
  \<^item> \<open>Schema\<close>: the type every key of the program holds, read off its name, kept by every command.
  \<^item> \<open>Frames\<close>: which keys an operation may touch, as an invariant that survives failures.
  \<^item> \<open>Interleave\<close>: several operations at once.  A function of the model is run one command at a time
    against a tape of replies, so the same definitions that are run alone can be interleaved command
    by command; \<open>race\<close> is the resulting step relation and the locale \<open>claimants\<close> gives mutual exclusion
    for sessions that hold a key of their own.

  \<^bold>\<open>Batches\<close> (\<open>src/utils/batch_pipeline.py\<close>).
  \<^item> \<open>BatchKeys\<close>: the settings and the key names.  \<open>Claims\<close>: the batch lock, the conversion slots, the
    question whether an owner is gone, the sweep of abandoned claims.  \<open>ClaimSafety\<close> and
    \<open>ClaimResults\<close>: no claim of a running owner is stolen or swept whatever fails; with Redis up,
    the exact outcome of taking one; a release or re-arm touches only the caller's own claim.
    \<open>LockRace\<close>: with any number of jobs taking and releasing at once, one batch lock has one holder
    and one conversion slot one job.
  \<^item> \<open>BatchState\<close>: cancellation marker, progress, resume record, aggregate view, heartbeats, the
    restart request.  \<open>BatchStateResults\<close>: each job is counted once, the resume record reads back
    what was written, the view shows exactly the open batches, a restart request is honoured once.
  \<^item> \<open>BatchPurge\<close>: is a batch live, taking one down, the three sweeps, cancelling, putting a job back,
    finalizing.  \<open>BatchPurgeResults\<close>: what the sweeps leave alone, under any failure.  \<open>BatchDown\<close>:
    the exact effect of taking a batch down with Redis up, and what a put-back and a finalizing do.
    \<open>CancelResults\<close>: what stopping a batch by hand takes out of the key space and what it leaves.

  \<^bold>\<open>Ingest and cleanup\<close> (the gate of \<open>src/handlers.py\<close> and \<open>src/tasks/cleanup_tasks.py\<close>).  \<open>Ingest\<close>: one
  ingest per media at a time, by a claim that holds a placeholder until there is a job.  \<open>Cleanup\<close>: the
  periodic sweeps of job hashes, claims and input locks, and of the prefixes of the bucket with the
  versions a plain delete leaves.  \<open>IngestResults\<close>: the gate always answers, its answer for a media with and
  without a job, and a cleanup pass that lets a media be fetched twice.  \<open>CleanupResults\<close>: what a job at
  work keeps whatever fails, the job hashes a pass removes, the objects a pass over the bucket keeps.

  \<^bold>\<open>The queue\<close> (\<open>src/utils/job_queue.py\<close>).  \<open>JobQueue\<close>: the client cache, the job hash, enqueue, pop
  with the promotion of due jobs, cancelling, the input lock, carrying names over to a requeued job.
  \<open>JobQueueResults\<close> and \<open>JobCancelResults\<close>: a job of a stopped batch is never queued, an accepted one
  is pushed with its hash written, a pop neither loses nor invents a job while Redis answers, two
  poppers that promote at once queue a due job twice, what a cancellation answers and does, whose
  input lock a release deletes, which client a loop is given.

  \<^bold>\<open>The worker\<close> (\<open>src/workers/ffmpeg_worker.py\<close>).  \<open>Worker\<close>: the gate that gives a popped job its
  conversion slot and its batch lock or puts it back, the batch's message, the path of one job from
  the gate to the release of its claims, the claims heartbeat, one turn of the loop; the conversion is
  a parameter.  \<open>WorkerResults\<close>: the gate's outcome on every branch, and no second conversion beside a
  running one.  \<open>WorkerPath\<close>: however the conversion ends the claims are handed back, a delivered job
  is not converted again, and a refused job is lost when it cannot be put back.

  \<^bold>\<open>Deferred deliveries\<close> (\<open>src/utils/deferred_delivery.py\<close> and \<open>_defer_delivery\<close> to
  \<open>_sweep_deferred_deliveries\<close> of the worker).  \<open>Deferred\<close>: a sorted set of job ids by due time and a
  document per job, the attempts of a sweep, and the files and the sending as a parameter (\<open>courier\<close>).
  \<open>DeferredResults\<close>: a delivery leaves the queue only delivered or given up, whatever fails; the
  outcome of an attempt on every branch; a delivery comes back when it is due, to one sweep a lease,
  but two sweeps that look at the same moment both get it.

  \<^bold>\<open>Credentials\<close> (\<open>src/utils/job_access.py\<close>, \<open>src/utils/web_users.py\<close>, \<open>src/utils/web_auth.py\<close> and the
  checks in \<open>src/web/webapp.py\<close>).  \<open>Credentials\<close>: the capability of a job, the token of a user, the
  service secrets, over an injective digest.  \<open>CredentialResults\<close>: a job is read only with its own
  capability or its owner's token, and a rotated token is retired in one process but not in others.

  \<^bold>\<open>Files.\<close>  \<open>Disk\<close>: POSIX paths and local files whose every operation may fail.  \<open>Archive\<close> (the
  part-size preference, cutting a packed archive into volumes and sending them) and
  \<open>ArchiveResults\<close>: the volumes join to the archive, which no failure loses.  \<open>Unpack\<close>
  (\<open>src/utils/archive_input.py\<close>) and \<open>UnpackResults\<close>: an uploaded archive, whatever it holds, stays in
  its directory and under its caps, and an honest one is unpacked whole.  \<open>FileNames\<close>
  (\<open>src/utils/file_utils.py\<close>) and \<open>FileNameResults\<close>: cleaned names are harmless, and partial downloads
  stay within their limits.

  \<^bold>\<open>Administration\<close> (\<open>src/utils/queue_admin.py\<close>).  \<open>QueueAdmin\<close>: the passes of \<open>/cancelall\<close> and
  \<open>/clear_cache\<close>, each isolated from the failures of the others.  \<open>QueueAdminResults\<close>: they always
  answer, \<open>/cancelall\<close> leaves nothing to run, and which keys either may touch whatever fails.

  \<^bold>\<open>Event bus\<close> (\<open>src/utils/eventbus\<close>).  \<open>EventBus\<close>: settings, the stable routing of a job, the
  projection of a job shown to the event log, throttled progress events.  \<open>Broker\<close>: publishing, one
  delivery with its acknowledgement, retry and dead-letter decisions, as steps over the three queues.
  \<open>BrokerResults\<close>: an unfinished job is never lost, attempts and delays are bounded, a routed job has
  a consumer, and what happens to a job that is sent back.

  \<^bold>\<open>Pacing\<close> (\<open>src/utils/rate_limiter.py\<close>, \<open>src/utils/web_rate_limiter.py\<close>).  \<open>TokenBucket\<close>,
  \<open>WebLimiter\<close>: the token buckets, sharing the locale \<open>token_bucket\<close> for the bound on what a bucket
  grants; \<open>FloodGate\<close>: the flood windows in memory and in Redis, the edit coalescer, the conversion
  limiter in Redis.  The \<open>Results\<close> theories: grants are bounded by burst plus rate times time, a wait
  ends, dropping idle buckets is not observable and keeps their number bounded, a flood window is
  honoured and shared, edits are paced, and two limits the conversion limiters do not enforce.

  \<^bold>\<open>Data layer\<close> (\<open>src/utils/data_layer\<close>).  \<open>DataLayer\<close>: the mass-assignment guard and the query
  builder; \<open>DataLayerResults\<close>: which fields and operators it lets through.

  \<^bold>\<open>Bounds and fuel.\<close>  \<open>wait_if_needed\<close> and the two searches for a free name are \<open>partial_function\<close>s in
  the option monad, so never returning is \<open>None\<close>; they are proved to return.  Two loops take
  fuel: \<open>volumes_from\<close>, one more than the bytes of the archive, and \<open>dedup_poll\<close>, one poll for every two
  seconds of the wait and one more; both are proved to need no more.  The retry and promotion
  bounds (50 due jobs a pop, at most 501 buckets kept, the slot pool) are the code's own.

  \<^bold>\<open>Not modelled.\<close>  Interleavings are modelled for the claims (\<open>LockRace\<close>), for two promotions of one
  due job, for two sweeps of the deferred deliveries and for the broker.  Other theorems under
  \<open>redis_server\<close> let the server answer arbitrarily between the commands of one operation, and those
  under \<open>redis_up\<close> describe an operation run without another in between.  The best-effort mirrors (\<open>publish_update\<close>, the calls of \<open>emit_event\<close> and of the
  database from the queue) answer nothing the code uses and are left out, as is the in-process memory
  cleanup at the end of \<open>finalize_job\<close>.  Of the event bus, connecting, the Kafka producer's life cycle,
  TLS and the diagnosis of a failing log are client-library wiring.  Of the cleanup, the sweeps of local
  directories and the timed loops are left out.  The chat handlers (the ingest gate apart), the
  conversions themselves, downloads and uploads, the routes of the web application and the scripts
  are glue around Telegram, ffmpeg, object stores and HTTP, and hold little logic of their own;
  \<open>zipfile\<close> is a parameter.
\<close>

end
